(* ===== verification/OC_Prelude.thy ===== *)
theory OC_Prelude
  imports Complex_Main "HOL-Library.List_Lexorder" "HOL-Library.Char_ord"
    "HOL-Library.Product_Lexorder" "HOL-Library.Multiset"
begin

text \<open>
  What every component theory shares.

  \<^item> \<open>js_error\<close> and \<open>bindE\<close>: a thrown JavaScript error is a value \<open>Inl e\<close>, a normal
    return \<open>Inr x\<close>; a sequence of statements that may throw is a chain of \<open>bindE\<close>.
  \<^item> \<open>jsnum\<close>: an IEEE number as far as the guards of the code look at it (finite, the two
    infinities, NaN). Behind a guard that proved it finite a number is its \<open>real\<close> value;
    rounding is not modelled.
  \<^item> \<open>instant\<close>: what \<open>Date.parse\<close> makes of a timestamp, \<open>None\<close> for NaN. An absent comparison
    partner makes every comparison false, as NaN does.
  \<^item> \<open>to_iso\<close>: \<open>new Date(t).toISOString()\<close>, which truncates to whole milliseconds and throws a
    RangeError outside the range of a Date.
  \<^item> \<open>js_sort\<close>: \<open>Array.prototype.sort\<close> with a comparator, stable as ECMAScript requires, and the
    locale \<open>comparator\<close> with what every consistent comparator gives its callers.
\<close>

named_theorems guard_defs "the guards of the components, unfolded when a proof evaluates them"
named_theorems js_num "evaluation of the number and instant comparisons"

subsection \<open>Errors as values\<close>

datatype js_error = TypeError string | RangeError string | JsError string

definition bindE :: "'e + 'a \<Rightarrow> ('a \<Rightarrow> 'e + 'b) \<Rightarrow> 'e + 'b" where
  "bindE m f = (case m of Inl e \<Rightarrow> Inl e | Inr x \<Rightarrow> f x)"

lemma bindE_simps [simp]: "bindE (Inl e) f = Inl e" "bindE (Inr x) f = f x"
  by (simp_all add: bindE_def)

lemma bindE_eq_Inr: "bindE m f = Inr y \<longleftrightarrow> (\<exists>x. m = Inr x \<and> f x = Inr y)"
  by (cases m) simp_all

lemma bindE_InrE [elim!]:
  assumes "bindE m f = Inr y"
  obtains x where "m = Inr x" and "f x = Inr y"
  using assms by (auto simp: bindE_eq_Inr)

lemma bindE_cong [fundef_cong]:
  "m = m' \<Longrightarrow> (\<And>x. m' = Inr x \<Longrightarrow> f x = g x) \<Longrightarrow> bindE m f = bindE m' g"
  by (cases m') simp_all

text \<open>\<open>if (bad) throw e;\<close>\<close>

definition guardE :: "bool \<Rightarrow> 'e \<Rightarrow> 'e + unit" where
  "guardE ok e = (if ok then Inr () else Inl e)"

lemma guardE_simps [simp]: "guardE True e = Inr ()" "guardE False e = Inl e"
  by (simp_all add: guardE_def)

lemma guardE_Inr [simp]: "guardE ok e = Inr u \<longleftrightarrow> ok"
  by (simp add: guardE_def)

definition isOk :: "'e + 'a \<Rightarrow> bool" where
  "isOk m = (case m of Inl _ \<Rightarrow> False | Inr _ \<Rightarrow> True)"

lemma isOk_simps [simp]: "isOk (Inr x)" "\<not> isOk (Inl e)"
  by (simp_all add: isOk_def)

lemma isOk_iff: "isOk m \<longleftrightarrow> (\<exists>x. m = Inr x)"
  by (cases m) simp_all

text \<open>A loop \<open>xs.map(f)\<close> whose body may throw: the first error stops it.\<close>

fun mapE :: "('a \<Rightarrow> 'e + 'b) \<Rightarrow> 'a list \<Rightarrow> 'e + 'b list" where
  "mapE f [] = Inr []"
| "mapE f (x # xs) = bindE (f x) (\<lambda>y. bindE (mapE f xs) (\<lambda>ys. Inr (y # ys)))"

lemma mapE_length: "mapE f xs = Inr ys \<Longrightarrow> length ys = length xs"
  by (induction xs arbitrary: ys) auto

lemma mapE_Inr_iff: "mapE f xs = Inr ys \<longleftrightarrow> list_all2 (\<lambda>x y. f x = Inr y) xs ys"
proof (induction xs arbitrary: ys)
  case (Cons x xs)
  then show ?case by (cases ys) (auto simp: bindE_eq_Inr)
qed auto

lemma mapE_ok: "mapE f xs = Inr ys \<Longrightarrow> ys = map (\<lambda>x. projr (f x)) xs \<and> (\<forall>x \<in> set xs. isOk (f x))"
  by (induction xs arbitrary: ys) auto

lemma mapE_all: "\<forall>x \<in> set xs. isOk (f x) \<Longrightarrow> mapE f xs = Inr (map (\<lambda>x. projr (f x)) xs)"
  by (induction xs) (auto simp: isOk_iff)

text \<open>A loop over a permutation of the list succeeds with a permutation of the results.\<close>

lemma mapE_permuted:
  assumes "mapE f xs = Inr ys" and "mset xs' = mset xs"
  shows "\<exists>ys'. mapE f xs' = Inr ys' \<and> mset ys' = mset ys"
proof -
  have "\<forall>x \<in> set xs'. isOk (f x)" using mapE_ok [OF assms(1)] mset_eq_setD [OF assms(2)] by simp
  from mapE_all [OF this] show ?thesis using mapE_ok [OF assms(1)] assms(2) by (simp add: mset_map)
qed

lemma mset_concat_permuted: "mset xs = mset ys \<Longrightarrow> mset (concat xs) = mset (concat ys)"
  by (metis mset_concat mset_map sum_mset_sum_list)

lemma find_in: "find P xs = Some x \<Longrightarrow> x \<in> set xs \<and> P x"
  by (induction xs) (auto split: if_splits)

subsection \<open>Numbers\<close>

datatype jsnum = JNum real | JPosInf | JNegInf | JNaN

fun isFinite :: "jsnum \<Rightarrow> bool" where
  "isFinite (JNum _) = True"
| "isFinite _ = False"

text \<open>The value of a number a guard has proved finite.\<close>

fun num :: "jsnum \<Rightarrow> real" where
  "num (JNum x) = x"
| "num _ = 0"

lemma isFinite_num: "isFinite x \<Longrightarrow> x = JNum (num x)"
  by (cases x) simp_all

fun js_less :: "jsnum \<Rightarrow> jsnum \<Rightarrow> bool" where
  "js_less JNaN _ = False"
| "js_less _ JNaN = False"
| "js_less (JNum x) (JNum y) = (x < y)"
| "js_less JNegInf y = (y \<noteq> JNegInf)"
| "js_less x JPosInf = (x \<noteq> JPosInf)"
| "js_less _ _ = False"

definition js_le :: "jsnum \<Rightarrow> jsnum \<Rightarrow> bool" where
  "js_le x y \<longleftrightarrow> js_less x y \<or> (x = y \<and> x \<noteq> JNaN)"

lemma js_le_JNum [simp]: "js_le (JNum x) (JNum y) \<longleftrightarrow> x \<le> y"
  by (auto simp: js_le_def)

text \<open>\<open>Number.isSafeInteger\<close>.\<close>

definition isSafeInteger :: "jsnum \<Rightarrow> bool" where
  "isSafeInteger v = (case v of JNum x \<Rightarrow> x = of_int \<lfloor>x\<rfloor> \<and> \<bar>x\<bar> \<le> 2 ^ 53 - 1 | _ \<Rightarrow> False)"

subsection \<open>Instants\<close>

type_synonym instant = "int option"

definition inst_le :: "instant \<Rightarrow> instant \<Rightarrow> bool" where
  "inst_le a b = (case (a, b) of (Some x, Some y) \<Rightarrow> x \<le> y | _ \<Rightarrow> False)"

definition inst_less :: "instant \<Rightarrow> instant \<Rightarrow> bool" where
  "inst_less a b = (case (a, b) of (Some x, Some y) \<Rightarrow> x < y | _ \<Rightarrow> False)"

lemma inst_simps [simp, js_num]:
  "inst_le (Some x) (Some y) \<longleftrightarrow> x \<le> y"
  "inst_less (Some x) (Some y) \<longleftrightarrow> x < y"
  "\<not> inst_le None b" "\<not> inst_le a None" "\<not> inst_less None b" "\<not> inst_less a None"
  by (simp_all add: inst_le_def inst_less_def split: option.splits)

lemma inst_le_SomeD: "inst_le a b \<Longrightarrow> \<exists>x y. a = Some x \<and> b = Some y \<and> x \<le> y"
  by (cases a; cases b) simp_all

text \<open>The largest absolute time value of a Date, 100,000,000 days.\<close>

definition max_time :: real where
  "max_time = 8640000000000000"

definition trunc_int :: "real \<Rightarrow> int" where
  "trunc_int x = (if x < 0 then \<lceil>x\<rceil> else \<lfloor>x\<rfloor>)"

definition to_iso :: "real \<Rightarrow> js_error + int" where
  "to_iso t = (if \<bar>t\<bar> \<le> max_time then Inr (trunc_int t) else Inl (RangeError ''Invalid time value''))"

lemma trunc_int_of_int [simp]: "trunc_int (of_int n) = n"
  by (simp add: trunc_int_def)

lemma trunc_int_mono: "x \<le> y \<Longrightarrow> trunc_int x \<le> trunc_int y"
proof -
  assume "x \<le> y"
  show ?thesis
  proof (cases "x < 0 \<and> \<not> y < 0")
    case True
    then have "\<lceil>x\<rceil> \<le> 0" and "0 \<le> \<lfloor>y\<rfloor>" by (auto simp: ceiling_le_iff)
    then have "\<lceil>x\<rceil> \<le> \<lfloor>y\<rfloor>" by linarith
    with True show ?thesis by (simp add: trunc_int_def)
  next
    case False
    with \<open>x \<le> y\<close> show ?thesis by (auto simp: trunc_int_def ceiling_mono floor_mono)
  qed
qed

lemma trunc_int_le: "x \<le> of_int n \<Longrightarrow> trunc_int x \<le> n"
  using trunc_int_mono [of x "of_int n"] by simp

lemma trunc_int_ge: "of_int n \<le> x \<Longrightarrow> n \<le> trunc_int x"
  using trunc_int_mono [of "of_int n" x] by simp

text \<open>The code's \<open>clamp01\<close>, \<open>Math.min(1, Math.max(0, v))\<close>.\<close>

definition clamp01 :: "real \<Rightarrow> real" where
  "clamp01 v = min 1 (max 0 v)"

lemma clamp01_bounds: "0 \<le> clamp01 v" "clamp01 v \<le> 1"
  by (simp_all add: clamp01_def)

lemma clamp01_mono: "v \<le> w \<Longrightarrow> clamp01 v \<le> clamp01 w"
  by (auto simp: clamp01_def)

lemma clamp01_id: "0 \<le> v \<Longrightarrow> v \<le> 1 \<Longrightarrow> clamp01 v = v"
  by (simp add: clamp01_def)

subsection \<open>Sorting with a comparator\<close>

fun js_insert :: "('a \<Rightarrow> 'a \<Rightarrow> real) \<Rightarrow> 'a \<Rightarrow> 'a list \<Rightarrow> 'a list" where
  "js_insert cmp x [] = [x]"
| "js_insert cmp x (y # ys) = (if cmp x y \<le> 0 then x # y # ys else y # js_insert cmp x ys)"

definition js_sort :: "('a \<Rightarrow> 'a \<Rightarrow> real) \<Rightarrow> 'a list \<Rightarrow> 'a list" where
  "js_sort cmp xs = foldr (js_insert cmp) xs []"

lemma js_sort_simps [simp]:
  "js_sort cmp [] = []" "js_sort cmp (x # xs) = js_insert cmp x (js_sort cmp xs)"
  by (simp_all add: js_sort_def)

lemma mset_js_insert [simp]: "mset (js_insert cmp x ys) = add_mset x (mset ys)"
  by (induction ys) simp_all

lemma mset_js_sort [simp]: "mset (js_sort cmp xs) = mset xs"
  by (induction xs) simp_all

lemma set_js_sort [simp]: "set (js_sort cmp xs) = set xs"
  by (metis mset_js_sort set_mset_mset)

lemma length_js_sort [simp]: "length (js_sort cmp xs) = length xs"
  by (metis mset_js_sort size_mset)

lemma js_sort_Nil_iff [simp]: "js_sort cmp xs = [] \<longleftrightarrow> xs = []"
  by (metis length_0_conv length_js_sort)

lemma distinct_js_sort [simp]: "distinct (js_sort cmp xs) = distinct xs"
  by (metis mset_eq_imp_distinct_iff mset_js_sort)

lemma js_insert_cong:
  "(\<And>y. y \<in> set ys \<Longrightarrow> cmp x y = cmp' x y) \<Longrightarrow> js_insert cmp x ys = js_insert cmp' x ys"
  by (induction ys) auto

text \<open>Sorting looks at the comparator only on the elements of the list.\<close>

lemma js_sort_cong:
  "(\<And>x y. x \<in> set xs \<Longrightarrow> y \<in> set xs \<Longrightarrow> cmp x y = cmp' x y) \<Longrightarrow> js_sort cmp xs = js_sort cmp' xs"
proof (induction xs)
  case (Cons x xs)
  then have "js_sort cmp xs = js_sort cmp' xs" by simp
  moreover have "js_insert cmp x (js_sort cmp' xs) = js_insert cmp' x (js_sort cmp' xs)"
    using Cons.prems by (intro js_insert_cong) simp
  ultimately show ?case by simp
qed simp

text \<open>
  A comparator is consistent when "not after" is a total preorder. Its zero classes need not be
  single elements.
\<close>

locale comparator =
  fixes cmp :: "'a \<Rightarrow> 'a \<Rightarrow> real"
  assumes cmp_total: "cmp a b \<le> 0 \<or> cmp b a \<le> 0"
    and cmp_trans: "cmp a b \<le> 0 \<Longrightarrow> cmp b c \<le> 0 \<Longrightarrow> cmp a c \<le> 0"
begin

lemma cmp_refl: "cmp a a \<le> 0"
  using cmp_total by blast

lemma sorted_js_insert:
  "sorted_wrt (\<lambda>a b. cmp a b \<le> 0) ys \<Longrightarrow> sorted_wrt (\<lambda>a b. cmp a b \<le> 0) (js_insert cmp x ys)"
proof (induction ys)
  case (Cons y ys)
  have "set (js_insert cmp x ys) = insert x (set ys)"
    by (metis mset_js_insert set_mset_add_mset_insert set_mset_mset)
  with Cons show ?case using cmp_total [of x y] by (auto intro: cmp_trans)
qed simp

lemma sorted_js_sort: "sorted_wrt (\<lambda>a b. cmp a b \<le> 0) (js_sort cmp xs)"
  by (induction xs) (simp_all add: sorted_js_insert)

lemma js_sort_first: "js_sort cmp xs = y # ys \<Longrightarrow> z \<in> set xs \<Longrightarrow> cmp y z \<le> 0"
proof -
  assume y: "js_sort cmp xs = y # ys" and z: "z \<in> set xs"
  from y have "sorted_wrt (\<lambda>a b. cmp a b \<le> 0) (y # ys)" by (metis sorted_js_sort)
  moreover from z y have "z \<in> set (y # ys)" by (metis set_js_sort)
  ultimately show "cmp y z \<le> 0" by (auto simp: cmp_refl)
qed

text \<open>
  The order of the input does not matter where the comparator tells its elements apart: two
  sorted lists of the same elements are one list.
\<close>

lemma sorted_unique:
  assumes "sorted_wrt (\<lambda>a b. cmp a b \<le> 0) xs" "sorted_wrt (\<lambda>a b. cmp a b \<le> 0) ys"
    and "mset xs = mset ys"
    and "\<And>a b. a \<in> set xs \<Longrightarrow> b \<in> set xs \<Longrightarrow> cmp a b \<le> 0 \<Longrightarrow> cmp b a \<le> 0 \<Longrightarrow> a = b"
  shows "xs = ys"
  using assms
proof (induction xs arbitrary: ys)
  case (Cons x xs)
  then obtain y ys' where ys: "ys = y # ys'" by (cases ys) auto
  have sets: "set (x # xs) = set ys" using Cons.prems(3) by (metis set_mset_mset)
  have "x \<in> set (y # ys')" and "y \<in> set (x # xs)" using sets ys by auto
  then have "cmp y x \<le> 0" and "cmp x y \<le> 0"
    using Cons.prems(1,2) ys cmp_refl by auto
  moreover have "y \<in> set (x # xs)" using sets ys by simp
  ultimately have "x = y" using Cons.prems(4) [of x y] by simp
  with Cons.prems ys have "xs = ys'" by (intro Cons.IH) auto
  with \<open>x = y\<close> ys show ?case by simp
qed simp

lemma js_sort_permutation:
  assumes "mset xs = mset ys"
    and "\<And>a b. a \<in> set xs \<Longrightarrow> b \<in> set xs \<Longrightarrow> cmp a b \<le> 0 \<Longrightarrow> cmp b a \<le> 0 \<Longrightarrow> a = b"
  shows "js_sort cmp xs = js_sort cmp ys"
  using assms by (intro sorted_unique) (auto simp: sorted_js_sort)

lemma js_insert_first: "(\<And>y. y \<in> set ys \<Longrightarrow> cmp x y \<le> 0) \<Longrightarrow> js_insert cmp x ys = x # ys"
  by (cases ys) auto

lemma js_sort_sorted: "sorted_wrt (\<lambda>a b. cmp a b \<le> 0) xs \<Longrightarrow> js_sort cmp xs = xs"
  by (induction xs) (auto simp: js_insert_first)

end

subsection \<open>Lexicographic comparators\<close>

text \<open>The shape \<open>f(a) - f(b) || rest\<close> of the code's comparators.\<close>

definition js_or :: "real \<Rightarrow> real \<Rightarrow> real" where
  "js_or x y = (if x \<noteq> 0 then x else y)"

definition by_number :: "('a \<Rightarrow> real) \<Rightarrow> ('a \<Rightarrow> 'a \<Rightarrow> real) \<Rightarrow> 'a \<Rightarrow> 'a \<Rightarrow> real" where
  "by_number f cmp a b = js_or (f a - f b) (cmp a b)"

lemma by_number_le: "by_number f cmp a b \<le> 0 \<longleftrightarrow> f a < f b \<or> (f a = f b \<and> cmp a b \<le> 0)"
  by (auto simp: by_number_def js_or_def)

lemma comparator_on: "comparator cmp \<Longrightarrow> comparator (\<lambda>a b. cmp (f a) (f b))"
  unfolding comparator_def by blast

lemma comparator_by_number: "comparator cmp \<Longrightarrow> comparator (by_number f cmp)"
proof -
  assume "comparator cmp"
  then have total: "cmp a b \<le> 0 \<or> cmp b a \<le> 0"
    and trans: "cmp a b \<le> 0 \<Longrightarrow> cmp b c \<le> 0 \<Longrightarrow> cmp a c \<le> 0" for a b c
    by (auto simp: comparator_def)
  show ?thesis
    by unfold_locales
      (use total in \<open>force simp: by_number_le\<close>, use trans in \<open>force simp: by_number_le\<close>)
qed

text \<open>
  String comparison by code units, JavaScript's \<open><\<close> on strings, as a comparator: \<open>-1\<close>, \<open>0\<close>, \<open>1\<close>.
\<close>

definition str_cmp :: "string \<Rightarrow> string \<Rightarrow> real" where
  "str_cmp a b = (if a < b then -1 else if b < a then 1 else 0)"

lemma str_cmp_le: "str_cmp a b \<le> 0 \<longleftrightarrow> a \<le> b"
  by (auto simp: str_cmp_def)

lemma str_cmp_antisym: "str_cmp a b \<le> 0 \<Longrightarrow> str_cmp b a \<le> 0 \<Longrightarrow> a = b"
  by (simp add: str_cmp_le)

lemma comparator_str_cmp: "comparator (\<lambda>a b. str_cmp (f a) (f b))"
  by unfold_locales (auto simp: str_cmp_le)

text \<open>\<open>a ?? b\<close>.\<close>

definition nullish :: "'a option \<Rightarrow> 'a \<Rightarrow> 'a" where
  "nullish o' d = (case o' of None \<Rightarrow> d | Some x \<Rightarrow> x)"

lemma nullish_simps [simp]: "nullish None d = d" "nullish (Some x) d = x"
  by (simp_all add: nullish_def)

subsection \<open>Texts\<close>

text \<open>\<open>toLowerCase\<close> of an ASCII text.\<close>

definition ascii_lower :: "string \<Rightarrow> string" where
  "ascii_lower s = map (\<lambda>c. if CHR ''A'' \<le> c \<and> c \<le> CHR ''Z'' then char_of (of_char c + 32 :: nat) else c) s"

subsection \<open>Maps and loops\<close>

text \<open>\<open>Map.set\<close> on a key that is there keeps its place; a new key goes last.\<close>

fun map_set :: "'k \<Rightarrow> 'v \<Rightarrow> ('k \<times> 'v) list \<Rightarrow> ('k \<times> 'v) list" where
  "map_set k v [] = [(k, v)]"
| "map_set k v ((k', v') # kvs) = (if k' = k then (k, v) # kvs else (k', v') # map_set k v kvs)"

definition map_delete :: "'k \<Rightarrow> ('k \<times> 'v) list \<Rightarrow> ('k \<times> 'v) list" where
  "map_delete k kvs = filter (\<lambda>(k', _). k' \<noteq> k) kvs"

lemma map_set_keys: "k \<in> set (map fst kvs) \<Longrightarrow> map fst (map_set k v kvs) = map fst kvs"
  by (induction k v kvs rule: map_set.induct) auto

lemma map_set_set:
  "distinct (map fst kvs) \<Longrightarrow> k \<in> set (map fst kvs) \<Longrightarrow>
   set (map_set k v kvs) = insert (k, v) {kv \<in> set kvs. fst kv \<noteq> k}"
  by (induction k v kvs rule: map_set.induct) force+

lemma map_set_mset:
  "distinct (map fst kvs) \<Longrightarrow> (k, v0) \<in> set kvs \<Longrightarrow>
   mset (concat (map snd (map_set k v kvs))) + mset v0 = mset (concat (map snd kvs)) + mset v"
proof (induction k v kvs rule: map_set.induct)
  case (2 k v k' v' kvs)
  show ?case
  proof (cases "k' = k")
    case True
    then have "v0 = v'" using 2 by force
    with True show ?thesis by simp
  next
    case False
    with 2 have "mset (concat (map snd (map_set k v kvs))) + mset v0 = mset (concat (map snd kvs)) + mset v"
      by simp
    with False show ?thesis by (simp add: union_assoc)
  qed
qed simp

lemma map_delete_mset:
  "distinct (map fst kvs) \<Longrightarrow> (k, v0) \<in> set kvs \<Longrightarrow>
   mset (concat (map snd (map_delete k kvs))) + mset v0 = mset (concat (map snd kvs))"
proof (induction kvs)
  case (Cons kv kvs)
  show ?case
  proof (cases "fst kv = k")
    case True
    have "fst kv \<notin> fst ` set kvs" using Cons.prems(1) by simp
    then have other: "fst kv' \<noteq> k" if "kv' \<in> set kvs" for kv' using True that by (metis image_eqI)
    then have "(k, v0) \<notin> set kvs" by (metis fst_conv)
    with Cons.prems(2) have "kv = (k, v0)" by simp
    moreover have "map_delete k kvs = kvs"
      by (auto simp: map_delete_def filter_id_conv dest!: other)
    ultimately show ?thesis by (simp add: map_delete_def)
  next
    case False
    with Cons show ?thesis by (cases kv) (auto simp: map_delete_def union_assoc)
  qed
qed simp

text \<open>A loop whose body may not return.\<close>

fun fold_option :: "('a \<Rightarrow> 's \<Rightarrow> 's option) \<Rightarrow> 'a list \<Rightarrow> 's \<Rightarrow> 's option" where
  "fold_option f [] s = Some s"
| "fold_option f (x # xs) s = (case f x s of None \<Rightarrow> None | Some s' \<Rightarrow> fold_option f xs s')"

lemma fold_option_append: "fold_option f (xs @ ys) s = (case fold_option f xs s of None \<Rightarrow> None | Some s' \<Rightarrow> fold_option f ys s')"
  by (induction xs arbitrary: s) (auto split: option.splits)

lemma mapE_cong [fundef_cong]:
  "xs = ys \<Longrightarrow> (\<And>x. x \<in> set ys \<Longrightarrow> f x = g x) \<Longrightarrow> mapE f xs = mapE g ys"
  by (induction xs arbitrary: ys) auto

end
