(* ===== verification/Evidence.thy ===== *)
theory Evidence
  imports OC_Prelude
begin

text \<open>
  The replayable evidence policy of packages/core/src/evidence.ts: what state, ranking score,
  routing eligibility and expiry a crowd record has, as a pure function of its append-only
  ledger, its policy and the evaluation instant; and the reliability posteriors.

  \<open>evaluateEvidence\<close> is split at its own joints: the policy guards (\<open>checkPolicy\<close>), the sorted
  admissible entries, the scan over them, the state decision and the result. Policy numbers a
  guard inspects are \<open>jsnum\<close>; lifetimes and quorums, which no guard inspects, are plain numbers.
  A Set of keys is a list without duplicates.
\<close>

subsection \<open>Ledger and policy\<close>

datatype entry_kind = Report | Confirm | Negate | Cancel | External
datatype external_source = Official | Reviewer | Objective
datatype outcome = Confirmed | Rejected
datatype evidence_state =
  SelfReported | Corroborated | ExternallyResolved | Negated | Expired

record entry =
  en_id :: string
  en_at :: instant
  en_kind :: entry_kind
  en_key :: "string option"
  en_external :: "(external_source \<times> outcome) option"

record ledger =
  lg_entries :: "entry list"
  lg_now :: instant
  lg_bound :: "jsnum option"

record policy =
  policyVersion :: string
  corroborationMinDistinctKeys :: int
  peerNegationMinKeys :: int
  ttlSec :: real
  maxLifetimeSec :: real
  scoreByState :: "evidence_state \<Rightarrow> jsnum"
  reliabilityWeight :: jsnum
  peerConfidenceCap :: jsnum
  confirmDecay :: jsnum
  negateAsymmetry :: jsnum
  negateShrinkFactor :: jsnum

record evidence_result =
  er_state :: evidence_state
  er_score :: real
  er_routing :: bool
  er_expires :: int

subsection \<open>The guards\<close>

definition checkBound :: "jsnum option \<Rightarrow> js_error + unit" where
  "checkBound b = (case b of None \<Rightarrow> Inr () | Some x \<Rightarrow>
     guardE (isFinite x \<and> js_le (JNum 0) x \<and> js_le x (JNum 1))
       (TypeError ''reporterLowerBound must be finite and within [0, 1]''))"

definition evidence_states :: "(evidence_state \<times> string) list" where
  "evidence_states = [(SelfReported, ''self_reported''), (Corroborated, ''corroborated''),
     (ExternallyResolved, ''externally_resolved''), (Negated, ''negated''), (Expired, ''expired'')]"

definition checkPolicy :: "policy \<Rightarrow> js_error + unit" where
  "checkPolicy p =
     bindE (guardE (isFinite (reliabilityWeight p))
       (TypeError ''policy.reliabilityWeight must be finite'')) (\<lambda>_.
     bindE (guardE (isFinite (peerConfidenceCap p))
       (TypeError ''policy.peerConfidenceCap must be finite'')) (\<lambda>_.
     bindE (guardE (isFinite (confirmDecay p))
       (TypeError ''policy.confirmDecay must be finite'')) (\<lambda>_.
     bindE (guardE (isFinite (negateAsymmetry p))
       (TypeError ''policy.negateAsymmetry must be finite'')) (\<lambda>_.
     bindE (guardE (isFinite (negateShrinkFactor p))
       (TypeError ''policy.negateShrinkFactor must be finite'')) (\<lambda>_.
     bindE (guardE (\<not> (\<not> js_less (JNum 0) (peerConfidenceCap p) \<or>
                        js_le (scoreByState p ExternallyResolved) (peerConfidenceCap p)))
       (TypeError ''policy.peerConfidenceCap must be > 0 and strictly less than externally_resolved'')) (\<lambda>_.
     bindE (guardE (js_less (JNum 0) (confirmDecay p) \<and> js_less (confirmDecay p) (JNum 1))
       (TypeError ''policy.confirmDecay must be in the open interval (0, 1)'')) (\<lambda>_.
     bindE (guardE (js_le (JNum 0) (negateAsymmetry p))
       (TypeError ''policy.negateAsymmetry must be >= 0'')) (\<lambda>_.
     bindE (guardE (js_le (JNum 0) (negateShrinkFactor p) \<and> js_le (negateShrinkFactor p) (JNum 1))
       (TypeError ''policy.negateShrinkFactor must be in [0, 1]'')) (\<lambda>_.
     bindE (mapE (\<lambda>(s, name). guardE (isFinite (scoreByState p s))
         (TypeError (''policy.scoreByState.'' @ name @ '' must be finite''))) evidence_states)
       (\<lambda>_. Inr ()))))))))))"

lemma checkPolicy_ok:
  assumes "checkPolicy p = Inr u"
  shows "isFinite (reliabilityWeight p)" "isFinite (peerConfidenceCap p)"
    "isFinite (confirmDecay p)" "isFinite (negateAsymmetry p)" "isFinite (negateShrinkFactor p)"
    "isFinite (scoreByState p s)"
    "0 < num (peerConfidenceCap p)"
    "num (peerConfidenceCap p) < num (scoreByState p ExternallyResolved)"
    "0 < num (confirmDecay p)" "num (confirmDecay p) < 1"
    "0 \<le> num (negateAsymmetry p)"
    "0 \<le> num (negateShrinkFactor p)" "num (negateShrinkFactor p) \<le> 1"
proof -
  have fin: "isFinite (reliabilityWeight p)" "isFinite (peerConfidenceCap p)"
    "isFinite (confirmDecay p)" "isFinite (negateAsymmetry p)" "isFinite (negateShrinkFactor p)"
    "\<And>s. isFinite (scoreByState p s)"
  proof -
    fix s
    show "isFinite (scoreByState p s)"
      using assms by (cases s) (auto simp: checkPolicy_def evidence_states_def)
  qed (use assms in \<open>auto simp: checkPolicy_def\<close>)
  then show "isFinite (reliabilityWeight p)" "isFinite (peerConfidenceCap p)"
    "isFinite (confirmDecay p)" "isFinite (negateAsymmetry p)" "isFinite (negateShrinkFactor p)"
    "isFinite (scoreByState p s)" by auto
  obtain c d a f x where eqs: "peerConfidenceCap p = JNum c" "confirmDecay p = JNum d"
    "negateAsymmetry p = JNum a" "negateShrinkFactor p = JNum f"
    "scoreByState p ExternallyResolved = JNum x"
    using fin isFinite_num by metis
  show "0 < num (peerConfidenceCap p)"
    "num (peerConfidenceCap p) < num (scoreByState p ExternallyResolved)"
    "0 < num (confirmDecay p)" "num (confirmDecay p) < 1" "0 \<le> num (negateAsymmetry p)"
    "0 \<le> num (negateShrinkFactor p)" "num (negateShrinkFactor p) \<le> 1"
    using assms eqs by (auto simp: checkPolicy_def)
qed

subsection \<open>Presentation score and expiry\<close>

definition crowdConfidence :: "policy \<Rightarrow> nat \<Rightarrow> nat \<Rightarrow> real" where
  "crowdConfidence p confirmers negators =
     (let base = num (scoreByState p SelfReported);
          gap = num (peerConfidenceCap p) - base;
          confIncrement = gap * (1 - num (confirmDecay p) ^ confirmers);
          negPenalty = num (negateAsymmetry p) * gap * (1 - num (confirmDecay p) ^ negators)
      in clamp01 (base + confIncrement - negPenalty))"

definition shrinkExpiryForNegations :: "real \<Rightarrow> real \<Rightarrow> nat \<Rightarrow> real \<Rightarrow> real" where
  "shrinkExpiryForNegations expiryMs negateAtMs negators shrinkFactor =
     (if negators = 0 then expiryMs
      else let remaining = expiryMs - negateAtMs in
        if remaining \<le> 0 then expiryMs
        else min expiryMs (negateAtMs + remaining * shrinkFactor ^ negators))"

lemma shrinkExpiry_le: "shrinkExpiryForNegations e a n f \<le> e"
  by (simp add: shrinkExpiryForNegations_def Let_def)

lemma shrinkExpiry_ge:
  "0 \<le> f \<Longrightarrow> min e a \<le> shrinkExpiryForNegations e a n f"
  by (auto simp: shrinkExpiryForNegations_def Let_def min_def not_le
      intro!: add_increasing2 mult_nonneg_nonneg)

text \<open>Each further distinct negator leaves no more life than before.\<close>

lemma shrinkExpiry_antimono:
  assumes "0 \<le> f" "f \<le> 1" "m \<le> n"
  shows "shrinkExpiryForNegations e a n f \<le> shrinkExpiryForNegations e a m f"
proof (cases "m = 0 \<or> e - a \<le> 0")
  case True
  then show ?thesis by (auto simp: shrinkExpiry_le) (auto simp: shrinkExpiryForNegations_def)
next
  case False
  have "f ^ n \<le> f ^ m" using assms by (intro power_decreasing)
  with False have "(e - a) * f ^ n \<le> (e - a) * f ^ m" by (intro mult_left_mono) auto
  then have "min e (a + (e - a) * f ^ n) \<le> min e (a + (e - a) * f ^ m)" by auto
  with False assms show ?thesis by (auto simp: shrinkExpiryForNegations_def Let_def)
qed

lemma crowdConfidence_bounds: "0 \<le> crowdConfidence p c n" "crowdConfidence p c n \<le> 1"
  by (simp_all add: crowdConfidence_def Let_def clamp01_bounds)

lemma crowdConfidence_le_cap:
  assumes "checkPolicy p = Inr u"
    and "num (scoreByState p SelfReported) \<le> num (peerConfidenceCap p)"
  shows "crowdConfidence p c n \<le> num (peerConfidenceCap p)"
proof -
  let ?d = "num (confirmDecay p)" and ?base = "num (scoreByState p SelfReported)"
  let ?cap = "num (peerConfidenceCap p)" and ?a = "num (negateAsymmetry p)"
  note ok = checkPolicy_ok [OF assms(1)]
  have gap: "0 \<le> ?cap - ?base" using assms(2) by simp
  have "0 \<le> ?d ^ c" using ok by simp
  then have "(?cap - ?base) * (1 - ?d ^ c) \<le> (?cap - ?base) * 1"
    by (intro mult_left_mono gap) simp
  moreover have "?d ^ n \<le> 1" using ok by (intro power_le_one) auto
  then have "0 \<le> ?a * (?cap - ?base) * (1 - ?d ^ n)"
    using ok(11) gap by simp
  ultimately show ?thesis
    using ok(7) by (auto simp: crowdConfidence_def Let_def clamp01_def min_def max_def)
qed

lemma crowdConfidence_mono:
  assumes "checkPolicy p = Inr u"
    and "num (scoreByState p SelfReported) \<le> num (peerConfidenceCap p)" and "c \<le> c'" and "n' \<le> n"
  shows "crowdConfidence p c n \<le> crowdConfidence p c' n'"
proof -
  let ?d = "num (confirmDecay p)" and ?base = "num (scoreByState p SelfReported)"
  let ?cap = "num (peerConfidenceCap p)" and ?a = "num (negateAsymmetry p)"
  note ok = checkPolicy_ok [OF assms(1)]
  have gap: "0 \<le> ?cap - ?base" using assms(2) by simp
  have "?d ^ c' \<le> ?d ^ c" and "?d ^ n \<le> ?d ^ n'"
    using ok(9,10) assms(3,4) by (auto intro: power_decreasing)
  then have "(?cap - ?base) * (1 - ?d ^ c) \<le> (?cap - ?base) * (1 - ?d ^ c')"
    and "?a * (?cap - ?base) * (1 - ?d ^ n') \<le> ?a * (?cap - ?base) * (1 - ?d ^ n)"
    using gap ok(11) by (auto intro!: mult_left_mono)
  then show ?thesis
    unfolding crowdConfidence_def Let_def by (intro clamp01_mono) linarith
qed

subsection \<open>Admissible entries in replay order\<close>

definition at_ms :: "entry \<Rightarrow> int" where
  "at_ms e = (case en_at e of Some t \<Rightarrow> t | None \<Rightarrow> 0)"

definition entry_cmp :: "entry \<Rightarrow> entry \<Rightarrow> real" where
  "entry_cmp = by_number (\<lambda>e. of_int (at_ms e)) (\<lambda>a b. str_cmp (en_id a) (en_id b))"

interpretation entry_order: comparator entry_cmp
  unfolding entry_cmp_def by (intro comparator_by_number comparator_str_cmp)

definition admissible :: "ledger \<Rightarrow> entry list" where
  "admissible l = js_sort entry_cmp (filter (\<lambda>e. inst_le (en_at e) (lg_now l)) (lg_entries l))"

fun first_duplicate :: "string list \<Rightarrow> entry list \<Rightarrow> string option" where
  "first_duplicate seen [] = None"
| "first_duplicate seen (e # es) =
     (if en_id e \<in> set seen then Some (en_id e) else first_duplicate (en_id e # seen) es)"

lemma first_duplicate_None:
  "first_duplicate seen es = None \<longleftrightarrow> distinct (map en_id es) \<and> set seen \<inter> en_id ` set es = {}"
  by (induction es arbitrary: seen) auto

lemma first_duplicate_ids:
  "map en_id es = map en_id fs \<Longrightarrow> first_duplicate seen es = first_duplicate seen fs"
proof (induction es arbitrary: seen fs)
  case (Cons e es)
  then show ?case by (cases fs) auto
qed simp

subsection \<open>The scan\<close>

record scan =
  sc_negators :: "string list"
  sc_lastNegate :: "entry option"
  sc_retraction :: "entry option"
  sc_external :: "entry option"
  sc_lastPositive :: int

definition confirmers :: "entry \<Rightarrow> entry list \<Rightarrow> string list" where
  "confirmers first es =
     fold (\<lambda>e keys.
       if (en_kind e = Confirm \<or> (en_kind e = Report \<and> en_id e \<noteq> en_id first)) \<and>
          en_key e \<noteq> None \<and> en_key e \<noteq> en_key first
       then List.insert (the (en_key e)) keys else keys) es []"

definition scan_step :: "string option \<Rightarrow> entry \<Rightarrow> scan \<Rightarrow> scan" where
  "scan_step originatingKey e s =
     (case en_kind e of
        Report \<Rightarrow> s\<lparr>sc_lastPositive := max (sc_lastPositive s) (at_ms e)\<rparr>
      | Confirm \<Rightarrow> s\<lparr>sc_lastPositive := max (sc_lastPositive s) (at_ms e)\<rparr>
      | External \<Rightarrow> (if en_external e \<noteq> None then s\<lparr>sc_external := Some e\<rparr> else s)
      | _ \<Rightarrow>
        (if originatingKey \<noteq> None \<and> en_key e = originatingKey then
           (if sc_retraction s = None then s\<lparr>sc_retraction := Some e\<rparr> else s)
         else (case en_key e of
             None \<Rightarrow> s
           | Some k \<Rightarrow> s\<lparr>sc_negators := List.insert k (sc_negators s), sc_lastNegate := Some e\<rparr>)))"

definition scan_entries :: "entry \<Rightarrow> entry list \<Rightarrow> scan" where
  "scan_entries first es = fold (scan_step (en_key first)) es
     \<lparr>sc_negators = [], sc_lastNegate = None, sc_retraction = None, sc_external = None,
      sc_lastPositive = at_ms first\<rparr>"

subsection \<open>The decision\<close>

definition maxLifetimeEnd :: "policy \<Rightarrow> entry \<Rightarrow> real" where
  "maxLifetimeEnd p first = of_int (at_ms first) + maxLifetimeSec p * 1000"

definition decide_state :: "policy \<Rightarrow> entry \<Rightarrow> nat \<Rightarrow> scan \<Rightarrow> evidence_state \<times> real" where
  "decide_state p first confirmed s =
     (let ttlMs = ttlSec p * 1000;
          maxLifetimeEndMs = maxLifetimeEnd p first;
          decayExpiryMs = min (of_int (sc_lastPositive s) + ttlMs) maxLifetimeEndMs;
          negatorCount = length (sc_negators s);
          shrunk = shrinkExpiryForNegations decayExpiryMs
            (case sc_lastNegate s of Some e \<Rightarrow> of_int (at_ms e) | None \<Rightarrow> decayExpiryMs)
            negatorCount (num (negateShrinkFactor p))
      in case sc_external s of
           Some e \<Rightarrow>
             (if map_option snd (en_external e) = Some Confirmed
              then (ExternallyResolved, min (of_int (at_ms e) + ttlMs) maxLifetimeEndMs)
              else (Negated, of_int (at_ms e)))
         | None \<Rightarrow>
             (case sc_retraction s of
                Some e \<Rightarrow> (Negated, of_int (at_ms e))
              | None \<Rightarrow>
                  (if int negatorCount \<ge> peerNegationMinKeys p \<and> negatorCount > confirmed
                      \<and> sc_lastNegate s \<noteq> None
                   then (Negated, of_int (at_ms (the (sc_lastNegate s))))
                   else if 1 + int confirmed \<ge> corroborationMinDistinctKeys p
                   then (Corroborated, shrunk)
                   else (SelfReported, shrunk))))"

definition finish :: "policy \<Rightarrow> jsnum option \<Rightarrow> int \<Rightarrow> nat \<Rightarrow> nat \<Rightarrow> evidence_state \<times> real
    \<Rightarrow> js_error + evidence_result" where
  "finish p bound nowMs confirmed negated decided =
     (let (state0, expiresAtMs) = decided;
          state = (if state0 \<noteq> Negated \<and> of_int nowMs \<ge> expiresAtMs then Expired else state0);
          adjustment = (case bound of Some b \<Rightarrow> num (reliabilityWeight p) * (num b - 1/2) | None \<Rightarrow> 0);
          baseScore = (if state = SelfReported \<or> state = Corroborated
                       then crowdConfidence p confirmed negated
                       else num (scoreByState p state))
      in bindE (to_iso expiresAtMs) (\<lambda>expires.
           Inr \<lparr>er_state = state, er_score = clamp01 (baseScore + adjustment),
                er_routing = (state = ExternallyResolved), er_expires = expires\<rparr>))"

definition evaluateEvidence :: "ledger \<Rightarrow> policy \<Rightarrow> js_error + evidence_result" where
  "evaluateEvidence l p =
     bindE (checkBound (lg_bound l)) (\<lambda>_.
     bindE (checkPolicy p) (\<lambda>_.
     (let es = admissible l in
      case first_duplicate [] es of
        Some i \<Rightarrow> Inl (TypeError (''duplicate entry id '' @ i))
      | None \<Rightarrow>
          (case filter (\<lambda>e. en_kind e = Report) es of
             [] \<Rightarrow> Inl (TypeError ''ledger has no admissible report entry'')
           | first # _ \<Rightarrow>
               (let confirmed = length (confirmers first es);
                    s = scan_entries first es
                in finish p (lg_bound l) (the (lg_now l)) confirmed (length (sc_negators s))
                     (decide_state p first confirmed s))))))"


subsection \<open>What the scan finds\<close>

definition is_external :: "entry \<Rightarrow> bool" where
  "is_external e \<longleftrightarrow> en_kind e = External \<and> en_external e \<noteq> None"

definition is_all_clear :: "entry \<Rightarrow> bool" where
  "is_all_clear e \<longleftrightarrow> en_kind e = Cancel \<or> en_kind e = Negate"

definition is_retraction :: "string option \<Rightarrow> entry \<Rightarrow> bool" where
  "is_retraction k e \<longleftrightarrow> is_all_clear e \<and> k \<noteq> None \<and> en_key e = k"

definition is_peer_negation :: "string option \<Rightarrow> entry \<Rightarrow> bool" where
  "is_peer_negation k e \<longleftrightarrow> is_all_clear e \<and> en_key e \<noteq> None \<and> en_key e \<noteq> k"

lemmas entry_classes = is_external_def is_all_clear_def is_retraction_def is_peer_negation_def

lemma scan_external:
  "sc_external (fold (scan_step k) es s) =
     (case find is_external (rev es) of None \<Rightarrow> sc_external s | Some e \<Rightarrow> Some e)"
  by (induction es rule: rev_induct)
    (auto simp: scan_step_def entry_classes split: entry_kind.splits option.splits)

lemma scan_retraction:
  "sc_retraction (fold (scan_step k) es s) =
     (if sc_retraction s = None then find (is_retraction k) es else sc_retraction s)"
proof (induction es arbitrary: s)
  case (Cons e es)
  show ?case by (auto simp: Cons.IH)
      (auto simp: scan_step_def entry_classes split: entry_kind.splits option.splits if_splits)
qed simp

lemma scan_negators:
  "set (sc_negators (fold (scan_step k) es s)) =
     set (sc_negators s) \<union> the ` en_key ` {e \<in> set es. is_peer_negation k e}"
proof (induction es arbitrary: s)
  case (Cons e es)
  have "set (sc_negators (scan_step k e s)) =
      set (sc_negators s) \<union> (if is_peer_negation k e then {the (en_key e)} else {})"
    by (auto simp: scan_step_def entry_classes split: entry_kind.splits option.splits)
  then show ?case by (auto simp: Cons.IH)
qed simp

lemma scan_negators_distinct:
  "distinct (sc_negators s) \<Longrightarrow> distinct (sc_negators (fold (scan_step k) es s))"
proof (induction es arbitrary: s)
  case (Cons e es)
  then have "distinct (sc_negators (scan_step k e s))"
    by (auto simp: scan_step_def split: entry_kind.splits option.splits)
  then show ?case by (simp add: Cons.IH)
qed simp

lemma scan_lastNegate:
  "sc_lastNegate (fold (scan_step k) es s) =
     (case find (is_peer_negation k) (rev es) of None \<Rightarrow> sc_lastNegate s | Some e \<Rightarrow> Some e)"
  by (induction es rule: rev_induct)
    (auto simp: scan_step_def entry_classes split: entry_kind.splits option.splits)

lemma scan_entries_external:
  "sc_external (scan_entries first es) = find is_external (rev es)"
  by (simp add: scan_entries_def scan_external split: option.split)

lemma scan_entries_retraction:
  "sc_retraction (scan_entries first es) = find (is_retraction (en_key first)) es"
  by (simp add: scan_entries_def scan_retraction)

lemma scan_entries_negators:
  "length (sc_negators (scan_entries first es)) =
     card (the ` en_key ` {e \<in> set es. is_peer_negation (en_key first) e})"
proof -
  have "distinct (sc_negators (scan_entries first es))"
    by (simp add: scan_entries_def scan_negators_distinct)
  then have "length (sc_negators (scan_entries first es)) =
      card (set (sc_negators (scan_entries first es)))" by (simp add: distinct_card)
  then show ?thesis by (simp add: scan_entries_def scan_negators)
qed

lemmas scan_facts = scan_entries_external scan_entries_retraction scan_entries_negators

lemma confirmers_distinct: "distinct (confirmers first es)"
proof -
  have "distinct ks \<Longrightarrow> distinct (fold (\<lambda>e keys.
       if (en_kind e = Confirm \<or> (en_kind e = Report \<and> en_id e \<noteq> en_id first)) \<and>
          en_key e \<noteq> None \<and> en_key e \<noteq> en_key first
       then List.insert (the (en_key e)) keys else keys) es ks)" for ks
    by (induction es arbitrary: ks) auto
  then show ?thesis by (simp add: confirmers_def)
qed

subsection \<open>Evaluation, taken apart\<close>

definition first_report :: "ledger \<Rightarrow> entry option" where
  "first_report l = find (\<lambda>e. en_kind e = Report) (admissible l)"

lemma filter_Cons_find: "filter P xs = y # ys \<Longrightarrow> find P xs = Some y"
  by (induction xs) (auto split: if_splits)

lemma evaluateE:
  assumes "evaluateEvidence l p = Inr r"
  obtains first where "checkPolicy p = Inr ()" "checkBound (lg_bound l) = Inr ()"
    "first_report l = Some first" "distinct (map en_id (admissible l))"
    "finish p (lg_bound l) (the (lg_now l)) (length (confirmers first (admissible l)))
       (length (sc_negators (scan_entries first (admissible l))))
       (decide_state p first (length (confirmers first (admissible l)))
          (scan_entries first (admissible l))) = Inr r"
proof -
  from assms have checks: "checkBound (lg_bound l) = Inr ()" "checkPolicy p = Inr ()"
    by (auto simp: evaluateEvidence_def)
  with assms have dup: "first_duplicate [] (admissible l) = None"
    by (auto simp: evaluateEvidence_def Let_def split: option.splits)
  with assms checks obtain first rest where
    f: "filter (\<lambda>e. en_kind e = Report) (admissible l) = first # rest"
    by (auto simp: evaluateEvidence_def Let_def split: list.splits)
  then have "first_report l = Some first" by (simp add: first_report_def filter_Cons_find)
  moreover have "distinct (map en_id (admissible l))" using dup by (simp add: first_duplicate_None)
  moreover have "finish p (lg_bound l) (the (lg_now l)) (length (confirmers first (admissible l)))
       (length (sc_negators (scan_entries first (admissible l))))
       (decide_state p first (length (confirmers first (admissible l)))
          (scan_entries first (admissible l))) = Inr r"
    using assms checks dup f by (simp add: evaluateEvidence_def Let_def)
  ultimately show thesis using that checks by blast
qed

lemma finishE:
  assumes "finish p b nowMs c n (st, ex) = Inr r"
  shows "er_state r = (if st \<noteq> Negated \<and> of_int nowMs \<ge> ex then Expired else st)"
    and "er_expires r = trunc_int ex" and "er_routing r = (er_state r = ExternallyResolved)"
    and "0 \<le> er_score r" and "er_score r \<le> 1"
  using assms by (auto simp: finish_def Let_def to_iso_def clamp01_bounds split: if_splits)

lemma finish_score:
  assumes "finish p None nowMs c n d = Inr r"
  shows "er_score r = clamp01 (if er_state r = SelfReported \<or> er_state r = Corroborated
           then crowdConfidence p c n else num (scoreByState p (er_state r)))"
  using assms by (cases d) (auto simp: finish_def Let_def split: if_splits)

text \<open>An evaluation reads its ledger through the admissible entries only.\<close>

lemma evaluate_cong:
  assumes "admissible l = admissible l'" and "lg_now l = lg_now l'" and "lg_bound l = lg_bound l'"
  shows "evaluateEvidence l p = evaluateEvidence l' p"
  unfolding evaluateEvidence_def assms ..

lemma admissible_mem:
  "e \<in> set (admissible l) \<longleftrightarrow> e \<in> set (lg_entries l) \<and> inst_le (en_at e) (lg_now l)"
  by (simp add: admissible_def)

lemma first_report_mem:
  "first_report l = Some f \<Longrightarrow> f \<in> set (admissible l) \<and> en_kind f = Report"
  by (auto simp: first_report_def find_Some_iff)

lemma find_rev_Some: "find P (rev xs) = Some x \<Longrightarrow> x \<in> set xs \<and> P x"
  by (auto simp: find_Some_iff) (metis length_rev nth_mem set_rev)


subsection \<open>Order of the ledger\<close>

definition key_cmp :: "int \<times> string \<Rightarrow> int \<times> string \<Rightarrow> real" where
  "key_cmp = by_number (\<lambda>k. of_int (fst k)) (\<lambda>a b. str_cmp (snd a) (snd b))"

interpretation key_order: comparator key_cmp
  unfolding key_cmp_def by (intro comparator_by_number comparator_str_cmp)

lemma key_cmp_antisym: "key_cmp a b \<le> 0 \<Longrightarrow> key_cmp b a \<le> 0 \<Longrightarrow> a = b"
  by (auto simp: key_cmp_def by_number_le str_cmp_le prod_eq_iff)

definition entry_key :: "entry \<Rightarrow> int \<times> string" where
  "entry_key e = (at_ms e, en_id e)"

lemma entry_cmp_key: "entry_cmp a b = key_cmp (entry_key a) (entry_key b)"
  by (simp add: entry_cmp_def key_cmp_def entry_key_def by_number_def)

lemma admissible_keys:
  assumes "mset (lg_entries l) = mset (lg_entries l')" "lg_now l = lg_now l'"
  shows "map entry_key (admissible l) = map entry_key (admissible l')"
proof (rule key_order.sorted_unique)
  show "sorted_wrt (\<lambda>a b. key_cmp a b \<le> 0) (map entry_key (admissible l))" for l
    using entry_order.sorted_js_sort by (simp add: admissible_def sorted_wrt_map entry_cmp_key)
  then show "sorted_wrt (\<lambda>a b. key_cmp a b \<le> 0) (map entry_key (admissible l'))" .
  show "mset (map entry_key (admissible l)) = mset (map entry_key (admissible l'))"
    using assms by (simp add: admissible_def mset_filter)
qed (rule key_cmp_antisym)

lemma admissible_permutation:
  assumes "mset (lg_entries l) = mset (lg_entries l')" "lg_now l = lg_now l'"
    and "distinct (map en_id (admissible l))"
  shows "admissible l = admissible l'"
  unfolding admissible_def
proof (rule entry_order.js_sort_permutation)
  show "mset (filter (\<lambda>e. inst_le (en_at e) (lg_now l)) (lg_entries l)) =
      mset (filter (\<lambda>e. inst_le (en_at e) (lg_now l')) (lg_entries l'))"
    using assms by (simp add: mset_filter)
next
  fix a b
  assume ab: "a \<in> set (filter (\<lambda>e. inst_le (en_at e) (lg_now l)) (lg_entries l))"
    "b \<in> set (filter (\<lambda>e. inst_le (en_at e) (lg_now l)) (lg_entries l))"
    and "entry_cmp a b \<le> 0" "entry_cmp b a \<le> 0"
  then have "entry_key a = entry_key b" by (simp add: entry_cmp_key key_cmp_antisym)
  moreover have "inj_on en_id (set (admissible l))" using assms(3) by (simp add: distinct_map)
  ultimately show "a = b"
    using ab by (auto simp: admissible_def entry_key_def inj_on_def)
qed

text \<open>C2. The ledger is order-insensitive: however its entries arrive, the evaluation, errors
  included, is the same.\<close>

theorem evaluate_order_insensitive:
  assumes "mset (lg_entries l) = mset (lg_entries l')"
    and "lg_now l = lg_now l'" and "lg_bound l = lg_bound l'"
  shows "evaluateEvidence l p = evaluateEvidence l' p"
proof -
  have "map snd (map entry_key (admissible l)) = map snd (map entry_key (admissible l'))"
    using admissible_keys [OF assms(1,2)] by simp
  then have ids: "map en_id (admissible l) = map en_id (admissible l')"
    by (simp add: entry_key_def comp_def)
  then have dup: "first_duplicate [] (admissible l) = first_duplicate [] (admissible l')"
    by (rule first_duplicate_ids)
  show ?thesis
  proof (cases "distinct (map en_id (admissible l))")
    case True
    with assms have same: "admissible l = admissible l'" by (intro admissible_permutation)
    with assms show ?thesis by (intro evaluate_cong)
  next
    case False
    then obtain i where "first_duplicate [] (admissible l) = Some i"
      using first_duplicate_None [of "[]" "admissible l"] by (cases "first_duplicate [] (admissible l)") auto
    then show ?thesis using dup [symmetric] by (simp add: evaluateEvidence_def Let_def assms(3))
  qed
qed

text \<open>Entries dated after the evaluation instant (or not dated at all) are not yet
  admissible: the replay of a ledger at an instant does not depend on what is appended later.\<close>

theorem evaluate_ignores_future:
  "evaluateEvidence l p =
     evaluateEvidence (l\<lparr>lg_entries := filter (\<lambda>e. inst_le (en_at e) (lg_now l)) (lg_entries l)\<rparr>) p"
  by (rule evaluate_cong) (simp_all add: admissible_def)

subsection \<open>Authority\<close>

lemma decide_external:
  "find is_external (rev es) = Some e \<Longrightarrow>
   decide_state p first c (scan_entries first es) =
     (if map_option snd (en_external e) = Some Confirmed
      then (ExternallyResolved, min (of_int (at_ms e) + ttlSec p * 1000) (maxLifetimeEnd p first))
      else (Negated, of_int (at_ms e)))"
  by (simp add: decide_state_def scan_facts Let_def)

lemma decide_not_external:
  "find is_external (rev es) = None \<Longrightarrow>
   fst (decide_state p first c (scan_entries first es)) \<noteq> ExternallyResolved"
  by (auto simp: decide_state_def scan_facts Let_def split: option.splits)

lemma decide_never_expired: "fst (decide_state p first c s) \<noteq> Expired"
  by (auto simp: decide_state_def Let_def split: option.splits)

lemma finish_routing: "finish p b nowMs c n d = Inr r \<Longrightarrow> er_routing r \<longleftrightarrow> er_state r = ExternallyResolved"
  by (cases d) (auto dest: finishE(3))

lemma routing_external_aux:
  assumes "evaluateEvidence l p = Inr r" and "er_routing r"
  shows "\<exists>e. find is_external (rev (admissible l)) = Some e \<and>
           map_option snd (en_external e) = Some Confirmed \<and> e \<in> set (admissible l) \<and>
           of_int (the (lg_now l)) < of_int (at_ms e) + ttlSec p * 1000"
proof -
  from assms(1) obtain first where fin:
    "finish p (lg_bound l) (the (lg_now l)) (length (confirmers first (admissible l)))
       (length (sc_negators (scan_entries first (admissible l))))
       (decide_state p first (length (confirmers first (admissible l)))
          (scan_entries first (admissible l))) = Inr r"
    by (rule evaluateE)
  obtain st ex where d: "decide_state p first (length (confirmers first (admissible l)))
          (scan_entries first (admissible l)) = (st, ex)" by fastforce
  note f = finishE [OF fin [unfolded d]]
  from f(1,3) assms(2) have st: "st = ExternallyResolved" "of_int (the (lg_now l)) < ex"
    by (auto split: if_splits)
  with d decide_not_external obtain e where e: "find is_external (rev (admissible l)) = Some e"
    by (metis fst_conv option.exhaust)
  with d st have "map_option snd (en_external e) = Some Confirmed"
    and "ex \<le> of_int (at_ms e) + ttlSec p * 1000"
    by (auto simp: decide_external split: if_splits)
  moreover from e find_rev_Some have "e \<in> set (admissible l)" by metis
  ultimately show ?thesis using e st by force
qed

text \<open>C1. A record is routing-eligible only by an external resolution: the latest external entry
  of the ledger confirms it and its lifetime is not over. No number of reports, confirmations or
  negations by peers makes it so.\<close>

theorem routing_needs_external:
  assumes "evaluateEvidence l p = Inr r" and "er_routing r"
  shows "\<exists>e. find is_external (rev (admissible l)) = Some e \<and>
           map_option snd (en_external e) = Some Confirmed \<and> e \<in> set (lg_entries l) \<and>
           inst_le (en_at e) (lg_now l) \<and>
           of_int (the (lg_now l)) < of_int (at_ms e) + ttlSec p * 1000"
  using routing_external_aux [OF assms] by (auto simp: admissible_mem)

text \<open>An external rejection always negates: whatever the peers say, a record whose latest
  external entry is not a confirmation is negated and ended at that entry's instant.\<close>

theorem external_rejection_negates:
  assumes "evaluateEvidence l p = Inr r" and "find is_external (rev (admissible l)) = Some e"
    and "map_option snd (en_external e) \<noteq> Some Confirmed"
  shows "er_state r = Negated \<and> er_expires r = at_ms e \<and> \<not> er_routing r"
proof -
  from assms(1) obtain first where
    "finish p (lg_bound l) (the (lg_now l)) (length (confirmers first (admissible l)))
       (length (sc_negators (scan_entries first (admissible l))))
       (decide_state p first (length (confirmers first (admissible l)))
          (scan_entries first (admissible l))) = Inr r"
    by (rule evaluateE)
  then have "finish p (lg_bound l) (the (lg_now l)) (length (confirmers first (admissible l)))
       (length (sc_negators (scan_entries first (admissible l)))) (Negated, of_int (at_ms e)) = Inr r"
    using assms(2,3) by (simp add: decide_external)
  from finishE [OF this] show ?thesis by simp
qed

text \<open>One stranger's all-clear is never an instant kill: without an external entry and without
  a retraction by the originating key, fewer distinct negating keys than the quorum leave the
  record standing (it may only have expired).\<close>

theorem sub_quorum_negation_survives:
  assumes "evaluateEvidence l p = Inr r" and "first_report l = Some first"
    and "find is_external (rev (admissible l)) = None"
    and "find (is_retraction (en_key first)) (admissible l) = None"
    and "int (card (the ` en_key ` {e \<in> set (admissible l). is_peer_negation (en_key first) e}))
           < peerNegationMinKeys p"
  shows "er_state r \<noteq> Negated"
proof -
  from assms(1,2) have
    "finish p (lg_bound l) (the (lg_now l)) (length (confirmers first (admissible l)))
       (length (sc_negators (scan_entries first (admissible l))))
       (decide_state p first (length (confirmers first (admissible l)))
          (scan_entries first (admissible l))) = Inr r"
    by (auto elim: evaluateE)
  moreover have "fst (decide_state p first (length (confirmers first (admissible l)))
          (scan_entries first (admissible l))) \<noteq> Negated"
    using assms(3-5) by (simp add: decide_state_def scan_facts Let_def)
  ultimately show ?thesis
    by (metis evidence_state.distinct(19) finishE(1) prod.collapse)
qed

subsection \<open>Scores and lifetimes\<close>

text \<open>Peer confidence stays under authority: as long as the base of a self-reported record is
  not above the peer cap, no crowd state without a reliability bound scores as high as an external
  resolution does.\<close>

theorem peer_confidence_below_authority:
  assumes "evaluateEvidence l p = Inr r" and "lg_bound l = None"
    and "er_state r = SelfReported \<or> er_state r = Corroborated"
    and "num (scoreByState p SelfReported) \<le> num (peerConfidenceCap p)"
  shows "er_score r \<le> num (peerConfidenceCap p) \<and> er_score r < num (scoreByState p ExternallyResolved)"
proof -
  from assms(1) obtain first where cp: "checkPolicy p = Inr ()" and
    fin: "finish p (lg_bound l) (the (lg_now l)) (length (confirmers first (admissible l)))
       (length (sc_negators (scan_entries first (admissible l))))
       (decide_state p first (length (confirmers first (admissible l)))
          (scan_entries first (admissible l))) = Inr r" by (rule evaluateE)
  let ?c = "crowdConfidence p (length (confirmers first (admissible l)))
      (length (sc_negators (scan_entries first (admissible l))))"
  have "er_score r = clamp01 ?c"
    using finish_score [OF fin [unfolded assms(2)]] assms(3) by auto
  then have "er_score r = ?c" by (simp add: clamp01_id crowdConfidence_bounds)
  then show ?thesis
    using crowdConfidence_le_cap [OF cp assms(4)] le_less_trans [OF _ checkPolicy_ok(8) [OF cp]]
    by auto
qed

text \<open>What an evaluation always satisfies: the score is a number in the unit interval, only a
  live external resolution routes, a record that is neither negated nor expired has not reached its
  expiry, and an expiry never passes the lifetime ceiling counted from the first report.\<close>

theorem evaluate_result_wf:
  assumes "evaluateEvidence l p = Inr r" and "first_report l = Some first"
  shows "0 \<le> er_score r \<and> er_score r \<le> 1 \<and>
     (er_routing r \<longleftrightarrow> er_state r = ExternallyResolved) \<and>
     (er_state r \<noteq> Negated \<and> er_state r \<noteq> Expired \<longrightarrow> the (lg_now l) \<le> er_expires r) \<and>
     (er_state r = Expired \<longrightarrow> er_expires r \<le> the (lg_now l)) \<and>
     (er_state r \<noteq> Negated \<longrightarrow> er_expires r \<le> trunc_int (maxLifetimeEnd p first))"
proof -
  from assms obtain st ex where
    fin: "finish p (lg_bound l) (the (lg_now l)) (length (confirmers first (admissible l)))
       (length (sc_negators (scan_entries first (admissible l)))) (st, ex) = Inr r"
    and d: "decide_state p first (length (confirmers first (admissible l)))
          (scan_entries first (admissible l)) = (st, ex)"
    by (metis evaluateE option.inject prod.collapse)
  have ceiling: "st \<noteq> Negated \<Longrightarrow> ex \<le> maxLifetimeEnd p first"
    using d by (auto simp: decide_state_def Let_def split: option.splits if_splits
        intro: order_trans [OF shrinkExpiry_le])
  have "st \<noteq> Expired" using d decide_never_expired by (metis fst_conv)
  with finishE(1) [OF fin] have st: "er_state r = Expired \<and> st \<noteq> Negated \<and> ex \<le> of_int (the (lg_now l))
      \<or> er_state r = st \<and> st \<noteq> Expired \<and> (st = Negated \<or> of_int (the (lg_now l)) < ex)"
    by (auto split: if_splits)
  have ex: "er_expires r = trunc_int ex" by (rule finishE(2) [OF fin])
  have "er_state r \<noteq> Negated \<and> er_state r \<noteq> Expired \<longrightarrow> the (lg_now l) \<le> er_expires r"
    using st ex trunc_int_ge [of "the (lg_now l)" ex] by auto
  moreover have "er_state r = Expired \<longrightarrow> er_expires r \<le> the (lg_now l)"
    using st ex trunc_int_le [of ex "the (lg_now l)"] by auto
  moreover have "er_state r \<noteq> Negated \<longrightarrow> er_expires r \<le> trunc_int (maxLifetimeEnd p first)"
    using st ex ceiling trunc_int_mono by auto
  ultimately show ?thesis using finishE(3-5) [OF fin] by blast
qed


subsection \<open>Concrete ledgers\<close>

definition sample_policy :: policy where
  "sample_policy = \<lparr>policyVersion = ''v2'', corroborationMinDistinctKeys = 2,
     peerNegationMinKeys = 2, ttlSec = 1800, maxLifetimeSec = 7200,
     scoreByState = (\<lambda>s. case s of SelfReported \<Rightarrow> JNum (3/10) | Corroborated \<Rightarrow> JNum (6/10)
        | ExternallyResolved \<Rightarrow> JNum (9/10) | Negated \<Rightarrow> JNum (1/10) | Expired \<Rightarrow> JNum 0),
     reliabilityWeight = JNum (1/10), peerConfidenceCap = JNum (3/4), confirmDecay = JNum (1/2),
     negateAsymmetry = JNum 2, negateShrinkFactor = JNum (1/2)\<rparr>"

definition mk_entry ::
  "string \<Rightarrow> int \<Rightarrow> entry_kind \<Rightarrow> string option \<Rightarrow> (external_source \<times> outcome) option \<Rightarrow> entry" where
  "mk_entry i t k r x = \<lparr>en_id = i, en_at = Some t, en_kind = k, en_key = r, en_external = x\<rparr>"

definition sample_ledger :: "entry list \<Rightarrow> ledger" where
  "sample_ledger es = \<lparr>lg_entries = es, lg_now = Some 5000, lg_bound = None\<rparr>"

definition official :: "outcome \<Rightarrow> entry" where
  "official o' = mk_entry ''2'' 1000 External None (Some (Official, o'))"

definition reported :: entry where
  "reported = mk_entry ''1'' 0 Report (Some ''k'') None"

definition stranger :: entry where
  "stranger = mk_entry ''3'' 2000 Negate (Some ''n'') None"

lemma resolved_sample:
  "evaluateEvidence (sample_ledger [official Confirmed, reported]) sample_policy =
     Inr \<lparr>er_state = ExternallyResolved, er_score = 9/10, er_routing = True, er_expires = 1801000\<rparr>"
  by code_simp

lemma rejected_sample:
  "evaluateEvidence (sample_ledger [reported, official Rejected]) sample_policy =
     Inr \<lparr>er_state = Negated, er_score = 1/10, er_routing = False, er_expires = 1000\<rparr>"
  by code_simp

lemma doubted_sample:
  "evaluateEvidence (sample_ledger [reported, stranger]) sample_policy =
     Inr \<lparr>er_state = SelfReported, er_score = 0, er_routing = False, er_expires = 901000\<rparr>"
  by code_simp

theorem evaluate_order_insensitive_witness:
  "evaluateEvidence (sample_ledger [reported, official Confirmed]) sample_policy =
     Inr \<lparr>er_state = ExternallyResolved, er_score = 9/10, er_routing = True, er_expires = 1801000\<rparr>"
  using evaluate_order_insensitive [of "sample_ledger [reported, official Confirmed]"
      "sample_ledger [official Confirmed, reported]" sample_policy] resolved_sample
  by (simp add: sample_ledger_def)

theorem routing_needs_external_witness:
  "\<exists>e. find is_external (rev (admissible (sample_ledger [official Confirmed, reported]))) = Some e \<and>
       map_option snd (en_external e) = Some Confirmed"
  using routing_needs_external [OF resolved_sample] by force

theorem external_rejection_negates_witness:
  "er_expires \<lparr>er_state = Negated, er_score = 1/10, er_routing = False, er_expires = 1000\<rparr>
     = at_ms (official Rejected)"
proof -
  have "find is_external (rev (admissible (sample_ledger [reported, official Rejected])))
      = Some (official Rejected)" by code_simp
  from external_rejection_negates [OF rejected_sample this] show ?thesis
    by (simp add: official_def mk_entry_def)
qed

theorem sub_quorum_negation_survives_witness:
  "er_state \<lparr>er_state = SelfReported, er_score = 0, er_routing = False, er_expires = 901000\<rparr> \<noteq> Negated"
proof (rule sub_quorum_negation_survives [OF doubted_sample, of reported])
  show "first_report (sample_ledger [reported, stranger]) = Some reported" by code_simp
  show "find is_external (rev (admissible (sample_ledger [reported, stranger]))) = None"
    by code_simp
  show "find (is_retraction (en_key reported)) (admissible (sample_ledger [reported, stranger]))
      = None" by code_simp
  have "admissible (sample_ledger [reported, stranger]) = [reported, stranger]" by code_simp
  moreover have "is_peer_negation (en_key reported) stranger"
    and "\<not> is_peer_negation (en_key reported) reported" by code_simp+
  ultimately have "{e \<in> set (admissible (sample_ledger [reported, stranger])).
      is_peer_negation (en_key reported) e} = {stranger}" by auto
  then show "int (card (the ` en_key ` {e \<in> set (admissible (sample_ledger [reported, stranger])).
      is_peer_negation (en_key reported) e})) < peerNegationMinKeys sample_policy"
    by (simp add: sample_policy_def)
qed

theorem peer_confidence_below_authority_witness:
  "0 < num (scoreByState sample_policy ExternallyResolved)"
proof -
  have "lg_bound (sample_ledger [reported, stranger]) = None" by (simp add: sample_ledger_def)
  from peer_confidence_below_authority [OF doubted_sample this] show ?thesis
    by (simp add: sample_policy_def)
qed

theorem evaluate_result_wf_witness:
  "(901000::int) \<le> trunc_int (maxLifetimeEnd sample_policy reported)"
proof -
  have "first_report (sample_ledger [reported, stranger]) = Some reported" by code_simp
  from evaluate_result_wf [OF doubted_sample this] show ?thesis by simp
qed

text \<open>
  The guards accept a policy whose self-reported base is above the peer cap, and then a single
  unconfirmed report outranks an external resolution: the precondition of
  \<open>peer_confidence_below_authority\<close> is not enforced by the code.
\<close>

lemma base_above_cap_accepted:
  "evaluateEvidence (sample_ledger [reported])
     (sample_policy\<lparr>scoreByState := (scoreByState sample_policy)(SelfReported := JNum (19/20))\<rparr>) =
     Inr \<lparr>er_state = SelfReported, er_score = 19/20, er_routing = False, er_expires = 1800000\<rparr>"
  by code_simp

end
