(* ===== verification/Evidence_Ledger.thy ===== *)
theory Evidence_Ledger
  imports Evidence
begin

text \<open>
  From stored rows to an evaluation: packages/contrib-core/src/evidence-ledger.ts (the projection
  of \<open>report_evidence\<close> rows into a ledger), evidence-policy.ts (the policy of a kind's crowd
  rules), packages/model/src/crowd/rules.ts (the crowd rules of a registry entry) and the
  reliability posteriors of packages/core/src/evidence.ts.

  A row's \<open>details\<close> is an unknown JSON value of which two members are read; \<open>outcome\<close> is absent,
  a string, or some other JSON value, and so is \<open>reportedAt\<close>, of which only a string is parsed.
\<close>

subsection \<open>Crowd rules\<close>

record lifetime =
  lt_ttlSec :: real
  lt_maxLifetimeSec :: real

text \<open>A kind's or a property's crowd entry in the registry.\<close>

record situation_crowd =
  sk_lifetime :: lifetime
  sk_types :: "string \<Rightarrow> lifetime option"
  sk_corroborationKeys :: "int option"
  sk_negationKeys :: "int option"
  sk_matchMetres :: "real option"

record property_crowd =
  pc_lifetime :: lifetime
  pc_corroborationKeys :: "int option"
  pc_negationKeys :: "int option"
  pc_tolerance :: "real option"
  pc_reachMetres :: "real option"

record crowd_registry =
  situation_kinds :: "string \<Rightarrow> situation_crowd option"
  crowd_properties :: "string \<Rightarrow> property_crowd option"

record crowd_rules =
  cr_ttlSec :: real
  cr_maxLifetimeSec :: real
  cr_corroborationKeys :: int
  cr_negationKeys :: int
  cr_matchMetres :: "real option"
  cr_tolerance :: "real option"
  cr_reachMetres :: "real option"

datatype crowd_target = SituationTarget string string | ObservationTarget string

definition crowdRulesFor :: "crowd_registry \<Rightarrow> crowd_target \<Rightarrow> crowd_rules option" where
  "crowdRulesFor reg target = (case target of
     ObservationTarget prop \<Rightarrow>
       (case crowd_properties reg prop of
          None \<Rightarrow> None
        | Some r \<Rightarrow> Some \<lparr>cr_ttlSec = lt_ttlSec (pc_lifetime r),
            cr_maxLifetimeSec = lt_maxLifetimeSec (pc_lifetime r),
            cr_corroborationKeys = nullish (pc_corroborationKeys r) 2,
            cr_negationKeys = nullish (pc_negationKeys r) 2,
            cr_matchMetres = None, cr_tolerance = pc_tolerance r,
            cr_reachMetres = Some (nullish (pc_reachMetres r) 300)\<rparr>)
   | SituationTarget kind type \<Rightarrow>
       (case situation_kinds reg kind of
          None \<Rightarrow> None
        | Some r \<Rightarrow>
            (let life = nullish (sk_types r type) (sk_lifetime r)
             in Some \<lparr>cr_ttlSec = lt_ttlSec life, cr_maxLifetimeSec = lt_maxLifetimeSec life,
                  cr_corroborationKeys = nullish (sk_corroborationKeys r) 2,
                  cr_negationKeys = nullish (sk_negationKeys r) 2,
                  cr_matchMetres = Some (nullish (sk_matchMetres r) 250),
                  cr_tolerance = None, cr_reachMetres = None\<rparr>)))"

lemma crowdRulesFor_situation:
  "crowdRulesFor reg (SituationTarget k t) = Some r \<Longrightarrow> \<exists>m. cr_matchMetres r = Some m"
  by (auto simp: crowdRulesFor_def Let_def split: option.splits)

lemma crowdRulesFor_observation:
  "crowdRulesFor reg (ObservationTarget q) = Some r \<Longrightarrow> \<exists>m. cr_reachMetres r = Some m"
  by (auto simp: crowdRulesFor_def split: option.splits)

subsection \<open>The policy of some crowd rules\<close>

definition default_scores :: "evidence_state \<Rightarrow> jsnum" where
  "default_scores s = (case s of SelfReported \<Rightarrow> JNum (3/10) | Corroborated \<Rightarrow> JNum (6/10)
     | ExternallyResolved \<Rightarrow> JNum (9/10) | Negated \<Rightarrow> JNum (1/10) | Expired \<Rightarrow> JNum 0)"

definition crowdEvidencePolicy :: "crowd_rules \<Rightarrow> policy" where
  "crowdEvidencePolicy rules = \<lparr>policyVersion = ''v2'',
     corroborationMinDistinctKeys = cr_corroborationKeys rules,
     peerNegationMinKeys = cr_negationKeys rules,
     ttlSec = cr_ttlSec rules, maxLifetimeSec = cr_maxLifetimeSec rules,
     scoreByState = default_scores, reliabilityWeight = JNum (1/10),
     peerConfidenceCap = JNum (3/4), confirmDecay = JNum (1/2), negateAsymmetry = JNum 2,
     negateShrinkFactor = JNum (1/2)\<rparr>"

text \<open>Every policy built from crowd rules passes the evaluator's guards.\<close>

lemma crowdEvidencePolicy_valid: "checkPolicy (crowdEvidencePolicy rules) = Inr ()"
  by (simp add: checkPolicy_def crowdEvidencePolicy_def default_scores_def evidence_states_def)

subsection \<open>Rows\<close>

datatype json_member = Absent | JString string | JOther

record evidence_row =
  rw_id :: string
  rw_kind :: string
  rw_actor :: "string option"
  rw_occurred :: instant
  rw_outcome :: json_member
  rw_reported :: "instant option"

definition outcomeFromDetails :: "evidence_row \<Rightarrow> js_error + outcome" where
  "outcomeFromDetails row = (case rw_outcome row of
     Absent \<Rightarrow> Inr Confirmed
   | JString s \<Rightarrow> (if s = ''confirmed'' then Inr Confirmed
                   else if s = ''rejected'' then Inr Rejected
                   else Inl (TypeError ''unrecognized official_match details.outcome''))
   | JOther \<Rightarrow> Inl (TypeError ''unrecognized official_match details.outcome''))"

text \<open>\<open>rw_reported\<close> is \<open>None\<close> when \<open>details.reportedAt\<close> is not a string, else what parsing it gives.\<close>

definition reportedAt :: "evidence_row \<Rightarrow> instant" where
  "reportedAt row = (case rw_reported row of
     Some (Some stated) \<Rightarrow>
       (if inst_less (Some stated) (rw_occurred row) then Some stated else rw_occurred row)
   | _ \<Rightarrow> rw_occurred row)"

definition row_entry :: "evidence_row \<Rightarrow> js_error + entry" where
  "row_entry row =
     (let base = \<lparr>en_id = rw_id row, en_at = rw_occurred row, en_kind = External,
                  en_key = rw_actor row, en_external = None\<rparr>
      in if rw_kind row = ''report'' then
           Inr (base\<lparr>en_at := reportedAt row, en_kind := Report\<rparr>)
         else if rw_kind row = ''confirm'' then Inr (base\<lparr>en_kind := Confirm\<rparr>)
         else if rw_kind row = ''negate'' then Inr (base\<lparr>en_kind := Negate\<rparr>)
         else if rw_kind row = ''official_match'' then
           bindE (outcomeFromDetails row) (\<lambda>oc. Inr (base\<lparr>en_external := Some (Official, oc)\<rparr>))
         else if rw_kind row = ''reviewer_accept'' then
           Inr (base\<lparr>en_external := Some (Reviewer, Confirmed)\<rparr>)
         else if rw_kind row = ''reviewer_reject'' then
           Inr (base\<lparr>en_external := Some (Reviewer, Rejected)\<rparr>)
         else Inl (TypeError (''unknown evidence_kind '' @ rw_kind row)))"

definition evidenceRowsToLedger :: "evidence_row list \<Rightarrow> instant \<Rightarrow> js_error + ledger" where
  "evidenceRowsToLedger rows now =
     bindE (mapE row_entry rows) (\<lambda>es. Inr \<lparr>lg_entries = es, lg_now = now, lg_bound = None\<rparr>)"

lemma reportedAt_not_late:
  "rw_occurred row = Some t \<Longrightarrow> \<exists>s. reportedAt row = Some s \<and> s \<le> t"
  by (auto simp: reportedAt_def split: option.splits)

lemma row_entry_facts:
  "row_entry row = Inr e \<Longrightarrow> en_id e = rw_id row \<and> en_key e = rw_actor row \<and>
     (en_at e = rw_occurred row \<or> en_kind e = Report \<and> en_at e = reportedAt row) \<and>
     en_kind e \<noteq> Cancel \<and> (is_external e \<longleftrightarrow> rw_kind row \<in> {''official_match'', ''reviewer_accept'', ''reviewer_reject''})"
  by (auto simp: row_entry_def Let_def is_external_def split: if_splits)

text \<open>What a row says, apart from the code: which kind of evidence it is, whose word an external outcome is, and when; a report
  stands from the time its reporter stated, where that parses and is earlier than the row's.\<close>

definition stands_for :: "evidence_row \<Rightarrow> entry \<Rightarrow> bool" where
  "stands_for row e \<longleftrightarrow> en_id e = rw_id row \<and> en_key e = rw_actor row
   \<and> (rw_kind row = ''report'' \<and> en_kind e = Report \<and> en_external e = None
      \<or> rw_kind row = ''confirm'' \<and> en_kind e = Confirm \<and> en_external e = None
      \<or> rw_kind row = ''negate'' \<and> en_kind e = Negate \<and> en_external e = None
      \<or> rw_kind row = ''official_match'' \<and> rw_outcome row \<in> {Absent, JString ''confirmed''}
          \<and> en_kind e = External \<and> en_external e = Some (Official, Confirmed)
      \<or> rw_kind row = ''official_match'' \<and> rw_outcome row = JString ''rejected''
          \<and> en_kind e = External \<and> en_external e = Some (Official, Rejected)
      \<or> rw_kind row = ''reviewer_accept'' \<and> en_kind e = External \<and> en_external e = Some (Reviewer, Confirmed)
      \<or> rw_kind row = ''reviewer_reject'' \<and> en_kind e = External \<and> en_external e = Some (Reviewer, Rejected))
   \<and> en_at e = (case (rw_reported row, rw_occurred row) of
         (Some (Some stated), Some t) \<Rightarrow> Some (if rw_kind row = ''report'' then min stated t else t)
       | _ \<Rightarrow> rw_occurred row)"

text \<open>A row of no known kind, or an official match of no known outcome.\<close>

definition unreadable :: "evidence_row \<Rightarrow> bool" where
  "unreadable row \<longleftrightarrow>
     rw_kind row \<notin> {''report'', ''confirm'', ''negate'', ''official_match'', ''reviewer_accept'', ''reviewer_reject''}
   \<or> rw_kind row = ''official_match'' \<and> rw_outcome row \<notin> {Absent, JString ''confirmed'', JString ''rejected''}"

lemma reportedAt_min:
  "reportedAt row = (case (rw_reported row, rw_occurred row) of (Some (Some stated), Some t) \<Rightarrow> Some (min stated t)
     | _ \<Rightarrow> rw_occurred row)"
  by (auto simp: reportedAt_def min_def split: option.split)

lemma row_entry_stands: "row_entry row = Inr e \<Longrightarrow> stands_for row e \<and> \<not> unreadable row"
  unfolding row_entry_def Let_def outcomeFromDetails_def
  by (auto simp: stands_for_def unreadable_def reportedAt_min split: if_splits json_member.splits option.split)

lemma row_entry_error: "row_entry row = Inl err \<Longrightarrow> unreadable row"
  unfolding row_entry_def Let_def outcomeFromDetails_def
  by (auto simp: unreadable_def split: if_splits json_member.splits)

text \<open>C17. The projection neither drops, nor invents, nor coerces evidence. A ledger has one entry per row, in order, with the
  row's id and key: a report, a confirmation or a negation of that row's kind, an official match with the outcome its details
  state (a confirmation when they state none), a reviewer's acceptance as a confirmation and rejection as a rejection; each at
  the row's time, a report at its stated time where that is earlier. It throws exactly when some row is of another kind, or an
  official match whose outcome is anything else.\<close>

theorem ledger_faithful:
  "(case evidenceRowsToLedger rows now of
      Inr l \<Rightarrow> list_all2 stands_for rows (lg_entries l) \<and> lg_now l = now \<and> lg_bound l = None \<and> \<not> list_ex unreadable rows
    | Inl err \<Rightarrow> list_ex unreadable rows)"
proof (cases "mapE row_entry rows")
  case (Inr es)
  then have "list_all2 (\<lambda>row e. row_entry row = Inr e) rows es" by (simp add: mapE_Inr_iff)
  then have "list_all2 stands_for rows es \<and> \<not> list_ex unreadable rows"
    by (induction rule: list_all2_induct) (auto dest: row_entry_stands)
  with Inr show ?thesis by (simp add: evidenceRowsToLedger_def)
next
  case (Inl err)
  have "mapE row_entry rs = Inl err \<Longrightarrow> list_ex unreadable rs" for rs
  proof (induction rs)
    case (Cons r rs)
    then show ?case by (cases "row_entry r"; cases "mapE row_entry rs") (auto dest: row_entry_error)
  qed simp
  with Inl show ?thesis by (simp add: evidenceRowsToLedger_def)
qed

lemma peer_rows_not_external:
  assumes "list_all2 (\<lambda>row e. row_entry row = Inr e) rows es"
    and "\<forall>row \<in> set rows. rw_kind row \<in> {''report'', ''confirm'', ''negate''}"
  shows "\<forall>e \<in> set es. \<not> is_external e"
  using assms by (induction rule: list_all2_induct) (auto dest!: row_entry_facts)

text \<open>C16. Neither a report nor a vote can buy routing: evaluating the ledger of rows that are all
  reports, confirmations or negations, under the policy of any crowd rules, never gives a
  routing-eligible record, however many rows and keys there are.\<close>

theorem peers_never_route:
  assumes "evidenceRowsToLedger rows now = Inr l"
    and "\<forall>row \<in> set rows. rw_kind row \<in> {''report'', ''confirm'', ''negate''}"
    and "evaluateEvidence l (crowdEvidencePolicy rules) = Inr r"
  shows "\<not> er_routing r \<and> er_state r \<noteq> ExternallyResolved"
proof -
  from assms(1) have "list_all2 (\<lambda>row e. row_entry row = Inr e) rows (lg_entries l)"
    by (auto simp: evidenceRowsToLedger_def mapE_Inr_iff)
  then have "\<forall>e \<in> set (lg_entries l). \<not> is_external e"
    using assms(2) by (rule peer_rows_not_external)
  then have "find is_external (rev (admissible l)) = None"
    by (auto simp: find_None_iff admissible_mem)
  then have "\<not> er_routing r" using assms(3) by (auto dest: routing_external_aux)
  then show ?thesis using assms(3) by (auto elim!: evaluateE simp: finish_routing)
qed

definition row :: "string \<Rightarrow> string \<Rightarrow> string \<Rightarrow> int \<Rightarrow> evidence_row" where
  "row i k key t = \<lparr>rw_id = i, rw_kind = k, rw_actor = Some key, rw_occurred = Some t,
     rw_outcome = Absent, rw_reported = None\<rparr>"

definition road_rules :: crowd_rules where
  "road_rules = \<lparr>cr_ttlSec = 1800, cr_maxLifetimeSec = 7200, cr_corroborationKeys = 2,
     cr_negationKeys = 2, cr_matchMetres = Some 250, cr_tolerance = None, cr_reachMetres = None\<rparr>"

theorem peers_never_route_witness:
  "\<exists>l r. evidenceRowsToLedger [row ''1'' ''report'' ''a'' 0, row ''2'' ''confirm'' ''b'' 1000] (Some 2000) = Inr l
     \<and> evaluateEvidence l (crowdEvidencePolicy road_rules) = Inr r \<and> er_state r = Corroborated
     \<and> \<not> er_routing r"
proof -
  let ?rows = "[row ''1'' ''report'' ''a'' 0, row ''2'' ''confirm'' ''b'' 1000]"
  let ?l = "\<lparr>lg_entries = [mk_entry ''1'' 0 Report (Some ''a'') None,
      mk_entry ''2'' 1000 Confirm (Some ''b'') None], lg_now = Some 2000, lg_bound = None\<rparr>"
  let ?r = "\<lparr>er_state = Corroborated, er_score = 21/40, er_routing = False, er_expires = 1801000\<rparr>"
  have l: "evidenceRowsToLedger ?rows (Some 2000) = Inr ?l" by code_simp
  have r: "evaluateEvidence ?l (crowdEvidencePolicy road_rules) = Inr ?r" by code_simp
  have "\<not> er_routing ?r" using peers_never_route [OF l _ r] by (simp add: row_def)
  with l r show ?thesis by auto
qed

subsection \<open>Reliability posteriors\<close>

record beta_posterior =
  alpha :: jsnum
  beta_count :: jsnum

definition assertPosterior :: "beta_posterior \<Rightarrow> js_error + unit" where
  "assertPosterior b =
     guardE (\<not> (\<not> isFinite (alpha b) \<or> \<not> isFinite (beta_count b) \<or>
               js_le (alpha b) (JNum 0) \<or> js_le (beta_count b) (JNum 0)))
       (TypeError ''alpha and beta must be finite and > 0'')"

definition updateReliability :: "beta_posterior \<Rightarrow> outcome \<Rightarrow> js_error + beta_posterior" where
  "updateReliability prior oc =
     bindE (assertPosterior prior) (\<lambda>_.
       Inr (if oc = Confirmed then prior\<lparr>alpha := JNum (num (alpha prior) + 1)\<rparr>
            else prior\<lparr>beta_count := JNum (num (beta_count prior) + 1)\<rparr>))"

definition shrinkToward :: "beta_posterior \<Rightarrow> beta_posterior \<Rightarrow> jsnum \<Rightarrow> js_error + beta_posterior" where
  "shrinkToward posterior cohort factor =
     bindE (assertPosterior posterior) (\<lambda>_.
     bindE (assertPosterior cohort) (\<lambda>_.
     bindE (guardE (js_le (JNum 0) factor \<and> js_le factor (JNum 1))
       (TypeError ''shrinkToward: factor must be in [0, 1]'')) (\<lambda>_.
     Inr \<lparr>alpha = JNum (num (alpha cohort) + num factor * (num (alpha posterior) - num (alpha cohort))),
          beta_count = JNum (num (beta_count cohort) + num factor * (num (beta_count posterior) - num (beta_count cohort)))\<rparr>)))"

definition confidenceEnum :: "real \<Rightarrow> string" where
  "confidenceEnum score =
     (if score \<ge> 3/4 then ''observed'' else if score \<ge> 1/2 then ''likely''
      else if score \<ge> 1/4 then ''possible'' else ''unknown'')"

lemma assertPosterior_ok:
  "assertPosterior b = Inr u \<longleftrightarrow>
     (\<exists>x y. alpha b = JNum x \<and> beta_count b = JNum y \<and> 0 < x \<and> 0 < y)"
  by (cases "alpha b"; cases "beta_count b") (auto simp: assertPosterior_def)

text \<open>The mean of a posterior, the probability it gives a report to be confirmed.\<close>

definition posterior_mean :: "beta_posterior \<Rightarrow> real" where
  "posterior_mean b = num (alpha b) / (num (alpha b) + num (beta_count b))"

text \<open>Reputation moves only with resolved outcomes and stays a posterior: an accepted update
  gives a valid posterior with exactly one more observation, whose mean rises on a confirmation and
  falls on a rejection; and an invalid prior throws.\<close>

theorem updateReliability_sound:
  "(case updateReliability prior oc of
      Inl e \<Rightarrow> assertPosterior prior = Inl e
    | Inr post \<Rightarrow>
        assertPosterior post = Inr () \<and>
        num (alpha post) + num (beta_count post) = num (alpha prior) + num (beta_count prior) + 1 \<and>
        (if oc = Confirmed then posterior_mean prior < posterior_mean post
         else posterior_mean post < posterior_mean prior))"
proof (cases "assertPosterior prior")
  case (Inr u)
  then obtain x y where xy: "alpha prior = JNum x" "beta_count prior = JNum y" "0 < x" "0 < y"
    by (auto simp: assertPosterior_ok)
  then have "x / (x + y) < (x + 1) / (x + 1 + y)" and "x / (x + (y + 1)) < x / (x + y)"
    by (simp_all add: field_simps)
  with xy show ?thesis unfolding updateReliability_def Inr
    by (auto simp: assertPosterior_ok posterior_mean_def)
qed (simp add: updateReliability_def)

text \<open>Inactivity decay keeps each component between the posterior's and the cohort's.\<close>

lemma shrinkToward_between:
  assumes "shrinkToward q c f = Inr r"
  shows "assertPosterior r = Inr () \<and>
     min (num (alpha q)) (num (alpha c)) \<le> num (alpha r) \<and> num (alpha r) \<le> max (num (alpha q)) (num (alpha c))"
proof -
  from assms obtain x y x' y' t where v: "alpha q = JNum x" "beta_count q = JNum y" "0 < x" "0 < y"
    "alpha c = JNum x'" "beta_count c = JNum y'" "0 < x'" "0 < y'" "f = JNum t" "0 \<le> t" "t \<le> 1"
    by (cases f) (auto simp: shrinkToward_def assertPosterior_ok js_le_def)
  have conv: "min a b \<le> b + t * (a - b) \<and> b + t * (a - b) \<le> max a b" for a b :: real
  proof -
    have "b + t * (a - b) = t * a + (1 - t) * b" by (simp add: algebra_simps)
    moreover have "t * a + (1 - t) * b \<le> t * max a b + (1 - t) * max a b"
      and "t * min a b + (1 - t) * min a b \<le> t * a + (1 - t) * b"
      using v(10,11) by (auto intro!: add_mono mult_left_mono)
    ultimately show ?thesis by (simp add: algebra_simps)
  qed
  have "0 < x' + t * (x - x')" "0 < y' + t * (y - y')"
  proof -
    have "0 < min x x'" and "0 < min y y'" using v by auto
    with conv show "0 < x' + t * (x - x')" "0 < y' + t * (y - y')" by (meson less_le_trans)+
  qed
  moreover have "r = \<lparr>alpha = JNum (x' + t * (x - x')), beta_count = JNum (y' + t * (y - y'))\<rparr>"
    using assms v by (auto simp: shrinkToward_def)
  ultimately show ?thesis using v conv [of x x'] by (simp add: assertPosterior_ok)
qed

end
