(* ===== verification/Codec.thy ===== *)
theory Codec
  imports OC_Prelude "HOL-Library.Word"
begin

unbundle bit_operations_syntax

text \<open>
  What the wire codecs of the code share: bytes, positional numerals (the BigInt loops of
  base58btc and of the signature canonicalisation) and the interface \<open>strict_codec\<close> of an encoder
  whose decoder accepts exactly what it writes. The codecs themselves are in \<open>Base64Url\<close>,
  \<open>Multibase\<close>, \<open>LowS\<close> and \<open>Identity\<close>.
\<close>

type_synonym byte = "8 word"

subsection \<open>Codecs that accept one text per value\<close>

locale strict_codec =
  fixes enc :: "'a \<Rightarrow> 'b"
    and dec :: "'b \<Rightarrow> js_error + 'a"
    and valid :: "'a \<Rightarrow> bool"
  assumes dec_enc: "valid x \<Longrightarrow> dec (enc x) = Inr x"
    and dec_sound: "dec t = Inr x \<Longrightarrow> valid x \<and> enc x = t"
begin

lemma enc_inj:
  assumes "valid x" and "valid y" and "enc x = enc y"
  shows "x = y"
proof -
  have "Inr x = dec (enc x)" using dec_enc [OF assms(1)] ..
  also have "\<dots> = Inr y" unfolding assms(3) by (rule dec_enc [OF assms(2)])
  finally show ?thesis by simp
qed

lemma dec_canonical:
  assumes "dec s = Inr x" and "dec t = Inr x"
  shows "s = t"
  using dec_sound [OF assms(1)] dec_sound [OF assms(2)] by simp

lemma accepts_iff: "isOk (dec t) \<longleftrightarrow> (\<exists>x. valid x \<and> t = enc x)"
proof
  assume "isOk (dec t)"
  then obtain x where "dec t = Inr x" by (auto simp: isOk_iff)
  from dec_sound [OF this] show "\<exists>x. valid x \<and> t = enc x" by auto
next
  assume "\<exists>x. valid x \<and> t = enc x"
  then show "isOk (dec t)" using dec_enc by auto
qed

end

subsection \<open>Positional numerals\<close>

text \<open>The value of a big-endian digit list, as the loops \<open>value = value * b + digit\<close> compute it.\<close>

definition value_of :: "nat \<Rightarrow> nat list \<Rightarrow> nat" where
  "value_of b ds = foldl (\<lambda>v d. v * b + d) 0 ds"

lemma value_of_simps [simp]:
  "value_of b [] = 0" "value_of b (ds @ [d]) = value_of b ds * b + d"
  by (simp_all add: value_of_def)

lemma value_of_Cons: "value_of b (d # ds) = d * b ^ length ds + value_of b ds"
proof (induction ds rule: rev_induct)
  case (snoc x xs)
  have "value_of b (d # xs @ [x]) = value_of b ((d # xs) @ [x])" by simp
  also have "\<dots> = value_of b (d # xs) * b + x" by (simp only: value_of_simps)
  finally show ?case using snoc by (simp add: algebra_simps)
qed (simp add: value_of_def)

lemma value_of_zeros [simp]: "value_of b (replicate n 0 @ ds) = value_of b ds"
  by (induction n) (simp_all add: value_of_Cons)

lemma value_of_bound: "\<forall>d \<in> set ds. d < b \<Longrightarrow> value_of b ds < b ^ length ds"
proof (induction ds rule: rev_induct)
  case (snoc d ds)
  then have "value_of b ds + 1 \<le> b ^ length ds" and "d < b" by (auto simp: Suc_le_eq)
  then have "(value_of b ds + 1) * b \<le> b ^ length ds * b" by (intro mult_right_mono) auto
  with \<open>d < b\<close> show ?case by (simp add: algebra_simps)
qed simp

text \<open>The digits of a number, most significant first, none for zero: the loops
  \<open>while (value > 0n)\<close> that peel digits off the low end.\<close>

function digits_of :: "nat \<Rightarrow> nat \<Rightarrow> nat list" where
  "digits_of b n = (if n = 0 \<or> b < 2 then [] else digits_of b (n div b) @ [n mod b])"
  by pat_completeness auto
termination by (relation "measure (\<lambda>(b, n). n)") auto

declare digits_of.simps [simp del]

lemma digits_of_zero [simp]: "digits_of b 0 = []"
  by (simp add: digits_of.simps)

lemma digits_of_step: "2 \<le> b \<Longrightarrow> 0 < n \<Longrightarrow> digits_of b n = digits_of b (n div b) @ [n mod b]"
  by (subst digits_of.simps) simp

lemma digits_of_lt: "2 \<le> b \<Longrightarrow> d \<in> set (digits_of b n) \<Longrightarrow> d < b"
  by (induction b n rule: digits_of.induct) (subst (asm) (2) digits_of.simps, auto split: if_splits)

lemma value_of_digits: "2 \<le> b \<Longrightarrow> value_of b (digits_of b n) = n"
proof (induction b n rule: digits_of.induct)
  case (1 b n)
  then show ?case by (cases "n = 0") (simp_all add: digits_of_step)
qed

lemma digits_of_hd: "2 \<le> b \<Longrightarrow> 0 < n \<Longrightarrow> digits_of b n \<noteq> [] \<and> hd (digits_of b n) \<noteq> 0"
proof (induction b n rule: digits_of.induct)
  case (1 b n)
  show ?case
  proof (cases "n div b = 0")
    case True
    with "1.prems" have "n mod b = n" by (simp add: div_eq_0_iff)
    with True "1.prems" show ?thesis by (simp add: digits_of_step)
  next
    case False
    with "1.prems" have "digits_of b (n div b) \<noteq> [] \<and> hd (digits_of b (n div b)) \<noteq> 0"
      by (intro "1.IH") auto
    moreover have "digits_of b n = digits_of b (n div b) @ [n mod b]"
      using "1.prems" by (rule digits_of_step)
    ultimately show ?thesis by (simp only: hd_append2 append_is_Nil_conv) simp
  qed
qed

lemma digits_no_leading_zero: "2 \<le> b \<Longrightarrow> takeWhile (\<lambda>d. d = 0) (digits_of b n) = []"
proof (cases "n = 0")
  case False
  assume "2 \<le> b"
  with False digits_of_hd [of b n] show ?thesis by (cases "digits_of b n") auto
qed simp

lemma digits_of_value:
  assumes "2 \<le> b" and "\<forall>d \<in> set ds. d < b"
  shows "digits_of b (value_of b ds) = dropWhile (\<lambda>d. d = 0) ds"
  using assms(2)
proof (induction ds rule: rev_induct)
  case (snoc d ds)
  then have d: "d < b" and ih: "digits_of b (value_of b ds) = dropWhile (\<lambda>d. d = 0) ds" by auto
  show ?case
  proof (cases "value_of b ds * b + d = 0")
    case True
    then have "value_of b ds = 0" and "d = 0" using assms(1) by auto
    with ih have "dropWhile (\<lambda>d. d = 0) ds = []" by simp
    moreover have "value_of b (ds @ [d]) = 0" using True by simp
    ultimately show ?thesis using \<open>d = 0\<close> by (simp only: digits_of_zero) (simp add: dropWhile_append)
  next
    case False
    have "(value_of b ds * b + d) div b = value_of b ds" and "(value_of b ds * b + d) mod b = d"
      using d assms(1) by (simp_all add: div_mult_self3)
    with False assms(1) have digits: "digits_of b (value_of b (ds @ [d])) = dropWhile (\<lambda>d. d = 0) ds @ [d]"
      by (simp add: digits_of_step ih)
    have "value_of b ds = 0 \<longleftrightarrow> dropWhile (\<lambda>d. d = 0) ds = []"
      using ih digits_of_hd [OF assms(1), of "value_of b ds"] by (cases "value_of b ds = 0") auto
    with False digits assms(1) show ?thesis
      by (cases "value_of b ds = 0") (auto simp: dropWhile_append dropWhile_eq_Nil_conv)
  qed
qed simp

lemma takeWhile_zeros: "takeWhile (\<lambda>d. d = 0) ds = replicate (length (takeWhile (\<lambda>d. d = (0::nat)) ds)) 0"
  by (induction ds) auto

lemma leading_zeros: "replicate (length (takeWhile (\<lambda>d. d = (0::nat)) ds)) 0 @ dropWhile (\<lambda>d. d = 0) ds = ds"
  by (metis takeWhile_dropWhile_id takeWhile_zeros)

subsection \<open>Bytes as numbers\<close>

text \<open>\<open>value = (value << 8n) | BigInt(byte)\<close> for each byte, big-endian.\<close>

definition bytesToBigInt :: "byte list \<Rightarrow> nat" where
  "bytesToBigInt bytes = foldl (\<lambda>v w. push_bit 8 v OR unat w) 0 bytes"

lemma shift_or: "d < 256 \<Longrightarrow> push_bit 8 v OR d = v * 256 + (d::nat)"
proof -
  assume "d < 256"
  then have d: "take_bit 8 d = d" by (simp add: take_bit_nat_eq_self)
  have "push_bit 8 v AND take_bit 8 d = 0" by (rule bit_eqI) (auto simp: bit_simps)
  then have "push_bit 8 v OR d = push_bit 8 v + d" using d by (simp add: disjunctive_add_eq_or)
  then show ?thesis by (simp add: push_bit_eq_mult)
qed

lemma unat_byte_lt: "unat (w :: byte) < 256"
  using unsigned_less [of w] by simp

lemma bytesToBigInt_value: "bytesToBigInt bytes = value_of 256 (map unat bytes)"
proof -
  have "foldl (\<lambda>v w. push_bit 8 v OR unat w) a bytes = foldl (\<lambda>v d. v * 256 + d) a (map unat bytes)" for a
    by (induction bytes arbitrary: a) (simp_all add: shift_or unat_byte_lt)
  then show ?thesis by (simp add: bytesToBigInt_def value_of_def)
qed

lemma bytesToBigInt_lt: "bytesToBigInt bytes < 256 ^ length bytes"
  using value_of_bound [of "map unat bytes" 256] by (auto simp: bytesToBigInt_value unat_byte_lt)

text \<open>\<open>digits.unshift(Number(value & 0xffn)); value >>= 8n\<close> while there is a value.\<close>

definition bigIntBytes :: "nat \<Rightarrow> byte list" where
  "bigIntBytes n = map of_nat (digits_of 256 n)"

lemma unat_of_digit: "d < 256 \<Longrightarrow> unat (of_nat d :: byte) = d"
  by (simp add: unat_of_nat)

lemma map_unat_bigIntBytes: "map unat (bigIntBytes n) = digits_of 256 n"
  unfolding bigIntBytes_def map_map
  by (rule map_idI) (auto simp: unat_of_digit digits_of_lt)

lemma bytesToBigInt_bigIntBytes: "bytesToBigInt (bigIntBytes n) = n"
  by (simp add: bytesToBigInt_value map_unat_bigIntBytes value_of_digits)

end
