(* ===== verification/Base64Url.thy ===== *)
theory Base64Url
  imports Codec
begin

text \<open>
  The unpadded base64url codec of packages/contrib-core/src/base64url.ts, which carries every
  signature and key id of the crowd reports. A Uint8Array is a list of 8-bit words; \<open>b2 ?? 0\<close> of a
  byte past the end is an option.
\<close>

definition ALPHABET :: string where
  "ALPHABET = ''ABCDEFGHIJKLMNOPQRSTUVWXYZabcdefghijklmnopqrstuvwxyz0123456789-_''"

definition REVERSE :: "char \<rightharpoonup> byte" where
  "REVERSE = map_of (zip ALPHABET (map of_nat [0..<64]))"

definition digit_char :: "byte \<Rightarrow> char" where
  "digit_char v = ALPHABET ! unat v"

definition encode_group :: "byte \<Rightarrow> byte option \<Rightarrow> byte option \<Rightarrow> string" where
  "encode_group b0 b1 b2 =
     [digit_char (drop_bit 2 b0),
      digit_char (push_bit 4 (b0 AND 3) OR drop_bit 4 (case b1 of None \<Rightarrow> 0 | Some x \<Rightarrow> x))] @
     (case b1 of None \<Rightarrow> []
      | Some x \<Rightarrow> [digit_char (push_bit 2 (x AND 15) OR drop_bit 6 (case b2 of None \<Rightarrow> 0 | Some y \<Rightarrow> y))]) @
     (case b2 of None \<Rightarrow> [] | Some y \<Rightarrow> [digit_char (y AND 63)])"

fun toBase64Url :: "byte list \<Rightarrow> string" where
  "toBase64Url [] = []"
| "toBase64Url [b0] = encode_group b0 None None"
| "toBase64Url [b0, b1] = encode_group b0 (Some b1) None"
| "toBase64Url (b0 # b1 # b2 # rest) = encode_group b0 (Some b1) (Some b2) @ toBase64Url rest"

definition lookup_char :: "char \<Rightarrow> js_error + byte" where
  "lookup_char c = (case REVERSE c of
     None \<Rightarrow> Inl (TypeError ''invalid base64url character'') | Some v \<Rightarrow> Inr v)"

definition trailing_error :: js_error where
  "trailing_error = TypeError ''non-canonical base64url trailing bits''"

text \<open>One group of two to four digits; the length check has excluded a group of one.\<close>

fun decode_values :: "byte list \<Rightarrow> js_error + byte list" where
  "decode_values [c0, c1] =
     (if c1 AND 15 \<noteq> 0 then Inl trailing_error else Inr [push_bit 2 c0 OR drop_bit 4 c1])"
| "decode_values [c0, c1, c2] =
     (if c2 AND 3 \<noteq> 0 then Inl trailing_error
      else Inr [push_bit 2 c0 OR drop_bit 4 c1, push_bit 4 (c1 AND 15) OR drop_bit 2 c2])"
| "decode_values [c0, c1, c2, c3] =
     Inr [push_bit 2 c0 OR drop_bit 4 c1, push_bit 4 (c1 AND 15) OR drop_bit 2 c2,
          push_bit 6 (c2 AND 3) OR c3]"
| "decode_values _ = Inl (TypeError ''invalid base64url input'')"

fun decode_groups :: "string \<Rightarrow> js_error + byte list" where
  "decode_groups [] = Inr []"
| "decode_groups (c # cs) =
     bindE (mapE lookup_char (take 4 (c # cs))) (\<lambda>values.
     bindE (decode_values values) (\<lambda>bytes.
     bindE (decode_groups (drop 3 cs)) (\<lambda>rest. Inr (bytes @ rest))))"

definition fromBase64Url :: "string \<Rightarrow> js_error + byte list" where
  "fromBase64Url text =
     (if length text mod 4 = 1 then Inl (TypeError ''invalid base64url input'')
      else decode_groups text)"

subsection \<open>The alphabet\<close>

lemma ALPHABET_length [simp]: "length ALPHABET = 64"
  by (simp add: ALPHABET_def)

lemma ALPHABET_distinct: "distinct ALPHABET"
  by code_simp

lemma REVERSE_digit_char: "unat v < 64 \<Longrightarrow> REVERSE (digit_char v) = Some v"
  using ALPHABET_distinct
  by (simp add: REVERSE_def digit_char_def map_of_zip_nth)

lemma REVERSE_Some: "REVERSE c = Some v \<Longrightarrow> unat v < 64 \<and> digit_char v = c"
proof -
  assume "REVERSE c = Some v"
  then have "(c, v) \<in> set (zip ALPHABET (map of_nat [0..<64]))"
    unfolding REVERSE_def by (rule map_of_SomeD)
  then obtain i where "i < 64" and "c = ALPHABET ! i" and "v = of_nat i"
    by (auto simp: set_zip)
  then show ?thesis by (simp add: digit_char_def unat_of_nat)
qed

lemma lookup_char_Inr: "lookup_char c = Inr v \<longleftrightarrow> unat v < 64 \<and> digit_char v = c"
  using REVERSE_Some REVERSE_digit_char by (auto simp: lookup_char_def split: option.splits)

lemma lookup_digit_char [simp]: "unat v < 64 \<Longrightarrow> lookup_char (digit_char v) = Inr v"
  by (simp add: lookup_char_Inr)

subsection \<open>Bits of a group\<close>

lemma masks:
  "(x :: byte) AND 3 = take_bit 2 x" "x AND 15 = take_bit 4 x" "x AND 63 = take_bit 6 x"
  by (simp_all add: take_bit_eq_mask mask_eq_exp_minus_1)

lemma byte_bit: "bit (x :: byte) n \<Longrightarrow> n < 8"
  using bit_imp_le_length [of x n] by simp

lemma byte_bit_high [simp]: "8 \<le> n \<Longrightarrow> \<not> bit (x :: byte) n"
  using byte_bit [of x n] by auto

lemma six_bits: "unat v < 64 \<longleftrightarrow> take_bit 6 v = (v :: byte)"
proof -
  have "take_bit 6 v = v \<longleftrightarrow> take_bit 6 (unat v) = unat v"
    by (metis unsigned_take_bit_eq unsigned_word_eqI)
  then show ?thesis by (simp add: take_bit_nat_eq_self_iff)
qed

lemma six_bits_high: "take_bit 6 v = (v :: byte) \<longleftrightarrow> (\<forall>n. bit v n \<longrightarrow> n < 6)"
  using byte_bit [of v] by (auto simp: bit_eq_iff bit_simps)

lemma digits_six:
  "unat (drop_bit 2 b0 :: byte) < 64"
  "unat (push_bit 4 (b0 AND 3) OR drop_bit 4 b1 :: byte) < 64"
  "unat (push_bit 2 (b1 AND 15) OR drop_bit 6 b2 :: byte) < 64"
  "unat (b2 AND 63 :: byte) < 64"
  unfolding six_bits six_bits_high masks by (auto simp: bit_simps dest!: byte_bit)

lemma add_diff_max: "k + (n - k) = max k (n::nat)"
  by simp

lemma decode_encoded:
  "push_bit 2 (drop_bit 2 b0) OR drop_bit 4 (push_bit 4 (b0 AND 3) OR drop_bit 4 b1) = (b0 :: byte)"
  "push_bit 4 ((push_bit 4 (b0 AND 3) OR drop_bit 4 b1) AND 15)
     OR drop_bit 2 (push_bit 2 (b1 AND 15) OR drop_bit 6 b2) = (b1 :: byte)"
  "push_bit 6 ((push_bit 2 (b1 AND 15) OR drop_bit 6 b2) AND 3) OR (b2 AND 63) = (b2 :: byte)"
  "(push_bit 4 (b0 AND 3) :: byte) AND 15 = 0" "(push_bit 2 (b1 AND 15) :: byte) AND 3 = 0"
  unfolding masks
  by (rule bit_word_eqI, auto simp: bit_simps add_diff_max max_def not_le simp del: add_2_eq_Suc add_2_eq_Suc' split: if_splits)+

lemma encode_decoded:
  assumes "take_bit 6 c0 = (c0 :: byte)" "take_bit 6 c1 = c1" "take_bit 6 c2 = c2" "take_bit 6 c3 = c3"
  shows "drop_bit 2 (push_bit 2 c0 OR drop_bit 4 c1) = c0"
    and "push_bit 4 ((push_bit 2 c0 OR drop_bit 4 c1) AND 3)
      OR drop_bit 4 (push_bit 4 (c1 AND 15) OR drop_bit 2 c2) = c1"
    and "push_bit 2 ((push_bit 4 (c1 AND 15) OR drop_bit 2 c2) AND 15)
      OR drop_bit 6 (push_bit 6 (c2 AND 3) OR c3) = c2"
    and "(push_bit 6 (c2 AND 3) OR c3) AND 63 = c3"
    and "c1 AND 15 = 0 \<Longrightarrow> push_bit 4 ((push_bit 2 c0 OR drop_bit 4 c1) AND 3) = c1"
    and "c2 AND 3 = 0 \<Longrightarrow> push_bit 2 ((push_bit 4 (c1 AND 15) OR drop_bit 2 c2) AND 15) = c2"
proof -
  have c: "bit c0 n \<Longrightarrow> n < 6" "bit c1 n \<Longrightarrow> n < 6" "bit c2 n \<Longrightarrow> n < 6" "bit c3 n \<Longrightarrow> n < 6" for n
    using assms by (auto simp: six_bits_high)
  note bits = bit_simps add_diff_max max_def not_le
  show "drop_bit 2 (push_bit 2 c0 OR drop_bit 4 c1) = c0"
    by (rule bit_word_eqI) (auto simp: bits simp del: add_2_eq_Suc add_2_eq_Suc' dest: c)
  show "push_bit 4 ((push_bit 2 c0 OR drop_bit 4 c1) AND 3)
      OR drop_bit 4 (push_bit 4 (c1 AND 15) OR drop_bit 2 c2) = c1"
    unfolding masks by (rule bit_word_eqI) (auto simp: bits simp del: add_2_eq_Suc add_2_eq_Suc' split: if_splits dest: c)
  show "push_bit 2 ((push_bit 4 (c1 AND 15) OR drop_bit 2 c2) AND 15)
      OR drop_bit 6 (push_bit 6 (c2 AND 3) OR c3) = c2"
    unfolding masks by (rule bit_word_eqI) (auto simp: bits simp del: add_2_eq_Suc add_2_eq_Suc' split: if_splits dest: c)
  show "(push_bit 6 (c2 AND 3) OR c3) AND 63 = c3"
    unfolding masks by (rule bit_word_eqI) (auto simp: bits dest: c)
  show "push_bit 4 ((push_bit 2 c0 OR drop_bit 4 c1) AND 3) = c1" if "c1 AND 15 = 0"
  proof -
    have low: "\<not> bit c1 n" if "n < 4" for n
      using that \<open>c1 AND 15 = 0\<close> unfolding masks by (auto simp: bit_eq_iff bit_simps)
    show ?thesis
      unfolding masks by (rule bit_word_eqI)
        (use low c in \<open>fastforce simp: bits split: if_splits\<close>)
  qed
  show "push_bit 2 ((push_bit 4 (c1 AND 15) OR drop_bit 2 c2) AND 15) = c2" if "c2 AND 3 = 0"
  proof -
    have low: "\<not> bit c2 n" if "n < 2" for n
      using that \<open>c2 AND 3 = 0\<close> unfolding masks by (auto simp: bit_eq_iff bit_simps)
    show ?thesis
      unfolding masks by (rule bit_word_eqI)
        (use low c in \<open>fastforce simp: bits simp del: add_2_eq_Suc add_2_eq_Suc' split: if_splits\<close>)
  qed
qed


subsection \<open>Round trips\<close>

lemma fromBase64Url_error_free:
  "decode_values [c0, c1] = Inr bs \<longleftrightarrow> c1 AND 15 = 0 \<and> bs = [push_bit 2 c0 OR drop_bit 4 c1]"
  "decode_values [c0, c1, c2] = Inr bs \<longleftrightarrow> c2 AND 3 = 0 \<and>
     bs = [push_bit 2 c0 OR drop_bit 4 c1, push_bit 4 (c1 AND 15) OR drop_bit 2 c2]"
  by auto

lemma toBase64Url_length: "length (toBase64Url bs) mod 4 \<noteq> 1"
  by (induction bs rule: toBase64Url.induct) (simp_all add: encode_group_def)

lemma decode_groups_toBase64Url: "decode_groups (toBase64Url bs) = Inr bs"
proof (induction bs rule: toBase64Url.induct)
  case (2 b0)
  have "push_bit 2 (drop_bit 2 b0) OR drop_bit 4 (push_bit 4 (b0 AND 3)) = b0"
    using decode_encoded(1) [of b0 0] by (simp only: drop_bit_of_0 or.right_neutral)
  moreover have "unat (push_bit 4 (b0 AND 3)) < 64"
    using digits_six(2) [of b0 0] by (simp only: drop_bit_of_0 or.right_neutral)
  ultimately show ?case using digits_six(1) [of b0]
    by (simp add: encode_group_def decode_encoded(4) del: push_bit_and)
next
  case (3 b0 b1)
  have "push_bit 4 ((push_bit 4 (b0 AND 3) OR drop_bit 4 b1) AND 15) OR drop_bit 2 (push_bit 2 (b1 AND 15)) = b1"
    using decode_encoded(2) [of b0 b1 0] by (simp only: drop_bit_of_0 or.right_neutral)
  moreover have "unat (push_bit 2 (b1 AND 15)) < 64"
    using digits_six(3) [of b1 0] by (simp only: drop_bit_of_0 or.right_neutral)
  ultimately show ?case using digits_six(1) [of b0] digits_six(2) [of b0 b1] decode_encoded(1) [of b0 b1]
    by (simp add: encode_group_def decode_encoded(5) del: push_bit_and bit.conj_disj_distrib2)
next
  case (4 b0 b1 b2 rest)
  then show ?case
    using digits_six(1) [of b0] digits_six(2) [of b0 b1] digits_six(3) [of b1 b2] digits_six(4) [of b2]
      decode_encoded(1) [of b0 b1] decode_encoded(2) [of b0 b1 b2] decode_encoded(3) [of b1 b2]
    by (simp add: encode_group_def del: push_bit_and)
qed simp

theorem base64url_roundtrip: "fromBase64Url (toBase64Url bs) = Inr bs"
  using toBase64Url_length decode_groups_toBase64Url by (simp add: fromBase64Url_def)

lemma mapE_lookup: "mapE lookup_char cs = Inr vs \<longleftrightarrow> (\<forall>v \<in> set vs. unat v < 64) \<and> cs = map digit_char vs"
proof (induction cs arbitrary: vs)
  case (Cons c cs)
  then show ?case by (cases vs) (auto simp: bindE_eq_Inr lookup_char_Inr)
qed auto

lemma group_cases:
  assumes "decode_values vs = Inr bs"
  obtains c0 c1 where "vs = [c0, c1]" | c0 c1 c2 where "vs = [c0, c1, c2]"
    | c0 c1 c2 c3 where "vs = [c0, c1, c2, c3]"
  using assms by (cases vs rule: decode_values.cases) auto

lemma toBase64Url_decode_groups: "decode_groups t = Inr bs \<Longrightarrow> toBase64Url bs = t"
proof (induction t arbitrary: bs rule: decode_groups.induct)
  case (2 c cs)
  from "2.prems" obtain vs ws rest
    where vs: "mapE lookup_char (take 4 (c # cs)) = Inr vs" and ws: "decode_values vs = Inr ws"
      and rest: "decode_groups (drop 3 cs) = Inr rest" and bs: "bs = ws @ rest" by auto
  have ih: "toBase64Url rest = drop 3 cs" using "2.IH" [OF vs ws rest] .
  have vals: "\<forall>v \<in> set vs. take_bit 6 v = v" and taken: "take 4 (c # cs) = map digit_char vs"
    using vs unfolding mapE_lookup six_bits by simp_all
  have whole: "c # cs = map digit_char vs @ drop 3 cs"
    using append_take_drop_id [of 4 "c # cs"] unfolding taken by simp
  have short: "rest = []" if "length vs < 4"
  proof -
    have "length (take 4 (c # cs)) < 4" using that taken by simp
    then have "drop 3 cs = []" by simp
    with rest show ?thesis by simp
  qed
  have "toBase64Url bs = map digit_char vs @ drop 3 cs"
  proof (cases rule: group_cases [OF ws])
    case (1 c0 c1)
    with ws have c1: "c1 AND 15 = 0" and ws': "ws = [push_bit 2 c0 OR drop_bit 4 c1]"
      by (simp_all only: fromBase64Url_error_free)
    note enc = encode_decoded(1) [of c0 c1 0 0] encode_decoded(5) [of c0 c1 0 0]
    have "toBase64Url ws = [digit_char c0, digit_char c1]"
      unfolding ws' toBase64Url.simps encode_group_def option.case drop_bit_of_0 or.right_neutral
      using vals 1 c1 by (simp only: enc list.set ball_simps take_bit_of_0 append.simps)
    with 1 short bs ih show ?thesis by simp
  next
    case (2 c0 c1 c2)
    with ws have c2: "c2 AND 3 = 0"
      and ws': "ws = [push_bit 2 c0 OR drop_bit 4 c1, push_bit 4 (c1 AND 15) OR drop_bit 2 c2]"
      by (simp_all only: fromBase64Url_error_free)
    note enc = encode_decoded(1,2,6) [of c0 c1 c2 0]
    have "toBase64Url ws = [digit_char c0, digit_char c1, digit_char c2]"
      unfolding ws' toBase64Url.simps encode_group_def option.case drop_bit_of_0 or.right_neutral
      using vals 2 c2 by (simp only: enc list.set ball_simps take_bit_of_0 append.simps)
    with 2 short bs ih show ?thesis by simp
  next
    case (3 c0 c1 c2 c3)
    with ws have ws': "ws = [push_bit 2 c0 OR drop_bit 4 c1, push_bit 4 (c1 AND 15) OR drop_bit 2 c2,
        push_bit 6 (c2 AND 3) OR c3]"
      by (simp only: decode_values.simps sum.inject)
    note enc = encode_decoded(1-4) [of c0 c1 c2 c3]
    have "toBase64Url (ws @ rest) = [digit_char c0, digit_char c1, digit_char c2, digit_char c3] @ toBase64Url rest"
      unfolding ws' append.simps toBase64Url.simps encode_group_def option.case
      using vals 3 by (simp only: enc list.set ball_simps append.simps)
    with 3 bs ih show ?thesis by simp
  qed
  with whole show ?case by simp
qed simp

interpretation base64url: strict_codec toBase64Url fromBase64Url "\<lambda>_. True"
proof
  show "fromBase64Url (toBase64Url bs) = Inr bs" for bs by (rule base64url_roundtrip)
  show "True \<and> toBase64Url bs = t" if "fromBase64Url t = Inr bs" for t bs
    using that toBase64Url_decode_groups by (auto simp: fromBase64Url_def split: if_splits)
qed

text \<open>The decoder of the signatures accepts exactly the texts the encoder writes: it inverts
  the encoder on every byte array, and whatever it accepts is the one encoding of its result, so
  no two texts (set trailing bits, padding, another alphabet) decode to the same bytes.\<close>

theorem base64url_canonical:
  "fromBase64Url t = Inr bs \<longleftrightarrow> t = toBase64Url bs"
  using base64url.dec_enc base64url.dec_sound by auto

end
