(* ===== verification/LowS.thy ===== *)
theory LowS
  imports Codec
begin

text \<open>
  The low-S signature canonicalisation of packages/contrib-core/src/lowS.ts: a P-256 signature
  \<open>(r, s)\<close> and its twin \<open>(r, n - s)\<close> both verify, the code normalises to the low one and accepts
  no other. A BigInt is a natural number, a raw signature a list of 64 bytes.
\<close>

definition P256_ORDER :: nat where
  "P256_ORDER = 0xffffffff00000000ffffffffffffffffbce6faada7179e84f3b9cac2fc632551"

definition P256_HALF_ORDER :: nat where
  "P256_HALF_ORDER = drop_bit 1 P256_ORDER"

text \<open>The loop counts \<open>i\<close> down from \<open>offset + 31\<close>; \<open>k\<close> bytes are still to write. A write past the
  end of a typed array is ignored, as a list update is.\<close>

fun write_from :: "nat \<Rightarrow> nat \<Rightarrow> byte list \<Rightarrow> nat \<Rightarrow> byte list" where
  "write_from 0 rest target offset = target"
| "write_from (Suc k) rest target offset =
     write_from k (drop_bit 8 rest) (target[offset + k := of_nat (rest AND 255)]) offset"

definition writeBigIntTo32 :: "nat \<Rightarrow> byte list \<Rightarrow> nat \<Rightarrow> byte list" where
  "writeBigIntTo32 value target offset = write_from 32 value target offset"

definition normalizeLowS :: "byte list \<Rightarrow> js_error + byte list" where
  "normalizeLowS raw =
     (if length raw \<noteq> 64 then Inl (TypeError ''normalizeLowS requires a raw 64-byte r||s signature'')
      else let s = bytesToBigInt (drop 32 raw) in
        if s \<le> P256_HALF_ORDER then Inr raw
        else Inr (writeBigIntTo32 (P256_ORDER - s) raw 32))"

definition assertCanonicalSignature :: "byte list \<Rightarrow> js_error + unit" where
  "assertCanonicalSignature raw =
     (let r = bytesToBigInt (take 32 raw); s = bytesToBigInt (drop 32 raw) in
      if r = 0 \<or> r \<ge> P256_ORDER
      then Inl (TypeError ''non-canonical signature: r must be in [1, n-1]'')
      else if s = 0 then Inl (TypeError ''non-canonical signature: s must be in [1, n/2]'')
      else if s > P256_HALF_ORDER
      then Inl (TypeError ''non-canonical signature: high-S form (s > n/2); only the low-S twin is accepted'')
      else Inr ())"

subsection \<open>Fixed-width numerals\<close>

fun be_bytes :: "nat \<Rightarrow> nat \<Rightarrow> byte list" where
  "be_bytes 0 n = []"
| "be_bytes (Suc k) n = be_bytes k (n div 256) @ [of_nat (n mod 256)]"

lemma be_bytes_length [simp]: "length (be_bytes k n) = k"
  by (induction k arbitrary: n) simp_all

lemma be_bytes_value: "bytesToBigInt (be_bytes k n) = n mod 256 ^ k"
proof (induction k arbitrary: n)
  case (Suc k)
  have "bytesToBigInt (be_bytes (Suc k) n) = (n div 256 mod 256 ^ k) * 256 + n mod 256"
    using Suc by (simp add: bytesToBigInt_value unat_of_digit)
  then show ?case by (simp add: mod_mult2_eq mult.commute)
qed (simp add: bytesToBigInt_def)

lemma be_bytes_bytesToBigInt: "be_bytes (length bs) (bytesToBigInt bs) = bs"
proof (induction bs rule: rev_induct)
  case (snoc b bs)
  have "bytesToBigInt (bs @ [b]) = bytesToBigInt bs * 256 + unat b"
    by (simp add: bytesToBigInt_value)
  then have "bytesToBigInt (bs @ [b]) div 256 = bytesToBigInt bs"
    and "bytesToBigInt (bs @ [b]) mod 256 = unat b"
    using unat_byte_lt [of b] by simp_all
  with snoc show ?case by simp
qed simp

lemma write_from_eq:
  "offset + k \<le> length target \<Longrightarrow>
   write_from k rest target offset = take offset target @ be_bytes k rest @ drop (offset + k) target"
proof (induction k arbitrary: rest target)
  case (Suc k)
  have byte: "rest AND 255 = rest mod 256" and shift: "drop_bit 8 rest = rest div 256"
    using take_bit_eq_mask [of 8 rest]
    by (simp_all add: drop_bit_eq_div take_bit_eq_mod mask_eq_exp_minus_1)
  have "drop (offset + k) (target[offset + k := of_nat (rest mod 256)])
      = of_nat (rest mod 256) # drop (offset + Suc k) target"
    using Suc.prems by (simp add: drop_update_swap Cons_nth_drop_Suc [symmetric])
  with Suc show ?case by (simp add: byte shift)
qed simp


subsection \<open>Canonical signatures\<close>

text \<open>A well-formed signature has both numbers in \<open>[1, n - 1]\<close>; its twin is the other one that
  verifies under the same key.\<close>

definition sig_r :: "byte list \<Rightarrow> nat" where
  "sig_r raw = bytesToBigInt (take 32 raw)"

definition sig_s :: "byte list \<Rightarrow> nat" where
  "sig_s raw = bytesToBigInt (drop 32 raw)"

definition wf_signature :: "byte list \<Rightarrow> bool" where
  "wf_signature raw \<longleftrightarrow> length raw = 64 \<and> 0 < sig_r raw \<and> sig_r raw < P256_ORDER
     \<and> 0 < sig_s raw \<and> sig_s raw < P256_ORDER"

definition twin :: "byte list \<Rightarrow> byte list" where
  "twin raw = take 32 raw @ be_bytes 32 (P256_ORDER - sig_s raw)"

lemma order_lt: "P256_ORDER < 256 ^ 32"
  by (simp add: P256_ORDER_def)

lemma order_odd: "P256_ORDER = 2 * P256_HALF_ORDER + 1"
  by (simp add: P256_ORDER_def P256_HALF_ORDER_def drop_bit_eq_div)

lemma half_swap: "0 < s \<Longrightarrow> s < P256_ORDER \<Longrightarrow> P256_ORDER - s \<le> P256_HALF_ORDER \<longleftrightarrow> \<not> s \<le> P256_HALF_ORDER"
  using order_odd by linarith

lemma sig_twin:
  assumes "wf_signature raw"
  shows "sig_r (twin raw) = sig_r raw" "sig_s (twin raw) = P256_ORDER - sig_s raw" "wf_signature (twin raw)"
proof -
  have len: "length (take 32 raw) = 32" using assms by (simp add: wf_signature_def)
  show r: "sig_r (twin raw) = sig_r raw" using len by (simp add: sig_r_def twin_def)
  have "drop 32 (twin raw) = be_bytes 32 (P256_ORDER - sig_s raw)"
    using len by (simp add: twin_def)
  then have "sig_s (twin raw) = (P256_ORDER - sig_s raw) mod 256 ^ 32"
    by (simp only: sig_s_def [of "twin raw"] be_bytes_value)
  also have "\<dots> = P256_ORDER - sig_s raw"
    using order_lt by (intro mod_less) linarith
  finally show s: "sig_s (twin raw) = P256_ORDER - sig_s raw" .
  have "length (twin raw) = 64" using len by (simp add: twin_def)
  with assms r s show "wf_signature (twin raw)" unfolding wf_signature_def by linarith
qed

lemma assert_iff:
  "isOk (assertCanonicalSignature raw) \<longleftrightarrow>
     0 < sig_r raw \<and> sig_r raw < P256_ORDER \<and> 0 < sig_s raw \<and> sig_s raw \<le> P256_HALF_ORDER"
  by (auto simp: assertCanonicalSignature_def sig_r_def sig_s_def Let_def isOk_def)

lemma normalizeLowS_eq:
  "length raw = 64 \<Longrightarrow>
   normalizeLowS raw = Inr (if sig_s raw \<le> P256_HALF_ORDER then raw else twin raw)"
  by (simp add: normalizeLowS_def Let_def sig_s_def twin_def writeBigIntTo32_def write_from_eq)

lemma twin_twin: "wf_signature raw \<Longrightarrow> twin (twin raw) = raw"
proof -
  assume wf: "wf_signature raw"
  then have "P256_ORDER - sig_s (twin raw) = sig_s raw"
    using sig_twin [OF wf] unfolding wf_signature_def by linarith
  moreover have "be_bytes 32 (sig_s raw) = drop 32 raw"
    using be_bytes_bytesToBigInt [of "drop 32 raw"] wf by (simp add: sig_s_def wf_signature_def)
  moreover have "take 32 (twin raw) = take 32 raw"
    using wf by (simp add: twin_def wf_signature_def)
  ultimately show ?thesis unfolding twin_def [of "twin raw"] by simp
qed

text \<open>C7. Every well-formed signature has exactly one accepted form: of the signature and its
  twin the verifier accepts one and only one, so a third party cannot mint a second accepted
  signature of the same report.\<close>

theorem one_twin_accepted:
  assumes "wf_signature raw"
  shows "isOk (assertCanonicalSignature (twin raw)) \<longleftrightarrow> \<not> isOk (assertCanonicalSignature raw)"
  using assms half_swap [of "sig_s raw"] sig_twin [OF assms]
  by (auto simp: assert_iff wf_signature_def)

text \<open>Normalising a well-formed signature succeeds, keeps \<open>r\<close>, yields the signature or its
  twin in the form the verifier accepts, and normalising twice changes nothing.\<close>

theorem normalizeLowS_canonical:
  assumes "wf_signature raw"
  shows "\<exists>low. normalizeLowS raw = Inr low \<and> low \<in> {raw, twin raw} \<and> sig_r low = sig_r raw
    \<and> assertCanonicalSignature low = Inr () \<and> normalizeLowS low = Inr low
    \<and> normalizeLowS (twin raw) = Inr low"
proof -
  define low where "low = (if sig_s raw \<le> P256_HALF_ORDER then raw else twin raw)"
  note wf = assms [unfolded wf_signature_def] sig_twin [OF assms]
  have accepted: "isOk (assertCanonicalSignature low)"
    using wf half_swap [of "sig_s raw"] by (auto simp: low_def assert_iff)
  have low: "length low = 64" "sig_s low \<le> P256_HALF_ORDER"
    using wf accepted by (auto simp: low_def assert_iff wf_signature_def)
  have "normalizeLowS (twin raw) = Inr low"
    using wf twin_twin [OF assms] half_swap [of "sig_s raw"]
    by (auto simp: normalizeLowS_eq wf_signature_def low_def)
  moreover have "normalizeLowS raw = Inr low" "normalizeLowS low = Inr low"
    using wf low by (simp_all add: normalizeLowS_eq low_def)
  moreover have "low \<in> {raw, twin raw}" "sig_r low = sig_r raw" using wf by (auto simp: low_def)
  ultimately show ?thesis using accepted by (auto simp: isOk_iff)
qed

definition sample_signature :: "byte list" where
  "sample_signature = be_bytes 32 7 @ be_bytes 32 (P256_HALF_ORDER + 5)"

lemma wf_sample: "wf_signature sample_signature"
proof -
  have "sig_r sample_signature = 7"
    using be_bytes_value [of 32 7] by (simp add: sig_r_def sample_signature_def)
  moreover have "sig_s sample_signature = P256_HALF_ORDER + 5"
    using be_bytes_value [of 32 "P256_HALF_ORDER + 5"] order_lt order_odd
    by (simp add: sig_s_def sample_signature_def)
  ultimately show ?thesis
    by (simp add: wf_signature_def sample_signature_def P256_ORDER_def P256_HALF_ORDER_def drop_bit_eq_div)
qed

theorem one_twin_accepted_witness:
  "isOk (assertCanonicalSignature (twin sample_signature)) \<longleftrightarrow> \<not> isOk (assertCanonicalSignature sample_signature)"
  by (rule one_twin_accepted [OF wf_sample])

theorem normalizeLowS_canonical_witness:
  "\<exists>low. normalizeLowS sample_signature = Inr low \<and> assertCanonicalSignature low = Inr ()"
  using normalizeLowS_canonical [OF wf_sample] by blast

end
