(* ===== verification/Multibase.thy ===== *)
theory Multibase
  imports Codec
begin

text \<open>
  The base58btc and Multikey codecs of packages/federation/src/multibase.ts: how an instance's
  Ed25519 key becomes the string peers pin it by. A BigInt is a natural number; its digit loops
  are \<open>digits_of\<close> and \<open>value_of\<close> of \<open>Codec\<close>.
\<close>

definition BASE58_ALPHABET :: string where
  "BASE58_ALPHABET = ''123456789ABCDEFGHJKLMNPQRSTUVWXYZabcdefghijkmnopqrstuvwxyz''"

definition BASE58_INDEX :: "char \<rightharpoonup> nat" where
  "BASE58_INDEX = map_of (zip BASE58_ALPHABET [0..<58])"

definition ED25519_PUB_PREFIX :: "byte list" where
  "ED25519_PUB_PREFIX = [0xed, 0x01]"

definition ED25519_PUBLIC_KEY_BYTES :: nat where
  "ED25519_PUBLIC_KEY_BYTES = 32"

definition MAX_MULTIBASE_LENGTH :: nat where
  "MAX_MULTIBASE_LENGTH = 64"

definition base58btcEncode :: "byte list \<Rightarrow> string" where
  "base58btcEncode bytes =
     (let zeros = length (takeWhile (\<lambda>b. b = 0) bytes);
          value = bytesToBigInt bytes
      in replicate zeros (CHR ''1'') @ map (\<lambda>d. BASE58_ALPHABET ! d) (digits_of 58 value))"

definition base58_digit :: "char \<Rightarrow> js_error + nat" where
  "base58_digit c = (case BASE58_INDEX c of
     None \<Rightarrow> Inl (TypeError ''invalid base58btc character'') | Some d \<Rightarrow> Inr d)"

definition base58btcDecode :: "string \<Rightarrow> js_error + byte list" where
  "base58btcDecode t =
     (let zeros = length (takeWhile (\<lambda>c. c = CHR ''1'') t) in
      bindE (mapE base58_digit t) (\<lambda>digits.
      Inr (replicate zeros 0 @ bigIntBytes (value_of 58 digits))))"

definition multibaseFromRawEd25519 :: "byte list \<Rightarrow> js_error + string" where
  "multibaseFromRawEd25519 publicKey =
     (if length publicKey \<noteq> ED25519_PUBLIC_KEY_BYTES
      then Inl (TypeError ''expected a raw 32-byte Ed25519 public key'')
      else Inr (CHR ''z'' # base58btcEncode (ED25519_PUB_PREFIX @ publicKey)))"

text \<open>\<open>decoded[0] !== 0xed || decoded[1] !== 0x01\<close> also holds of an array shorter than two bytes,
  as the comparison of the taken prefix does.\<close>

definition rawEd25519FromMultibase :: "string \<Rightarrow> js_error + byte list" where
  "rawEd25519FromMultibase multibase =
     (if length multibase > MAX_MULTIBASE_LENGTH
      then Inl (TypeError ''publicKeyMultibase too long'')
      else if take 1 multibase \<noteq> ''z''
      then Inl (TypeError ''publicKeyMultibase must be base58btc (leading 'z')'')
      else bindE (base58btcDecode (drop 1 multibase)) (\<lambda>decoded.
        if take 2 decoded \<noteq> ED25519_PUB_PREFIX
        then Inl (TypeError ''multicodec prefix is not ed25519-pub (0xed 0x01)'')
        else let raw = drop 2 decoded in
          if length raw \<noteq> ED25519_PUBLIC_KEY_BYTES
          then Inl (TypeError ''expected a 32-byte Ed25519 public key payload'')
          else Inr raw))"

subsection \<open>The alphabet\<close>

lemma BASE58_length [simp]: "length BASE58_ALPHABET = 58"
  by (simp add: BASE58_ALPHABET_def)

lemma BASE58_distinct: "distinct BASE58_ALPHABET"
  by code_simp

lemma base58_digit_Inr: "base58_digit c = Inr d \<longleftrightarrow> d < 58 \<and> BASE58_ALPHABET ! d = c"
proof
  assume "base58_digit c = Inr d"
  then have "(c, d) \<in> set (zip BASE58_ALPHABET [0..<58])"
    by (auto simp: base58_digit_def BASE58_INDEX_def split: option.splits dest: map_of_SomeD)
  then show "d < 58 \<and> BASE58_ALPHABET ! d = c" by (auto simp: set_zip)
next
  assume d: "d < 58 \<and> BASE58_ALPHABET ! d = c"
  then have "BASE58_INDEX c = Some ([0..<58] ! d)"
    using map_of_zip_nth [of BASE58_ALPHABET "[0..<58]" d] BASE58_distinct
    by (simp add: BASE58_INDEX_def)
  with d show "base58_digit c = Inr d" by (simp add: base58_digit_def)
qed

lemma BASE58_one: "d < 58 \<Longrightarrow> BASE58_ALPHABET ! d = CHR ''1'' \<longleftrightarrow> d = 0"
  using nth_eq_iff_index_eq [OF BASE58_distinct, of d 0] by (simp add: BASE58_ALPHABET_def)

lemma mapE_base58: "mapE base58_digit t = Inr ds \<longleftrightarrow> (\<forall>d \<in> set ds. d < 58) \<and> t = map ((!) BASE58_ALPHABET) ds"
  by (induction t arbitrary: ds; case_tac ds) (auto simp: bindE_eq_Inr base58_digit_Inr)

lemma takeWhile_one:
  "\<forall>d \<in> set ds. d < 58 \<Longrightarrow>
   length (takeWhile (\<lambda>c. c = CHR ''1'') (map ((!) BASE58_ALPHABET) ds)) = length (takeWhile (\<lambda>d. d = 0) ds)"
  by (induction ds) (auto simp: BASE58_one)

lemma takeWhile_unat: "length (takeWhile (\<lambda>b. b = 0) bs) = length (takeWhile (\<lambda>d. d = 0) (map unat bs))"
  by (induction bs) (auto simp: unat_eq_0)

lemma map_of_nat_unat: "map of_nat (map unat bs) = (bs :: byte list)"
  by (simp add: map_idI)

lemma zeros_bigIntBytes: "replicate (length (takeWhile (\<lambda>b. b = 0) bs)) 0 @ bigIntBytes (bytesToBigInt bs) = bs"
proof -
  let ?ds = "map unat bs"
  have "bigIntBytes (bytesToBigInt bs) = map of_nat (dropWhile (\<lambda>d. d = 0) ?ds)"
    unfolding bigIntBytes_def bytesToBigInt_value
    by (subst digits_of_value) (auto simp: unat_byte_lt)
  then have "replicate (length (takeWhile (\<lambda>b. b = 0) bs)) 0 @ bigIntBytes (bytesToBigInt bs)
      = map of_nat (replicate (length (takeWhile (\<lambda>d. d = 0) ?ds)) 0 @ dropWhile (\<lambda>d. d = 0) ?ds)"
    by (simp add: takeWhile_unat)
  then show ?thesis by (simp only: leading_zeros map_of_nat_unat)
qed

subsection \<open>base58btc\<close>

interpretation base58btc: strict_codec base58btcEncode base58btcDecode "\<lambda>_. True"
proof
  show "base58btcDecode (base58btcEncode bs) = Inr bs" for bs
  proof -
    define z where "z = length (takeWhile (\<lambda>b. b = 0) bs)"
    define ds where "ds = digits_of 58 (bytesToBigInt bs)"
    have ds: "\<forall>d \<in> set ds. d < 58" by (auto simp: ds_def digits_of_lt)
    have enc: "base58btcEncode bs = map ((!) BASE58_ALPHABET) (replicate z 0 @ ds)"
      by (simp add: base58btcEncode_def z_def ds_def Let_def BASE58_ALPHABET_def)
    have "takeWhile (\<lambda>d. d = 0) ds = []"
      by (simp add: ds_def digits_no_leading_zero)
    then have "length (takeWhile (\<lambda>d. d = 0) (replicate z 0 @ ds)) = z"
      by (simp add: takeWhile_append)
    then have zeros: "length (takeWhile (\<lambda>c. c = CHR ''1'') (base58btcEncode bs)) = z"
      unfolding enc using ds by (subst takeWhile_one) auto
    have "mapE base58_digit (base58btcEncode bs) = Inr (replicate z 0 @ ds)"
      unfolding mapE_base58 using ds by (auto simp: enc)
    then have "base58btcDecode (base58btcEncode bs) = Inr (replicate z 0 @ bigIntBytes (value_of 58 ds))"
      by (simp add: base58btcDecode_def zeros Let_def)
    then show ?thesis by (simp add: ds_def z_def value_of_digits zeros_bigIntBytes)
  qed
  show "True \<and> base58btcEncode bs = t" if dec: "base58btcDecode t = Inr bs" for t bs
  proof -
    define z where "z = length (takeWhile (\<lambda>c. c = CHR ''1'') t)"
    obtain ds where "mapE base58_digit t = Inr ds"
      and bs: "bs = replicate z 0 @ bigIntBytes (value_of 58 ds)"
      using dec by (auto simp: base58btcDecode_def z_def Let_def)
    then have lt: "\<forall>d \<in> set ds. d < 58" and t: "t = map ((!) BASE58_ALPHABET) ds"
      by (auto simp: mapE_base58)
    have z: "z = length (takeWhile (\<lambda>d. d = 0) ds)" using lt by (simp add: z_def t takeWhile_one)
    have units: "map unat bs = replicate z 0 @ digits_of 256 (value_of 58 ds)"
      by (simp add: bs map_unat_bigIntBytes)
    have "takeWhile (\<lambda>d. d = 0) (digits_of 256 (value_of 58 ds)) = []"
      by (simp add: digits_no_leading_zero)
    then have "length (takeWhile (\<lambda>b. b = 0) bs) = z"
      unfolding takeWhile_unat units by (simp add: takeWhile_append)
    moreover have "bytesToBigInt bs = value_of 58 ds"
      unfolding bytesToBigInt_value units by (simp add: value_of_digits)
    ultimately have "base58btcEncode bs
        = map ((!) BASE58_ALPHABET) (replicate z 0 @ digits_of 58 (value_of 58 ds))"
      by (simp add: base58btcEncode_def Let_def BASE58_ALPHABET_def)
    also have "replicate z 0 @ digits_of 58 (value_of 58 ds) = ds"
      using lt by (simp add: digits_of_value leading_zeros z)
    finally show ?thesis by (simp add: t)
  qed
qed

subsection \<open>Multikey ids of Ed25519 keys\<close>

lemma digits_of_prefix:
  "2 \<le> b \<Longrightarrow> 0 < n div b ^ k \<Longrightarrow> \<exists>low. length low = k \<and> digits_of b n = digits_of b (n div b ^ k) @ low"
proof (induction k arbitrary: n)
  case (Suc k)
  have div: "n div b ^ Suc k = n div b div b ^ k" by (simp add: div_mult2_eq)
  with Suc.prems(2) have "n \<noteq> 0" by (intro notI) simp
  with Suc.prems(1) have step: "digits_of b n = digits_of b (n div b) @ [n mod b]"
    by (simp add: digits_of_step)
  from Suc.IH [OF Suc.prems(1), of "n div b"] Suc.prems(2)
  obtain low where "length low = k" "digits_of b (n div b) = digits_of b (n div b div b ^ k) @ low"
    unfolding div by blast
  with step show ?case unfolding div by (intro exI [of _ "low @ [n mod b]"]) simp
qed simp

lemma prefixed_value:
  assumes "length key = 32"
  shows "bytesToBigInt (ED25519_PUB_PREFIX @ key) div 58 ^ 44 = 18023"
proof -
  have key: "value_of 256 (map unat key) < 256 ^ 32"
    using bytesToBigInt_lt [of key] assms by (simp add: bytesToBigInt_value)
  have "bytesToBigInt (ED25519_PUB_PREFIX @ key) = 0xed * 256 ^ 33 + (256 ^ 32 + value_of 256 (map unat key))"
    using assms by (simp add: bytesToBigInt_value ED25519_PUB_PREFIX_def value_of_Cons)
  with key show ?thesis by (intro div_nat_eqI) simp_all
qed

lemma multibase_id:
  assumes "length publicKey = 32"
  shows "\<exists>id. multibaseFromRawEd25519 publicKey = Inr id \<and> length id = 48 \<and> take 4 id = ''z6Mk''
    \<and> length id \<le> MAX_MULTIBASE_LENGTH"
proof -
  let ?bytes = "ED25519_PUB_PREFIX @ publicKey"
  obtain low where low: "length low = 44"
    and "digits_of 58 (bytesToBigInt ?bytes) = digits_of 58 18023 @ low"
    using digits_of_prefix [of 58 "bytesToBigInt ?bytes" 44] prefixed_value [OF assms] by auto
  moreover have "digits_of 58 18023 = [5, 20, 43]" by (simp add: digits_of_step)
  ultimately have digits: "digits_of 58 (bytesToBigInt ?bytes) = 5 # 20 # 43 # low" by simp
  have "base58btcEncode ?bytes = ''6Mk'' @ map ((!) BASE58_ALPHABET) low"
    by (simp add: base58btcEncode_def Let_def digits) (simp add: ED25519_PUB_PREFIX_def BASE58_ALPHABET_def)
  with assms low show ?thesis
    by (simp add: multibaseFromRawEd25519_def ED25519_PUBLIC_KEY_BYTES_def MAX_MULTIBASE_LENGTH_def)
qed

text \<open>The id of every 32-byte Ed25519 key is 48 characters long and starts with \<open>z6Mk\<close>, as
  the comment on the codec claims, so it always passes the decoder's length cap.\<close>

theorem multibase_shape:
  assumes "length publicKey = 32"
  shows "\<exists>id. multibaseFromRawEd25519 publicKey = Inr id \<and> length id = 48 \<and> take 4 id = ''z6Mk''
    \<and> length id \<le> MAX_MULTIBASE_LENGTH"
  by (rule multibase_id [OF assms])

theorem multibase_shape_witness:
  "\<exists>id. multibaseFromRawEd25519 (replicate 32 7) = Inr id \<and> length id = 48"
  using multibase_shape [of "replicate 32 7"] by auto

lemma multikey_decoded:
  assumes enc: "multibaseFromRawEd25519 key = Inr t"
  shows "rawEd25519FromMultibase t = Inr key"
proof -
  have len: "length key = 32" and t: "t = CHR ''z'' # base58btcEncode (ED25519_PUB_PREFIX @ key)"
    using enc by (auto simp: multibaseFromRawEd25519_def ED25519_PUBLIC_KEY_BYTES_def split: if_splits)
  have "length t \<le> MAX_MULTIBASE_LENGTH"
    using multibase_id [OF len] enc by auto
  moreover have "base58btcDecode (drop 1 t) = Inr (ED25519_PUB_PREFIX @ key)"
    unfolding t using base58btc.dec_enc by simp
  ultimately show ?thesis
    using len t by (simp add: rawEd25519FromMultibase_def ED25519_PUB_PREFIX_def ED25519_PUBLIC_KEY_BYTES_def)
qed

text \<open>C9. The key ids peers pin are canonical: the decoder recovers every 32-byte key from its id,
  and any text it accepts is the one id of the key it yields. Two different ids never name one
  key, and no text of another multicodec, length or alphabet is accepted.\<close>

theorem multikey_canonical:
  "rawEd25519FromMultibase t = Inr key \<longleftrightarrow> multibaseFromRawEd25519 key = Inr t"
proof
  assume dec: "rawEd25519FromMultibase t = Inr key"
  then have "take 1 t = ''z''" "length key = 32"
    and "base58btcDecode (drop 1 t) = Inr (ED25519_PUB_PREFIX @ key)"
    by (auto simp: rawEd25519FromMultibase_def ED25519_PUBLIC_KEY_BYTES_def Let_def
        split: if_splits dest: sym [of "take 2 _"]) (metis append_take_drop_id)
  moreover from this(3) have "base58btcEncode (ED25519_PUB_PREFIX @ key) = drop 1 t"
    using base58btc.dec_sound by blast
  ultimately show "multibaseFromRawEd25519 key = Inr t"
    using append_take_drop_id [of 1 t]
    by (simp add: multibaseFromRawEd25519_def ED25519_PUBLIC_KEY_BYTES_def)
qed (rule multikey_decoded)

end
