(* ===== verification/Identity.thy ===== *)
theory Identity
  imports Codec
begin

text \<open>
  Record ids, packages/model/src/kernel/identity.ts: \<open>oc:<class>:<namespace>:<localId>\<close>. A publisher's
  local id is any text, so a string of this theory is its list of code points; \<open>u\<close> turns a literal
  into one. The two regular expressions are written out as the predicates they decide: their
  classes exclude the colon, so the first three colons are the only way to split.
\<close>

type_synonym code_points = "nat list"

definition u :: "string \<Rightarrow> code_points" where
  "u s = map of_char s"

definition COLON :: nat where "COLON = 0x3A"

definition RECORD_CLASSES :: "code_points list" where
  "RECORD_CLASSES = [u ''feature'', u ''situation'', u ''observation'', u ''offer'']"

record id_parts =
  id_class :: code_points
  id_namespace :: code_points
  id_local :: code_points

definition lower_alnum :: "nat \<Rightarrow> bool" where
  "lower_alnum c \<longleftrightarrow> (0x61 \<le> c \<and> c \<le> 0x7A) \<or> (0x30 \<le> c \<and> c \<le> 0x39)"

text \<open>INSTANCE_ID_PATTERN: \<open>^[a-z0-9](?:[a-z0-9.-]*[a-z0-9])?$\<close>\<close>

definition isInstanceId :: "code_points \<Rightarrow> bool" where
  "isInstanceId v \<longleftrightarrow> v \<noteq> [] \<and> lower_alnum (hd v) \<and> lower_alnum (last v)
     \<and> list_all (\<lambda>c. lower_alnum c \<or> c = 0x2E \<or> c = 0x2D) v"

text \<open>What the dot of a regular expression does not match: line feed, carriage return, the line
  and the paragraph separator.\<close>

definition line_break :: "nat \<Rightarrow> bool" where
  "line_break c \<longleftrightarrow> c = 0x0A \<or> c = 0x0D \<or> c = 0x2028 \<or> c = 0x2029"

definition record_id_text :: "id_parts \<Rightarrow> code_points" where
  "record_id_text p = u ''oc:'' @ id_class p @ [COLON] @ id_namespace p @ [COLON] @ id_local p"

definition formatRecordId :: "id_parts \<Rightarrow> js_error + code_points" where
  "formatRecordId p =
     (if id_class p \<notin> set RECORD_CLASSES then Inl (TypeError ''unknown class'')
      else if \<not> isInstanceId (id_namespace p) then Inl (TypeError ''namespace is not [a-z0-9.-]+'')
      else if id_local p = [] then Inl (TypeError ''localId must not be empty'')
      else Inr (record_id_text p))"

text \<open>\<open>encodeURIComponent\<close> of a line break: the percent-encoded UTF-8 bytes.\<close>

definition encode_break :: "nat \<Rightarrow> code_points" where
  "encode_break c =
     (if c = 0x0A then u ''%0A'' else if c = 0x0D then u ''%0D''
      else if c = 0x2028 then u ''%E2%80%A8'' else if c = 0x2029 then u ''%E2%80%A9'' else [c])"

definition recordLocalId :: "code_points \<Rightarrow> code_points" where
  "recordLocalId i = concat (map encode_break i)"

fun split_colon :: "code_points \<Rightarrow> (code_points \<times> code_points) option" where
  "split_colon [] = None"
| "split_colon (c # cs) =
     (if c = COLON then Some ([], cs)
      else map_option (\<lambda>(before, after). (c # before, after)) (split_colon cs))"

definition parseRecordId :: "code_points \<Rightarrow> id_parts option" where
  "parseRecordId i =
     (if take 3 i \<noteq> u ''oc:'' then None
      else case split_colon (drop 3 i) of None \<Rightarrow> None | Some (cls, rest) \<Rightarrow>
        (if cls \<notin> set RECORD_CLASSES then None
         else case split_colon rest of None \<Rightarrow> None | Some (ns, local) \<Rightarrow>
           (if \<not> isInstanceId ns \<or> local = [] \<or> list_ex line_break local then None
            else Some \<lparr>id_class = cls, id_namespace = ns, id_local = local\<rparr>)))"

subsection \<open>Splitting\<close>

lemma split_colon_append: "COLON \<notin> set xs \<Longrightarrow> split_colon (xs @ COLON # ys) = Some (xs, ys)"
  by (induction xs) auto

lemma split_colon_Some: "split_colon t = Some (xs, ys) \<Longrightarrow> t = xs @ COLON # ys"
  by (induction t arbitrary: xs) (auto split: if_splits)

lemma no_colon_namespace: "isInstanceId ns \<Longrightarrow> COLON \<notin> set ns"
  by (auto simp: isInstanceId_def list_all_iff lower_alnum_def COLON_def)

lemma no_colon_class: "cls \<in> set RECORD_CLASSES \<Longrightarrow> COLON \<notin> set cls"
  by (auto simp: RECORD_CLASSES_def u_def COLON_def)

text \<open>Parts a record id can hold: a known class, an instance id and a local id of one line.\<close>

definition wf_parts :: "id_parts \<Rightarrow> bool" where
  "wf_parts p \<longleftrightarrow> isOk (formatRecordId p) \<and> \<not> list_ex line_break (id_local p)"

lemma wf_parts_iff: "wf_parts p \<longleftrightarrow> id_class p \<in> set RECORD_CLASSES \<and> isInstanceId (id_namespace p)
   \<and> id_local p \<noteq> [] \<and> \<not> list_ex line_break (id_local p)"
  by (auto simp: wf_parts_def formatRecordId_def isOk_def)

lemma parse_text:
  assumes "id_class p \<in> set RECORD_CLASSES" and "isInstanceId (id_namespace p)"
  shows "parseRecordId (record_id_text p) =
    (if id_local p = [] \<or> list_ex line_break (id_local p) then None else Some p)"
proof -
  have split: "split_colon (drop 3 (record_id_text p))
      = Some (id_class p, id_namespace p @ COLON # id_local p)"
    using no_colon_class [OF assms(1)] by (simp add: record_id_text_def u_def split_colon_append)
  have "take 3 (record_id_text p) = u ''oc:''" by (simp add: record_id_text_def u_def)
  then show ?thesis
    using assms no_colon_namespace [OF assms(2)]
    by (simp add: parseRecordId_def split split_colon_append)
qed

lemma parse_Some:
  assumes "parseRecordId i = Some p"
  shows "wf_parts p" "record_id_text p = i"
proof -
  obtain rest where "take 3 i = u ''oc:''" "split_colon (drop 3 i) = Some (id_class p, rest)"
      "split_colon rest = Some (id_namespace p, id_local p)"
    and "id_class p \<in> set RECORD_CLASSES" "isInstanceId (id_namespace p)" "id_local p \<noteq> []"
      "\<not> list_ex line_break (id_local p)"
    using assms by (auto simp: parseRecordId_def split: if_splits option.splits)
  moreover from this have "drop 3 i = id_class p @ COLON # id_namespace p @ COLON # id_local p"
    by (auto dest!: split_colon_Some)
  ultimately show "wf_parts p" "record_id_text p = i"
    using append_take_drop_id [of 3 i] by (simp_all add: wf_parts_iff record_id_text_def)
qed

interpretation record_id: strict_codec record_id_text
  "\<lambda>i. case parseRecordId i of None \<Rightarrow> Inl (JsError ''not a record id'') | Some p \<Rightarrow> Inr p" wf_parts
proof
  show "(case parseRecordId (record_id_text p) of None \<Rightarrow> Inl (JsError ''not a record id'') | Some p \<Rightarrow> Inr p) = Inr p"
    if "wf_parts p" for p
    using that by (simp add: wf_parts_iff parse_text)
  show "wf_parts p \<and> record_id_text p = i"
    if "(case parseRecordId i of None \<Rightarrow> Inl (JsError ''not a record id'') | Some p \<Rightarrow> Inr p) = Inr p" for i p
    using that parse_Some by (auto split: option.splits)
qed

lemma recordLocalId_one_line: "\<not> list_ex line_break (recordLocalId i)"
  by (induction i) (auto simp: recordLocalId_def encode_break_def line_break_def u_def)

lemma recordLocalId_id: "\<not> list_ex line_break i \<Longrightarrow> recordLocalId i = i"
  by (induction i) (auto simp: recordLocalId_def encode_break_def line_break_def)

text \<open>A record id formatted from a local id that \<open>recordLocalId\<close> wrote parses back to the parts
  it was formatted from, whatever text the publisher used, and every id the parser accepts is
  the one text its parts format to.\<close>

theorem record_id_roundtrip:
  "(\<forall>(p :: id_parts) i. formatRecordId (p\<lparr>id_local := recordLocalId (id_local p)\<rparr>) = Inr i
      \<longrightarrow> parseRecordId i = Some (p\<lparr>id_local := recordLocalId (id_local p)\<rparr>))
   \<and> (\<forall>p i. parseRecordId i = Some p \<longrightarrow> formatRecordId p = Inr i)"
proof (intro conjI allI impI)
  fix p :: id_parts and i
  let ?p = "p\<lparr>id_local := recordLocalId (id_local p)\<rparr>"
  assume "formatRecordId ?p = Inr i"
  then have wf: "wf_parts ?p" and i: "i = record_id_text ?p"
    using recordLocalId_one_line [of "id_local p"]
    by (auto simp: wf_parts_iff formatRecordId_def split: if_splits)
  then show "parseRecordId i = Some ?p" unfolding i by (simp add: wf_parts_iff parse_text)
next
  fix p i
  assume "parseRecordId i = Some p"
  from parse_Some [OF this] show "formatRecordId p = Inr i"
    by (auto simp: wf_parts_iff formatRecordId_def)
qed

definition sample_parts :: id_parts where
  "sample_parts = \<lparr>id_class = u ''situation'', id_namespace = u ''nl.ndw'', id_local = [0x41, 0x0A, 0x3A]\<rparr>"

theorem record_id_roundtrip_witness:
  "parseRecordId (u ''oc:situation:nl.ndw:A%0A:'')
     = Some (sample_parts\<lparr>id_local := recordLocalId (id_local sample_parts)\<rparr>)"
proof -
  have "formatRecordId (sample_parts\<lparr>id_local := recordLocalId (id_local sample_parts)\<rparr>)
      = Inr (u ''oc:situation:nl.ndw:A%0A:'')" by code_simp
  then show ?thesis using record_id_roundtrip by blast
qed

text \<open>The comment on \<open>recordLocalId\<close> says a record id cannot hold a line break; the formatter does
  not check it, and writes an id the parser of the same file refuses.\<close>

lemma format_accepts_line_break:
  "\<exists>i. formatRecordId sample_parts = Inr i \<and> parseRecordId i = None"
  by (rule exI [of _ "record_id_text sample_parts"]) code_simp

end
