(* ===== verification/Calendar.thy ===== *)
theory Calendar
  imports OC_Prelude
begin

text \<open>
  What the code uses of the ECMAScript Date on the UTC calendar: days since 1970-01-01 and their
  civil dates, week days and \<open>YYYY-MM-DD\<close> strings. \<open>days_of\<close> is \<open>Date.UTC\<close> in whole days,
  \<open>civil_of\<close> the getters; the round trip says each is the other's inverse.
\<close>

definition is_leap :: "int \<Rightarrow> bool" where
  "is_leap y \<longleftrightarrow> y mod 4 = 0 \<and> (y mod 100 \<noteq> 0 \<or> y mod 400 = 0)"

definition day_from_year :: "int \<Rightarrow> int" where
  "day_from_year y = 365 * (y - 1970) + (y - 1969) div 4 - (y - 1901) div 100 + (y - 1601) div 400"

lemma div_inc: "0 < k \<Longrightarrow> (x + 1) div k = x div k + (if (x + 1) mod k = 0 then 1 else 0)" for x k :: int
proof -
  assume k: "0 < k"
  have x: "x + 1 = k * (x div k) + (x mod k + 1)" by simp
  show ?thesis
  proof (cases "x mod k + 1 = k")
    case True
    with x have "x + 1 = k * (x div k + 1)" by (simp only: distrib_left)
    with k show ?thesis by simp
  next
    case False
    then have small: "0 \<le> x mod k + 1" "x mod k + 1 < k"
      using k pos_mod_bound [of k x] pos_mod_sign [of k x] by linarith+
    have "(x + 1) div k = x div k" using int_div_pos_eq [OF x small] .
    moreover have "(x + 1) mod k = x mod k + 1" using int_mod_pos_eq [OF x small] .
    moreover have "x mod k + 1 \<noteq> 0" using pos_mod_sign [OF k, of x] by linarith
    ultimately show ?thesis by simp
  qed
qed

lemma year_cycle:
  assumes "0 < k" and "1 - a = c * k"
  shows "(y + 1 - a) div k = (y - a) div k + (if y mod k = 0 then 1 else (0::int))"
proof -
  have e: "y + 1 - a = (y - a) + 1" by simp
  have "(y - a) + 1 = y + c * k" unfolding assms(2) [symmetric] by (simp only: algebra_simps)
  then have "((y - a) + 1) mod k = y mod k" by (simp only: mod_mult_self1)
  then show ?thesis unfolding e using div_inc [OF assms(1), of "y - a"] by simp
qed

lemma day_from_year_Suc: "day_from_year (y + 1) = day_from_year y + (if is_leap y then 366 else 365)"
proof -
  have 4: "(y + 1 - 1969) div 4 = (y - 1969) div 4 + (if y mod 4 = 0 then 1 else 0)"
    by (rule year_cycle [of 4 1969 "-492"]) simp_all
  have 100: "(y + 1 - 1901) div 100 = (y - 1901) div 100 + (if y mod 100 = 0 then 1 else 0)"
    by (rule year_cycle [of 100 1901 "-19"]) simp_all
  have 400: "(y + 1 - 1601) div 400 = (y - 1601) div 400 + (if y mod 400 = 0 then 1 else 0)"
    by (rule year_cycle [of 400 1601 "-4"]) simp_all
  have "4 dvd y" if "100 dvd y" using that by (rule dvd_trans [rotated]) simp
  moreover have "100 dvd y" if "400 dvd y" using that by (rule dvd_trans [rotated]) simp
  ultimately show ?thesis unfolding day_from_year_def 4 100 400 is_leap_def mod_eq_0_iff_dvd
    by (cases "4 dvd y"; cases "100 dvd y"; cases "400 dvd y") simp_all
qed

lemma day_from_year_step: "day_from_year y + 365 \<le> day_from_year (y + 1)"
  by (simp add: day_from_year_Suc)

lemma day_from_year_mono: "y \<le> z \<Longrightarrow> day_from_year y \<le> day_from_year z"
proof (induction z rule: int_ge_induct)
  case (step z)
  with day_from_year_step [of z] show ?case by linarith
qed simp

lemma day_from_year_less_iff: "day_from_year y < day_from_year z \<longleftrightarrow> y < z"
proof
  show "y < z" if "day_from_year y < day_from_year z"
    using that day_from_year_mono [of z y] by (cases "y < z") auto
  show "day_from_year y < day_from_year z" if "y < z"
    using that day_from_year_mono [of "y + 1" z] day_from_year_step [of y] by linarith
qed

text \<open>The year of a day: step up from a year that starts no later.\<close>

function year_up :: "int \<Rightarrow> int \<Rightarrow> int" where
  "year_up n y = (if n < day_from_year (y + 1) then y else year_up n (y + 1))"
  by pat_completeness auto
termination
proof (relation "measure (\<lambda>(n, y). nat (n - day_from_year y + 1))")
  show "((n, y + 1), n, y) \<in> measure (\<lambda>(n, y). nat (n - day_from_year y + 1))"
    if "\<not> n < day_from_year (y + 1)" for n y
    using that day_from_year_step [of y] unfolding in_measure prod.case by linarith
qed simp

declare year_up.simps [simp del]

definition year_of :: "int \<Rightarrow> int" where
  "year_of n = year_up n (if 0 \<le> n then 1970 + n div 366 - 1 else 1970 + n div 365 - 1)"

lemma year_up_range: "day_from_year y \<le> n \<Longrightarrow>
  day_from_year (year_up n y) \<le> n \<and> n < day_from_year (year_up n y + 1)"
proof (induction n y rule: year_up.induct)
  case (1 n y)
  then show ?case by (subst (1 2) year_up.simps) auto
qed

lemma year_of_range: "day_from_year (year_of n) \<le> n" "n < day_from_year (year_of n + 1)"
proof -
  have "day_from_year (if 0 \<le> n then 1970 + n div 366 - 1 else 1970 + n div 365 - 1) \<le> n"
    unfolding day_from_year_def by (simp, intro conjI impI; linarith?; presburger?)
  from year_up_range [OF this] show "day_from_year (year_of n) \<le> n" "n < day_from_year (year_of n + 1)"
    by (simp_all add: year_of_def)
qed

lemma year_of_unique:
  assumes "day_from_year y \<le> n" and "n < day_from_year (y + 1)"
  shows "year_of n = y"
proof -
  have "day_from_year (year_of n) < day_from_year (y + 1)" "day_from_year y < day_from_year (year_of n + 1)"
    using assms year_of_range [of n] by linarith+
  then show ?thesis by (simp add: day_from_year_less_iff)
qed

subsection \<open>Months and days\<close>

text \<open>The day of the year a month starts on, months counted from 1 (13 is the next year).\<close>

definition month_start :: "bool \<Rightarrow> int \<Rightarrow> int" where
  "month_start leap m =
     [0, 31, 59, 90, 120, 151, 181, 212, 243, 273, 304, 334, 365] ! nat (m - 1)
       + (if leap \<and> 3 \<le> m then 1 else 0)"

definition month_of :: "bool \<Rightarrow> int \<Rightarrow> int" where
  "month_of leap k = fold (\<lambda>m acc. if month_start leap m \<le> k then m else acc) [1..12] 1"

lemma months_upto: "[1..12] = [1, 2, 3, 4, 5, 6, 7, 8, 9, 10, 11, 12 :: int]"
  by code_simp

lemma month_start_simps [simp]:
  "month_start l 1 = 0" "month_start l 2 = 31" "month_start l 3 = 59 + (if l then 1 else 0)"
  "month_start l 4 = 90 + (if l then 1 else 0)" "month_start l 5 = 120 + (if l then 1 else 0)"
  "month_start l 6 = 151 + (if l then 1 else 0)" "month_start l 7 = 181 + (if l then 1 else 0)"
  "month_start l 8 = 212 + (if l then 1 else 0)" "month_start l 9 = 243 + (if l then 1 else 0)"
  "month_start l 10 = 273 + (if l then 1 else 0)" "month_start l 11 = 304 + (if l then 1 else 0)"
  "month_start l 12 = 334 + (if l then 1 else 0)" "month_start l 13 = 365 + (if l then 1 else 0)"
  by (simp_all add: month_start_def eval_nat_numeral)

lemma month_cases: "1 \<le> m \<Longrightarrow> m \<le> 12 \<Longrightarrow> m \<in> {1, 2, 3, 4, 5, 6, 7, 8, 9, 10, 11, 12 :: int}"
  unfolding insert_iff empty_iff by presburger

lemma month_of_eq:
  "0 \<le> k \<Longrightarrow> month_of l k =
    (if month_start l 12 \<le> k then 12 else if month_start l 11 \<le> k then 11
     else if month_start l 10 \<le> k then 10 else if month_start l 9 \<le> k then 9
     else if month_start l 8 \<le> k then 8 else if month_start l 7 \<le> k then 7
     else if month_start l 6 \<le> k then 6 else if month_start l 5 \<le> k then 5
     else if month_start l 4 \<le> k then 4 else if month_start l 3 \<le> k then 3
     else if month_start l 2 \<le> k then 2 else 1)"
  unfolding month_of_def months_upto by simp

lemma month_of_range:
  assumes "0 \<le> k" and "k < 365 + (if l then 1 else 0)"
  shows "1 \<le> month_of l k" "month_of l k \<le> 12"
    and "month_start l (month_of l k) \<le> k" "k < month_start l (month_of l k + 1)"
  using assms by (simp_all add: month_of_eq split: if_splits)

lemma month_of_unique:
  assumes "1 \<le> m" "m \<le> 12" and "month_start l m \<le> k" "k < month_start l (m + 1)"
  shows "month_of l k = m"
proof -
  have "0 \<le> k" using month_cases [OF assms(1,2)] assms(3) by (auto split: if_splits)
  then show ?thesis
    using month_cases [OF assms(1,2)] assms(3,4) by (auto simp: month_of_eq split: if_splits)
qed

text \<open>MakeDay of the specification: a month past December counts into the next year.\<close>

definition days_of :: "int \<Rightarrow> int \<Rightarrow> int \<Rightarrow> int" where
  "days_of y m d =
     (let y' = y + (m - 1) div 12; m' = (m - 1) mod 12 + 1
      in day_from_year y' + month_start (is_leap y') m' + d - 1)"

definition civil_of :: "int \<Rightarrow> int \<times> int \<times> int" where
  "civil_of n =
     (let y = year_of n; k = n - day_from_year y; m = month_of (is_leap y) k
      in (y, m, k - month_start (is_leap y) m + 1))"

definition valid_date :: "int \<Rightarrow> int \<Rightarrow> int \<Rightarrow> bool" where
  "valid_date y m d \<longleftrightarrow> 1 \<le> m \<and> m \<le> 12 \<and> 1 \<le> d
     \<and> d \<le> month_start (is_leap y) (m + 1) - month_start (is_leap y) m"

lemma days_of_civil:
  assumes "civil_of n = (y, m, d)"
  shows "days_of y m d = n" and "valid_date y m d"
proof -
  let ?k = "n - day_from_year (year_of n)" and ?l = "is_leap (year_of n)"
  have y: "y = year_of n" and m: "m = month_of ?l ?k" and d: "d = ?k - month_start ?l m + 1"
    using assms by (auto simp: civil_of_def Let_def)
  have k: "0 \<le> ?k" "?k < 365 + (if ?l then 1 else 0)"
    using year_of_range [of n] by (simp_all add: day_from_year_Suc split: if_splits)
  note range = month_of_range [OF k, folded m]
  show "valid_date y m d" unfolding valid_date_def y d using range by simp
  have "(m - 1) div 12 = 0" "(m - 1) mod 12 = m - 1" using range by simp_all
  then show "days_of y m d = n" by (simp add: days_of_def y d)
qed

lemma civil_of_days:
  assumes "valid_date y m d"
  shows "civil_of (days_of y m d) = (y, m, d)"
proof -
  let ?l = "is_leap y" and ?n = "days_of y m d"
  have m: "1 \<le> m" "m \<le> 12" using assms by (simp_all add: valid_date_def)
  have "(m - 1) div 12 = 0" "(m - 1) mod 12 = m - 1" using m by simp_all
  then have n: "?n = day_from_year y + month_start ?l m + d - 1" by (simp add: days_of_def)
  have "0 \<le> month_start ?l m" "month_start ?l (m + 1) \<le> 365 + (if ?l then 1 else 0)"
    using month_cases [OF m] by (auto split: if_splits)
  moreover have "1 \<le> d" "d \<le> month_start ?l (m + 1) - month_start ?l m"
    using assms by (simp_all add: valid_date_def)
  ultimately have "day_from_year y \<le> ?n" "?n < day_from_year (y + 1)"
    unfolding n day_from_year_Suc by (cases ?l; simp)+
  then have y: "year_of ?n = y" by (rule year_of_unique)
  have "month_of ?l (?n - day_from_year y) = m"
    by (rule month_of_unique [OF m]) (use assms in \<open>simp_all add: n valid_date_def\<close>)
  then show ?thesis unfolding civil_of_def Let_def y by (simp add: n)
qed

text \<open>\<open>getUTCDay\<close>: the epoch was a Thursday.\<close>

definition week_day :: "int \<Rightarrow> int" where
  "week_day n = (n + 4) mod 7"

subsection \<open>Digits and date strings\<close>

definition digit :: "nat \<Rightarrow> char" where
  "digit d = ''0123456789'' ! d"

text \<open>\<open>String(n).padStart(k, '0')\<close> of a number below \<open>10 ^ k\<close>.\<close>

fun pad :: "nat \<Rightarrow> nat \<Rightarrow> string" where
  "pad 0 n = []"
| "pad (Suc k) n = pad k (n div 10) @ [digit (n mod 10)]"

definition day_string :: "int \<Rightarrow> string" where
  "day_string n = (case civil_of n of (y, m, d) \<Rightarrow>
     pad 4 (nat y) @ ''-'' @ pad 2 (nat m) @ ''-'' @ pad 2 (nat d))"

definition is_digit :: "char \<Rightarrow> bool" where
  "is_digit c \<longleftrightarrow> CHR ''0'' \<le> c \<and> c \<le> CHR ''9''"

definition digit_value :: "char \<Rightarrow> nat" where
  "digit_value c = of_char c - 48"

definition number_of :: "string \<Rightarrow> nat" where
  "number_of s = foldl (\<lambda>v c. v * 10 + digit_value c) 0 s"

lemma length_pad [simp]: "length (pad k n) = k"
  by (induction k arbitrary: n) simp_all

lemma digit_facts: "d < 10 \<Longrightarrow> is_digit (digit d) \<and> digit_value (digit d) = d"
proof -
  assume "d < 10"
  then have "d \<in> {0, 1, 2, 3, 4, 5, 6, 7, 8, 9}" by auto
  then show ?thesis
    by (auto simp: digit_def is_digit_def digit_value_def less_eq_char_def eval_nat_numeral)
qed

lemma pad_digits: "list_all is_digit (pad k n)"
  by (induction k arbitrary: n) (simp_all add: digit_facts)

lemma number_of_pad: "n < 10 ^ k \<Longrightarrow> number_of (pad k n) = n"
proof (induction k arbitrary: n)
  case (Suc k)
  then have "n div 10 < 10 ^ k" by auto
  with Suc.IH show ?case by (simp add: number_of_def digit_facts)
qed (simp add: number_of_def)

end
