(* ===== verification/Schedule.thy ===== *)
theory Schedule
  imports Calendar
begin

text \<open>
  Recurring schedules: packages/model/src/schedule/wall-clock.ts and in-effect.ts, and
  \<open>inSeasonalWindow\<close> of kernel/scalars.ts.

  \<^item> A local date is its day number (\<open>Calendar\<close>); \<open>day_string\<close> is the \<open>YYYY-MM-DD\<close> text the code
    compares. A Date is an instant, \<open>None\<close> the invalid Date.
  \<^item> \<open>partsAt\<close> is the platform's zone data (Intl.DateTimeFormat): a parameter \<open>zone\<close> that gives the
    wall clock of an epoch millisecond, \<open>None\<close> where the constructor throws (an unknown zone).
  \<^item> A regular expression is the scanner it denotes.
\<close>

subsection \<open>Wall clocks\<close>

record wall_parts =
  wp_year :: int
  wp_month :: int
  wp_day :: int
  wp_hour :: int
  wp_minute :: int
  wp_second :: int

type_synonym zone_data = "string \<Rightarrow> int \<Rightarrow> wall_parts option"

definition day_ms :: int where "day_ms = 86400000"

text \<open>\<open>Date.UTC\<close>, which reads the years 0 to 99 as 1900 to 1999.\<close>

definition date_utc :: "wall_parts \<Rightarrow> int" where
  "date_utc p =
     (let y = (if 0 \<le> wp_year p \<and> wp_year p \<le> 99 then 1900 + wp_year p else wp_year p)
      in days_of y (wp_month p) (wp_day p) * day_ms
         + (wp_hour p * 3600 + wp_minute p * 60 + wp_second p) * 1000)"

definition fits :: "string \<Rightarrow> string \<Rightarrow> bool" where
  "fits pattern s \<longleftrightarrow> list_all2 (\<lambda>p c. if p = CHR ''d'' then is_digit c else c = p) pattern s"

definition field :: "nat \<Rightarrow> nat \<Rightarrow> string \<Rightarrow> int" where
  "field start len s = int (number_of (take len (drop start s)))"

text \<open>WALL_CLOCK_PATTERN \<open>^(\d{4})-(\d{2})-(\d{2})T(\d{2}):(\d{2})(?::(\d{2}))?$\<close>\<close>

definition parse_wall_clock :: "string \<Rightarrow> wall_parts option" where
  "parse_wall_clock s =
     (if fits ''dddd-dd-ddTdd:dd'' s \<or> fits ''dddd-dd-ddTdd:dd:dd'' s
      then Some \<lparr>wp_year = field 0 4 s, wp_month = field 5 2 s, wp_day = field 8 2 s,
                 wp_hour = field 11 2 s, wp_minute = field 14 2 s, wp_second = field 17 2 s\<rparr>
      else None)"

definition localDateInZone :: "zone_data \<Rightarrow> int \<Rightarrow> string \<Rightarrow> int option" where
  "localDateInZone zone now tz =
     map_option (\<lambda>p. days_of (wp_year p) (wp_month p) (wp_day p)) (zone tz now)"

text \<open>The body of the two-pass loop: \<open>guess += naive - asUtc\<close>.\<close>

definition correct_guess :: "zone_data \<Rightarrow> string \<Rightarrow> int \<Rightarrow> int \<Rightarrow> int option" where
  "correct_guess zone tz naive guess =
     map_option (\<lambda>p. guess + (naive - date_utc p)) (zone tz guess)"

definition zonedWallClockToInstant :: "zone_data \<Rightarrow> string \<Rightarrow> string \<Rightarrow> int option" where
  "zonedWallClockToInstant zone tz wallClock =
     (case parse_wall_clock wallClock of None \<Rightarrow> None | Some want \<Rightarrow>
       let naive = date_utc want in
       if civil_of (naive div day_ms) \<noteq> (wp_year want, wp_month want, wp_day want) then None
       else case correct_guess zone tz naive naive of None \<Rightarrow> None
         | Some guess \<Rightarrow> correct_guess zone tz naive guess)"

subsection \<open>Schedules\<close>

record schedule =
  sch_startDate :: "string option"
  sch_endDate :: "string option"
  sch_startTime :: "string option"
  sch_endTime :: "string option"
  sch_duration :: "string option"
  sch_byDay :: "string list option"
  sch_byMonth :: "int list option"
  sch_byMonthDay :: "int list option"
  sch_exceptDate :: "string list option"
  sch_timezone :: "string option"

definition ICAL_DAY :: "string list" where
  "ICAL_DAY = [''SU'', ''MO'', ''TU'', ''WE'', ''TH'', ''FR'', ''SA'']"

text \<open>A string that a condition \<open>if (s)\<close> lets through: present and not empty.\<close>

definition truthy :: "string option \<Rightarrow> string option" where
  "truthy s = (case s of Some (c # cs) \<Rightarrow> Some (c # cs) | _ \<Rightarrow> None)"

text \<open>\<open>^(\d{1,2}):(\d{2})\<close>: hours, minutes and what follows them.\<close>

definition scan_hhmm :: "string \<Rightarrow> (string \<times> string \<times> string) option" where
  "scan_hhmm s =
     (let h = takeWhile is_digit s in
      if length h = 1 \<or> length h = 2 then
        (case drop (length h) s of
           c # m1 # m2 # rest \<Rightarrow>
             if c = CHR '':'' \<and> is_digit m1 \<and> is_digit m2 then Some (h, [m1, m2], rest) else None
         | _ \<Rightarrow> None)
      else None)"

definition parseHhMm :: "string option \<Rightarrow> int option" where
  "parseHhMm s = (case truthy s of None \<Rightarrow> None | Some t \<Rightarrow>
     map_option (\<lambda>(h, m, _). int (number_of h * 60 + number_of m)) (scan_hhmm t))"

text \<open>One optional group \<open>(?:(\d+)U)?\<close> of the duration pattern: its number, 0 when absent, and
  the rest.\<close>

definition scan_unit :: "char \<Rightarrow> string \<Rightarrow> nat \<times> string" where
  "scan_unit unit_char s =
     (let ds = takeWhile is_digit s in
      case drop (length ds) s of
        c # rest \<Rightarrow> if ds \<noteq> [] \<and> c = unit_char then (number_of ds, rest) else (0, s)
      | [] \<Rightarrow> (0, s))"

definition isoDurationToMs :: "string option \<Rightarrow> int option" where
  "isoDurationToMs text_opt = (case truthy text_opt of
     Some (p # s) \<Rightarrow>
       (if p \<noteq> CHR ''P'' then None
        else let (d, r) = scan_unit CHR ''D'' s in
          if r = [] then Some (int d * 86400 * 1000)
          else if hd r \<noteq> CHR ''T'' then None
          else let (h, r1) = scan_unit CHR ''H'' (tl r);
                   (mi, r2) = scan_unit CHR ''M'' r1;
                   (sec, r3) = scan_unit CHR ''S'' r2
               in if r3 \<noteq> [] then None
                  else Some ((int d * 86400 + int h * 3600 + int mi * 60 + int sec) * 1000))
   | _ \<Rightarrow> None)"

definition occurrenceDurationMs :: "schedule \<Rightarrow> int" where
  "occurrenceDurationMs s = (case isoDurationToMs (sch_duration s) of
     Some explicit \<Rightarrow> explicit
   | None \<Rightarrow> (case (parseHhMm (sch_startTime s), parseHhMm (sch_endTime s)) of
       (Some a, Some b) \<Rightarrow>
         (let mins = b - a in (if mins \<le> 0 then mins + 24 * 60 else mins) * 60000)
     | _ \<Rightarrow> 24 * 3600 * 1000))"

text \<open>\<open>Math.ceil(ms / 86_400_000)\<close> of a whole number of milliseconds.\<close>

definition lookbackDays :: "schedule \<Rightarrow> int" where
  "lookbackDays s = min 366 (max 1 (- (- occurrenceDurationMs s div day_ms)))"

definition js_space :: "char \<Rightarrow> bool" where
  "js_space c \<longleftrightarrow> of_char c \<in> {9, 10, 11, 12, 13, 32, 160 :: nat}"

definition trim :: "string \<Rightarrow> string" where
  "trim s = rev (dropWhile js_space (rev (dropWhile js_space s)))"

text \<open>\<open>(?:Z|[+-]\d{2}:?\d{2})?$\<close>, case-insensitive.\<close>

definition zone_suffix :: "string \<Rightarrow> bool" where
  "zone_suffix s \<longleftrightarrow> s = [] \<or> s = ''Z'' \<or> s = ''z'' \<or> fits ''+dddd'' s \<or> fits ''-dddd'' s
     \<or> fits ''+dd:dd'' s \<or> fits ''-dd:dd'' s"

definition scan_seconds :: "string \<Rightarrow> string option \<times> string" where
  "scan_seconds s = (case s of
     c # s1 # s2 # rest \<Rightarrow>
       if c = CHR '':'' \<and> is_digit s1 \<and> is_digit s2 then (Some [s1, s2], rest) else (None, s)
   | _ \<Rightarrow> (None, s))"

definition skip_fraction :: "string \<Rightarrow> string" where
  "skip_fraction s = (case s of
     c # rest \<Rightarrow> if c = CHR ''.'' \<and> takeWhile is_digit rest \<noteq> [] then dropWhile is_digit rest else s
   | [] \<Rightarrow> s)"

definition normalizeStartTime :: "string \<Rightarrow> string option" where
  "normalizeStartTime raw = (case scan_hhmm (trim raw) of None \<Rightarrow> None
     | Some (h, m, rest) \<Rightarrow> (case scan_seconds rest of (sec, rest1) \<Rightarrow>
         if \<not> zone_suffix (skip_fraction rest1) then None
         else if number_of h > 23 \<or> number_of m > 59 then None
         else Some (pad 2 (number_of h) @ '':'' @ m @ '':''
                    @ (case sec of None \<Rightarrow> ''00'' | Some t \<Rightarrow> t))))"

definition listed :: "'a list option \<Rightarrow> bool" where
  "listed xs \<longleftrightarrow> (case xs of Some (x # _) \<Rightarrow> True | _ \<Rightarrow> False)"

definition occurrenceStartsOn :: "schedule \<Rightarrow> int \<Rightarrow> bool" where
  "occurrenceStartsOn s localDate =
     (let text_date = day_string localDate; (y, month, mday) = civil_of localDate in
      if (case truthy (sch_startDate s) of Some d \<Rightarrow> text_date < take 10 d | None \<Rightarrow> False) then False
      else if (case truthy (sch_endDate s) of Some d \<Rightarrow> text_date > take 10 d | None \<Rightarrow> False) then False
      else if (case sch_exceptDate s of Some xs \<Rightarrow> list_ex (\<lambda>x. take 10 x = text_date) xs | None \<Rightarrow> False)
        then False
      else if listed (sch_byDay s)
          \<and> ICAL_DAY ! nat (week_day localDate) \<notin> set (the (sch_byDay s)) then False
      else if listed (sch_byMonth s) \<and> month \<notin> set (the (sch_byMonth s)) then False
      else if listed (sch_byMonthDay s) \<and> mday \<notin> set (the (sch_byMonthDay s)) then False
      else True)"

datatype schedule_state = In | Out | Unevaluable

text \<open>The loop over \<open>delta = 0, -1, \<dots>, -lookbackDays(s)\<close>; \<open>n\<close> days are left to look at.\<close>

definition occurrence_start :: "zone_data \<Rightarrow> string \<Rightarrow> string \<Rightarrow> int \<Rightarrow> int option" where
  "occurrence_start zone tz startTime day =
     zonedWallClockToInstant zone tz (day_string day @ ''T'' @ startTime)"

fun look_back ::
  "zone_data \<Rightarrow> schedule \<Rightarrow> string \<Rightarrow> string \<Rightarrow> int \<Rightarrow> nat \<Rightarrow> int \<Rightarrow> bool \<Rightarrow> schedule_state" where
  "look_back zone s tz startTime now 0 day unevaluable = (if unevaluable then Unevaluable else Out)"
| "look_back zone s tz startTime now (Suc n) day unevaluable =
     (if \<not> occurrenceStartsOn s day then look_back zone s tz startTime now n (day - 1) unevaluable
      else case occurrence_start zone tz startTime day of
        None \<Rightarrow> look_back zone s tz startTime now n (day - 1) True
      | Some t0 \<Rightarrow>
          if t0 \<le> now \<and> now < t0 + occurrenceDurationMs s then In
          else look_back zone s tz startTime now n (day - 1) unevaluable)"

definition start_time_of :: "schedule \<Rightarrow> string option" where
  "start_time_of s = normalizeStartTime (case sch_startTime s of None \<Rightarrow> ''00:00'' | Some t \<Rightarrow> t)"

definition scheduleStateAt :: "zone_data \<Rightarrow> schedule \<Rightarrow> instant \<Rightarrow> schedule_state" where
  "scheduleStateAt zone s now =
     (case truthy (sch_timezone s) of None \<Rightarrow> Unevaluable
      | Some tz \<Rightarrow> (case start_time_of s of None \<Rightarrow> Unevaluable
        | Some startTime \<Rightarrow> (case now of None \<Rightarrow> Unevaluable
          | Some t \<Rightarrow> (case localDateInZone zone t tz of None \<Rightarrow> Unevaluable
            | Some today \<Rightarrow> look_back zone s tz startTime t (nat (lookbackDays s) + 1) today False))))"

definition scheduleOccursAt :: "zone_data \<Rightarrow> schedule \<Rightarrow> instant \<Rightarrow> bool" where
  "scheduleOccursAt zone s now \<longleftrightarrow> scheduleStateAt zone s now \<noteq> Out"

subsection \<open>Validity windows\<close>

text \<open>A timestamp keeps the text it was written in and what \<open>Date.parse\<close> makes of it.\<close>

datatype stamp = Stamp (stamp_text: string) (stamp_time: instant)

record observation_window =
  ow_validFrom :: "stamp option"
  ow_validTo :: "stamp option"
  ow_schedule :: "schedule list option"

definition truthy_stamp :: "stamp option \<Rightarrow> instant" where
  "truthy_stamp s = (case s of Some v \<Rightarrow> if stamp_text v = [] then None else stamp_time v | None \<Rightarrow> None)"

definition isInEffectAt :: "zone_data \<Rightarrow> observation_window \<Rightarrow> instant \<Rightarrow> bool" where
  "isInEffectAt zone obs now = (case now of None \<Rightarrow> True | Some t \<Rightarrow>
     (if (case truthy_stamp (ow_validFrom obs) of Some from \<Rightarrow> t < from | None \<Rightarrow> False) then False
      else if (case truthy_stamp (ow_validTo obs) of Some till \<Rightarrow> t \<ge> till | None \<Rightarrow> False) then False
      else if listed (ow_schedule obs)
        then list_ex (\<lambda>s. scheduleOccursAt zone s (Some t)) (the (ow_schedule obs))
      else True))"

record validity =
  va_status :: string
  va_start :: "stamp option"
  va_end :: "stamp option"
  va_periods :: "schedule list option"
  va_exceptions :: "schedule list option"

definition isValidityInEffectAt :: "zone_data \<Rightarrow> validity \<Rightarrow> instant \<Rightarrow> bool" where
  "isValidityInEffectAt zone v now =
     (if \<not> isInEffectAt zone \<lparr>ow_validFrom = va_start v, ow_validTo = va_end v, ow_schedule = va_periods v\<rparr> now
      then False
      else \<not> list_ex (\<lambda>s. scheduleStateAt zone s now = In)
               (case va_exceptions v of None \<Rightarrow> [] | Some xs \<Rightarrow> xs))"

subsection \<open>The next transition\<close>

text \<open>The candidate instants of one schedule, for \<open>delta\<close> from \<open>-lookbackDays(schedule)\<close> to 366.\<close>

definition schedule_candidates :: "zone_data \<Rightarrow> int \<Rightarrow> schedule \<Rightarrow> int list" where
  "schedule_candidates zone now s =
     (case (start_time_of s, truthy (sch_timezone s)) of
        (Some startTime, Some tz) \<Rightarrow>
          (case localDateInZone zone now tz of None \<Rightarrow> []
           | Some localDate \<Rightarrow> concat (map (\<lambda>delta.
               let day = localDate + delta in
               if \<not> occurrenceStartsOn s day then []
               else case occurrence_start zone tz startTime day of None \<Rightarrow> []
                 | Some start \<Rightarrow> [start, start + occurrenceDurationMs s])
               [- lookbackDays s..366]))
      | _ \<Rightarrow> [])"

definition changes_state :: "zone_data \<Rightarrow> schedule list \<Rightarrow> int \<Rightarrow> bool" where
  "changes_state zone schedules candidate \<longleftrightarrow>
     list_ex (\<lambda>s. scheduleOccursAt zone s (Some (candidate - 1))) schedules
       \<noteq> list_ex (\<lambda>s. scheduleOccursAt zone s (Some candidate)) schedules"

text \<open>A Set of numbers sorted ascending is the sorted list of its elements.\<close>

definition nextScheduleTransition :: "zone_data \<Rightarrow> schedule list \<Rightarrow> instant \<Rightarrow> int option" where
  "nextScheduleTransition zone schedules now =
     (case now of None \<Rightarrow> None | Some t \<Rightarrow>
       if schedules = [] then None
       else find (changes_state zone schedules)
              (filter (\<lambda>v. v > t)
                (sorted_list_of_set (set (concat (map (schedule_candidates zone t) schedules))))))"

definition inSeasonalWindow :: "string \<Rightarrow> string \<Rightarrow> string \<Rightarrow> bool" where
  "inSeasonalWindow from till localDate =
     (let day = take 5 (drop 5 localDate) in
      if from \<le> till then day \<ge> from \<and> day \<le> till else day \<ge> from \<or> day \<le> till)"

subsection \<open>Looking back\<close>

text \<open>What the loop looks for: the occurrence that starts on \<open>day\<close> covers \<open>now\<close>.\<close>

definition covers :: "zone_data \<Rightarrow> schedule \<Rightarrow> string \<Rightarrow> string \<Rightarrow> int \<Rightarrow> int \<Rightarrow> bool" where
  "covers zone s tz startTime now day \<longleftrightarrow> occurrenceStartsOn s day \<and>
     (case occurrence_start zone tz startTime day of None \<Rightarrow> False
      | Some t0 \<Rightarrow> t0 \<le> now \<and> now < t0 + occurrenceDurationMs s)"

lemma look_back_In:
  "look_back zone s tz startTime now n day u = In \<longleftrightarrow>
   (\<exists>k < n. covers zone s tz startTime now (day - int k))"
proof (induction n arbitrary: day u)
  case (Suc n)
  have shift: "(\<exists>k < Suc n. P (day - int k)) \<longleftrightarrow> P day \<or> (\<exists>k < n. P (day - 1 - int k))" for P
    by (auto simp: less_Suc_eq_0_disj algebra_simps)
  show ?case unfolding shift [of "covers zone s tz startTime now"]
    by (auto simp: Suc covers_def split: option.splits)
qed simp

text \<open>A zone with one offset the whole year, in seconds.\<close>

definition wall_of :: "int \<Rightarrow> wall_parts" where
  "wall_of sec = (case civil_of (sec div 86400) of (y, m, d) \<Rightarrow>
     \<lparr>wp_year = y, wp_month = m, wp_day = d, wp_hour = sec mod 86400 div 3600,
      wp_minute = sec mod 3600 div 60, wp_second = sec mod 60\<rparr>)"

definition fixed_zone :: "zone_data \<Rightarrow> string \<Rightarrow> int \<Rightarrow> bool" where
  "fixed_zone zone tz offset \<longleftrightarrow> (\<forall>t. zone tz t = Some (wall_of (t div 1000 + offset)))"

text \<open>The days \<open>YYYY-MM-DD\<close> of the years 101 to 9999: four digits, and a day to either side is not
  one of the years \<open>Date.UTC\<close> reads as 19xx.\<close>

definition iso_day :: "int \<Rightarrow> bool" where
  "iso_day n \<longleftrightarrow> day_from_year 101 \<le> n \<and> n < day_from_year 10000"


lemma time_split: "sec mod 86400 div 3600 * 3600 + sec mod 3600 div 60 * 60 + sec mod 60 = sec mod (86400::int)"
proof -
  have "sec mod 3600 = sec mod 86400 mod 3600" "sec mod 60 = sec mod 3600 mod 60"
    by (simp_all add: mod_mod_cancel)
  then show ?thesis
    using div_mult_mod_eq [of "sec mod 86400" 3600] div_mult_mod_eq [of "sec mod 3600" 60] by linarith
qed

lemma date_utc_wall_of:
  assumes "day_from_year 100 \<le> sec div 86400"
  shows "date_utc (wall_of sec) = sec * 1000"
proof -
  obtain y m d where ymd: "civil_of (sec div 86400) = (y, m, d)" by (cases "civil_of (sec div 86400)")
  have "y = year_of (sec div 86400)" using ymd by (simp add: civil_of_def Let_def)
  then have "day_from_year 100 < day_from_year (y + 1)"
    using assms year_of_range(2) [of "sec div 86400"] by simp
  then have "100 \<le> y" by (simp add: day_from_year_less_iff)
  then have "date_utc (wall_of sec) = sec div 86400 * 86400000 + sec mod 86400 * 1000"
    using days_of_civil(1) [OF ymd] time_split [of sec]
    by (simp add: date_utc_def wall_of_def ymd day_ms_def)
  then show ?thesis using div_mult_mod_eq [of sec 86400] by linarith
qed

lemma iso_day_year:
  assumes "iso_day n" and "civil_of n = (y, m, d)"
  shows "100 < y" "y < 10000" "1 \<le> m" "m \<le> 12" "1 \<le> d" "d \<le> 31"
proof -
  have y: "y = year_of n" using assms(2) by (simp add: civil_of_def Let_def)
  have "day_from_year 101 < day_from_year (y + 1)" "day_from_year y < day_from_year 10000"
    using assms(1) year_of_range [of n] unfolding y iso_day_def by linarith+
  then show "100 < y" "y < 10000" by (simp_all add: day_from_year_less_iff)
  have v: "valid_date y m d" by (rule days_of_civil(2) [OF assms(2)])
  then show m: "1 \<le> m" "m \<le> 12" and "1 \<le> d" by (simp_all add: valid_date_def)
  have "month_start (is_leap y) (m + 1) - month_start (is_leap y) m \<le> 31"
    using month_cases [OF m] by (auto split: if_splits)
  with v show "d \<le> 31" unfolding valid_date_def by linarith
qed

lemma parse_day_string:
  assumes "iso_day n" and "parse_wall_clock (day_string n @ ''T'' @ t) = Some want"
  shows "civil_of n = (wp_year want, wp_month want, wp_day want)"
proof -
  obtain y m d where ymd: "civil_of n = (y, m, d)" by (cases "civil_of n")
  note range = iso_day_year [OF assms(1) ymd]
  let ?s = "day_string n @ ''T'' @ t"
  have str: "?s = pad 4 (nat y) @ ''-'' @ pad 2 (nat m) @ ''-'' @ pad 2 (nat d) @ ''T'' @ t"
    by (simp add: day_string_def ymd)
  have "field 0 4 ?s = y" "field 5 2 ?s = m" "field 8 2 ?s = d"
    using range unfolding str by (simp_all add: field_def number_of_pad)
  moreover have "wp_year want = field 0 4 ?s" "wp_month want = field 5 2 ?s" "wp_day want = field 8 2 ?s"
    using assms(2) by (auto simp: parse_wall_clock_def split: if_splits)
  ultimately show ?thesis using ymd by simp
qed

lemma date_utc_seconds: "date_utc p mod 1000 = 0"
  by (simp add: date_utc_def Let_def day_ms_def mod_add_eq [symmetric])

lemma fixed_zone_instant:
  assumes zone: "fixed_zone zone tz offset" and off: "\<bar>offset\<bar> \<le> 86400" and day: "iso_day day"
    and t0: "occurrence_start zone tz startTime day = Some t0"
  shows "(t0 + offset * 1000) div day_ms = day"
proof -
  obtain want where want: "parse_wall_clock (day_string day @ ''T'' @ startTime) = Some want"
    and civil: "civil_of (date_utc want div day_ms) = (wp_year want, wp_month want, wp_day want)"
    using t0 by (auto simp: occurrence_start_def zonedWallClockToInstant_def Let_def
        split: option.splits if_splits)
  let ?naive = "date_utc want"
  have "civil_of day = civil_of (?naive div day_ms)"
    using parse_day_string [OF day want] civil by simp
  then have naive_day: "?naive div day_ms = day"
    using days_of_civil(1) by (metis prod_cases3)
  define sec where "sec = ?naive div 1000"
  have naive: "?naive = sec * 1000" 
    using date_utc_seconds [of want] div_mult_mod_eq [of ?naive 1000] unfolding sec_def by linarith
  have sec_day: "sec div 86400 = day"
    using naive_day unfolding naive day_ms_def using div_mult_mult2 [of 1000 sec 86400] by simp
  have low: "day_from_year 100 \<le> day - 1"
    using day day_from_year_step [of 100] by (simp add: iso_day_def)
  have "day - 1 \<le> (sec + offset) div 86400"
  proof -
    have "sec - 86400 \<le> sec + offset" using off by linarith
    then have "(sec - 86400) div 86400 \<le> (sec + offset) div 86400" by (rule zdiv_mono1) simp
    then show ?thesis using sec_day by simp
  qed
  with low have first: "date_utc (wall_of (sec + offset)) = (sec + offset) * 1000"
    by (intro date_utc_wall_of) linarith
  have "correct_guess zone tz ?naive ?naive = Some ((sec - offset) * 1000)"
    using zone first by (simp add: correct_guess_def fixed_zone_def naive algebra_simps)
  moreover have "correct_guess zone tz ?naive ((sec - offset) * 1000) = Some ((sec - offset) * 1000)"
    using zone date_utc_wall_of [of sec] low sec_day
    by (simp add: correct_guess_def fixed_zone_def naive)
  ultimately have "t0 = (sec - offset) * 1000"
    using t0 want civil by (simp add: occurrence_start_def zonedWallClockToInstant_def Let_def)
  then show ?thesis using naive_day naive by (simp add: algebra_simps)
qed


subsection \<open>A schedule in a zone of one offset\<close>

text \<open>The look-back finds what covers the instant.\<close>

lemma occurrences_found:
  assumes zone: "fixed_zone zone tz offset" "\<bar>offset\<bar> \<le> 86400"
    and tz: "truthy (sch_timezone s) = Some tz" and start: "start_time_of s = Some startTime"
    and year: "0 \<le> occurrenceDurationMs s" "occurrenceDurationMs s \<le> 366 * day_ms"
    and range: "iso_day today" "iso_day (today - 366)"
    and today: "today = (now + offset * 1000) div day_ms"
  shows "scheduleStateAt zone s (Some now) = In
    \<longleftrightarrow> (\<exists>day. iso_day day \<and> covers zone s tz startTime now day)"
proof -
  let ?sec = "now div 1000 + offset"
  have sec_day: "?sec div 86400 = today"
  proof -
    have "(now + offset * 1000) div (1000 * 86400) = (now + offset * 1000) div 1000 div 86400"
      by (rule zdiv_zmult2_eq) simp
    then show ?thesis by (simp add: today day_ms_def)
  qed
  obtain y m d where ymd: "civil_of today = (y, m, d)" by (cases "civil_of today")
  have local: "localDateInZone zone now tz = Some today"
    using zone(1) days_of_civil(1) [OF ymd] sec_day
    by (simp add: localDateInZone_def fixed_zone_def wall_of_def ymd)
  have state: "scheduleStateAt zone s (Some now) = In
      \<longleftrightarrow> (\<exists>k < nat (lookbackDays s) + 1. covers zone s tz startTime now (today - int k))"
    unfolding look_back_In [where u = False, symmetric]
    by (simp only: scheduleStateAt_def tz start local option.case)
  have near: "k < nat (lookbackDays s) + 1 \<Longrightarrow> iso_day (today - int k)" for k
    using range by (auto simp: iso_day_def lookbackDays_def)
  have "\<exists>k < nat (lookbackDays s) + 1. day = today - int k"
    if day: "iso_day day" and cov: "covers zone s tz startTime now day" for day
  proof -
    obtain t0 where t0: "occurrence_start zone tz startTime day = Some t0"
      and bounds: "t0 \<le> now" "now < t0 + occurrenceDurationMs s"
      using cov by (auto simp: covers_def split: option.splits)
    have start_day: "(t0 + offset * 1000) div day_ms = day"
      by (rule fixed_zone_instant [OF zone day t0])
    have "day \<le> today" unfolding today start_day [symmetric]
      using bounds by (intro zdiv_mono1) (simp_all add: day_ms_def)
    moreover have "today \<le> day + lookbackDays s"
    proof -
      define k where "k = - (- occurrenceDurationMs s div day_ms)"
      have dur: "occurrenceDurationMs s \<le> k * day_ms" and "k \<le> 366"
        using year unfolding k_def day_ms_def by linarith+
      have "now + offset * 1000 \<le> (t0 + offset * 1000) + k * day_ms" using bounds dur by linarith
      then have "today \<le> ((t0 + offset * 1000) + k * day_ms) div day_ms"
        unfolding today by (intro zdiv_mono1) (simp_all add: day_ms_def)
      also have "\<dots> = day + k" using start_day by (simp add: day_ms_def)
      finally show ?thesis using \<open>k \<le> 366\<close> by (simp add: lookbackDays_def k_def [symmetric])
    qed
    ultimately show ?thesis by (intro exI [of _ "nat (today - day)"]) auto
  qed
  with state near show ?thesis by blast
qed

text \<open>C8. In a zone with a fixed offset the bounded look-back finds every occurrence of at most 366 days: a schedule whose
  occurrences last no longer is in effect at an instant exactly when some day its rules allow starts an occurrence that
  covers the instant, however many days before it began. The instant and the year before it lie inside the calendar of
  four-digit years (the day and the one 366 days earlier are days of the years 101 to 9999); the code caps the look-back
  at 366 days, so nothing is said of longer occurrences.\<close>

theorem scheduleStateAt_exact:
  assumes zone: "fixed_zone zone tz offset" "\<bar>offset\<bar> \<le> 86400"
    and tz: "truthy (sch_timezone s) = Some tz" and start: "start_time_of s = Some startTime"
    and year: "0 \<le> occurrenceDurationMs s" "occurrenceDurationMs s \<le> 366 * day_ms"
    and range: "iso_day today" "iso_day (today - 366)"
    and today: "today = (now + offset * 1000) div day_ms"
  shows "scheduleStateAt zone s (Some now) = In
    \<longleftrightarrow> (\<exists>day. iso_day day \<and> covers zone s tz startTime now day)"
  by (rule occurrences_found [OF assms])

definition sample_zone :: zone_data where
  "sample_zone tz t = Some (wall_of (t div 1000 + 3600))"

definition night_schedule :: schedule where
  "night_schedule = \<lparr>sch_startDate = Some ''2024-01-01'', sch_endDate = None, sch_startTime = Some ''20:00:00+02:00'',
     sch_endTime = Some ''5:00'', sch_duration = None, sch_byDay = Some [''MO'', ''TU''], sch_byMonth = None,
     sch_byMonthDay = None, sch_exceptDate = None, sch_timezone = Some ''CET''\<rparr>"

text \<open>Tuesday 2024-03-05, 04:00 local time: the occurrence that began on Monday evening.\<close>

lemma night_schedule_facts:
  "truthy (sch_timezone night_schedule) = Some ''CET''"
  "start_time_of night_schedule = Some ''20:00:00''"
  "occurrenceDurationMs night_schedule = 32400000"
  "civil_of 19787 = (2024, 3, 5)"
  "covers sample_zone night_schedule ''CET'' ''20:00:00'' 1709607600000 19786"
  by code_simp+

theorem scheduleStateAt_exact_witness: "scheduleStateAt sample_zone night_schedule (Some 1709607600000) = In"
proof -
  have "fixed_zone sample_zone ''CET'' 3600" by (simp add: fixed_zone_def sample_zone_def)
  then have "scheduleStateAt sample_zone night_schedule (Some 1709607600000) = In \<longleftrightarrow>
      (\<exists>day. iso_day day \<and> covers sample_zone night_schedule ''CET'' ''20:00:00'' 1709607600000 day)"
    by (rule scheduleStateAt_exact [where today = 19787])
      (simp_all add: night_schedule_facts iso_day_def day_ms_def day_from_year_def)
  moreover have "iso_day 19786" by (simp add: iso_day_def day_from_year_def)
  ultimately show ?thesis using night_schedule_facts(5) by blast
qed

subsection \<open>Zones that change their offset\<close>

text \<open>The two-pass correction is right wherever it settles: for any zone data, if the offset
  in force at the instant it returns is the one its second pass used, that instant shows the
  wall clock that was asked for; and it never returns an instant for a date that is not in the
  calendar.\<close>

theorem zonedWallClock_settled:
  assumes "zonedWallClockToInstant zone tz text_clock = Some t"
  shows "\<exists>want first p1. parse_wall_clock text_clock = Some want
    \<and> valid_date (wp_year want) (wp_month want) (wp_day want)
    \<and> zone tz first = Some p1
    \<and> (\<forall>p. zone tz t = Some p \<longrightarrow> date_utc p - t = date_utc p1 - first
         \<longrightarrow> date_utc p = date_utc want)"
proof -
  from assms obtain want first where want: "parse_wall_clock text_clock = Some want"
    and civil: "civil_of (date_utc want div day_ms) = (wp_year want, wp_month want, wp_day want)"
    and "correct_guess zone tz (date_utc want) first = Some t"
    by (auto simp: zonedWallClockToInstant_def Let_def split: option.splits if_splits)
  then obtain p1 where "zone tz first = Some p1" and "t = first + (date_utc want - date_utc p1)"
    by (auto simp: correct_guess_def)
  moreover have "valid_date (wp_year want) (wp_month want) (wp_day want)"
    by (rule days_of_civil(2) [OF civil])
  ultimately show ?thesis using want by (intro exI conjI) auto
qed

theorem zonedWallClock_settled_witness:
  "\<exists>want first p1. parse_wall_clock ''2024-03-04T20:00:00'' = Some want
    \<and> sample_zone ''CET'' first = Some p1
    \<and> valid_date (wp_year want) (wp_month want) (wp_day want)"
proof -
  have "zonedWallClockToInstant sample_zone ''CET'' ''2024-03-04T20:00:00'' = Some 1709578800000" by code_simp
  from zonedWallClock_settled [OF this] show ?thesis by blast
qed

text \<open>
  The comment on \<open>zonedWallClockToInstant\<close> says a wall clock in a spring-forward gap resolves to
  the instant after the gap. West of Greenwich it does not: 2024-03-10 02:30 in Los Angeles,
  where 02:00 became 03:00 at 10:00 UTC, resolves to 01:30 of the standard time before it.
\<close>

definition los_angeles_2024 :: zone_data where
  "los_angeles_2024 tz t = Some (wall_of (t div 1000 + (if t < 1710064800000 then -28800 else -25200)))"

lemma gap_resolves_before:
  "zonedWallClockToInstant los_angeles_2024 ''America/Los_Angeles'' ''2024-03-10T02:30'' = Some 1710063000000"
  "(1710063000000 :: int) < 1710064800000"
  by code_simp+

text \<open>
  An occurrence may reach one local day further than its length in days when the clocks go
  forward under it: 24 hours from Saturday 23:30 end on Monday 00:30, and at Monday 00:15 the
  look-back of one day no longer sees Saturday.
\<close>

definition berlin_2024 :: zone_data where
  "berlin_2024 tz t = Some (wall_of (t div 1000 + (if t < 1711846800000 then 3600 else 7200)))"

definition long_night :: schedule where
  "long_night = night_schedule\<lparr>sch_startTime := Some ''23:30'', sch_endTime := None,
     sch_duration := Some ''PT24H'', sch_byDay := None\<rparr>\<lparr>sch_startDate := Some ''2024-03-30'',
     sch_endDate := Some ''2024-03-30''\<rparr>"

lemma spring_forward_misses_occurrence:
  "covers berlin_2024 long_night ''CET'' ''23:30:00'' 1711923300000 19812"
  "scheduleStateAt berlin_2024 long_night (Some 1711923300000) = Out"
  by code_simp+

text \<open>The schema accepts weeks in a duration; the evaluator does not read them and takes 24 hours.\<close>

lemma week_duration_ignored:
  "occurrenceDurationMs (long_night\<lparr>sch_duration := Some ''P1W''\<rparr>) = day_ms"
  by code_simp

lemma nextScheduleTransition_later:
  assumes "nextScheduleTransition zone schedules (Some now) = Some t"
  shows "now < t"
proof -
  let ?cs = "sorted_list_of_set (set (concat (map (schedule_candidates zone now) schedules)))"
  have "find (changes_state zone schedules) (filter (\<lambda>v. now < v) ?cs) = Some t"
    using assms by (simp add: nextScheduleTransition_def split: if_splits)
  from find_in [OF this] show ?thesis by simp
qed

lemma sorted_find_least:
  "sorted xs \<Longrightarrow> find P xs = Some x \<Longrightarrow> c \<in> set xs \<Longrightarrow> c < x \<Longrightarrow> \<not> P c" for c :: int
  by (induction xs) (auto split: if_splits)

lemma next_candidate:
  assumes cs_def: "cs = concat (map (schedule_candidates zone now) schedules)"
  shows "nextScheduleTransition zone schedules (Some now) = None \<Longrightarrow> c \<in> set cs \<Longrightarrow> now < c \<Longrightarrow> \<not> changes_state zone schedules c"
    and "nextScheduleTransition zone schedules (Some now) = Some t \<Longrightarrow> now < t \<and> changes_state zone schedules t"
    and "nextScheduleTransition zone schedules (Some now) = Some t \<Longrightarrow> c \<in> set cs \<Longrightarrow> now < c \<Longrightarrow> c < t
           \<Longrightarrow> \<not> changes_state zone schedules c"
proof -
  define later where "later = filter (\<lambda>v. now < v) (sorted_list_of_set (set cs))"
  have sorted: "sorted later" by (simp add: later_def sorted_wrt_filter)
  have members: "set later = {c \<in> set cs. now < c}" by (auto simp: later_def)
  have next_eq: "nextScheduleTransition zone schedules (Some now) = find (changes_state zone schedules) later"
    by (auto simp: nextScheduleTransition_def later_def cs_def)
  show "\<not> changes_state zone schedules c"
    if "nextScheduleTransition zone schedules (Some now) = None" "c \<in> set cs" "now < c"
    using that members by (auto simp: next_eq find_None_iff)
  show "now < t \<and> changes_state zone schedules t" if "nextScheduleTransition zone schedules (Some now) = Some t"
    using find_in [of "changes_state zone schedules" later t] that members by (auto simp: next_eq)
  show "\<not> changes_state zone schedules c"
    if "nextScheduleTransition zone schedules (Some now) = Some t" "c \<in> set cs" "now < c" "c < t"
    using sorted_find_least [OF sorted, of "changes_state zone schedules" t c] that members by (auto simp: next_eq)
qed

lemma scan_hhmm_digits:
  "scan_hhmm s = Some (h, m, rest) \<Longrightarrow> length m = 2 \<and> list_all is_digit m"
  by (auto simp: scan_hhmm_def Let_def split: if_splits list.splits)

lemma scan_seconds_digits:
  "scan_seconds s = (Some t, rest) \<Longrightarrow> length t = 2 \<and> list_all is_digit t"
  by (auto simp: scan_seconds_def split: if_splits list.splits)

lemma start_time_shape:
  assumes "start_time_of s = Some st"
  obtains h m sec where "st = pad 2 h @ '':'' @ m @ '':'' @ sec" "h \<le> 23" "number_of m \<le> 59"
    "length m = 2" "list_all is_digit m" "length sec = 2" "list_all is_digit sec"
proof -
  obtain raw where "normalizeStartTime raw = Some st" using assms by (auto simp: start_time_of_def)
  then obtain h m rest sec rest1 where scan: "scan_hhmm (trim raw) = Some (h, m, rest)" "scan_seconds rest = (sec, rest1)"
      and le: "number_of h \<le> 23" "number_of m \<le> 59"
      and st: "st = pad 2 (number_of h) @ '':'' @ m @ '':'' @ (case sec of None \<Rightarrow> ''00'' | Some t \<Rightarrow> t)"
    by (auto simp: normalizeStartTime_def split: option.splits prod.splits if_splits)
  have "length (case sec of None \<Rightarrow> ''00'' | Some t \<Rightarrow> t) = 2 \<and> list_all is_digit (case sec of None \<Rightarrow> ''00'' | Some t \<Rightarrow> t)"
    using scan(2) scan_seconds_digits [of rest _ rest1] by (cases sec) (auto simp: is_digit_def)
  with that [OF st le] scan_hhmm_digits [OF scan(1)] show ?thesis by simp
qed

lemma two_digits: "length s = 2 \<Longrightarrow> list_all is_digit s \<Longrightarrow> \<exists>a b. s = [a, b] \<and> is_digit a \<and> is_digit b"
  by (cases s; cases "tl s") auto

lemma four_digits:
  "length s = 4 \<Longrightarrow> list_all is_digit s \<Longrightarrow> \<exists>a b c d. s = [a, b, c, d] \<and> is_digit a \<and> is_digit b \<and> is_digit c \<and> is_digit d"
  by (auto simp: numeral_eq_Suc length_Suc_conv)

text \<open>A day of the calendar and a time of day always make an instant, on that day of the zone.\<close>

lemma fixed_zone_starts:
  assumes zone: "fixed_zone zone tz offset" and day: "iso_day day"
    and start: "start_time_of s = Some st" and sec: "number_of (drop 6 st) \<le> 59"
  shows "occurrence_start zone tz st day \<noteq> None"
proof -
  obtain h m sec where st: "st = pad 2 h @ '':'' @ m @ '':'' @ sec" and le: "h \<le> 23" "number_of m \<le> 59"
    and ms: "length m = 2" "list_all is_digit m" "length sec = 2" "list_all is_digit sec"
    by (rule start_time_shape [OF start])
  obtain y mo d where ymd: "civil_of day = (y, mo, d)" by (cases "civil_of day")
  let ?s = "day_string day @ ''T'' @ st"
  have str: "?s = pad 4 (nat y) @ ''-'' @ pad 2 (nat mo) @ ''-'' @ pad 2 (nat d) @ ''T'' @ pad 2 h @ '':'' @ m @ '':'' @ sec"
    by (simp add: day_string_def ymd st)
  have fit: "fits ''dddd-dd-ddTdd:dd:dd'' ?s"
    unfolding str using four_digits [of "pad 4 (nat y)"] two_digits [of "pad 2 (nat mo)"] two_digits [of "pad 2 (nat d)"]
      two_digits [of "pad 2 h"] two_digits [OF ms(1,2)] two_digits [OF ms(3,4)] pad_digits
    by (auto simp: fits_def)
  then obtain want where want: "parse_wall_clock ?s = Some want" by (simp add: parse_wall_clock_def)
  have clock: "wp_hour want = field 11 2 ?s" "wp_minute want = field 14 2 ?s" "wp_second want = field 17 2 ?s"
    using want by (auto simp: parse_wall_clock_def split: if_splits)
  have "drop 6 st = sec" using ms(1) by (simp add: st)
  then have "field 11 2 ?s = int h" "field 14 2 ?s = int (number_of m)" "field 17 2 ?s = int (number_of sec)" "number_of sec \<le> 59"
    using sec ms le(1) unfolding str by (simp_all add: field_def number_of_pad)
  then have time: "0 \<le> wp_hour want * 3600 + wp_minute want * 60 + wp_second want"
      "wp_hour want * 3600 + wp_minute want * 60 + wp_second want < 86400"
    using le clock by linarith+
  have civil: "civil_of day = (wp_year want, wp_month want, wp_day want)" by (rule parse_day_string [OF day want])
  have "100 < wp_year want" by (rule iso_day_year(1) [OF day civil])
  then have "date_utc want = day * day_ms + (wp_hour want * 3600 + wp_minute want * 60 + wp_second want) * 1000"
    using days_of_civil(1) [OF civil] by (simp add: date_utc_def)
  moreover have "(day * day_ms + x * 1000) div day_ms = day" if "0 \<le> x" "x < 86400" for x
    using that by (simp add: day_ms_def)
  ultimately have "date_utc want div day_ms = day" using time by presburger
  then show ?thesis using civil want zone
    by (simp add: occurrence_start_def zonedWallClockToInstant_def Let_def correct_guess_def fixed_zone_def)
qed

lemma look_back_evaluable:
  assumes "\<And>k. k < n \<Longrightarrow> occurrence_start zone tz st (day - int k) \<noteq> None"
  shows "look_back zone s tz st now n day False \<noteq> Unevaluable"
  using assms
proof (induction n arbitrary: day)
  case (Suc n)
  have "look_back zone s tz st now n (day - 1) False \<noteq> Unevaluable"
  proof (rule Suc.IH)
    fix k assume "k < n"
    then show "occurrence_start zone tz st (day - 1 - int k) \<noteq> None" using Suc.prems [of "Suc k"] by (simp add: algebra_simps)
  qed
  moreover have "occurrence_start zone tz st day \<noteq> None" using Suc.prems [of 0] by simp
  ultimately show ?case by (auto split: option.split)
qed simp


lemma fixed_zone_today:
  assumes "fixed_zone zone tz offset"
  shows "localDateInZone zone now tz = Some ((now + offset * 1000) div day_ms)"
proof -
  have "(now div 1000 + offset) div 86400 = (now + offset * 1000) div day_ms"
    using zdiv_zmult2_eq [of 86400 "now + offset * 1000" 1000] by (simp add: day_ms_def)
  moreover obtain y m d where ymd: "civil_of ((now div 1000 + offset) div 86400) = (y, m, d)" by (metis prod_cases3)
  ultimately show ?thesis using assms days_of_civil(1) [OF ymd]
    by (simp add: localDateInZone_def fixed_zone_def wall_of_def ymd)
qed

text \<open>A schedule whose occurrences are known: in a zone of one offset, with a time of day and occurrences of at most 366 days,
  a year to either side of the instant inside the calendar; or one that cannot be evaluated and counts as in effect.\<close>

definition steady :: "zone_data \<Rightarrow> int \<Rightarrow> schedule \<Rightarrow> bool" where
  "steady zone now s \<longleftrightarrow> (case (start_time_of s, truthy (sch_timezone s)) of
     (Some startTime, Some tz) \<Rightarrow> number_of (drop 6 startTime) \<le> 59
       \<and> 0 \<le> occurrenceDurationMs s \<and> occurrenceDurationMs s \<le> 366 * day_ms
       \<and> (\<exists>offset. fixed_zone zone tz offset \<and> \<bar>offset\<bar> \<le> 86400
            \<and> iso_day ((now + offset * 1000) div day_ms - 366) \<and> iso_day ((now + offset * 1000) div day_ms + 366))
   | _ \<Rightarrow> True)"

lemma fixed_zone_occurs:
  assumes zone: "fixed_zone zone tz offset" "\<bar>offset\<bar> \<le> 86400"
    and s: "truthy (sch_timezone s) = Some tz" "start_time_of s = Some st" "number_of (drop 6 st) \<le> 59"
    and dur: "0 \<le> occurrenceDurationMs s" "occurrenceDurationMs s \<le> 366 * day_ms"
    and range: "iso_day ((now + offset * 1000) div day_ms - 366)" "iso_day ((now + offset * 1000) div day_ms + 366)"
    and v: "now \<le> v" "v \<le> now + 366 * day_ms"
  shows "scheduleOccursAt zone s (Some v) \<longleftrightarrow> (\<exists>day. iso_day day \<and> covers zone s tz st v day)"
proof -
  define today where "today = (v + offset * 1000) div day_ms"
  have "(now + offset * 1000) div day_ms \<le> today" "today \<le> (now + offset * 1000 + 366 * day_ms) div day_ms"
    unfolding today_def using v by (auto intro!: zdiv_mono1 simp: day_ms_def)
  then have iso: "iso_day today" "iso_day (today - 366)"
    using range by (auto simp: iso_day_def day_ms_def)
  have near: "iso_day (today - int k)" if "k < nat (lookbackDays s) + 1" for k
    using that iso by (auto simp: iso_day_def lookbackDays_def)
  have "look_back zone s tz st v (nat (lookbackDays s) + 1) today False \<noteq> Unevaluable"
    by (rule look_back_evaluable, rule fixed_zone_starts [OF zone(1) near s(2,3)])
  then have "scheduleStateAt zone s (Some v) \<noteq> Unevaluable"
    by (simp only: scheduleStateAt_def s fixed_zone_today [OF zone(1)] today_def [symmetric] option.case not_False_eq_True)
  then have "scheduleOccursAt zone s (Some v) \<longleftrightarrow> scheduleStateAt zone s (Some v) = In"
    by (cases "scheduleStateAt zone s (Some v)") (simp_all add: scheduleOccursAt_def)
  then show ?thesis using occurrences_found [OF zone s(1,2) dur iso today_def] by simp
qed

text \<open>Where a schedule turns on or off within 366 days, it starts or ends one of the occurrences that are looked at.\<close>

lemma turn_is_candidate:
  assumes steady: "steady zone now s" and u: "now < u" "u \<le> now + 366 * day_ms"
    and turn: "scheduleOccursAt zone s (Some (u - 1)) \<noteq> scheduleOccursAt zone s (Some u)"
  shows "u \<in> set (schedule_candidates zone now s)"
proof (cases "start_time_of s = None \<or> truthy (sch_timezone s) = None")
  case True
  then have "scheduleStateAt zone s (Some v) = Unevaluable" for v
    by (auto simp: scheduleStateAt_def split: option.split)
  then show ?thesis using turn by (simp add: scheduleOccursAt_def)
next
  case False
  then obtain st tz where s: "truthy (sch_timezone s) = Some tz" "start_time_of s = Some st" by auto
  then obtain offset where sec: "number_of (drop 6 st) \<le> 59"
      and dur: "0 \<le> occurrenceDurationMs s" "occurrenceDurationMs s \<le> 366 * day_ms"
      and zone: "fixed_zone zone tz offset" "\<bar>offset\<bar> \<le> 86400"
      and range: "iso_day ((now + offset * 1000) div day_ms - 366)" "iso_day ((now + offset * 1000) div day_ms + 366)"
    using steady by (auto simp: steady_def)
  note occurs = fixed_zone_occurs [OF zone s sec dur range]
  have "(\<exists>day. iso_day day \<and> covers zone s tz st (u - 1) day) \<noteq> (\<exists>day. iso_day day \<and> covers zone s tz st u day)"
    using turn occurs [of "u - 1"] occurs [of u] u by simp
  then obtain day where day: "iso_day day" and edge: "covers zone s tz st (u - 1) day \<noteq> covers zone s tz st u day" by blast
  then obtain t0 where t0: "occurrence_start zone tz st day = Some t0" "occurrenceStartsOn s day"
    by (auto simp: covers_def split: option.splits)
  have at: "u = t0 \<or> u = t0 + occurrenceDurationMs s" using edge dur(1) by (simp add: covers_def t0) linarith
  define today where "today = (now + offset * 1000) div day_ms"
  define k where "k = - (- occurrenceDurationMs s div day_ms)"
  have "occurrenceDurationMs s \<le> k * day_ms" "0 \<le> k" "k \<le> 366" using dur unfolding k_def day_ms_def by linarith+
  then have "now + offset * 1000 \<le> (t0 + offset * 1000) + k * day_ms" "t0 + offset * 1000 \<le> (now + offset * 1000) + 366 * day_ms"
    using at u dur by (auto simp: day_ms_def)
  then have "today \<le> ((t0 + offset * 1000) + k * day_ms) div day_ms"
      "(t0 + offset * 1000) div day_ms \<le> ((now + offset * 1000) + 366 * day_ms) div day_ms"
    unfolding today_def by (auto intro!: zdiv_mono1 simp: day_ms_def)
  then have "today \<le> day + k" "day \<le> today + 366"
    using fixed_zone_instant [OF zone day t0(1)] by (simp_all add: day_ms_def today_def)
  then have "day - today \<in> set [- lookbackDays s..366]"
    using \<open>k \<le> 366\<close> by (auto simp: lookbackDays_def k_def [symmetric])
  then show ?thesis using t0 at s fixed_zone_today [OF zone(1), of now]
    by (force simp: schedule_candidates_def today_def [symmetric] Let_def)
qed


text \<open>Asked on Tuesday at four in the morning, the night of Monday ends no later than five.\<close>

lemma night_over:
  "\<not> scheduleOccursAt sample_zone night_schedule (Some 1709611200000)"
  by code_simp

lemma night_seconds: "number_of (drop 6 ''20:00:00'') \<le> 59"
  by code_simp

lemma night_zone: "fixed_zone sample_zone ''CET'' 3600"
  by (simp add: fixed_zone_def sample_zone_def)

lemma night_holds: "scheduleOccursAt sample_zone night_schedule (Some 1709607600000)"
proof -
  have "iso_day 19786" by (simp add: iso_day_def day_from_year_def)
  moreover have "scheduleOccursAt sample_zone night_schedule (Some 1709607600000) \<longleftrightarrow>
      (\<exists>day. iso_day day \<and> covers sample_zone night_schedule ''CET'' ''20:00:00'' 1709607600000 day)"
    by (rule fixed_zone_occurs [where now = 1709607600000, OF night_zone _ night_schedule_facts(1,2) night_seconds])
      (simp_all add: night_schedule_facts(3) iso_day_def day_from_year_def day_ms_def)
  ultimately show ?thesis using night_schedule_facts(5) by blast
qed


text \<open>A seasonal window and the one from its end to its start cover every day of the year, and
  meet only in their two end days.\<close>

lemma seasonal_window_complement:
  "a \<noteq> b \<Longrightarrow> inSeasonalWindow a b d \<or> inSeasonalWindow b a d"
  "a \<noteq> b \<Longrightarrow> inSeasonalWindow a b d \<Longrightarrow> inSeasonalWindow b a d \<Longrightarrow>
     take 5 (drop 5 d) = a \<or> take 5 (drop 5 d) = b"
  by (auto simp: inSeasonalWindow_def Let_def split: if_splits)

end
