(* ===== verification/Effect_State.thy ===== *)
theory Effect_State
  imports Schedule
begin

text \<open>
  The state of an effect at an instant and its routing contract,
  packages/model/src/kernel/effect-state.ts. An effect record keeps the fields these functions
  read; enum members are their strings, as in the code.
\<close>

datatype effect_state = Active | Scheduled | Ended | UnknownState

record situation_effect =
  ef_kind :: string
  ef_validity :: "validity option"
  ef_issues :: "string list option"
  ef_applicability :: string
  ef_normalization :: string
  ef_actionStatus :: "string option"

definition TEMPORAL_ISSUES :: "string list" where
  "TEMPORAL_ISSUES = [''invalid_window'', ''unsupported_schedule'', ''unsupported_status'']"

definition effectValidity :: "situation_effect \<Rightarrow> validity \<Rightarrow> validity" where
  "effectValidity e situation = (case ef_validity e of Some v \<Rightarrow> v | None \<Rightarrow> situation)"

text \<open>\<open>toISOString\<close> for the years 0 to 9999; other years have a signed six-digit form.\<close>

definition iso_string :: "int \<Rightarrow> string" where
  "iso_string t = (let ms = t mod day_ms in
     day_string (t div day_ms) @ ''T'' @ pad 2 (nat (ms div 3600000)) @ '':''
       @ pad 2 (nat (ms mod 3600000 div 60000)) @ '':'' @ pad 2 (nat (ms mod 60000 div 1000))
       @ ''.'' @ pad 3 (nat (ms mod 1000)) @ ''Z'')"

definition four_digit_year :: "int \<Rightarrow> bool" where
  "four_digit_year t \<longleftrightarrow> 0 \<le> year_of (t div day_ms) \<and> year_of (t div day_ms) \<le> 9999"

definition earlier_of :: "(int \<times> string) option \<Rightarrow> stamp option \<Rightarrow> (int \<times> string) option" where
  "earlier_of best value_opt = (case value_opt of None \<Rightarrow> best
     | Some v \<Rightarrow> (case stamp_time v of None \<Rightarrow> best
       | Some t \<Rightarrow> (case best of None \<Rightarrow> Some (t, stamp_text v)
         | Some (bt, _) \<Rightarrow> if t < bt then Some (t, stamp_text v) else best)))"

definition earliest :: "stamp option list \<Rightarrow> stamp option" where
  "earliest instants = (case foldl earlier_of None instants of None \<Rightarrow> None
     | Some (t, value) \<Rightarrow> Some (Stamp (if four_digit_year t then iso_string t else value) (Some t)))"

text \<open>A transition of a schedule is the ISO text of its instant.\<close>

definition transition_stamp :: "zone_data \<Rightarrow> schedule list option \<Rightarrow> int \<Rightarrow> stamp option" where
  "transition_stamp zone schedules t =
     map_option (\<lambda>n. Stamp (iso_string n) (Some n))
       (nextScheduleTransition zone (case schedules of None \<Rightarrow> [] | Some xs \<Rightarrow> xs) (Some t))"

definition stamp_instant :: "stamp option \<Rightarrow> instant" where
  "stamp_instant s = (case s of None \<Rightarrow> None | Some v \<Rightarrow> stamp_time v)"

definition effectStateAt ::
  "zone_data \<Rightarrow> situation_effect \<Rightarrow> validity \<Rightarrow> instant \<Rightarrow> effect_state \<times> stamp option" where
  "effectStateAt zone e situation now =
     (case now of None \<Rightarrow> (UnknownState, None)
      | Some t \<Rightarrow>
        if list_ex (\<lambda>code. code \<in> set TEMPORAL_ISSUES) (case ef_issues e of None \<Rightarrow> [] | Some is \<Rightarrow> is)
        then (UnknownState, None)
        else let v = effectValidity e situation in
          if (case stamp_instant (va_end v) of Some end_t \<Rightarrow> t \<ge> end_t | None \<Rightarrow> False) then (Ended, None)
          else if (case stamp_instant (va_start v) of Some start_t \<Rightarrow> t < start_t | None \<Rightarrow> False)
            then (Scheduled, va_start v)
          else (if isValidityInEffectAt zone v now then Active else Scheduled,
                earliest [va_end v, transition_stamp zone (va_periods v) t,
                          transition_stamp zone (va_exceptions v) t]))"

subsection \<open>The routing contract\<close>

datatype routing_blocker = ApplicabilityUnknown | NotNormalized | ActionNotRoutable

definition NON_ROUTING_ACTIONS :: "string list" where
  "NON_ROUTING_ACTIONS = [''requested'', ''approved'', ''rejected'']"

definition actionInPlace :: "situation_effect \<Rightarrow> bool" where
  "actionInPlace e = (case ef_actionStatus e of None \<Rightarrow> True | Some a \<Rightarrow> a \<notin> set NON_ROUTING_ACTIONS)"

definition lifecycleInForce :: "validity \<Rightarrow> bool" where
  "lifecycleInForce v \<longleftrightarrow> va_status v = ''active''"

definition routingBlockers :: "situation_effect \<Rightarrow> routing_blocker list" where
  "routingBlockers e =
     (if ef_applicability e = ''unknown'' then [ApplicabilityUnknown] else []) @
     (if ef_normalization e \<noteq> ''complete'' then [NotNormalized] else []) @
     (if \<not> actionInPlace e then [ActionNotRoutable] else [])"

record effect_phase =
  ph_effects :: "situation_effect list option"

record effect_situation =
  es_effects :: "situation_effect list option"
  es_phases :: "effect_phase list option"

definition or_empty :: "'a list option \<Rightarrow> 'a list" where
  "or_empty xs = (case xs of None \<Rightarrow> [] | Some ys \<Rightarrow> ys)"

definition situationEffects :: "effect_situation \<Rightarrow> situation_effect list" where
  "situationEffects s = or_empty (es_effects s) @
     concat (map (\<lambda>phase. or_empty (ph_effects phase)) (or_empty (es_phases s)))"

definition VEHICLE_KINDS :: "string list" where
  "VEHICLE_KINDS = [''dimension_limit'', ''hazmat'', ''unsupported'']"

definition isVehicleSpecific :: "situation_effect \<Rightarrow> bool" where
  "isVehicleSpecific e \<longleftrightarrow> ef_kind e \<in> set VEHICLE_KINDS \<or> ef_applicability e \<noteq> ''all''"

definition isRestrictionEvidence :: "situation_effect \<Rightarrow> bool" where
  "isRestrictionEvidence e \<longleftrightarrow> ef_applicability e = ''unknown'' \<or> ef_normalization e \<noteq> ''complete''"

subsection \<open>Properties\<close>

text \<open>\<open>Date.parse('')\<close> is NaN, so an empty timestamp has no instant.\<close>

definition wf_stamp :: "stamp option \<Rightarrow> bool" where
  "wf_stamp s \<longleftrightarrow> (case s of Some (Stamp [] (Some _)) \<Rightarrow> False | _ \<Rightarrow> True)"

lemma truthy_stamp_instant: "wf_stamp s \<Longrightarrow> truthy_stamp s = stamp_instant s"
  by (auto simp: wf_stamp_def truthy_stamp_def stamp_instant_def split: option.splits stamp.splits list.splits)

lemma in_effect_window:
  assumes "wf_stamp (va_start v)" "wf_stamp (va_end v)" "isValidityInEffectAt zone v (Some t)"
  shows "(case stamp_instant (va_end v) of Some e \<Rightarrow> \<not> e \<le> t | None \<Rightarrow> True)
    \<and> (case stamp_instant (va_start v) of Some b \<Rightarrow> \<not> t < b | None \<Rightarrow> True)"
  using assms
  by (auto simp: isValidityInEffectAt_def isInEffectAt_def truthy_stamp_instant split: if_splits option.splits)

definition no_temporal_issue :: "situation_effect \<Rightarrow> bool" where
  "no_temporal_issue e \<longleftrightarrow> set (or_empty (ef_issues e)) \<inter> set TEMPORAL_ISSUES = {}"

lemma effectStateAt_eq:
  "fst (effectStateAt zone e situation (Some t)) =
     (let v = effectValidity e situation in
      if \<not> no_temporal_issue e then UnknownState
      else if (case stamp_instant (va_end v) of Some end_t \<Rightarrow> end_t \<le> t | None \<Rightarrow> False) then Ended
      else if (case stamp_instant (va_start v) of Some start_t \<Rightarrow> t < start_t | None \<Rightarrow> False) then Scheduled
      else if isValidityInEffectAt zone v (Some t) then Active else Scheduled)"
  by (auto simp: effectStateAt_def no_temporal_issue_def or_empty_def Let_def list_ex_iff
      split: option.splits)

text \<open>An effect is active exactly when no issue makes its window unreadable and the validity it
  is evaluated against, its own or else its situation's, is in effect; an unreadable window is
  unknown and never active.\<close>

theorem effect_active_iff:
  assumes "wf_stamp (va_start (effectValidity e situation))"
    and "wf_stamp (va_end (effectValidity e situation))"
  shows "fst (effectStateAt zone e situation (Some t)) = Active \<longleftrightarrow>
    no_temporal_issue e \<and> isValidityInEffectAt zone (effectValidity e situation) (Some t)"
  using in_effect_window [OF assms, of zone t]
  by (auto simp: effectStateAt_eq Let_def split: option.splits)

lemma earlier_of_later:
  assumes "\<forall>v. s = Some v \<longrightarrow> (\<forall>u. stamp_time v = Some u \<longrightarrow> t < u)" "\<forall>b x. best = Some (b, x) \<longrightarrow> t < b"
    and "earlier_of best s = Some (b, x)"
  shows "t < b"
  using assms by (auto simp: earlier_of_def split: option.splits if_splits)

lemma earliest_later:
  assumes "\<forall>s \<in> set ss. \<forall>v. s = Some v \<longrightarrow> (\<forall>u. stamp_time v = Some u \<longrightarrow> t < u)"
    and "earliest ss = Some r"
  shows "\<exists>u. stamp_time r = Some u \<and> t < u"
proof -
  have "t < b" if "foldl earlier_of best ss = Some (b, x)" "\<forall>b x. best = Some (b, x) \<longrightarrow> t < b" for best b x
    using assms(1) that
  proof (induction ss arbitrary: best)
    case (Cons s ss)
    have "\<forall>b x. earlier_of best s = Some (b, x) \<longrightarrow> t < b"
      using Cons.prems(1,3) by (intro allI impI) (rule earlier_of_later [of s t best], simp_all)
    moreover have "foldl earlier_of (earlier_of best s) ss = Some (b, x)" using Cons.prems(2) by simp
    ultimately show ?case using Cons.IH [of "earlier_of best s"] Cons.prems(1) by simp
  qed simp
  with assms(2) show ?thesis by (force simp: earliest_def split: option.splits)
qed

lemma transition_later: "transition_stamp zone ss t = Some v \<Longrightarrow> stamp_time v = Some r \<Longrightarrow> t < r"
  using nextScheduleTransition_later [of zone "case ss of None \<Rightarrow> [] | Some xs \<Rightarrow> xs" t r]
  by (cases "nextScheduleTransition zone (case ss of None \<Rightarrow> [] | Some xs \<Rightarrow> xs) (Some t)")
    (auto simp: transition_stamp_def)

text \<open>The next transition an effect reports always lies after the instant it was evaluated at: a
  start not yet reached, an end not yet reached, or a later turn of its schedules.\<close>

theorem effect_transition_later:
  assumes "effectStateAt zone e situation (Some t) = (state, Some next_stamp)"
  shows "\<exists>u. stamp_time next_stamp = Some u \<and> t < u"
proof -
  let ?v = "effectValidity e situation"
  let ?stamps = "[va_end ?v, transition_stamp zone (va_periods ?v) t, transition_stamp zone (va_exceptions ?v) t]"
  have no_end: "\<not> (case stamp_instant (va_end ?v) of Some end_t \<Rightarrow> t \<ge> end_t | None \<Rightarrow> False)"
    using assms by (auto simp: effectStateAt_def Let_def split: if_splits)
  consider "va_start ?v = Some next_stamp" "case stamp_instant (va_start ?v) of Some b \<Rightarrow> t < b | None \<Rightarrow> False"
    | "earliest ?stamps = Some next_stamp"
    using assms by (auto simp: effectStateAt_def Let_def split: if_splits)
  then show ?thesis
  proof cases
    case 1
    then show ?thesis by (auto simp: stamp_instant_def split: option.splits)
  next
    case 2
    have "\<forall>s \<in> set ?stamps. \<forall>v. s = Some v \<longrightarrow> (\<forall>r. stamp_time v = Some r \<longrightarrow> t < r)"
      using no_end transition_later by (auto simp: stamp_instant_def split: option.splits)
    from earliest_later [OF this 2] show ?thesis .
  qed
qed

text \<open>The routing contract has no hole: an effect without blockers is exactly one whose
  vehicles are known, that the parser typed completely and whose operator action is in place, so
  restriction evidence is always blocked, and no blocker is listed twice.\<close>

theorem routing_contract:
  "(routingBlockers e = [] \<longleftrightarrow> \<not> isRestrictionEvidence e \<and> actionInPlace e)
   \<and> distinct (routingBlockers e)"
  by (auto simp: routingBlockers_def isRestrictionEvidence_def)

subsection \<open>Witnesses\<close>

definition sample_validity :: validity where
  "sample_validity = \<lparr>va_status = ''active'', va_start = Some (Stamp ''2024-03-01T00:00:00Z'' (Some 1709251200000)),
     va_end = Some (Stamp ''2024-04-01T00:00:00Z'' (Some 1711929600000)), va_periods = None, va_exceptions = None\<rparr>"

definition sample_effect :: situation_effect where
  "sample_effect = \<lparr>ef_kind = ''closure'', ef_validity = None, ef_issues = None, ef_applicability = ''all'',
     ef_normalization = ''complete'', ef_actionStatus = None\<rparr>"

theorem effect_active_iff_witness:
  "fst (effectStateAt sample_zone sample_effect sample_validity (Some 1709607600000)) = Active"
proof -
  have v: "effectValidity sample_effect sample_validity = sample_validity"
    by (simp add: effectValidity_def sample_effect_def)
  have "fst (effectStateAt sample_zone sample_effect sample_validity (Some 1709607600000)) = Active \<longleftrightarrow>
      no_temporal_issue sample_effect
      \<and> isValidityInEffectAt sample_zone (effectValidity sample_effect sample_validity) (Some 1709607600000)"
    by (rule effect_active_iff; unfold v; simp add: wf_stamp_def sample_validity_def)
  moreover have "no_temporal_issue sample_effect" by (simp add: no_temporal_issue_def sample_effect_def or_empty_def)
  moreover have "isValidityInEffectAt sample_zone sample_validity (Some 1709607600000)" by code_simp
  ultimately show ?thesis by (simp add: v)
qed

theorem effect_transition_later_witness: "(1709164800000 :: int) < 1709251200000"
proof -
  have "effectStateAt sample_zone sample_effect sample_validity (Some 1709164800000)
      = (Scheduled, Some (Stamp ''2024-03-01T00:00:00Z'' (Some 1709251200000)))"
    by code_simp
  from effect_transition_later [OF this] show ?thesis by simp
qed

end
