(* ===== verification/Fusion.thy ===== *)
theory Fusion
  imports OC_Prelude
begin

text \<open>
  Fusion of competing observations, packages/model/src/fusion/fuse.ts, with the grants and tiers of
  kernel/provenance.ts and the eligibility rules of kernel/access.ts.

  \<^item> The result of an observation is of any type \<open>'r\<close>; \<open>jcs\<close>, its canonical JSON, and \<open>lc\<close>, the
    locale's \<open>localeCompare\<close>, belong to libraries and are parameters.
  \<^item> The registry is the function \<open>registry.property\<close>: unknown property, or its own tier order.
  \<^item> An optional timestamp is an \<open>instant option\<close>: absent, or what \<open>Date.parse\<close> gives.
\<close>

subsection \<open>Grants and tiers\<close>

datatype grant = GNo | GUnknown | GYes

text \<open>GRANT_ORDER, \<open>no < unknown < yes\<close>, as the order of the type.\<close>

definition grant_index :: "grant \<Rightarrow> nat" where
  "grant_index g = (case g of GNo \<Rightarrow> 0 | GUnknown \<Rightarrow> 1 | GYes \<Rightarrow> 2)"

lemma grant_index_inj [simp]: "grant_index a = grant_index b \<longleftrightarrow> a = b"
  by (auto simp: grant_index_def split: grant.splits)

instantiation grant :: linorder
begin

definition less_eq_grant :: "grant \<Rightarrow> grant \<Rightarrow> bool" where
  "less_eq_grant a b \<longleftrightarrow> grant_index a \<le> grant_index b"

definition less_grant :: "grant \<Rightarrow> grant \<Rightarrow> bool" where
  "less_grant a b \<longleftrightarrow> grant_index a < grant_index b"

instance
  by intro_classes (auto simp: less_eq_grant_def less_grant_def)

end

datatype fusion_tier = Authoritative | Operator | Aggregator | Community
  | CrowdExternallyResolved | CrowdCorroborated | CrowdSelfReported

datatype crowd_state = SelfReported | Corroborated | ExternallyResolved | Negated | Expired

definition SOURCE_TIERS :: "fusion_tier list" where
  "SOURCE_TIERS = [Authoritative, Operator, Aggregator, Community]"

definition FUSION_TIERS :: "fusion_tier list" where
  "FUSION_TIERS = SOURCE_TIERS @ [CrowdExternallyResolved, CrowdCorroborated, CrowdSelfReported]"

definition FUSED_SOURCE_IDS :: "string list" where
  "FUSED_SOURCE_IDS = [''@fused'', ''@fused-public'']"

definition isFusedSourceId :: "string \<Rightarrow> bool" where
  "isFusedSourceId sourceId \<longleftrightarrow> sourceId \<in> set FUSED_SOURCE_IDS"

record routing_rights =
  rr_source_redistribution :: grant
  rr_derived_redistribution :: grant
  rr_commercial_use :: grant
  rr_attribution_required :: grant
  rr_retention :: grant
  rr_evidence :: "string option list"

record 'r fusable_observation =
  fo_id :: string
  fo_property :: string
  fo_result :: 'r
  fo_start :: instant
  fo_validUntil :: "instant option"
  fo_origin :: string
  fo_sourceId :: string
  fo_accessMode :: string
  fo_rights :: "routing_rights option"
  fo_privacy :: string
  fo_expiresAt :: "instant option"

record 'r fusion_candidate =
  fc_observation :: "'r fusable_observation"
  fc_sourceTier :: "fusion_tier option"
  fc_evidence :: "crowd_state option"
  fc_stale :: bool

record 'r fusion =
  fu_winner :: "'r fusion_candidate"
  fu_contributors :: "'r fusion_candidate list"
  fu_stale :: bool

subsection \<open>Choosing the winner\<close>

definition CROWD_TIER :: "crowd_state \<Rightarrow> fusion_tier option" where
  "CROWD_TIER state = (case state of
     ExternallyResolved \<Rightarrow> Some CrowdExternallyResolved
   | Corroborated \<Rightarrow> Some CrowdCorroborated
   | SelfReported \<Rightarrow> Some CrowdSelfReported
   | _ \<Rightarrow> None)"

definition fusionTierOf :: "'r fusion_candidate \<Rightarrow> js_error + fusion_tier option" where
  "fusionTierOf c =
     (if fo_origin (fc_observation c) = ''crowd''
      then Inr (case fc_evidence c of None \<Rightarrow> None | Some state \<Rightarrow> CROWD_TIER state)
      else case fc_sourceTier c of
        None \<Rightarrow> Inl (TypeError ''fusion needs the tier of source'')
      | Some tier \<Rightarrow> Inr (Some tier))"

fun index_of :: "'a \<Rightarrow> 'a list \<Rightarrow> nat option" where
  "index_of x [] = None"
| "index_of x (y # ys) = (if x = y then Some 0 else map_option Suc (index_of x ys))"

text \<open>\<open>Date.parse(t) <= nowMs\<close> for a timestamp that is there.\<close>

definition past :: "instant option \<Rightarrow> instant \<Rightarrow> bool" where
  "past t now = (case t of None \<Rightarrow> False | Some i \<Rightarrow> inst_le i now)"

text \<open>The body of the \<open>flatMap\<close>: the candidate with its rank, or nothing.\<close>

definition rank_candidate ::
  "string \<Rightarrow> fusion_tier list \<Rightarrow> instant \<Rightarrow> 'r fusion_candidate
    \<Rightarrow> js_error + ('r fusion_candidate \<times> nat) list" where
  "rank_candidate property order now c =
     (let obs = fc_observation c in
      if fo_property obs \<noteq> property then Inr []
      else bindE (fusionTierOf c) (\<lambda>tier.
        case (case tier of None \<Rightarrow> None | Some t \<Rightarrow> index_of t order) of
          None \<Rightarrow> Inr []
        | Some rank \<Rightarrow>
            if inst_less now (fo_start obs) then Inr []
            else if past (fo_validUntil obs) now then Inr []
            else if past (if fo_origin obs = ''crowd'' then fo_expiresAt obs else None) now then Inr []
            else Inr [(c, rank)]))"

definition start_diff :: "'r fusion_candidate \<Rightarrow> 'r fusion_candidate \<Rightarrow> real" where
  "start_diff a b = (case (fo_start (fc_observation a), fo_start (fc_observation b)) of
     (Some x, Some y) \<Rightarrow> of_int y - of_int x | _ \<Rightarrow> 0)"

text \<open>The sort's comparator; the difference of two starts one of which is NaN is falsy, as 0 is.\<close>

definition fusion_cmp ::
  "(string \<Rightarrow> string \<Rightarrow> real) \<Rightarrow> 'r fusion_candidate \<times> nat \<Rightarrow> 'r fusion_candidate \<times> nat \<Rightarrow> real" where
  "fusion_cmp lc a b =
     js_or (of_bool (fc_stale (fst a)) - of_bool (fc_stale (fst b)))
       (js_or (real (snd a) - real (snd b))
         (js_or (start_diff (fst a) (fst b))
           (lc (fo_id (fc_observation (fst a))) (fo_id (fc_observation (fst b))))))"

definition fuse ::
  "(string \<Rightarrow> fusion_tier list option option) \<Rightarrow> (string \<Rightarrow> string \<Rightarrow> real) \<Rightarrow> ('r \<Rightarrow> string)
    \<Rightarrow> string \<Rightarrow> 'r fusion_candidate list \<Rightarrow> instant \<Rightarrow> js_error + 'r fusion option" where
  "fuse registry lc jcs property candidates now =
     (case registry property of
        None \<Rightarrow> Inl (TypeError ''unknown property'')
      | Some tiers \<Rightarrow>
          let order = (case tiers of None \<Rightarrow> FUSION_TIERS | Some ts \<Rightarrow> ts) in
          bindE (mapE (rank_candidate property order now) candidates) (\<lambda>groups.
            case js_sort (fusion_cmp lc) (concat groups) of
              [] \<Rightarrow> Inr None
            | (c, rank) # others \<Rightarrow>
                let value = jcs (fo_result (fc_observation c));
                    contributors = map fst (filter (\<lambda>(c', rank').
                      rank' = rank \<and> fc_stale c' = fc_stale c
                        \<and> jcs (fo_result (fc_observation c')) = value) ((c, rank) # others))
                in Inr (Some \<lparr>fu_winner = c, fu_contributors = contributors, fu_stale = fc_stale c\<rparr>)))"

subsection \<open>Rights\<close>

definition least_grant :: "(routing_rights \<Rightarrow> grant) \<Rightarrow> routing_rights option list \<Rightarrow> grant" where
  "least_grant get declared =
     (let gs = map (\<lambda>r. case r of None \<Rightarrow> GUnknown | Some x \<Rightarrow> get x) declared
      in foldl (\<lambda>a b. if grant_index a \<le> grant_index b then a else b) (hd gs) (tl gs))"

definition most_required :: "(routing_rights \<Rightarrow> grant) \<Rightarrow> routing_rights option list \<Rightarrow> grant" where
  "most_required get declared =
     (let gs = map (\<lambda>r. case r of None \<Rightarrow> GUnknown | Some x \<Rightarrow> get x) declared
      in foldl (\<lambda>a b. if grant_index a \<ge> grant_index b then a else b) (hd gs) (tl gs))"

definition mostRestrictiveRights :: "routing_rights option list \<Rightarrow> routing_rights option" where
  "mostRestrictiveRights declared =
     (case find (\<lambda>r. r \<noteq> None) declared of
        Some (Some first) \<Rightarrow> Some (first
          \<lparr>rr_source_redistribution := least_grant rr_source_redistribution declared,
           rr_derived_redistribution := least_grant rr_derived_redistribution declared,
           rr_commercial_use := least_grant rr_commercial_use declared,
           rr_retention := least_grant rr_retention declared,
           rr_attribution_required := most_required rr_attribution_required declared\<rparr>)
      | _ \<Rightarrow> None)"

subsection \<open>The fused row\<close>

record merged_source =
  ms_source :: string
  ms_recordId :: string
  ms_rights :: "routing_rights option"

text \<open>The part of the draft that is computed rather than copied from the winner.\<close>

record 'r fused_draft =
  fd_property :: string
  fd_result :: 'r
  fd_origin :: string
  fd_sourceId :: string
  fd_accessMode :: string
  fd_rights :: "routing_rights option"
  fd_mergedSources :: "merged_source list"
  fd_derivedFrom :: "string list"
  fd_privacy :: string
  fd_expiresAt :: "int option"

definition min_instant :: "instant list \<Rightarrow> js_error + int option" where
  "min_instant ts =
     (if ts = [] then Inr None
      else if None \<in> set ts then Inl (RangeError ''Invalid time value'')
      else Inr (Some (Min (the ` set ts))))"

definition fusedObservation :: "'r fusion \<Rightarrow> string option \<Rightarrow> js_error + 'r fused_draft" where
  "fusedObservation f sourceId =
     (let w = fc_observation (fu_winner f);
          contributors = map fc_observation (fu_contributors f);
          onDemand = filter (\<lambda>obs. fo_accessMode obs = ''on_demand'') contributors;
          expiries = concat (map (\<lambda>obs. case fo_expiresAt obs of None \<Rightarrow> [] | Some t \<Rightarrow> [t]) onDemand)
      in bindE (min_instant expiries) (\<lambda>expiresAt. Inr
        \<lparr>fd_property = fo_property w, fd_result = fo_result w, fd_origin = ''derived'',
         fd_sourceId = (case sourceId of None \<Rightarrow> ''@fused'' | Some s \<Rightarrow> s),
         fd_accessMode = (if onDemand \<noteq> [] then ''on_demand'' else ''bulk''),
         fd_rights = mostRestrictiveRights (map fo_rights contributors),
         fd_mergedSources = map (\<lambda>obs. \<lparr>ms_source = fo_sourceId obs, ms_recordId = fo_id obs,
            ms_rights = fo_rights obs\<rparr>) contributors,
         fd_derivedFrom = map fo_id contributors,
         fd_privacy = fo_privacy w, fd_expiresAt = expiresAt\<rparr>))"

text \<open>kernel/access.ts\<close>

definition isOnDemand :: "string \<Rightarrow> bool" where
  "isOnDemand accessMode \<longleftrightarrow> accessMode = ''on_demand''"

definition federationEligible :: "string \<Rightarrow> string \<Rightarrow> bool" where
  "federationEligible accessMode sourceId \<longleftrightarrow> \<not> isOnDemand accessMode \<and> \<not> isFusedSourceId sourceId"

definition historyEligible :: "string \<Rightarrow> bool" where
  "historyEligible accessMode \<longleftrightarrow> \<not> isOnDemand accessMode"

subsection \<open>The ranked candidates\<close>

lemma rank_candidate_cases:
  "rank_candidate property order now c = Inr ps \<Longrightarrow> ps = [] \<or> (\<exists>r. ps = [(c, r)])"
  by (auto simp: rank_candidate_def Let_def split: if_splits option.splits)

text \<open>What a row in effect is: of the property; a crowd row of evidence that still stands, any other row of a source
  with a tier; its tier is \<open>rank\<close> places down the order the property fuses; it has started, is not past its
  validity, and for a crowd report not past its expiry.\<close>

definition row_tier :: "'r fusion_candidate \<Rightarrow> fusion_tier \<Rightarrow> bool" where
  "row_tier c tier \<longleftrightarrow>
     (if fo_origin (fc_observation c) = ''crowd''
      then (fc_evidence c, tier) \<in> {(Some ExternallyResolved, CrowdExternallyResolved), (Some Corroborated, CrowdCorroborated),
             (Some SelfReported, CrowdSelfReported)}
      else fc_sourceTier c = Some tier)"

definition in_effect :: "string \<Rightarrow> fusion_tier list \<Rightarrow> instant \<Rightarrow> 'r fusion_candidate \<Rightarrow> nat \<Rightarrow> bool" where
  "in_effect property order now c rank \<longleftrightarrow>
     fo_property (fc_observation c) = property
   \<and> rank < length order \<and> row_tier c (order ! rank) \<and> order ! rank \<notin> set (take rank order)
   \<and> \<not> inst_less now (fo_start (fc_observation c))
   \<and> (case fo_validUntil (fc_observation c) of None \<Rightarrow> True | Some t \<Rightarrow> \<not> inst_le t now)
   \<and> (fo_origin (fc_observation c) = ''crowd'' \<longrightarrow> (case fo_expiresAt (fc_observation c) of None \<Rightarrow> True | Some t \<Rightarrow> \<not> inst_le t now))"

lemma index_of_nth: "index_of x xs = Some i \<longleftrightarrow> i < length xs \<and> xs ! i = x \<and> x \<notin> set (take i xs)"
proof (induction xs arbitrary: i)
  case (Cons y xs)
  then show ?case by (cases i) auto
qed simp

lemma row_tier_iff: "row_tier c tier \<longleftrightarrow> fusionTierOf c = Inr (Some tier)"
  by (cases "fc_evidence c"; cases tier)
    (auto simp: row_tier_def fusionTierOf_def CROWD_TIER_def split: option.splits crowd_state.splits)

lemma rank_candidate_iff: "rank_candidate property order now c = Inr [(c, rank)] \<longleftrightarrow> in_effect property order now c rank"
proof -
  have "(\<exists>tier. fusionTierOf c = Inr (Some tier) \<and> index_of tier order = Some rank)
      \<longleftrightarrow> rank < length order \<and> row_tier c (order ! rank) \<and> order ! rank \<notin> set (take rank order)"
    by (auto simp: index_of_nth row_tier_iff)
  moreover have "past t now \<longleftrightarrow> (\<exists>i. t = Some i \<and> inst_le i now)" for t by (auto simp: past_def split: option.split)
  ultimately show ?thesis
    by (cases "fusionTierOf c") (auto simp: rank_candidate_def in_effect_def Let_def split: option.splits)
qed

lemma ranked_set:
  assumes "mapE (rank_candidate property order now) cs = Inr groups"
  shows "(c, r) \<in> set (concat groups) \<longleftrightarrow> c \<in> set cs \<and> in_effect property order now c r"
proof -
  note ok = mapE_ok [OF assms]
  have "(c, r) \<in> set (projr (rank_candidate property order now c')) \<longleftrightarrow> c' = c \<and> in_effect property order now c r"
    if "c' \<in> set cs" for c'
  proof -
    from ok that obtain ps where ps: "rank_candidate property order now c' = Inr ps" by (auto simp: isOk_iff)
    show ?thesis using rank_candidate_cases [OF ps] ps by (auto simp flip: rank_candidate_iff)
  qed
  then show ?thesis using ok by auto
qed

definition start_value :: "'r fusion_candidate \<Rightarrow> real" where
  "start_value c = (case fo_start (fc_observation c) of None \<Rightarrow> 0 | Some t \<Rightarrow> of_int t)"

definition regular_cmp ::
  "(string \<Rightarrow> string \<Rightarrow> real) \<Rightarrow> 'r fusion_candidate \<times> nat \<Rightarrow> 'r fusion_candidate \<times> nat \<Rightarrow> real" where
  "regular_cmp lc = by_number (\<lambda>p. of_bool (fc_stale (fst p))) (by_number (\<lambda>p. real (snd p))
     (by_number (\<lambda>p. - start_value (fst p))
       (\<lambda>a b. lc (fo_id (fc_observation (fst a))) (fo_id (fc_observation (fst b))))))"

lemma comparator_regular: "comparator lc \<Longrightarrow> comparator (regular_cmp lc)"
  unfolding regular_cmp_def
  by (rule comparator_by_number, rule comparator_by_number, rule comparator_by_number, rule comparator_on)

lemma fusion_cmp_regular:
  assumes "fo_start (fc_observation (fst a)) \<noteq> None" and "fo_start (fc_observation (fst b)) \<noteq> None"
  shows "fusion_cmp lc a b = regular_cmp lc a b"
proof -
  have "start_diff (fst a) (fst b) = - start_value (fst a) - - start_value (fst b)"
    using assms by (auto simp: start_diff_def start_value_def)
  then show ?thesis unfolding fusion_cmp_def regular_cmp_def by_number_def by simp
qed

text \<open>Stored observations passed the schema, so their start parses.\<close>

definition starts_parse :: "'r fusion_candidate list \<Rightarrow> bool" where
  "starts_parse cs \<longleftrightarrow> list_all (\<lambda>c. fo_start (fc_observation c) \<noteq> None) cs"

lemma sorted_regular:
  assumes "mapE (rank_candidate property order now) cs = Inr groups" and "starts_parse cs"
  shows "js_sort (fusion_cmp lc) (concat groups) = js_sort (regular_cmp lc) (concat groups)"
proof (rule js_sort_cong)
  fix x y assume "x \<in> set (concat groups)" "y \<in> set (concat groups)"
  then have "fst x \<in> set cs" "fst y \<in> set cs"
    using ranked_set [OF assms(1), of "fst x" "snd x"] ranked_set [OF assms(1), of "fst y" "snd y"] by simp_all
  then show "fusion_cmp lc x y = regular_cmp lc x y"
    using assms(2) by (intro fusion_cmp_regular) (auto simp: starts_parse_def list_all_iff)
qed

lemma fuse_Some:
  assumes "fuse registry lc jcs property cs now = Inr (Some f)"
  obtains tiers order groups rank others where
    "registry property = Some tiers" "order = (case tiers of None \<Rightarrow> FUSION_TIERS | Some ts \<Rightarrow> ts)"
    "mapE (rank_candidate property order now) cs = Inr groups"
    "js_sort (fusion_cmp lc) (concat groups) = (fu_winner f, rank) # others"
    "fu_contributors f = map fst (filter (\<lambda>(c', rank'). rank' = rank \<and> fc_stale c' = fc_stale (fu_winner f)
       \<and> jcs (fo_result (fc_observation c')) = jcs (fo_result (fc_observation (fu_winner f))))
         ((fu_winner f, rank) # others))"
    "fu_stale f = fc_stale (fu_winner f)"
  using assms by (auto simp: fuse_def Let_def split: option.splits list.splits)

lemma regular_cmp_le:
  "regular_cmp lc (a, i) (b, j) \<le> 0 \<Longrightarrow>
   (fc_stale a \<longrightarrow> fc_stale b)
   \<and> (fc_stale a = fc_stale b \<longrightarrow> i \<le> j \<and> (i = j \<longrightarrow> start_value b \<le> start_value a
        \<and> (start_value b = start_value a \<longrightarrow> lc (fo_id (fc_observation a)) (fo_id (fc_observation b)) \<le> 0)))"
  unfolding regular_cmp_def by_number_le by (auto simp: of_bool_def split: if_splits)

lemma fuse_best:
  assumes cmp: "comparator lc" and starts: "starts_parse cs"
    and known: "registry property = Some tiers" and order: "order = (case tiers of None \<Rightarrow> FUSION_TIERS | Some ts \<Rightarrow> ts)"
    and f: "fuse registry lc jcs property cs now = Inr (Some f)"
  shows "\<exists>rank. fu_winner f \<in> set cs \<and> in_effect property order now (fu_winner f) rank
    \<and> (\<forall>c \<in> set cs. \<forall>r. in_effect property order now c r \<longrightarrow>
         (fc_stale (fu_winner f) \<longrightarrow> fc_stale c)
         \<and> (fc_stale c = fc_stale (fu_winner f) \<longrightarrow> rank \<le> r
             \<and> (rank = r \<longrightarrow> start_value c \<le> start_value (fu_winner f)
                 \<and> (start_value c = start_value (fu_winner f)
                      \<longrightarrow> lc (fo_id (fc_observation (fu_winner f))) (fo_id (fc_observation c)) \<le> 0))))
    \<and> set (fu_contributors f) = {c \<in> set cs. in_effect property order now c rank \<and> fc_stale c = fc_stale (fu_winner f)
         \<and> jcs (fo_result (fc_observation c)) = jcs (fo_result (fc_observation (fu_winner f)))}
    \<and> fu_stale f = fc_stale (fu_winner f)"
proof -
  from f obtain groups rank others
    where groups: "mapE (rank_candidate property order now) cs = Inr groups"
      and sort: "js_sort (fusion_cmp lc) (concat groups) = (fu_winner f, rank) # others"
      and contributors: "fu_contributors f = map fst (filter (\<lambda>(c', rank'). rank' = rank
        \<and> fc_stale c' = fc_stale (fu_winner f)
        \<and> jcs (fo_result (fc_observation c')) = jcs (fo_result (fc_observation (fu_winner f))))
         ((fu_winner f, rank) # others))"
    using known order by (elim fuse_Some) auto
  have sort': "js_sort (regular_cmp lc) (concat groups) = (fu_winner f, rank) # others"
    using sort sorted_regular [OF groups starts] by simp
  have members: "(c, r) \<in> set ((fu_winner f, rank) # others) \<longleftrightarrow> c \<in> set cs \<and> in_effect property order now c r" for c r
    unfolding sort [symmetric] set_js_sort by (rule ranked_set [OF groups])
  have best: "regular_cmp lc (fu_winner f, rank) (c, r) \<le> 0" if "c \<in> set cs" "in_effect property order now c r" for c r
    using comparator.js_sort_first [OF comparator_regular [OF cmp] sort'] ranked_set [OF groups] that by blast
  have wanted: "set (fu_contributors f) = {c \<in> set cs. in_effect property order now c rank \<and> fc_stale c = fc_stale (fu_winner f)
         \<and> jcs (fo_result (fc_observation c)) = jcs (fo_result (fc_observation (fu_winner f)))}"
  proof -
    have "c \<in> set (fu_contributors f) \<longleftrightarrow> (c, rank) \<in> set ((fu_winner f, rank) # others) \<and> fc_stale c = fc_stale (fu_winner f)
        \<and> jcs (fo_result (fc_observation c)) = jcs (fo_result (fc_observation (fu_winner f)))" for c
      unfolding contributors by force
    then show ?thesis using members by blast
  qed
  have winner: "fu_winner f \<in> set cs" "in_effect property order now (fu_winner f) rank"
    using members [of "fu_winner f" rank] by simp_all
  have beaten: "(fc_stale (fu_winner f) \<longrightarrow> fc_stale c)
         \<and> (fc_stale c = fc_stale (fu_winner f) \<longrightarrow> rank \<le> r
             \<and> (rank = r \<longrightarrow> start_value c \<le> start_value (fu_winner f)
                 \<and> (start_value c = start_value (fu_winner f)
                      \<longrightarrow> lc (fo_id (fc_observation (fu_winner f))) (fo_id (fc_observation c)) \<le> 0)))"
    if "c \<in> set cs" "in_effect property order now c r" for c r
    using regular_cmp_le [OF best [OF that]] by metis
  have "fu_stale f = fc_stale (fu_winner f)" using f by (elim fuse_Some) simp
  with winner beaten wanted show ?thesis by blast
qed

text \<open>No winner means no row in effect.\<close>

lemma fuse_none:
  assumes "registry property = Some tiers" and "order = (case tiers of None \<Rightarrow> FUSION_TIERS | Some ts \<Rightarrow> ts)"
    and "fuse registry lc jcs property cs now = Inr None"
  shows "c \<in> set cs \<Longrightarrow> \<not> in_effect property order now c r"
proof -
  obtain groups where groups: "mapE (rank_candidate property order now) cs = Inr groups"
    using assms by (auto simp: fuse_def Let_def bindE_eq_Inr)
  then have "js_sort (fusion_cmp lc) (concat groups) = []"
    using assms by (cases "js_sort (fusion_cmp lc) (concat groups)") (auto simp: fuse_def Let_def)
  then have "concat groups = []" by (simp only: js_sort_Nil_iff)
  then have "(c, r) \<notin> set (concat groups)" by (simp only: list.set empty_iff not_False_eq_True)
  then show "c \<in> set cs \<Longrightarrow> \<not> in_effect property order now c r" using ranked_set [OF groups, of c r] by blast
qed

text \<open>C4. The winner is the best row in effect (of the property, started, not past its validity or a crowd report's expiry,
  of a tier the property fuses): no fresh row loses to a stale one, among equals in freshness none has a tier earlier in the
  property's order, among equals in tier none has a later start, among equals in start none a smaller id. The contributors
  are exactly the rows in effect of the winner's tier and freshness that publish the same result, the value is stale when the
  winner is, and there is no winner only when no row is in effect.\<close>

theorem fuse_winner_best:
  assumes cmp: "comparator lc" and starts: "starts_parse cs"
    and known: "registry property = Some tiers" and order: "order = (case tiers of None \<Rightarrow> FUSION_TIERS | Some ts \<Rightarrow> ts)"
    and fused: "fuse registry lc jcs property cs now = Inr out"
  shows "case out of None \<Rightarrow> \<forall>c \<in> set cs. \<forall>r. \<not> in_effect property order now c r
    | Some f \<Rightarrow> \<exists>rank. fu_winner f \<in> set cs \<and> in_effect property order now (fu_winner f) rank
    \<and> (\<forall>c \<in> set cs. \<forall>r. in_effect property order now c r \<longrightarrow>
         (fc_stale (fu_winner f) \<longrightarrow> fc_stale c)
         \<and> (fc_stale c = fc_stale (fu_winner f) \<longrightarrow> rank \<le> r
             \<and> (rank = r \<longrightarrow> start_value c \<le> start_value (fu_winner f)
                 \<and> (start_value c = start_value (fu_winner f)
                      \<longrightarrow> lc (fo_id (fc_observation (fu_winner f))) (fo_id (fc_observation c)) \<le> 0))))
    \<and> set (fu_contributors f) = {c \<in> set cs. in_effect property order now c rank \<and> fc_stale c = fc_stale (fu_winner f)
         \<and> jcs (fo_result (fc_observation c)) = jcs (fo_result (fc_observation (fu_winner f)))}
    \<and> fu_stale f = fc_stale (fu_winner f)"
proof (cases out)
  case None
  then show ?thesis using fuse_none [where registry = registry and order = order, OF known order] fused by simp blast
next
  case (Some f)
  then show ?thesis using fuse_best [where registry = registry and order = order, OF cmp starts known order] fused by simp
qed

text \<open>The fused value does not depend on the order the rows arrive in, whenever the locale's
  comparison tells their ids apart: any permutation of the candidates yields the same winner, the
  same contributors in the same order and the same staleness.\<close>

theorem fuse_order_insensitive:
  assumes cmp: "comparator lc" and starts: "starts_parse cs"
    and ids: "\<And>a b. a \<in> set cs \<Longrightarrow> b \<in> set cs \<Longrightarrow>
      lc (fo_id (fc_observation a)) (fo_id (fc_observation b)) \<le> 0 \<Longrightarrow>
      lc (fo_id (fc_observation b)) (fo_id (fc_observation a)) \<le> 0 \<Longrightarrow> a = b"
    and perm: "mset cs' = mset cs"
    and f: "fuse registry lc jcs property cs now = Inr f"
  shows "fuse registry lc jcs property cs' now = Inr f"
proof -
  obtain tiers where known: "registry property = Some tiers"
    using f by (auto simp: fuse_def split: option.splits)
  define order where "order = (case tiers of None \<Rightarrow> FUSION_TIERS | Some ts \<Rightarrow> ts)"
  obtain groups where groups: "mapE (rank_candidate property order now) cs = Inr groups"
    using f by (auto simp: fuse_def known order_def Let_def)
  obtain groups' where groups': "mapE (rank_candidate property order now) cs' = Inr groups'"
    and same: "mset groups' = mset groups"
    using mapE_permuted [OF groups perm] by blast
  have starts': "starts_parse cs'"
    using starts mset_eq_setD [OF perm] by (simp add: starts_parse_def list_all_iff)
  have "js_sort (regular_cmp lc) (concat groups) = js_sort (regular_cmp lc) (concat groups')"
  proof (rule comparator.js_sort_permutation [OF comparator_regular [OF cmp]])
    show "mset (concat groups) = mset (concat groups')" using mset_concat_permuted [OF same] by simp
    fix x y assume xy: "x \<in> set (concat groups)" "y \<in> set (concat groups)"
      and le: "regular_cmp lc x y \<le> 0" "regular_cmp lc y x \<le> 0"
    have "fst x \<in> set cs" "fst y \<in> set cs"
      using xy ranked_set [OF groups, of "fst x" "snd x"] ranked_set [OF groups, of "fst y" "snd y"] by simp_all
    moreover have "lc (fo_id (fc_observation (fst x))) (fo_id (fc_observation (fst y))) \<le> 0"
        "lc (fo_id (fc_observation (fst y))) (fo_id (fc_observation (fst x))) \<le> 0" "snd x = snd y"
      using le unfolding regular_cmp_def by_number_le by auto
    ultimately show "x = y" using ids by (simp add: prod_eq_iff)
  qed
  then have "js_sort (fusion_cmp lc) (concat groups') = js_sort (fusion_cmp lc) (concat groups)"
    using sorted_regular [OF groups starts] sorted_regular [OF groups' starts'] by simp
  with f groups groups' show ?thesis
    by (simp add: fuse_def known order_def [symmetric] Let_def)
qed

lemma default_rank:
  "index_of t FUSION_TIERS = Some r \<Longrightarrow> r < 4 \<longleftrightarrow> t \<in> set SOURCE_TIERS"
  by (cases t) (auto simp: FUSION_TIERS_def SOURCE_TIERS_def)

lemma in_effect_rank:
  assumes "in_effect property order now c r"
  shows "\<exists>tier. fusionTierOf c = Inr (Some tier) \<and> index_of tier order = Some r"
  using assms by (auto simp: in_effect_def index_of_nth row_tier_iff)

text \<open>The compiler's type of a candidate: a source tier is no crowd tier.\<close>

definition source_tier_ok :: "'r fusion_candidate \<Rightarrow> bool" where
  "source_tier_ok c \<longleftrightarrow> (case fc_sourceTier c of None \<Rightarrow> True | Some t \<Rightarrow> t \<in> set SOURCE_TIERS)"

lemma crowd_rank:
  assumes "in_effect property FUSION_TIERS now c r" and "source_tier_ok c"
  shows "4 \<le> r \<longleftrightarrow> fo_origin (fc_observation c) = ''crowd''"
proof -
  obtain tier where tier: "fusionTierOf c = Inr (Some tier)" and r: "index_of tier FUSION_TIERS = Some r"
    using in_effect_rank [OF assms(1)] by blast
  have "tier \<in> set SOURCE_TIERS \<longleftrightarrow> fo_origin (fc_observation c) \<noteq> ''crowd''"
    using tier assms(2)
    by (auto simp: fusionTierOf_def source_tier_ok_def CROWD_TIER_def SOURCE_TIERS_def
        split: if_splits option.splits crowd_state.splits)
  with default_rank [OF r] show ?thesis by auto
qed

text \<open>Under the default tier order a crowd report never overrides a fresh published status: when
  any fresh row of a feed, an instance or a derivation is in effect, the winner is such a row,
  and the fused value is not stale.\<close>

theorem crowd_never_overrides_fresh:
  assumes "comparator lc" and "starts_parse cs" and "registry property = Some None"
    and "fuse registry lc jcs property cs now = Inr (Some f)"
    and tiers: "list_all source_tier_ok cs"
    and c: "c \<in> set cs" "in_effect property FUSION_TIERS now c r" "\<not> fc_stale c"
      "fo_origin (fc_observation c) \<noteq> ''crowd''"
  shows "fo_origin (fc_observation (fu_winner f)) \<noteq> ''crowd'' \<and> \<not> fu_stale f"
proof -
  obtain rank where w: "fu_winner f \<in> set cs" "in_effect property FUSION_TIERS now (fu_winner f) rank"
    and best: "(fc_stale (fu_winner f) \<longrightarrow> fc_stale c) \<and>
       (fc_stale c = fc_stale (fu_winner f) \<longrightarrow> rank \<le> r \<and> (rank = r \<longrightarrow> start_value c \<le> start_value (fu_winner f)))"
    using fuse_best [OF assms(1-3) _ assms(4), of FUSION_TIERS] c(1,2) by auto
  have ok: "source_tier_ok c" "source_tier_ok (fu_winner f)"
    using tiers c(1) w(1) by (simp_all add: list_all_iff)
  have "\<not> fc_stale (fu_winner f)" "rank \<le> r" using best c(3) by auto
  moreover have "\<not> 4 \<le> r" using crowd_rank [OF c(2) ok(1)] c(4) by simp
  ultimately have "\<not> 4 \<le> rank" by simp
  then have "fo_origin (fc_observation (fu_winner f)) \<noteq> ''crowd''" using crowd_rank [OF w(2) ok(2)] by simp
  moreover have "fu_stale f = fc_stale (fu_winner f)" using assms(4) by (elim fuse_Some) simp
  ultimately show ?thesis using \<open>\<not> fc_stale (fu_winner f)\<close> by simp
qed

subsection \<open>Rights of a fused value\<close>

definition declared_grant :: "(routing_rights \<Rightarrow> grant) \<Rightarrow> routing_rights option \<Rightarrow> grant" where
  "declared_grant get r = (case r of None \<Rightarrow> GUnknown | Some x \<Rightarrow> get x)"

lemma fold_min: "foldl (\<lambda>a b. if grant_index a \<le> grant_index b then a else b) x gs = Min (insert x (set gs))"
proof (induction gs arbitrary: x)
  case (Cons g gs)
  have "(if grant_index x \<le> grant_index g then x else g) = min x g"
    by (simp add: min_def less_eq_grant_def)
  with Cons show ?case by (cases "set gs = {}") (simp_all add: insert_commute ac_simps)
qed simp

lemma fold_max: "foldl (\<lambda>a b. if grant_index a \<ge> grant_index b then a else b) x gs = Max (insert x (set gs))"
proof (induction gs arbitrary: x)
  case (Cons g gs)
  have "(if grant_index g \<le> grant_index x then x else g) = max x g"
    by (auto simp: max_def less_eq_grant_def)
  with Cons show ?case by (cases "set gs = {}") (simp_all add: insert_commute ac_simps)
qed simp

lemma least_grant_Min: "rs \<noteq> [] \<Longrightarrow> least_grant get rs = Min (declared_grant get ` set rs)"
  by (cases rs) (simp_all add: least_grant_def Let_def fold_min declared_grant_def image_image)

lemma most_required_Max: "rs \<noteq> [] \<Longrightarrow> most_required get rs = Max (declared_grant get ` set rs)"
  by (cases rs) (simp_all add: most_required_def Let_def fold_max declared_grant_def image_image)

lemma grant_top: "GYes \<le> g \<longleftrightarrow> g = GYes" "g \<le> GYes"
  by (cases g; simp add: less_eq_grant_def grant_index_def)+

text \<open>Fusing never widens rights: the fused value may be redistributed, derived from, used
  commercially or retained only if every contributing publisher declared so; attribution is owed
  when any of them requires it; and no right is claimed at all when none declared any.\<close>

theorem rights_never_widened:
  "case mostRestrictiveRights declared of
     None \<Rightarrow> set declared \<subseteq> {None}
   | Some r \<Rightarrow>
       (rr_source_redistribution r = GYes \<longleftrightarrow> list_all (\<lambda>d. declared_grant rr_source_redistribution d = GYes) declared)
     \<and> (rr_derived_redistribution r = GYes \<longleftrightarrow> list_all (\<lambda>d. declared_grant rr_derived_redistribution d = GYes) declared)
     \<and> (rr_commercial_use r = GYes \<longleftrightarrow> list_all (\<lambda>d. declared_grant rr_commercial_use d = GYes) declared)
     \<and> (rr_retention r = GYes \<longleftrightarrow> list_all (\<lambda>d. declared_grant rr_retention d = GYes) declared)
     \<and> (rr_attribution_required r = GYes \<longleftrightarrow> list_ex (\<lambda>d. declared_grant rr_attribution_required d = GYes) declared)"
proof (cases "find (\<lambda>r. r \<noteq> None) declared")
  case None
  then have "mostRestrictiveRights declared = None" unfolding mostRestrictiveRights_def by (simp only: option.case)
  moreover have "set declared \<subseteq> {None}" using None by (auto simp: find_None_iff)
  ultimately show ?thesis by simp
next
  case (Some d)
  then obtain first where d: "d = Some first" using find_in [OF Some] by auto
  have ne: "declared \<noteq> []" using Some by auto
  have least: "least_grant get declared = GYes \<longleftrightarrow> list_all (\<lambda>d. declared_grant get d = GYes) declared" for get
  proof -
    have "GYes \<le> Min (declared_grant get ` set declared) \<longleftrightarrow> (\<forall>d \<in> set declared. GYes \<le> declared_grant get d)"
      using ne by (subst Min_ge_iff) auto
    then show ?thesis by (simp add: least_grant_Min [OF ne] grant_top list_all_iff)
  qed
  have most: "most_required get declared = GYes \<longleftrightarrow> list_ex (\<lambda>d. declared_grant get d = GYes) declared" for get
  proof -
    have "GYes \<le> Max (declared_grant get ` set declared) \<longleftrightarrow> (\<exists>d \<in> set declared. GYes \<le> declared_grant get d)"
      using ne by (subst Max_ge_iff) auto
    then show ?thesis by (simp add: most_required_Max [OF ne] grant_top list_ex_iff)
  qed
  have "mostRestrictiveRights declared = Some (first
      \<lparr>rr_source_redistribution := least_grant rr_source_redistribution declared,
       rr_derived_redistribution := least_grant rr_derived_redistribution declared,
       rr_commercial_use := least_grant rr_commercial_use declared,
       rr_retention := least_grant rr_retention declared,
       rr_attribution_required := most_required rr_attribution_required declared\<rparr>)"
    unfolding mostRestrictiveRights_def Some d by (simp only: option.case)
  then show ?thesis by (simp add: least most)
qed

text \<open>A fused row is never more available than its contributors: it is on demand as soon as one
  contributor is, it then expires no later than any on-demand contributor, and whatever its access
  mode it is not eligible for federation.\<close>

theorem fused_row_no_history:
  assumes "fusedObservation f None = Inr d" and "fu_contributors f = cs"
  shows "(isOnDemand (fd_accessMode d) \<longleftrightarrow> list_ex (\<lambda>c. isOnDemand (fo_accessMode (fc_observation c))) cs)
    \<and> (\<forall>c \<in> set cs. isOnDemand (fo_accessMode (fc_observation c)) \<and> fo_expiresAt (fc_observation c) \<noteq> None
         \<longrightarrow> (\<exists>t e. fo_expiresAt (fc_observation c) = Some (Some t) \<and> fd_expiresAt d = Some e \<and> e \<le> t))
    \<and> \<not> federationEligible (fd_accessMode d) (fd_sourceId d)"
proof -
  define onDemand where "onDemand = filter (\<lambda>obs. fo_accessMode obs = ''on_demand'') (map fc_observation cs)"
  define expiries where "expiries = concat (map (\<lambda>obs. case fo_expiresAt obs of None \<Rightarrow> [] | Some t \<Rightarrow> [t]) onDemand)"
  have min: "min_instant expiries = Inr (fd_expiresAt d)"
    and mode: "fd_accessMode d = (if onDemand \<noteq> [] then ''on_demand'' else ''bulk'')"
    and src: "fd_sourceId d = ''@fused''"
    using assms by (auto simp: fusedObservation_def Let_def onDemand_def expiries_def)
  have earliest: "\<exists>t e. i = Some t \<and> fd_expiresAt d = Some e \<and> e \<le> t" if "i \<in> set expiries" for i
  proof -
    from min that have "None \<notin> set expiries" "fd_expiresAt d = Some (Min (the ` set expiries))"
      by (auto simp: min_instant_def split: if_splits)
    moreover from this(1) that obtain t where "i = Some t" by (cases i) auto
    ultimately show ?thesis using that by (auto intro!: Min_le image_eqI [of _ the i])
  qed
  have "isOnDemand (fd_accessMode d) \<longleftrightarrow> list_ex (\<lambda>c. isOnDemand (fo_accessMode (fc_observation c))) cs"
    by (auto simp: mode isOnDemand_def onDemand_def filter_empty_conv list_ex_iff)
  moreover have "\<exists>t e. fo_expiresAt (fc_observation c) = Some (Some t) \<and> fd_expiresAt d = Some e \<and> e \<le> t"
    if "c \<in> set cs" "isOnDemand (fo_accessMode (fc_observation c))" "fo_expiresAt (fc_observation c) \<noteq> None" for c
  proof -
    from that obtain i where i: "fo_expiresAt (fc_observation c) = Some i" by auto
    have "fc_observation c \<in> set onDemand" using that by (simp add: onDemand_def isOnDemand_def)
    with i have "i \<in> set expiries" by (force simp: expiries_def)
    from earliest [OF this] i show ?thesis by auto
  qed
  moreover have "\<not> federationEligible (fd_accessMode d) (fd_sourceId d)"
    by (simp add: federationEligible_def src isFusedSourceId_def FUSED_SOURCE_IDS_def)
  ultimately show ?thesis by blast
qed

subsection \<open>A canonical subject with three rows\<close>

definition sample_obs :: "string \<Rightarrow> string \<Rightarrow> string \<Rightarrow> int \<Rightarrow> string fusable_observation" where
  "sample_obs rid origin result start =
     \<lparr>fo_id = rid, fo_property = ''status'', fo_result = result, fo_start = Some start, fo_validUntil = None,
      fo_origin = origin, fo_sourceId = rid, fo_accessMode = ''on_demand'', fo_rights = None,
      fo_privacy = ''authoritative'', fo_expiresAt = Some (Some (start + 100))\<rparr>"

definition feed_row :: "string fusion_candidate" where
  "feed_row = \<lparr>fc_observation = sample_obs ''a'' ''feed'' ''open'' 10, fc_sourceTier = Some Operator,
     fc_evidence = None, fc_stale = False\<rparr>"

definition second_row :: "string fusion_candidate" where
  "second_row = \<lparr>fc_observation = sample_obs ''b'' ''feed'' ''open'' 5, fc_sourceTier = Some Operator,
     fc_evidence = None, fc_stale = False\<rparr>"

definition crowd_row :: "string fusion_candidate" where
  "crowd_row = \<lparr>fc_observation = sample_obs ''c'' ''crowd'' ''closed'' 20, fc_sourceTier = None,
     fc_evidence = Some ExternallyResolved, fc_stale = False\<rparr>"

definition one_property :: "string \<Rightarrow> fusion_tier list option option" where
  "one_property p = (if p = ''status'' then Some None else None)"

definition sample_fusion :: "string fusion" where
  "sample_fusion = \<lparr>fu_winner = feed_row, fu_contributors = [feed_row, second_row], fu_stale = False\<rparr>"

lemma comparator_strings: "comparator str_cmp"
  using comparator_str_cmp [of "\<lambda>x. x"] by simp

lemma sample_fuse:
  "fuse one_property str_cmp id ''status'' [crowd_row, second_row, feed_row] (Some 50) = Inr (Some sample_fusion)"
  "starts_parse [crowd_row, second_row, feed_row]" "list_all source_tier_ok [crowd_row, second_row, feed_row]"
  "in_effect ''status'' FUSION_TIERS (Some 50) feed_row 1"
  by code_simp+

theorem fuse_winner_best_witness:
  "\<exists>rank. in_effect ''status'' FUSION_TIERS (Some 50) (fu_winner sample_fusion) rank"
  using fuse_winner_best [OF comparator_strings sample_fuse(2) _ _ sample_fuse(1), of None FUSION_TIERS]
  by (auto simp: one_property_def)

theorem fuse_order_insensitive_witness:
  "fuse one_property str_cmp id ''status'' [feed_row, crowd_row, second_row] (Some 50) = Inr (Some sample_fusion)"
proof (rule fuse_order_insensitive [OF comparator_strings sample_fuse(2) _ _ sample_fuse(1)])
  show "a = b" if "a \<in> set [crowd_row, second_row, feed_row]" "b \<in> set [crowd_row, second_row, feed_row]"
    "str_cmp (fo_id (fc_observation a)) (fo_id (fc_observation b)) \<le> 0"
    "str_cmp (fo_id (fc_observation b)) (fo_id (fc_observation a)) \<le> 0" for a b
    using that str_cmp_antisym [OF that(3,4)]
    by (auto simp: feed_row_def second_row_def crowd_row_def sample_obs_def)
qed simp

theorem crowd_never_overrides_fresh_witness:
  "fo_origin (fc_observation (fu_winner sample_fusion)) \<noteq> ''crowd'' \<and> \<not> fu_stale sample_fusion"
  by (rule crowd_never_overrides_fresh [OF comparator_strings sample_fuse(2) _ sample_fuse(1) sample_fuse(3) _ sample_fuse(4)])
    (simp_all add: one_property_def feed_row_def sample_obs_def)

theorem fused_row_no_history_witness:
  "\<exists>d. fusedObservation sample_fusion None = Inr d \<and> isOnDemand (fd_accessMode d)
    \<and> fd_expiresAt d = Some 105"
proof -
  have "case fusedObservation sample_fusion None of Inl _ \<Rightarrow> False | Inr d \<Rightarrow> fd_expiresAt d = Some 105"
    by code_simp
  then obtain d where d: "fusedObservation sample_fusion None = Inr d" and e: "fd_expiresAt d = Some 105"
    by (cases "fusedObservation sample_fusion None") auto
  with fused_row_no_history [OF d, of "[feed_row, second_row]"]
  have "isOnDemand (fd_accessMode d)"
    by (simp add: sample_fusion_def feed_row_def sample_obs_def isOnDemand_def)
  with d e show ?thesis by blast
qed

end
