(* ===== verification/Clusters.thy ===== *)
theory Clusters
  imports Identity
begin

text \<open>
  The canonical clusters of linked features, packages/model/src/linking/cluster.ts: the union-find
  class \<open>Clusters\<close> with its parent pointers, path compression and member lists, and
  \<open>canonicalClusters\<close>, which merges two clusters only when every pair across them is linked.

  \<^item> The two Maps of the class are a parent map and, as the order of the groups is observable, an
    association list. The pointer loop of \<open>root\<close> is a partial function: \<open>None\<close> is a loop that never
    ends. The invariant shows it always ends.
  \<^item> \<open>union_find\<close> is what \<open>canonicalClusters\<close> relies on: the cells of a partition, their leaders and
    how a join changes them.
\<close>

type_synonym feature_id = string

record clusters =
  cl_parent :: "feature_id \<rightharpoonup> feature_id"
  cl_groups :: "(feature_id \<times> feature_id list) list"

definition empty_clusters :: clusters where
  "empty_clusters = \<lparr>cl_parent = Map.empty, cl_groups = []\<rparr>"

subsection \<open>The class\<close>

text \<open>\<open>while (parent.get(cur) !== undefined && parent.get(cur) !== cur)\<close>\<close>

partial_function (option) find_root ::
  "(feature_id \<rightharpoonup> feature_id) \<Rightarrow> feature_id \<Rightarrow> feature_id list \<Rightarrow> (feature_id \<times> feature_id list) option" where
  "find_root parent cur seen =
     (case parent cur of
        None \<Rightarrow> Some (cur, seen)
      | Some p \<Rightarrow> if p = cur then Some (cur, seen) else find_root parent p (seen @ [cur]))"

definition root :: "feature_id \<Rightarrow> clusters \<Rightarrow> (feature_id \<times> clusters) option" where
  "root i c =
     (case find_root (cl_parent c) i [] of None \<Rightarrow> None
      | Some (cur, seen) \<Rightarrow>
          let compressed = foldl (\<lambda>m s. m(s \<mapsto> cur)) (cl_parent c) seen in
          if compressed cur = None
          then Some (cur, \<lparr>cl_parent = compressed(cur \<mapsto> cur),
                           cl_groups = cl_groups c @ [(cur, [cur])]\<rparr>)
          else Some (cur, c\<lparr>cl_parent := compressed\<rparr>))"

definition group_of :: "feature_id \<Rightarrow> clusters \<Rightarrow> feature_id list" where
  "group_of r c = (case map_of (cl_groups c) r of None \<Rightarrow> [r] | Some ms \<Rightarrow> ms)"

definition membersOf :: "feature_id \<Rightarrow> clusters \<Rightarrow> (feature_id list \<times> clusters) option" where
  "membersOf i c = (case root i c of None \<Rightarrow> None | Some (r, c') \<Rightarrow>
     Some (case map_of (cl_groups c') r of None \<Rightarrow> [i] | Some ms \<Rightarrow> ms, c'))"

definition join :: "feature_id \<Rightarrow> feature_id \<Rightarrow> clusters \<Rightarrow> clusters option" where
  "join a b c =
     (case root a c of None \<Rightarrow> None | Some (ra, c1) \<Rightarrow>
      (case root b c1 of None \<Rightarrow> None | Some (rb, c2) \<Rightarrow>
        if ra = rb then Some c2
        else
          let left = group_of ra c2; right = group_of rb c2;
              (big, small, moved, into) =
                (if length left \<ge> length right then (ra, rb, right, left) else (rb, ra, left, right))
          in Some \<lparr>cl_parent = (cl_parent c2)(small \<mapsto> big),
                   cl_groups = map_delete small (map_set big (into @ moved) (cl_groups c2))\<rparr>))"

definition add :: "feature_id \<Rightarrow> clusters \<Rightarrow> clusters option" where
  "add i c = map_option snd (root i c)"

subsection \<open>Canonical clusters\<close>

record cluster_feature =
  lf_id :: feature_id
  lf_sourceId :: string
  lf_sourceFormat :: "string option"

datatype link_status = LinkAccepted | LinkRejected | LinkPending

record feature_link =
  ln_aId :: feature_id
  ln_bId :: feature_id
  ln_confidence :: real
  ln_status :: link_status

record canonical_cluster =
  cc_canonicalFeatureId :: code_points
  cc_survivorId :: feature_id
  cc_memberIds :: "feature_id list"
  cc_mergedSources :: "(string \<times> feature_id) list"

definition pairKey :: "string \<Rightarrow> string \<Rightarrow> string" where
  "pairKey a b = (if a < b then a @ CHR 0x00 # b else b @ CHR 0x00 # a)"

definition survivorRank :: "'x cluster_feature_scheme \<Rightarrow> real" where
  "survivorRank f = (if lf_sourceFormat f = Some ''overpass'' then 0 else 1)"

definition link_cmp :: "(string \<Rightarrow> string \<Rightarrow> real) \<Rightarrow> feature_link \<Rightarrow> feature_link \<Rightarrow> real" where
  "link_cmp lc x y = js_or (ln_confidence y - ln_confidence x)
     (lc (pairKey (ln_aId x) (ln_bId x)) (pairKey (ln_aId y) (ln_bId y)))"

definition accepted_links ::
  "(string \<Rightarrow> string \<Rightarrow> real) \<Rightarrow> feature_id list \<Rightarrow> feature_link list \<Rightarrow> feature_link list" where
  "accepted_links lc ids links =
     js_sort (link_cmp lc)
       (filter (\<lambda>l. ln_status l = LinkAccepted \<and> ln_aId l \<in> set ids \<and> ln_bId l \<in> set ids) links)"

text \<open>One turn of the loop over the accepted links.\<close>

definition merge_link :: "string list \<Rightarrow> feature_link \<Rightarrow> clusters \<Rightarrow> clusters option" where
  "merge_link linked link c =
     (case root (ln_aId link) c of None \<Rightarrow> None | Some (ra, c1) \<Rightarrow>
      (case root (ln_bId link) c1 of None \<Rightarrow> None | Some (rb, c2) \<Rightarrow>
        if ra = rb then Some c2
        else (case membersOf (ln_aId link) c2 of None \<Rightarrow> None | Some (left, c3) \<Rightarrow>
          (case membersOf (ln_bId link) c3 of None \<Rightarrow> None | Some (right, c4) \<Rightarrow>
            if list_all (\<lambda>a. list_all (\<lambda>b. pairKey a b \<in> set linked) right) left
            then join (ln_aId link) (ln_bId link) c4
            else Some c4))))"

definition build_clusters ::
  "(string \<Rightarrow> string \<Rightarrow> real) \<Rightarrow> feature_id list \<Rightarrow> feature_link list \<Rightarrow> clusters option" where
  "build_clusters lc ids links =
     (let accepted = accepted_links lc ids links;
          linked = map (\<lambda>l. pairKey (ln_aId l) (ln_bId l)) accepted
      in (case fold_option add ids empty_clusters of None \<Rightarrow> None
          | Some c \<Rightarrow> fold_option (merge_link linked) accepted c))"

text \<open>Default \<open>sort()\<close>: by code units.\<close>

definition sort_ids :: "feature_id list \<Rightarrow> feature_id list" where
  "sort_ids = js_sort str_cmp"

definition survivor_of ::
  "(string \<Rightarrow> string \<Rightarrow> real) \<Rightarrow> (feature_id \<Rightarrow> real) option \<Rightarrow> feature_id list \<Rightarrow> feature_id" where
  "survivor_of lc rank members = (case rank of
     None \<Rightarrow> hd members
   | Some rk \<Rightarrow> hd (js_sort (\<lambda>a b. js_or (rk b - rk a) (lc a b)) members))"

text \<open>\<open>sha256\<close> stands for \<open>sha256Hex(jcs(members))\<close>; \<open>source\<close> and \<open>rank\<close> look a feature up by its id.\<close>

definition canonicalClusters ::
  "(string \<Rightarrow> string \<Rightarrow> real) \<Rightarrow> (feature_id list \<Rightarrow> string) \<Rightarrow> 'x cluster_feature_scheme list
    \<Rightarrow> feature_link list \<Rightarrow> string \<Rightarrow> ('x cluster_feature_scheme \<Rightarrow> real) option
    \<Rightarrow> (js_error + canonical_cluster list) option" where
  "canonicalClusters lc sha256 features links instanceId rank =
     (let by_id = map_of (rev (map (\<lambda>f. (lf_id f, f)) features)) in
      case build_clusters lc (map lf_id features) links of None \<Rightarrow> None
      | Some c \<Rightarrow> Some (map_sum id (js_sort (\<lambda>a b. lc (cc_survivorId a) (cc_survivorId b)))
          (mapE (\<lambda>(_, memberIds).
             let members = sort_ids memberIds in
             bindE (formatRecordId \<lparr>id_class = u ''feature'', id_namespace = u instanceId,
                       id_local = u (sha256 members)\<rparr>) (\<lambda>canonical. Inr
               \<lparr>cc_canonicalFeatureId = canonical,
                cc_survivorId = survivor_of lc (map_option (\<lambda>r i. r (the (by_id i))) rank) members,
                cc_memberIds = members,
                cc_mergedSources = map (\<lambda>i. (lf_sourceId (the (by_id i)), i)) members\<rparr>))
           (cl_groups c))))"

subsection \<open>What a union-find promises\<close>

locale union_find =
  fixes inv :: "'s \<Rightarrow> bool"
    and cell :: "'s \<Rightarrow> 'a \<Rightarrow> 'a set"
    and elems :: "'s \<Rightarrow> 'a set"
    and find :: "'a \<Rightarrow> 's \<Rightarrow> ('a \<times> 's) option"
    and members :: "'a \<Rightarrow> 's \<Rightarrow> ('a list \<times> 's) option"
    and union :: "'a \<Rightarrow> 'a \<Rightarrow> 's \<Rightarrow> 's option"
  assumes cell_self: "x \<in> cell s x"
    and cell_eq: "inv s \<Longrightarrow> y \<in> cell s x \<Longrightarrow> cell s y = cell s x"
    and cell_elems: "y \<in> cell s x \<Longrightarrow> y = x \<or> x \<in> elems s \<and> y \<in> elems s"
    and find_ok: "inv s \<Longrightarrow> \<exists>r s'. find x s = Some (r, s') \<and> inv s' \<and> cell s' = cell s
      \<and> elems s' = insert x (elems s)"
    and find_eq: "inv s \<Longrightarrow> find x s = Some (r, s1) \<Longrightarrow> find y s1 = Some (r', s2) \<Longrightarrow>
      r = r' \<longleftrightarrow> cell s x = cell s y"
    and members_ok: "inv s \<Longrightarrow> \<exists>ms s'. members x s = Some (ms, s') \<and> inv s' \<and> cell s' = cell s
      \<and> elems s' = insert x (elems s) \<and> set ms = cell s x"
    and union_ok: "inv s \<Longrightarrow> \<exists>s'. union x y s = Some s' \<and> inv s'
      \<and> cell s' = (\<lambda>z. if z \<in> cell s x \<union> cell s y then cell s x \<union> cell s y else cell s z)
      \<and> elems s' = insert x (insert y (elems s))"
begin

lemma findE:
  assumes "inv s"
  obtains r s' where "find x s = Some (r, s')" "inv s'" "cell s' = cell s" "elems s' = insert x (elems s)"
  using find_ok [OF assms] by blast

lemma membersE:
  assumes "inv s"
  obtains ms s' where "members x s = Some (ms, s')" "inv s'" "cell s' = cell s"
    "elems s' = insert x (elems s)" "set ms = cell s x"
  using members_ok [OF assms] by blast

text \<open>A client that joins two cells only when every pair across them is related keeps all cells
  cliques of the relation.\<close>

lemma union_clique:
  assumes "inv s" and sym: "\<And>a b. R a b = R b a"
    and clique: "\<And>z a b. a \<in> cell s z \<Longrightarrow> b \<in> cell s z \<Longrightarrow> a \<noteq> b \<Longrightarrow> R a b"
    and across: "\<And>a b. a \<in> cell s x \<Longrightarrow> b \<in> cell s y \<Longrightarrow> R a b"
    and "union x y s = Some s'" "a \<in> cell s' z" "b \<in> cell s' z" "a \<noteq> b"
  shows "R a b"
proof -
  have "cell s' = (\<lambda>z. if z \<in> cell s x \<union> cell s y then cell s x \<union> cell s y else cell s z)"
    using union_ok [OF assms(1), of x y] assms(5) by auto
  then have "a \<in> cell s z \<and> b \<in> cell s z \<or> a \<in> cell s x \<union> cell s y \<and> b \<in> cell s x \<union> cell s y"
    using assms(6,7) by (auto split: if_splits)
  then show ?thesis
    using clique [of a z b] clique [of a x b] clique [of a y b] across [of a b] across [of b a] sym [of a b] assms(8)
    by blast
qed

end

subsection \<open>The invariant of the class\<close>

definition cell :: "clusters \<Rightarrow> feature_id \<Rightarrow> feature_id set" where
  "cell c x = {y. y = x \<or> (\<exists>(r, ms) \<in> set (cl_groups c). x \<in> set ms \<and> y \<in> set ms)}"

definition elems :: "clusters \<Rightarrow> feature_id set" where
  "elems c = set (concat (map snd (cl_groups c)))"

text \<open>The groups partition the ids that have a parent; a group's key is its root, its own parent;
  every other member's parent is a member closer to the root by some measure \<open>h\<close>.\<close>

definition levels :: "(feature_id \<Rightarrow> nat) \<Rightarrow> clusters \<Rightarrow> bool" where
  "levels h c \<longleftrightarrow> (\<forall>(r, ms) \<in> set (cl_groups c). r \<in> set ms \<and> cl_parent c r = Some r
     \<and> (\<forall>x \<in> set ms. x \<noteq> r \<longrightarrow> (\<exists>p \<in> set ms. cl_parent c x = Some p \<and> h p < h x)))"

definition cl_inv :: "clusters \<Rightarrow> bool" where
  "cl_inv c \<longleftrightarrow> distinct (map fst (cl_groups c)) \<and> distinct (concat (map snd (cl_groups c)))
     \<and> dom (cl_parent c) = elems c \<and> (\<exists>h. levels h c)"

lemma groups_disjoint:
  assumes "distinct (concat (map snd gs))" "(r, ms) \<in> set gs" "(r', ms') \<in> set gs"
    "x \<in> set ms" "x \<in> set ms'" "distinct (map fst gs)"
  shows "r = r' \<and> ms = ms'"
  using assms
proof (induction gs)
  case (Cons g gs)
  have later: "y \<in> set (concat (map snd gs))" if "(k, ys) \<in> set gs" "y \<in> set ys" for k ys y
    using that by force
  obtain k ys where g: "g = (k, ys)" by (cases g)
  have apart: "y \<notin> set (concat (map snd gs))" if "y \<in> set ys" for y
    using Cons.prems(1) that by (auto simp: g)
  have "(r, ms) = g \<and> (r', ms') = g \<or> (r, ms) \<in> set gs \<and> (r', ms') \<in> set gs"
    using Cons.prems(2-5) later apart unfolding g by (metis prod.inject set_ConsD)
  then show ?case using Cons by (auto simp: g)
qed simp

lemma same_group:
  "cl_inv c \<Longrightarrow> (r, ms) \<in> set (cl_groups c) \<Longrightarrow> (r', ms') \<in> set (cl_groups c) \<Longrightarrow> x \<in> set ms \<Longrightarrow>
   x \<in> set ms' \<Longrightarrow> r = r' \<and> ms = ms'"
  unfolding cl_inv_def by (rule groups_disjoint [of "cl_groups c" r ms r' ms' x]) simp_all

lemma in_elems: "x \<in> elems c \<longleftrightarrow> (\<exists>r ms. (r, ms) \<in> set (cl_groups c) \<and> x \<in> set ms)"
proof -
  have "x \<in> elems c \<longleftrightarrow> (\<exists>g \<in> set (cl_groups c). x \<in> set (snd g))" by (simp add: elems_def)
  then show ?thesis by (metis prod.collapse snd_conv)
qed

lemma cell_group: "cl_inv c \<Longrightarrow> (r, ms) \<in> set (cl_groups c) \<Longrightarrow> x \<in> set ms \<Longrightarrow> cell c x = set ms"
proof -
  assume inv: "cl_inv c" and g: "(r, ms) \<in> set (cl_groups c)" "x \<in> set ms"
  have "x \<in> set ms' \<longleftrightarrow> ms' = ms" if "(r', ms') \<in> set (cl_groups c)" for r' ms'
    using same_group [OF inv g(1) that g(2)] g(2) by blast
  then show "cell c x = set ms" unfolding cell_def using g by blast
qed

lemma cell_absent: "x \<notin> elems c \<Longrightarrow> cell c x = {x}"
  unfolding cell_def in_elems by auto

lemma compress_apply: "foldl (\<lambda>m s. m(s \<mapsto> cur)) m seen y = (if y \<in> set seen then Some cur else m y)"
  by (induction seen arbitrary: m) auto

lemma find_root_group:
  assumes "levels h c" "(r, ms) \<in> set (cl_groups c)" "x \<in> set ms"
  shows "\<exists>more. find_root (cl_parent c) x seen = Some (r, seen @ more) \<and> set more \<subseteq> set ms - {r}
    \<and> (\<forall>s \<in> set more. h r < h s) \<and> (x \<noteq> r \<longrightarrow> h r < h x)"
  using assms(3)
proof (induction "h x" arbitrary: x seen rule: less_induct)
  case less
  have lev: "cl_parent c r = Some r" "\<forall>x \<in> set ms. x \<noteq> r \<longrightarrow> (\<exists>p \<in> set ms. cl_parent c x = Some p \<and> h p < h x)"
    using assms(1,2) by (auto simp: levels_def)
  show ?case
  proof (cases "x = r")
    case True
    with lev(1) show ?thesis by (subst find_root.simps) auto
  next
    case False
    then obtain p where p: "p \<in> set ms" "cl_parent c x = Some p" "h p < h x" using lev(2) less.prems by blast
    from less.hyps [OF p(3) p(1), of "seen @ [x]"] obtain more
      where more: "find_root (cl_parent c) p (seen @ [x]) = Some (r, (seen @ [x]) @ more)"
        "set more \<subseteq> set ms - {r}" "\<forall>s \<in> set more. h r < h s" "p \<noteq> r \<longrightarrow> h r < h p" by blast
    have "p \<noteq> x" using p(3) by auto
    then have "find_root (cl_parent c) x seen = Some (r, seen @ x # more)"
      using p(2) more(1) by (subst find_root.simps) simp
    moreover have "h r < h x" using more(4) p(3) by (cases "p = r") auto
    ultimately show ?thesis using more(2,3) False less.prems by (intro exI [of _ "x # more"]) auto
  qed
qed

lemma root_group:
  assumes inv: "cl_inv c" and g: "(r, ms) \<in> set (cl_groups c)" "x \<in> set ms"
  shows "\<exists>p. root x c = Some (r, c\<lparr>cl_parent := p\<rparr>) \<and> cl_inv (c\<lparr>cl_parent := p\<rparr>)"
proof -
  obtain h where h: "levels h c" using inv by (auto simp: cl_inv_def)
  from find_root_group [OF h g, of "[]"] obtain seen
    where find: "find_root (cl_parent c) x [] = Some (r, seen)"
      and seen: "set seen \<subseteq> set ms - {r}" "\<forall>s \<in> set seen. h r < h s" by auto
  define p where "p = foldl (\<lambda>m s. m(s \<mapsto> r)) (cl_parent c) seen"
  have p: "p y = (if y \<in> set seen then Some r else cl_parent c y)" for y
    by (simp add: p_def compress_apply)
  have r: "r \<in> set ms" "cl_parent c r = Some r" using h g(1) by (auto simp: levels_def)
  then have "p r = Some r" using seen(1) by (auto simp: p)
  then have root: "root x c = Some (r, c\<lparr>cl_parent := p\<rparr>)"
    by (simp add: root_def find p_def [symmetric] Let_def)
  have "levels h (c\<lparr>cl_parent := p\<rparr>)"
    unfolding levels_def
  proof (clarify, intro conjI ballI impI)
    fix r' ms' assume g': "(r', ms') \<in> set (cl_groups (c\<lparr>cl_parent := p\<rparr>))"
    then have lev: "r' \<in> set ms'" "cl_parent c r' = Some r'"
      "\<forall>x \<in> set ms'. x \<noteq> r' \<longrightarrow> (\<exists>p \<in> set ms'. cl_parent c x = Some p \<and> h p < h x)"
      using h by (auto simp: levels_def)
    have same: "r' = r \<and> ms' = ms" if "y \<in> set seen" "y \<in> set ms'" for y
      using same_group [OF inv _ g(1), of r' ms' y] g' that seen(1) by auto
    show "r' \<in> set ms'" by (rule lev(1))
    show "cl_parent (c\<lparr>cl_parent := p\<rparr>) r' = Some r'"
      using lev(1,2) same [of r'] seen(1) by (auto simp: p)
    fix y assume y: "y \<in> set ms'" "y \<noteq> r'"
    show "\<exists>q \<in> set ms'. cl_parent (c\<lparr>cl_parent := p\<rparr>) y = Some q \<and> h q < h y"
    proof (cases "y \<in> set seen")
      case True
      with same y(1) r(1) seen(2) show ?thesis by (auto simp: p)
    next
      case False
      with lev(3) y show ?thesis by (auto simp: p)
    qed
  qed
  moreover have "dom p = dom (cl_parent c)"
  proof -
    have "set ms \<subseteq> elems c" using g(1) unfolding in_elems subset_iff by blast
    then have "set seen \<subseteq> dom (cl_parent c)" using seen(1) inv by (auto simp: cl_inv_def)
    then show ?thesis by (auto simp: p dom_def split: if_splits)
  qed
  ultimately have "cl_inv (c\<lparr>cl_parent := p\<rparr>)"
    using inv by (auto simp: cl_inv_def elems_def)
  with root show ?thesis by blast
qed

lemma root_absent:
  assumes inv: "cl_inv c" and x: "x \<notin> elems c"
  shows "\<exists>c'. root x c = Some (x, c') \<and> cl_inv c' \<and> cl_groups c' = cl_groups c @ [(x, [x])]"
proof -
  have none: "cl_parent c x = None" using inv x by (auto simp: cl_inv_def)
  let ?c' = "\<lparr>cl_parent = (cl_parent c)(x \<mapsto> x), cl_groups = cl_groups c @ [(x, [x])]\<rparr>"
  have root: "root x c = Some (x, ?c')"
    by (simp add: root_def find_root.simps none)
  obtain h where h: "levels h c" using inv by (auto simp: cl_inv_def)
  have fresh: "(r, ms) \<in> set (cl_groups c) \<Longrightarrow> x \<notin> set ms" for r ms using x unfolding in_elems by blast
  have "x \<notin> fst ` set (cl_groups c)" using h fresh by (auto simp: levels_def)
  moreover have "x \<notin> set (concat (map snd (cl_groups c)))" using x by (simp add: elems_def)
  moreover have "levels h ?c'"
    unfolding levels_def
  proof (clarify, intro conjI ballI impI)
    fix r ms assume g: "(r, ms) \<in> set (cl_groups ?c')"
    have old: "r \<in> set ms \<and> cl_parent c r = Some r
        \<and> (\<forall>y \<in> set ms. y \<noteq> r \<longrightarrow> (\<exists>p \<in> set ms. cl_parent c y = Some p \<and> h p < h y))"
      if "(r, ms) \<in> set (cl_groups c)" using h that by (auto simp: levels_def)
    show "r \<in> set ms" "cl_parent ?c' r = Some r" using g old by auto
    fix y assume "y \<in> set ms" "y \<noteq> r"
    then show "\<exists>p \<in> set ms. cl_parent ?c' y = Some p \<and> h p < h y"
      using g old fresh [of r ms] by (auto simp del: fun_upd_apply simp: fun_upd_apply)
  qed
  moreover have "dom (cl_parent ?c') = elems ?c'" using inv by (auto simp: cl_inv_def elems_def)
  ultimately have "cl_inv ?c'" using inv by (auto simp: cl_inv_def)
  with root show ?thesis by auto
qed

lemma cell_snoc: "x \<notin> elems c \<Longrightarrow> cl_groups c' = cl_groups c @ [(x, [x])] \<Longrightarrow> cell c' = cell c"
  unfolding cell_def in_elems by (intro ext) auto

lemma root_spec:
  assumes "cl_inv c"
  shows "\<exists>r c' ms. root x c = Some (r, c') \<and> cl_inv c' \<and> cell c' = cell c
    \<and> elems c' = insert x (elems c) \<and> (r, ms) \<in> set (cl_groups c') \<and> x \<in> set ms
    \<and> set (cl_groups c) \<subseteq> set (cl_groups c')"
proof (cases "x \<in> elems c")
  case True
  then obtain r ms where g: "(r, ms) \<in> set (cl_groups c)" "x \<in> set ms" unfolding in_elems by blast
  from root_group [OF assms g] obtain p where p: "root x c = Some (r, c\<lparr>cl_parent := p\<rparr>)"
    "cl_inv (c\<lparr>cl_parent := p\<rparr>)" by blast
  have "cell (c\<lparr>cl_parent := p\<rparr>) = cell c" "elems (c\<lparr>cl_parent := p\<rparr>) = insert x (elems c)"
    using True by (auto simp: cell_def elems_def fun_eq_iff)
  with p g show ?thesis by (intro exI [of _ r] exI [of _ "c\<lparr>cl_parent := p\<rparr>"] exI [of _ ms]) simp
next
  case False
  from root_absent [OF assms False] obtain c' where c': "root x c = Some (x, c')" "cl_inv c'"
    "cl_groups c' = cl_groups c @ [(x, [x])]" by blast
  moreover have "cell c' = cell c" by (rule cell_snoc [OF False c'(3)])
  moreover have "elems c' = insert x (elems c)" using c'(3) by (auto simp: elems_def)
  ultimately show ?thesis by (intro exI [of _ x] exI [of _ c'] exI [of _ "[x]"]) auto
qed

lemma root_eq:
  assumes "cl_inv c" "root x c = Some (r, c1)" "root y c1 = Some (r', c2)"
  shows "r = r' \<longleftrightarrow> cell c x = cell c y"
proof -
  obtain ms where c1: "cl_inv c1" "cell c1 = cell c" "(r, ms) \<in> set (cl_groups c1)" "x \<in> set ms"
    using root_spec [OF assms(1), of x] assms(2) by auto
  then obtain ms' where c2: "cl_inv c2" "cell c2 = cell c" "(r', ms') \<in> set (cl_groups c2)" "y \<in> set ms'"
      "(r, ms) \<in> set (cl_groups c2)"
    using root_spec [OF c1(1), of y] assms(3) by auto
  have cells: "cell c x = set ms" "cell c y = set ms'"
    using cell_group [OF c2(1)] c1(4) c2 by metis+
  have keys: "distinct (map fst (cl_groups c2))" using c2(1) by (simp add: cl_inv_def)
  show ?thesis
  proof
    assume "r = r'"
    then have "ms = ms'" using c2(3,5) keys eq_key_imp_eq_value by fastforce
    then show "cell c x = cell c y" by (simp add: cells)
  next
    assume "cell c x = cell c y"
    then have "x \<in> set ms'" using c1(4) by (simp add: cells)
    then show "r = r'" using same_group [OF c2(1,5,3) c1(4)] by blast
  qed
qed

lemma membersOf_spec:
  assumes "cl_inv c"
  shows "\<exists>ms c'. membersOf x c = Some (ms, c') \<and> cl_inv c' \<and> cell c' = cell c
    \<and> elems c' = insert x (elems c) \<and> set ms = cell c x"
proof -
  from root_spec [OF assms, of x] obtain r c' ms where c': "root x c = Some (r, c')" "cl_inv c'"
    "cell c' = cell c" "elems c' = insert x (elems c)" "(r, ms) \<in> set (cl_groups c')" "x \<in> set ms" by blast
  have "map_of (cl_groups c') r = Some ms"
    using c'(2,5) by (simp add: cl_inv_def map_of_is_SomeI)
  moreover have "set ms = cell c x" using cell_group [OF c'(2,5,6)] c'(3) by simp
  ultimately show ?thesis using c' by (simp add: membersOf_def)
qed

text \<open>The step of \<open>join\<close> once both roots are known: \<open>small\<close>'s members go under \<open>big\<close>.\<close>

definition absorb :: "feature_id \<Rightarrow> feature_id \<Rightarrow> feature_id list \<Rightarrow> feature_id list \<Rightarrow> clusters \<Rightarrow> clusters" where
  "absorb big small moved into c = \<lparr>cl_parent = (cl_parent c)(small \<mapsto> big),
     cl_groups = map_delete small (map_set big (into @ moved) (cl_groups c))\<rparr>"

lemma absorb_groups:
  assumes inv: "cl_inv c" and g: "(big, into) \<in> set (cl_groups c)" "(small, moved) \<in> set (cl_groups c)"
    and ne: "big \<noteq> small"
  shows "set (cl_groups (absorb big small moved into c)) =
      insert (big, into @ moved) {g \<in> set (cl_groups c). fst g \<noteq> big \<and> fst g \<noteq> small}"
    and "distinct (map fst (cl_groups (absorb big small moved into c)))"
    and "mset (concat (map snd (cl_groups (absorb big small moved into c)))) = mset (concat (map snd (cl_groups c)))"
proof -
  let ?gs = "cl_groups c" and ?set = "map_set big (into @ moved) (cl_groups c)"
  have keys: "distinct (map fst ?gs)" using inv by (simp add: cl_inv_def)
  have big: "big \<in> set (map fst ?gs)" using g(1) by force
  have keys': "map fst ?set = map fst ?gs" by (rule map_set_keys [OF big])
  have set: "set ?set = insert (big, into @ moved) {g \<in> set ?gs. fst g \<noteq> big}"
    by (rule map_set_set [OF keys big])
  show "set (cl_groups (absorb big small moved into c)) =
      insert (big, into @ moved) {g \<in> set ?gs. fst g \<noteq> big \<and> fst g \<noteq> small}"
    using set ne by (auto simp: absorb_def map_delete_def)
  have "map fst (map_delete small ?set) = filter (\<lambda>k. k \<noteq> small) (map fst ?set)"
    by (simp add: map_delete_def filter_map o_def case_prod_unfold)
  then show "distinct (map fst (cl_groups (absorb big small moved into c)))"
    using keys keys' by (simp add: absorb_def)
  have "mset (concat (map snd ?set)) + mset into = mset (concat (map snd ?gs)) + mset (into @ moved)"
    by (rule map_set_mset [OF keys g(1)])
  moreover have "mset (concat (map snd (map_delete small ?set))) + mset moved = mset (concat (map snd ?set))"
    using keys keys' set g(2) ne by (intro map_delete_mset) auto
  ultimately have "mset (concat (map snd (map_delete small ?set))) + mset moved + mset into
      = mset (concat (map snd ?gs)) + mset moved + mset into" by (simp add: union_ac)
  then show "mset (concat (map snd (cl_groups (absorb big small moved into c)))) = mset (concat (map snd ?gs))"
    by (simp add: absorb_def)
qed

lemma absorb_inv:
  assumes inv: "cl_inv c" and g: "(big, into) \<in> set (cl_groups c)" "(small, moved) \<in> set (cl_groups c)"
    and ne: "big \<noteq> small"
  shows "cl_inv (absorb big small moved into c)"
proof -
  let ?c = "absorb big small moved into c"
  note groups = absorb_groups [OF inv g ne]
  obtain h where h: "levels h c" using inv by (auto simp: cl_inv_def)
  define h' where "h' x = (if x \<in> set moved then h x + h big + 1 else h x)" for x
  have lev: "r \<in> set ms" "cl_parent c r = Some r"
      "\<And>x. x \<in> set ms \<Longrightarrow> x \<noteq> r \<Longrightarrow> \<exists>p \<in> set ms. cl_parent c x = Some p \<and> h p < h x"
    if "(r, ms) \<in> set (cl_groups c)" for r ms
    using h that by (auto simp: levels_def)
  have apart: "x \<notin> set moved" if "(r, ms) \<in> set (cl_groups c)" "r \<noteq> small" "x \<in> set ms" for r ms x
    using same_group [OF inv that(1) g(2) that(3)] that(2) by blast
  have small: "x \<noteq> small" if "(r, ms) \<in> set (cl_groups c)" "r \<noteq> small" "x \<in> set ms" for r ms x
    using apart [OF that] lev(1) [OF g(2)] by auto
  have "levels h' ?c"
    unfolding levels_def groups(1)
  proof (clarify, intro conjI ballI impI)
    fix r ms assume "(r, ms) \<in> insert (big, into @ moved) {g \<in> set (cl_groups c). fst g \<noteq> big \<and> fst g \<noteq> small}"
    then consider "r = big" "ms = into @ moved" | "(r, ms) \<in> set (cl_groups c)" "r \<noteq> big" "r \<noteq> small" by auto
    note cases = this
    show "r \<in> set ms" using cases lev(1) g(1) by cases auto
    show "cl_parent ?c r = Some r" using cases lev(2) g(1) ne by cases (auto simp: absorb_def)
    fix x assume x: "x \<in> set ms" "x \<noteq> r"
    show "\<exists>p \<in> set ms. cl_parent ?c x = Some p \<and> h' p < h' x"
      using cases
    proof cases
      case 1
      show ?thesis
      proof (cases "x \<in> set moved")
        case True
        show ?thesis
        proof (cases "x = small")
          case True
          have "h' big < h' small"
            using apart [OF g(1) ne lev(1) [OF g(1)]] lev(1) [OF g(2)] by (simp add: h'_def)
          with True 1 lev(1) [OF g(1)] show ?thesis by (simp add: absorb_def)
        next
          case False
          with lev(3) [OF g(2) \<open>x \<in> set moved\<close>] obtain p where p: "p \<in> set moved" "cl_parent c x = Some p" "h p < h x"
            by blast
          with False 1 \<open>x \<in> set moved\<close> show ?thesis by (intro bexI [of _ p]) (simp_all add: absorb_def h'_def)
        qed
      next
        case False
        with x 1 have into: "x \<in> set into" by simp
        with lev(3) [OF g(1) into] x 1 obtain p where p: "p \<in> set into" "cl_parent c x = Some p" "h p < h x" by blast
        with False 1 apart [OF g(1) ne p(1)] small [OF g(1) ne into] show ?thesis
          by (intro bexI [of _ p]) (simp_all add: absorb_def h'_def)
      qed
    next
      case 2
      from lev(3) [OF 2(1) x] obtain p where p: "p \<in> set ms" "cl_parent c x = Some p" "h p < h x" by blast
      with apart [OF 2(1,3) p(1)] apart [OF 2(1,3) x(1)] small [OF 2(1,3) x(1)] show ?thesis
        by (intro bexI [of _ p]) (simp_all add: absorb_def h'_def)
    qed
  qed
  moreover have "distinct (concat (map snd (cl_groups ?c)))"
    using groups(3) inv by (metis cl_inv_def mset_eq_imp_distinct_iff)
  moreover have "elems ?c = elems c" unfolding elems_def using groups(3) by (rule mset_eq_setD)
  moreover have "dom (cl_parent ?c) = dom (cl_parent c)" using lev(2) [OF g(2)] by (auto simp: absorb_def)
  ultimately show ?thesis using inv groups(2) by (auto simp: cl_inv_def)
qed


lemma join_spec:
  assumes inv: "cl_inv c"
  shows "\<exists>c'. join a b c = Some c' \<and> cl_inv c'
    \<and> cell c' = (\<lambda>z. if z \<in> cell c a \<union> cell c b then cell c a \<union> cell c b else cell c z)
    \<and> elems c' = insert a (insert b (elems c))"
proof -
  from root_spec [OF inv, of a] obtain ra c1 left where c1: "root a c = Some (ra, c1)" "cl_inv c1" "cell c1 = cell c"
    "elems c1 = insert a (elems c)" "(ra, left) \<in> set (cl_groups c1)" "a \<in> set left" by blast
  from root_spec [OF c1(2), of b] obtain rb c2 right where c2: "root b c1 = Some (rb, c2)" "cl_inv c2" "cell c2 = cell c1"
    "elems c2 = insert b (elems c1)" "(rb, right) \<in> set (cl_groups c2)" "b \<in> set right"
    "set (cl_groups c1) \<subseteq> set (cl_groups c2)" by blast
  have left: "(ra, left) \<in> set (cl_groups c2)" using c1(5) c2(7) by blast
  have cells: "cell c a = set left" "cell c b = set right"
    using cell_group [OF c2(2) left c1(6)] cell_group [OF c2(2,5,6)] c1(3) c2(3) by simp_all
  have elems: "elems c2 = insert a (insert b (elems c))" using c1(4) c2(4) by auto
  show ?thesis
  proof (cases "ra = rb")
    case True
    then have same: "cell c a = cell c b" using root_eq [OF inv c1(1) c2(1)] by simp
    have join: "join a b c = Some c2" using c1(1) c2(1) True by (simp add: join_def)
    have merged: "z \<in> cell c a \<Longrightarrow> cell c z = cell c a" for z
      using cell_group [OF c2(2) left, of z] cells(1) c1(3) c2(3) by simp
    have "cell c2 = (\<lambda>z. if z \<in> cell c a \<union> cell c b then cell c a \<union> cell c b else cell c z)"
      using c1(3) c2(3) same merged by (intro ext) auto
    with join c2(2) elems show ?thesis by blast
  next
    case False
    have groups: "group_of ra c2 = left" "group_of rb c2 = right"
      using c2(2,5) left by (simp_all add: group_of_def cl_inv_def map_of_is_SomeI)
    obtain big small moved into where joined: "join a b c = Some (absorb big small moved into c2)"
      and g: "(big, into) \<in> set (cl_groups c2)" "(small, moved) \<in> set (cl_groups c2)" "big \<noteq> small"
      and all: "set into \<union> set moved = set left \<union> set right"
    proof (cases "length left \<ge> length right")
      case True
      then have "join a b c = Some (absorb ra rb right left c2)"
        using c1(1) c2(1) False groups by (simp add: join_def absorb_def Let_def)
      from that [OF this left c2(5) False] show ?thesis by simp
    next
      case small: False
      then have "join a b c = Some (absorb rb ra left right c2)"
        using c1(1) c2(1) False groups by (simp add: join_def absorb_def Let_def)
      from that [OF this c2(5) left] False show ?thesis by auto
    qed
    let ?c = "absorb big small moved into c2"
    have inv': "cl_inv ?c" by (rule absorb_inv [OF c2(2) g])
    note gs = absorb_groups [OF c2(2) g]
    have elems': "elems ?c = elems c2" unfolding elems_def using gs(3) by (rule mset_eq_setD)
    have merged: "(big, into @ moved) \<in> set (cl_groups ?c)" unfolding gs(1) by simp
    have "cell ?c z = (if z \<in> cell c a \<union> cell c b then cell c a \<union> cell c b else cell c z)" for z
    proof (cases "z \<in> set left \<union> set right")
      case True
      then have "z \<in> set (into @ moved)" using all by auto
      from cell_group [OF inv' merged this] True all show ?thesis by (simp add: cells)
    next
      case outside: False
      show ?thesis
      proof (cases "z \<in> elems c2")
        case True
        then obtain r ms where r: "(r, ms) \<in> set (cl_groups c2)" "z \<in> set ms" unfolding in_elems by blast
        have keys: "distinct (map fst (cl_groups c2))" using c2(2) by (simp add: cl_inv_def)
        have "r \<noteq> big" "r \<noteq> small"
          using r g outside all eq_key_imp_eq_value [OF keys] by blast+
        then have "(r, ms) \<in> set (cl_groups ?c)" using r(1) unfolding gs(1) by simp
        from cell_group [OF inv' this r(2)] cell_group [OF c2(2) r] outside show ?thesis
          using c1(3) c2(3) by (simp add: cells)
      next
        case False
        then have "cell ?c z = {z}" "cell c2 z = {z}" using elems' by (simp_all add: cell_absent)
        then show ?thesis using outside c1(3) c2(3) by (simp add: cells)
      qed
    qed
    then show ?thesis using joined inv' elems elems' by auto
  qed
qed

interpretation clusters: union_find cl_inv cell elems root membersOf join
proof
  show "x \<in> cell c x" for x c by (simp add: cell_def)
  show "cell c y = cell c x" if "cl_inv c" "y \<in> cell c x" for c x y
  proof (cases "x \<in> elems c")
    case True
    then obtain r ms where "(r, ms) \<in> set (cl_groups c)" "x \<in> set ms" unfolding in_elems by blast
    with that show ?thesis using cell_group [OF that(1)] by metis
  next
    case False
    with that(2) show ?thesis by (simp add: cell_absent)
  qed
  show "y = x \<or> x \<in> elems c \<and> y \<in> elems c" if "y \<in> cell c x" for c x y
    using that unfolding cell_def in_elems by blast
  show "\<exists>r c'. root x c = Some (r, c') \<and> cl_inv c' \<and> cell c' = cell c \<and> elems c' = insert x (elems c)"
    if "cl_inv c" for c x
    using root_spec [OF that, of x] by blast
  show "r = r' \<longleftrightarrow> cell c x = cell c y"
    if "cl_inv c" "root x c = Some (r, c1)" "root y c1 = Some (r', c2)" for c x y r r' c1 c2
    by (rule root_eq [OF that])
qed (rule membersOf_spec join_spec; assumption)+

subsection \<open>The clusters of the accepted links\<close>

lemma pairKey_sym: "pairKey a b = pairKey b a"
  unfolding pairKey_def using linorder_less_linear [of a b] by auto

lemma pairKey_inj:
  assumes "CHR 0x00 \<notin> set a" "CHR 0x00 \<notin> set x" "CHR 0x00 \<notin> set b" "CHR 0x00 \<notin> set y"
    and "pairKey a b = pairKey x y"
  shows "{a, b} = {x, y}"
proof -
  have split: "p = p' \<and> q = q'" if "p @ CHR 0x00 # q = p' @ CHR 0x00 # q'" "CHR 0x00 \<notin> set p" "CHR 0x00 \<notin> set p'"
    for p p' q q' :: string
    using that
  proof (induction p arbitrary: p')
    case Nil
    then show ?case by (cases p') auto
  next
    case (Cons x p)
    then show ?case by (cases p') auto
  qed
  show ?thesis
    using assms split [of a b x y] split [of a b y x] split [of b a x y] split [of b a y x]
    by (auto simp: pairKey_def split: if_splits)
qed

text \<open>Every two members of one cell are linked.\<close>

definition cliques :: "string list \<Rightarrow> clusters \<Rightarrow> bool" where
  "cliques linked c \<longleftrightarrow> (\<forall>z x y. x \<in> cell c z \<longrightarrow> y \<in> cell c z \<longrightarrow> x \<noteq> y \<longrightarrow> pairKey x y \<in> set linked)"

lemma merge_link_spec:
  assumes inv: "cl_inv c" and cl: "cliques linked c" and el: "ln_aId l \<in> elems c" "ln_bId l \<in> elems c"
  shows "\<exists>c'. merge_link linked l c = Some c' \<and> cl_inv c' \<and> cliques linked c' \<and> elems c' = elems c"
proof -
  let ?a = "ln_aId l" and ?b = "ln_bId l"
  obtain ra c1 where c1: "root ?a c = Some (ra, c1)" "cl_inv c1" "cell c1 = cell c" "elems c1 = insert ?a (elems c)"
    using clusters.findE [OF inv] by metis
  obtain rb c2 where c2: "root ?b c1 = Some (rb, c2)" "cl_inv c2" "cell c2 = cell c1" "elems c2 = insert ?b (elems c1)"
    using clusters.findE [OF c1(2)] by metis
  have cl2: "cliques linked c2" "elems c2 = elems c" using cl c1 c2 el by (auto simp: cliques_def)
  show ?thesis
  proof (cases "ra = rb")
    case True
    then show ?thesis using c1 c2 cl2 by (simp add: merge_link_def)
  next
    case False
    obtain left c3 where c3: "membersOf ?a c2 = Some (left, c3)" "cl_inv c3" "cell c3 = cell c2"
        "elems c3 = insert ?a (elems c2)" "set left = cell c2 ?a"
      using clusters.membersE [OF c2(2)] by metis
    obtain right c4 where c4: "membersOf ?b c3 = Some (right, c4)" "cl_inv c4" "cell c4 = cell c3"
        "elems c4 = insert ?b (elems c3)" "set right = cell c3 ?b"
      using clusters.membersE [OF c3(2)] by metis
    have cl4: "cliques linked c4" "elems c4 = elems c" using cl2 c3 c4 el by (auto simp: cliques_def)
    show ?thesis
    proof (cases "list_all (\<lambda>a. list_all (\<lambda>b. pairKey a b \<in> set linked) right) left")
      case complete: True
      obtain c' where c': "join ?a ?b c4 = Some c'" "cl_inv c'" "elems c' = insert ?a (insert ?b (elems c4))"
        using clusters.union_ok [OF c4(2), of ?a ?b] by blast
      have "pairKey x y \<in> set linked" if "x \<in> cell c' z" "y \<in> cell c' z" "x \<noteq> y" for x y z
      proof (rule clusters.union_clique [OF c4(2) _ _ _ c'(1) that])
        show "(pairKey a b \<in> set linked) = (pairKey b a \<in> set linked)" for a b by (simp add: pairKey_sym)
        show "pairKey a b \<in> set linked" if "a \<in> cell c4 z" "b \<in> cell c4 z" "a \<noteq> b" for z a b
          using cl4 that by (auto simp: cliques_def)
        show "pairKey a b \<in> set linked" if "a \<in> cell c4 ?a" "b \<in> cell c4 ?b" for a b
          using complete that c3 c4 by (simp add: list_all_iff)
      qed
      then have "cliques linked c'" by (auto simp: cliques_def)
      moreover have "elems c' = elems c" using c'(3) cl4(2) el by auto
      moreover have "merge_link linked l c = Some c'"
        using c1(1) c2(1) False c3(1) c4(1) complete c'(1) by (simp add: merge_link_def)
      ultimately show ?thesis using c'(2) by blast
    next
      case incomplete: False
      then have "merge_link linked l c = Some c4"
        using c1(1) c2(1) False c3(1) c4(1) by (simp add: merge_link_def)
      with cl4 c4(2) show ?thesis by blast
    qed
  qed
qed

lemma merge_links_spec:
  assumes "cl_inv c" "cliques linked c" "\<forall>l \<in> set ls. ln_aId l \<in> elems c \<and> ln_bId l \<in> elems c"
  shows "\<exists>c'. fold_option (merge_link linked) ls c = Some c' \<and> cl_inv c' \<and> cliques linked c' \<and> elems c' = elems c"
  using assms
proof (induction ls arbitrary: c)
  case (Cons l ls)
  obtain c1 where c1: "merge_link linked l c = Some c1" "cl_inv c1" "cliques linked c1" "elems c1 = elems c"
    using merge_link_spec [of c linked l] Cons.prems by auto
  with Cons.IH [of c1] Cons.prems(3) show ?case by auto
qed simp

lemma add_all_spec:
  assumes "cl_inv c" "\<forall>x. cell c x = {x}"
  shows "\<exists>c'. fold_option add ids c = Some c' \<and> cl_inv c' \<and> (\<forall>x. cell c' x = {x}) \<and> elems c' = elems c \<union> set ids"
  using assms
proof (induction ids arbitrary: c)
  case (Cons i ids)
  obtain r c1 where c1: "root i c = Some (r, c1)" "cl_inv c1" "cell c1 = cell c" "elems c1 = insert i (elems c)"
    using clusters.findE [OF Cons.prems(1)] by metis
  then have "\<exists>c'. fold_option add ids c1 = Some c' \<and> cl_inv c' \<and> (\<forall>x. cell c' x = {x}) \<and> elems c' = elems c1 \<union> set ids"
    using Cons.IH [of c1] Cons.prems by simp
  moreover have "add i c = Some c1" using c1(1) by (simp add: add_def)
  ultimately show ?case using c1(4) by auto
qed simp

definition link_keys :: "feature_link list \<Rightarrow> string list" where
  "link_keys ls = map (\<lambda>l. pairKey (ln_aId l) (ln_bId l)) ls"

lemma build_clusters_spec:
  "\<exists>c. build_clusters lc ids links = Some c \<and> cl_inv c \<and> elems c = set ids
     \<and> cliques (link_keys (accepted_links lc ids links)) c"
proof -
  have empty: "cl_inv empty_clusters" "\<forall>x. cell empty_clusters x = {x}" "elems empty_clusters = {}"
    by (auto simp: cl_inv_def levels_def empty_clusters_def elems_def cell_def)
  obtain c where c: "fold_option add ids empty_clusters = Some c" "cl_inv c" "\<forall>x. cell c x = {x}" "elems c = set ids"
    using add_all_spec [OF empty(1,2), of ids] empty(3) by auto
  let ?ls = "accepted_links lc ids links"
  have "cliques (link_keys ?ls) c" using c(3) by (auto simp: cliques_def)
  moreover have "\<forall>l \<in> set ?ls. ln_aId l \<in> elems c \<and> ln_bId l \<in> elems c"
    by (auto simp: accepted_links_def c(4))
  ultimately show ?thesis
    using merge_links_spec [OF c(2), of "link_keys ?ls" ?ls] c(1,4)
    by (auto simp: build_clusters_def link_keys_def Let_def)
qed

lemma survivor_member: "ms \<noteq> [] \<Longrightarrow> survivor_of lc rank ms \<in> set ms"
  using hd_in_set [of "js_sort (\<lambda>a b. js_or (the rank b - the rank a) (lc a b)) ms"]
  by (auto simp: survivor_of_def split: option.splits)

text \<open>C3. Clustering always returns, and its clusters are a partition into cliques: every feature is
  in exactly one cluster, any two members of a cluster are joined by an accepted link of their
  own, so no chain of links drags unrelated features together, and each cluster's survivor is one
  of its members.\<close>

theorem canonicalClusters_partition:
  fixes features :: "'x cluster_feature_scheme list"
  assumes instance_id: "isInstanceId (u instanceId)" and hash: "\<And>ms. sha256 ms \<noteq> []"
    and ids: "list_all (\<lambda>f. CHR 0x00 \<notin> set (lf_id f)) features"
  shows "\<exists>cs. canonicalClusters lc sha256 features links instanceId rank = Some (Inr cs)
    \<and> distinct (concat (map cc_memberIds cs))
    \<and> set (concat (map cc_memberIds cs)) = lf_id ` set features
    \<and> (\<forall>cc \<in> set cs. cc_survivorId cc \<in> set (cc_memberIds cc)
        \<and> (\<forall>a \<in> set (cc_memberIds cc). \<forall>b \<in> set (cc_memberIds cc). a \<noteq> b \<longrightarrow>
             (\<exists>l \<in> set links. ln_status l = LinkAccepted \<and> {ln_aId l, ln_bId l} = {a, b})))"
proof -
  let ?ids = "map lf_id features"
  obtain c where build: "build_clusters lc ?ids links = Some c" and inv: "cl_inv c"
    and el: "elems c = set ?ids" and cl: "cliques (link_keys (accepted_links lc ?ids links)) c"
    using build_clusters_spec by blast
  define by_id where "by_id = map_of (rev (map (\<lambda>f. (lf_id f, f)) features))"
  define canonical where "canonical ms = record_id_text \<lparr>id_class = u ''feature'', id_namespace = u instanceId,
      id_local = u (sha256 (sort_ids ms))\<rparr>" for ms
  define one where "one g = (let members = sort_ids (snd g) in
     \<lparr>cc_canonicalFeatureId = canonical (snd g),
      cc_survivorId = survivor_of lc (map_option (\<lambda>r i. r (the (by_id i))) rank) members,
      cc_memberIds = members,
      cc_mergedSources = map (\<lambda>i. (lf_sourceId (the (by_id i)), i)) members\<rparr>)" for g :: "feature_id \<times> feature_id list"
  have format: "formatRecordId \<lparr>id_class = u ''feature'', id_namespace = u instanceId, id_local = u (sha256 (sort_ids ms))\<rparr>
      = Inr (canonical ms)" for ms
    using instance_id hash by (simp add: formatRecordId_def canonical_def RECORD_CLASSES_def u_def)
  let ?f = "\<lambda>(_, memberIds). let members = sort_ids memberIds in
             bindE (formatRecordId \<lparr>id_class = u ''feature'', id_namespace = u instanceId,
                       id_local = u (sha256 members)\<rparr>) (\<lambda>canonical. Inr
               \<lparr>cc_canonicalFeatureId = canonical,
                cc_survivorId = survivor_of lc (map_option (\<lambda>r i. r (the (by_id i))) rank) members,
                cc_memberIds = members,
                cc_mergedSources = map (\<lambda>i. (lf_sourceId (the (by_id i)), i)) members\<rparr>)"
  have "mapE ?f gs = Inr (map one gs)" for gs
    by (induction gs) (auto simp: one_def format Let_def)
  then obtain cs where cs: "canonicalClusters lc sha256 features links instanceId rank = Some (Inr cs)"
    and perm: "mset cs = mset (map one (cl_groups c))"
    unfolding canonicalClusters_def build by_id_def [symmetric] Let_def by simp
  have "mset (concat (map cc_memberIds cs)) = mset (concat (map cc_memberIds (map one (cl_groups c))))"
    by (intro mset_concat_permuted) (simp only: mset_map perm)
  also have "\<dots> = mset (concat (map snd (cl_groups c)))"
    by (simp add: mset_concat o_def one_def Let_def sort_ids_def)
  finally have members: "mset (concat (map cc_memberIds cs)) = mset (concat (map snd (cl_groups c)))" .
  have apart: "distinct (concat (map cc_memberIds cs))"
    using members inv by (metis cl_inv_def mset_eq_imp_distinct_iff)
  have covered: "set (concat (map cc_memberIds cs)) = lf_id ` set features"
    using mset_eq_setD [OF members] el by (simp add: elems_def)
  have member: "cc_survivorId cc \<in> set (cc_memberIds cc)
      \<and> (\<forall>x \<in> set (cc_memberIds cc). cell c x = set (cc_memberIds cc))"
    if cc: "cc \<in> set cs" for cc
  proof -
    from cc mset_eq_setD [OF perm] obtain r ms where g: "(r, ms) \<in> set (cl_groups c)" "cc = one (r, ms)" by auto
    then have mem: "cc_memberIds cc = sort_ids ms" "set (sort_ids ms) = set ms"
      by (simp_all add: one_def Let_def sort_ids_def)
    have "ms \<noteq> []" using inv g(1) by (auto simp: cl_inv_def levels_def)
    then have "cc_survivorId cc \<in> set (cc_memberIds cc)"
      using g(2) survivor_member [of "sort_ids ms"] by (simp add: one_def Let_def sort_ids_def)
    moreover have "cell c x = set (cc_memberIds cc)" if "x \<in> set (cc_memberIds cc)" for x
      using cell_group [OF inv g(1)] that by (simp add: mem)
    ultimately show ?thesis by blast
  qed
  have linked: "\<exists>l \<in> set links. ln_status l = LinkAccepted \<and> {ln_aId l, ln_bId l} = {a, b}"
    if "cell c a = cell c b" "a \<in> set ?ids" "b \<in> set ?ids" "a \<noteq> b" for a b
  proof -
    have "pairKey a b \<in> set (link_keys (accepted_links lc ?ids links))"
      using cl clusters.cell_self [of a c] clusters.cell_self [of b c] that unfolding cliques_def by metis
    then obtain l where l: "l \<in> set (accepted_links lc ?ids links)" "pairKey a b = pairKey (ln_aId l) (ln_bId l)"
      by (auto simp: link_keys_def)
    then have "l \<in> set links" "ln_status l = LinkAccepted" "ln_aId l \<in> set ?ids" "ln_bId l \<in> set ?ids"
      by (auto simp: accepted_links_def)
    moreover have "{a, b} = {ln_aId l, ln_bId l}"
      using ids that(2,3) calculation(3,4) l(2) by (intro pairKey_inj) (auto simp: list_all_iff)
    ultimately show ?thesis by auto
  qed
  have ids_of: "x \<in> set ?ids" if "cc \<in> set cs" "x \<in> set (cc_memberIds cc)" for cc x
    using that covered by auto
  have "\<forall>cc \<in> set cs. cc_survivorId cc \<in> set (cc_memberIds cc)
        \<and> (\<forall>a \<in> set (cc_memberIds cc). \<forall>b \<in> set (cc_memberIds cc). a \<noteq> b \<longrightarrow>
             (\<exists>l \<in> set links. ln_status l = LinkAccepted \<and> {ln_aId l, ln_bId l} = {a, b}))"
  proof (intro ballI conjI impI)
    fix cc assume cc: "cc \<in> set cs"
    show "cc_survivorId cc \<in> set (cc_memberIds cc)" using member [OF cc] by blast
    fix a b assume ab: "a \<in> set (cc_memberIds cc)" "b \<in> set (cc_memberIds cc)" "a \<noteq> b"
    have "cell c a = cell c b" using member [OF cc] ab(1,2) by simp
    with ab show "\<exists>l \<in> set links. ln_status l = LinkAccepted \<and> {ln_aId l, ln_bId l} = {a, b}"
      using ids_of [OF cc] by (intro linked) auto
  qed
  with cs apart covered show ?thesis by blast
qed

definition sample_features :: "cluster_feature list" where
  "sample_features = map (\<lambda>i. \<lparr>lf_id = i, lf_sourceId = ''s'', lf_sourceFormat = None\<rparr>) [''a'', ''b'', ''c'']"

definition sample_links :: "feature_link list" where
  "sample_links =
     [\<lparr>ln_aId = ''a'', ln_bId = ''b'', ln_confidence = 7/10, ln_status = LinkAccepted\<rparr>,
      \<lparr>ln_aId = ''b'', ln_bId = ''c'', ln_confidence = 9/10, ln_status = LinkAccepted\<rparr>]"

theorem canonicalClusters_partition_witness:
  "\<exists>cs. canonicalClusters str_cmp (\<lambda>_. ''0a1b'') sample_features sample_links ''node-1'' None = Some (Inr cs)
    \<and> set (concat (map cc_memberIds cs)) = {''a'', ''b'', ''c''}"
proof -
  have "isInstanceId (u ''node-1'')" by code_simp
  moreover have "list_all (\<lambda>f. CHR 0x00 \<notin> set (lf_id f)) sample_features" by (simp add: sample_features_def)
  moreover have "lf_id ` set sample_features = {''a'', ''b'', ''c''}" by (auto simp: sample_features_def)
  ultimately show ?thesis
    using canonicalClusters_partition [of "''node-1''" "\<lambda>_. ''0a1b''" sample_features str_cmp sample_links None]
    by auto
qed

end
