(* ===== verification/Rate_Limit.thy ===== *)
theory Rate_Limit
  imports OC_Prelude
begin

text \<open>
  The federation rate limiter, packages/federation/src/rate.ts, as a state machine: per peer and
  kind a fixed window with its count, per peer the streak of over-limit windows that arms a
  temporary tier downgrade. Times are whole epoch milliseconds, tiers the numbers 0 to 2, counts
  natural numbers. The window map's key, the peer and the kind joined by a NUL, is their pair.
\<close>

datatype request_kind = Inbox | Backfill

record rate_policy =
  rp_inboxPerMin :: nat
  rp_backfillPerMin :: nat

definition RATE_WINDOW_MS :: int where "RATE_WINDOW_MS = 60000"
definition RATE_DOWNGRADE_WINDOWS :: nat where "RATE_DOWNGRADE_WINDOWS = 3"
definition RATE_DOWNGRADE_COOLDOWN_SEC :: int where "RATE_DOWNGRADE_COOLDOWN_SEC = 300"
definition OUTBOX_MAX_LIMIT :: nat where "OUTBOX_MAX_LIMIT = 500"
definition RATE_MAX_PAGE_SIZE :: nat where "RATE_MAX_PAGE_SIZE = OUTBOX_MAX_LIMIT"

definition ratePolicyForTier :: "nat \<Rightarrow> rate_policy" where
  "ratePolicyForTier tier =
     [\<lparr>rp_inboxPerMin = 100, rp_backfillPerMin = 100\<rparr>,
      \<lparr>rp_inboxPerMin = 1000, rp_backfillPerMin = 300\<rparr>,
      \<lparr>rp_inboxPerMin = 2000, rp_backfillPerMin = 600\<rparr>] ! tier"

record limiter_options =
  lo_policyForTier :: "nat \<Rightarrow> rate_policy"
  lo_downgradeWindows :: nat
  lo_downgradeCooldownSec :: int
  lo_maxPageSize :: nat

definition default_options :: limiter_options where
  "default_options = \<lparr>lo_policyForTier = ratePolicyForTier, lo_downgradeWindows = RATE_DOWNGRADE_WINDOWS,
     lo_downgradeCooldownSec = RATE_DOWNGRADE_COOLDOWN_SEC, lo_maxPageSize = RATE_MAX_PAGE_SIZE\<rparr>"

record window_state =
  ws_windowStart :: int
  ws_count :: nat

text \<open>\<open>lastOverWindow\<close> is \<open>None\<close> for the initial \<open>-Infinity\<close>.\<close>

record downgrade_state =
  ds_lastOverWindow :: "int option"
  ds_streak :: nat
  ds_effectiveTierUntil :: int

record limiter =
  li_windows :: "string \<times> request_kind \<rightharpoonup> window_state"
  li_downgrades :: "string \<rightharpoonup> downgrade_state"

record rate_request =
  rq_peer :: string
  rq_kind :: request_kind
  rq_registeredTier :: nat
  rq_count :: nat
  rq_now :: int

record rate_result =
  rs_ok :: bool
  rs_retryAfterSec :: "int option"
  rs_effectiveTier :: nat
  rs_downgraded :: bool

definition effectiveTier :: "limiter \<Rightarrow> string \<Rightarrow> nat \<Rightarrow> int \<Rightarrow> nat" where
  "effectiveTier s peer registeredTier now =
     (case li_downgrades s peer of
        Some d \<Rightarrow> if now < ds_effectiveTierUntil d then max 0 (registeredTier - 1) else registeredTier
      | None \<Rightarrow> registeredTier)"

definition noteOverLimit :: "limiter_options \<Rightarrow> string \<Rightarrow> int \<Rightarrow> limiter \<Rightarrow> limiter" where
  "noteOverLimit opts peer now s =
     (let windowIndex = now div RATE_WINDOW_MS;
          d = (case li_downgrades s peer of Some d \<Rightarrow> d
               | None \<Rightarrow> \<lparr>ds_lastOverWindow = None, ds_streak = 0, ds_effectiveTierUntil = 0\<rparr>);
          streak = (if ds_lastOverWindow d = Some windowIndex then ds_streak d
                    else if ds_lastOverWindow d = Some (windowIndex - 1) then ds_streak d + 1
                    else 1);
          until = (if streak \<ge> lo_downgradeWindows opts then now + lo_downgradeCooldownSec opts * 1000
                   else ds_effectiveTierUntil d)
      in s\<lparr>li_downgrades := (li_downgrades s)(peer \<mapsto>
           \<lparr>ds_lastOverWindow = Some windowIndex, ds_streak = streak, ds_effectiveTierUntil = until\<rparr>)\<rparr>)"

text \<open>The window a request is metered against: its start and the count before the request.\<close>

definition current_window :: "limiter \<Rightarrow> rate_request \<Rightarrow> int \<times> nat" where
  "current_window s q =
     (case li_windows s (rq_peer q, rq_kind q) of
        Some w \<Rightarrow> if rq_now q - ws_windowStart w \<ge> RATE_WINDOW_MS then (rq_now q, 0)
                   else (ws_windowStart w, ws_count w)
      | None \<Rightarrow> (rq_now q, 0))"

definition request_cap :: "limiter_options \<Rightarrow> limiter \<Rightarrow> rate_request \<Rightarrow> nat" where
  "request_cap opts s q =
     (let policy = lo_policyForTier opts (effectiveTier s (rq_peer q) (rq_registeredTier q) (rq_now q))
      in case rq_kind q of Inbox \<Rightarrow> rp_inboxPerMin policy | Backfill \<Rightarrow> rp_backfillPerMin policy)"

definition refusedForRate :: "limiter_options \<Rightarrow> limiter \<Rightarrow> rate_request \<Rightarrow> bool" where
  "refusedForRate opts s q \<longleftrightarrow> (let priorCount = snd (current_window s q) in
     priorCount > 0 \<and> priorCount + rq_count q > request_cap opts s q)"

definition refusedForSize :: "limiter_options \<Rightarrow> limiter \<Rightarrow> rate_request \<Rightarrow> bool" where
  "refusedForSize opts s q \<longleftrightarrow> snd (current_window s q) = 0 \<and> rq_count q > lo_maxPageSize opts"

definition rate_check :: "limiter_options \<Rightarrow> rate_request \<Rightarrow> limiter \<Rightarrow> limiter \<times> rate_result" where
  "rate_check opts q s =
     (let (windowStart, priorCount) = current_window s q; reg = rq_registeredTier q in
      if refusedForRate opts s q \<or> refusedForSize opts s q then
        let s' = (if refusedForRate opts s q then noteOverLimit opts (rq_peer q) (rq_now q) s else s);
            retry = max 1 (- ((- (windowStart + RATE_WINDOW_MS - rq_now q)) div 1000));
            tierAfter = effectiveTier s' (rq_peer q) reg (rq_now q)
        in (s', \<lparr>rs_ok = False, rs_retryAfterSec = Some retry, rs_effectiveTier = tierAfter,
                 rs_downgraded = tierAfter < reg\<rparr>)
      else
        let s' = s\<lparr>li_windows := (li_windows s)((rq_peer q, rq_kind q) \<mapsto>
                    \<lparr>ws_windowStart = windowStart, ws_count = priorCount + rq_count q\<rparr>)\<rparr>;
            tierAfter = effectiveTier s' (rq_peer q) reg (rq_now q)
        in (s', \<lparr>rs_ok = True, rs_retryAfterSec = None, rs_effectiveTier = tierAfter,
                 rs_downgraded = tierAfter < reg\<rparr>))"

definition empty_limiter :: limiter where
  "empty_limiter = \<lparr>li_windows = Map.empty, li_downgrades = Map.empty\<rparr>"

subsection \<open>Runs of the limiter\<close>

text \<open>
  A state reached by some sequence of requests, with the rate refusals that happened on the way:
  the pairs of a peer and the index of the minute of its refusal.
\<close>

inductive reach :: "limiter_options \<Rightarrow> (string \<times> int) list \<Rightarrow> limiter \<Rightarrow> bool" for opts where
  start: "reach opts [] empty_limiter"
| refuse: "reach opts rs s \<Longrightarrow> rq_registeredTier q \<le> 2 \<Longrightarrow> refusedForRate opts s q \<Longrightarrow>
    reach opts ((rq_peer q, rq_now q div RATE_WINDOW_MS) # rs) (fst (rate_check opts q s))"
| other: "reach opts rs s \<Longrightarrow> rq_registeredTier q \<le> 2 \<Longrightarrow> \<not> refusedForRate opts s q \<Longrightarrow>
    reach opts rs (fst (rate_check opts q s))"

inductive_cases reach_NilE: "reach opts [] s"

lemma check_refused:
  assumes "refusedForRate opts s q"
  shows "fst (rate_check opts q s) = noteOverLimit opts (rq_peer q) (rq_now q) s"
    and "\<not> rs_ok (snd (rate_check opts q s))"
  using assms by (simp_all add: rate_check_def Let_def split: prod.splits)

lemma check_size_refused:
  assumes "\<not> refusedForRate opts s q" "refusedForSize opts s q"
  shows "fst (rate_check opts q s) = s" and "\<not> rs_ok (snd (rate_check opts q s))"
  using assms by (simp_all add: rate_check_def Let_def split: prod.splits)

lemma check_admitted:
  assumes "\<not> refusedForRate opts s q" "\<not> refusedForSize opts s q"
  shows "fst (rate_check opts q s) = s\<lparr>li_windows := (li_windows s)((rq_peer q, rq_kind q) \<mapsto>
      \<lparr>ws_windowStart = fst (current_window s q), ws_count = snd (current_window s q) + rq_count q\<rparr>)\<rparr>"
    and "rs_ok (snd (rate_check opts q s))"
  using assms by (simp_all add: rate_check_def Let_def split: prod.splits)

lemmas check_cases = check_refused check_size_refused check_admitted

text \<open>A streak of \<open>k\<close> stands for refusals in \<open>k\<close> consecutive minutes up to the last one, and a
  cooldown that was ever set for a streak long enough.\<close>

definition consecutive :: "(string \<times> int) list \<Rightarrow> string \<Rightarrow> int \<Rightarrow> nat \<Rightarrow> bool" where
  "consecutive rs peer w k \<longleftrightarrow> list_all (\<lambda>i. (peer, w - int i) \<in> set rs) [0..<k]"

definition downgrade_ok :: "limiter_options \<Rightarrow> (string \<times> int) list \<Rightarrow> string \<Rightarrow> downgrade_state \<Rightarrow> bool" where
  "downgrade_ok opts rs peer d \<longleftrightarrow>
     (\<exists>w. ds_lastOverWindow d = Some w \<and> consecutive rs peer w (ds_streak d))
     \<and> (ds_effectiveTierUntil d \<noteq> 0 \<longrightarrow> (\<exists>w. consecutive rs peer w (lo_downgradeWindows opts)))"

definition downgrade_inv :: "limiter_options \<Rightarrow> (string \<times> int) list \<Rightarrow> limiter \<Rightarrow> bool" where
  "downgrade_inv opts rs s \<longleftrightarrow> (\<forall>peer d. li_downgrades s peer = Some d \<longrightarrow> downgrade_ok opts rs peer d)"

lemma consecutive_mono: "consecutive rs peer w k \<Longrightarrow> consecutive (r # rs) peer w k"
  by (auto simp: consecutive_def list_all_iff)

lemma downgrade_ok_mono: "downgrade_ok opts rs peer d \<Longrightarrow> downgrade_ok opts (r # rs) peer d"
  unfolding downgrade_ok_def using consecutive_mono by blast

lemma consecutive_less: "consecutive rs peer w k \<Longrightarrow> j \<le> k \<Longrightarrow> consecutive rs peer w j"
  by (auto simp: consecutive_def list_all_iff)

lemma consecutive_one: "consecutive ((peer, w) # rs) peer w (Suc 0)"
  by (simp add: consecutive_def)

lemma consecutive_Suc:
  assumes "consecutive rs peer (w - 1) k"
  shows "consecutive ((peer, w) # rs) peer w (Suc k)"
  unfolding consecutive_def list_all_iff
proof
  fix i assume i: "i \<in> set [0..<Suc k]"
  have "(peer, w - 1 - int j) \<in> set rs" if "j < k" for j
    using assms that by (simp add: consecutive_def list_all_iff)
  moreover have "i < Suc k" using i by (simp del: upt_Suc)
  ultimately show "(peer, w - int i) \<in> set ((peer, w) # rs)"
    by (cases i) (auto simp: algebra_simps)
qed

lemma downgrade_inv_note:
  assumes inv: "downgrade_inv opts rs s"
  shows "downgrade_inv opts ((peer, now div RATE_WINDOW_MS) # rs) (noteOverLimit opts peer now s)"
proof -
  let ?w = "now div RATE_WINDOW_MS" and ?s = "noteOverLimit opts peer now s"
  let ?rs = "(peer, ?w) # rs"
  define d where "d = (case li_downgrades s peer of Some d \<Rightarrow> d
     | None \<Rightarrow> \<lparr>ds_lastOverWindow = None, ds_streak = 0, ds_effectiveTierUntil = 0\<rparr>)"
  define streak where "streak = (if ds_lastOverWindow d = Some ?w then ds_streak d
     else if ds_lastOverWindow d = Some (?w - 1) then ds_streak d + 1 else 1)"
  have old: "ds_lastOverWindow d = Some w \<Longrightarrow> consecutive rs peer w (ds_streak d)"
    "ds_effectiveTierUntil d \<noteq> 0 \<Longrightarrow> \<exists>w. consecutive rs peer w (lo_downgradeWindows opts)" for w
    using inv unfolding downgrade_inv_def downgrade_ok_def d_def
    by (cases "li_downgrades s peer"; simp; metis option.inject)+
  have streak: "consecutive ?rs peer ?w streak"
    using old(1) consecutive_mono consecutive_Suc consecutive_one by (auto simp: streak_def)
  let ?d = "\<lparr>ds_lastOverWindow = Some ?w, ds_streak = streak,
     ds_effectiveTierUntil = (if streak \<ge> lo_downgradeWindows opts
       then now + lo_downgradeCooldownSec opts * 1000 else ds_effectiveTierUntil d)\<rparr>"
  have noted: "li_downgrades ?s = (li_downgrades s)(peer \<mapsto> ?d)"
    by (simp add: noteOverLimit_def Let_def d_def [symmetric] streak_def [symmetric])
  have "\<exists>w. consecutive ?rs peer w (lo_downgradeWindows opts)" if "ds_effectiveTierUntil ?d \<noteq> 0"
  proof (cases "streak \<ge> lo_downgradeWindows opts")
    case True
    with consecutive_less [OF streak] show ?thesis by blast
  next
    case False
    with that old(2) consecutive_mono show ?thesis by simp blast
  qed
  with streak have here: "downgrade_ok opts ?rs peer ?d" by (simp add: downgrade_ok_def)
  show ?thesis
    unfolding downgrade_inv_def noted
  proof (intro allI impI)
    fix p e assume e: "((li_downgrades s)(peer \<mapsto> ?d)) p = Some e"
    show "downgrade_ok opts ?rs p e"
    proof (cases "p = peer")
      case True
      with e have "e = ?d" by (simp only: fun_upd_same option.inject)
      with here True show ?thesis by (simp only:)
    next
      case False
      with e inv show ?thesis by (intro downgrade_ok_mono) (simp add: downgrade_inv_def)
    qed
  qed
qed

lemma reach_downgrade_inv: "reach opts rs s \<Longrightarrow> downgrade_inv opts rs s"
proof (induction rule: reach.induct)
  case start
  show ?case by (simp add: downgrade_inv_def empty_limiter_def)
next
  case (refuse rs s q)
  then show ?case by (simp add: check_refused downgrade_inv_note)
next
  case (other rs s q)
  then have "li_downgrades (fst (rate_check opts q s)) = li_downgrades s"
    by (cases "refusedForSize opts s q") (simp_all add: check_cases)
  with other show ?case by (simp add: downgrade_inv_def)
qed

text \<open>C6. A tier is lowered only for a sustained overrun: whenever a reachable limiter works with less
  than the registered tier, exactly one tier is missing and the peer was refused for its rate in
  as many consecutive minutes as the options demand. An oversized page never arms it.\<close>

theorem downgrade_needs_sustained_overrun:
  assumes "reach opts refusals s" and "effectiveTier s peer registered now < registered" and "0 < now"
  shows "effectiveTier s peer registered now = registered - 1
    \<and> (\<exists>w. \<forall>i < lo_downgradeWindows opts. (peer, w - int i) \<in> set refusals)"
proof -
  obtain d where d: "li_downgrades s peer = Some d" "now < ds_effectiveTierUntil d"
    using assms(2) by (auto simp: effectiveTier_def split: option.splits if_splits)
  then have "\<exists>w. consecutive refusals peer w (lo_downgradeWindows opts)"
    using reach_downgrade_inv [OF assms(1)] assms(3) by (auto simp: downgrade_inv_def downgrade_ok_def)
  then show ?thesis using d by (simp add: effectiveTier_def consecutive_def list_all_iff atLeast0LessThan) blast
qed

text \<open>The largest count a window of a key can reach: a page, or the largest cap of a tier.\<close>

definition window_budget :: "limiter_options \<Rightarrow> nat" where
  "window_budget opts = Max (insert (lo_maxPageSize opts)
     (\<Union>t \<in> {0, 1, 2}. {rp_inboxPerMin (lo_policyForTier opts t), rp_backfillPerMin (lo_policyForTier opts t)}))"

lemma cap_budget: "rq_registeredTier q \<le> 2 \<Longrightarrow> request_cap opts s q \<le> window_budget opts"
proof -
  assume "rq_registeredTier q \<le> 2"
  then have "effectiveTier s (rq_peer q) (rq_registeredTier q) (rq_now q) \<in> {0, 1, 2}"
    by (auto simp: effectiveTier_def split: option.splits)
  then show ?thesis unfolding window_budget_def request_cap_def Let_def
    by (intro Max_ge) (auto split: request_kind.splits)
qed

lemma page_budget: "lo_maxPageSize opts \<le> window_budget opts"
  unfolding window_budget_def by (intro Max_ge) auto

text \<open>No window ever holds more than the budget: in every reachable state the requests admitted
  into a window sum to at most the largest of the tier caps and the page size, however they were
  spread over kinds, tiers and time.\<close>

theorem windows_within_budget:
  assumes "reach opts refusals s" and "li_windows s key = Some w"
  shows "ws_count w \<le> window_budget opts"
  using assms
proof (induction arbitrary: key w rule: reach.induct)
  case start
  then show ?case by (simp add: empty_limiter_def)
next
  case (refuse rs s q)
  then have "li_windows s key = Some w"
    by (simp add: check_refused noteOverLimit_def Let_def)
  then show ?case by (rule refuse.IH)
next
  case (other rs s q)
  show ?case
  proof (cases "refusedForSize opts s q \<or> key \<noteq> (rq_peer q, rq_kind q)")
    case True
    with other.prems other.hyps have "li_windows s key = Some w"
      by (cases "refusedForSize opts s q") (auto simp: check_cases)
    then show ?thesis by (rule other.IH)
  next
    case False
    then have "ws_count w = snd (current_window s q) + rq_count q"
      using other.prems other.hyps by (auto simp: check_admitted)
    then show ?thesis
      using other.hyps False cap_budget [of q opts s] page_budget [of opts]
      by (auto simp: refusedForRate_def refusedForSize_def Let_def)
  qed
qed

text \<open>Retry-After is honest: whatever refused a request, once the seconds it was told to wait have
  passed the same peer's next request of that kind is admitted if it fits in one page, whatever
  its tier has become.\<close>

theorem retry_after_honest:
  assumes refused: "\<not> rs_ok (snd (rate_check opts q s))" and secs: "rs_retryAfterSec (snd (rate_check opts q s)) = Some sec"
    and same: "rq_peer q' = rq_peer q" "rq_kind q' = rq_kind q"
    and later: "rq_now q' \<ge> rq_now q + sec * 1000" and page: "rq_count q' \<le> lo_maxPageSize opts"
  shows "rs_ok (snd (rate_check opts q' (fst (rate_check opts q s))))"
proof -
  let ?s' = "fst (rate_check opts q s)"
  have refusal: "refusedForRate opts s q \<or> refusedForSize opts s q"
    using refused check_admitted(2) by blast
  have windows: "li_windows ?s' = li_windows s"
    using refusal by (cases "refusedForRate opts s q") (simp_all add: check_cases noteOverLimit_def Let_def)
  have sec: "sec = max 1 (- ((- (fst (current_window s q) + RATE_WINDOW_MS - rq_now q)) div 1000))"
    using secs refusal by (auto simp: rate_check_def Let_def split: prod.splits)
  then have "1 \<le> sec" and "fst (current_window s q) + RATE_WINDOW_MS - rq_now q \<le> sec * 1000" by linarith+
  then have past: "rq_now q \<le> rq_now q'" "RATE_WINDOW_MS \<le> rq_now q' - fst (current_window s q)"
    using later by linarith+
  have "snd (current_window ?s' q') = 0"
    using past by (auto simp: current_window_def windows same split: option.splits if_splits)
  then have "\<not> refusedForRate opts ?s' q'" "\<not> refusedForSize opts ?s' q'"
    using page by (simp_all add: refusedForRate_def refusedForSize_def)
  then show ?thesis by (rule check_admitted(2))
qed

subsection \<open>A peer that overruns three minutes in a row\<close>

definition sample_request :: "nat \<Rightarrow> int \<Rightarrow> rate_request" where
  "sample_request n t = \<lparr>rq_peer = ''p'', rq_kind = Backfill, rq_registeredTier = 1, rq_count = n, rq_now = t\<rparr>"

definition overrun :: "int \<Rightarrow> limiter \<Rightarrow> limiter" where
  "overrun t s = fst (rate_check default_options (sample_request 200 (t + 1))
     (fst (rate_check default_options (sample_request 200 t) s)))"

definition overrun_state :: limiter where
  "overrun_state = overrun 180000 (overrun 120000 (overrun 60000 empty_limiter))"

lemma reach_overrun:
  assumes "reach default_options rs s" "\<not> refusedForRate default_options s (sample_request 200 t)"
    and "refusedForRate default_options (fst (rate_check default_options (sample_request 200 t) s)) (sample_request 200 (t + 1))"
  shows "reach default_options ((''p'', (t + 1) div RATE_WINDOW_MS) # rs) (overrun t s)"
proof -
  have "reach default_options rs (fst (rate_check default_options (sample_request 200 t) s))"
    by (rule reach.other [OF assms(1) _ assms(2)]) (simp add: sample_request_def)
  from reach.refuse [OF this _ assms(3)] show ?thesis by (simp add: overrun_def sample_request_def)
qed

lemma overrun_steps:
  "\<not> refusedForRate default_options empty_limiter (sample_request 200 60000)"
  "refusedForRate default_options (fst (rate_check default_options (sample_request 200 60000) empty_limiter))
     (sample_request 200 60001)"
  "\<not> refusedForRate default_options (overrun 60000 empty_limiter) (sample_request 200 120000)"
  "refusedForRate default_options (fst (rate_check default_options (sample_request 200 120000)
     (overrun 60000 empty_limiter))) (sample_request 200 120001)"
  "\<not> refusedForRate default_options (overrun 120000 (overrun 60000 empty_limiter)) (sample_request 200 180000)"
  "refusedForRate default_options (fst (rate_check default_options (sample_request 200 180000)
     (overrun 120000 (overrun 60000 empty_limiter)))) (sample_request 200 180001)"
  by code_simp+

lemma reach_overrun_state: "reach default_options [(''p'', 3), (''p'', 2), (''p'', 1)] overrun_state"
proof -
  have 1: "reach default_options [(''p'', 1)] (overrun 60000 empty_limiter)"
    using reach_overrun [OF reach.start overrun_steps(1)] overrun_steps(2) by (simp add: RATE_WINDOW_MS_def)
  have 2: "reach default_options [(''p'', 2), (''p'', 1)] (overrun 120000 (overrun 60000 empty_limiter))"
    using reach_overrun [OF 1 overrun_steps(3)] overrun_steps(4) by (simp add: RATE_WINDOW_MS_def)
  show ?thesis unfolding overrun_state_def
    using reach_overrun [OF 2 overrun_steps(5)] overrun_steps(6) by (simp add: RATE_WINDOW_MS_def)
qed

theorem downgrade_needs_sustained_overrun_witness:
  "effectiveTier overrun_state ''p'' 1 180002 = 0
   \<and> (\<exists>w. \<forall>i < lo_downgradeWindows default_options. (''p'', w - int i) \<in> set [(''p'', 3), (''p'', 2), (''p'', 1)])"
proof -
  have "effectiveTier overrun_state ''p'' 1 180002 < 1" by code_simp
  from downgrade_needs_sustained_overrun [OF reach_overrun_state this] show ?thesis by simp
qed

theorem windows_within_budget_witness:
  "\<exists>w. li_windows overrun_state (''p'', Backfill) = Some w \<and> ws_count w \<le> window_budget default_options"
proof -
  have "case li_windows overrun_state (''p'', Backfill) of None \<Rightarrow> False | Some w \<Rightarrow> True" by code_simp
  then obtain w where "li_windows overrun_state (''p'', Backfill) = Some w"
    by (cases "li_windows overrun_state (''p'', Backfill)") auto
  with windows_within_budget [OF reach_overrun_state this] show ?thesis by blast
qed

theorem retry_after_honest_witness:
  "rs_ok (snd (rate_check default_options (sample_request 500 240002)
     (fst (rate_check default_options (sample_request 200 180002) overrun_state))))"
proof -
  have "\<not> rs_ok (snd (rate_check default_options (sample_request 200 180002) overrun_state))"
    and "rs_retryAfterSec (snd (rate_check default_options (sample_request 200 180002) overrun_state)) = Some 60"
    by code_simp+
  then show ?thesis
    by (rule retry_after_honest [of default_options "sample_request 200 180002" overrun_state 60 "sample_request 500 240002"])
      (simp_all add: sample_request_def default_options_def RATE_MAX_PAGE_SIZE_def OUTBOX_MAX_LIMIT_def)
qed

end
