(* ===== verification/Peer_Health.thy ===== *)
theory Peer_Health
  imports OC_Prelude
begin

text \<open>
  Monitoring of federation peers: packages/federation/src/peer-health.ts, with its table as a map
  from peer to row and each upsert as the update its SQL states, and anomaly.ts. Counters are
  natural numbers, scores reals.
\<close>

subsection \<open>The health table\<close>

datatype peer_failure = SignatureFailure | ReplayFailure | SchemaFailure | RateFailure

record peer_health_row =
  ph_availabilityOk :: nat
  ph_availabilityFail :: nat
  ph_signatureFailures :: nat
  ph_replayFailures :: nat
  ph_schemaFailures :: nat
  ph_rateViolations :: nat
  ph_effectiveTierUntil :: "int option"
  ph_updatedAt :: int

type_synonym health_table = "string \<rightharpoonup> peer_health_row"

text \<open>The column defaults of a row an upsert inserts.\<close>

definition new_health_row :: "int \<Rightarrow> peer_health_row" where
  "new_health_row now = \<lparr>ph_availabilityOk = 0, ph_availabilityFail = 0, ph_signatureFailures = 0,
     ph_replayFailures = 0, ph_schemaFailures = 0, ph_rateViolations = 0,
     ph_effectiveTierUntil = None, ph_updatedAt = now\<rparr>"

definition upsert_health :: "string \<Rightarrow> int \<Rightarrow> (peer_health_row \<Rightarrow> peer_health_row) \<Rightarrow> health_table \<Rightarrow> health_table" where
  "upsert_health peer now f table =
     (let row = (case table peer of None \<Rightarrow> new_health_row now | Some r \<Rightarrow> r)
      in table(peer \<mapsto> (f row)\<lparr>ph_updatedAt := now\<rparr>))"

definition getPeerHealth :: "health_table \<Rightarrow> string \<Rightarrow> peer_health_row option" where
  "getPeerHealth table peer = table peer"

definition recordAvailability :: "string \<Rightarrow> bool \<Rightarrow> int \<Rightarrow> health_table \<Rightarrow> health_table" where
  "recordAvailability peer ok now =
     upsert_health peer now (\<lambda>r. if ok then r\<lparr>ph_availabilityOk := ph_availabilityOk r + 1\<rparr>
       else r\<lparr>ph_availabilityFail := ph_availabilityFail r + 1\<rparr>)"

definition add_failures :: "peer_failure \<Rightarrow> nat \<Rightarrow> peer_health_row \<Rightarrow> peer_health_row" where
  "add_failures kind n r = (case kind of
     SignatureFailure \<Rightarrow> r\<lparr>ph_signatureFailures := ph_signatureFailures r + n\<rparr>
   | ReplayFailure \<Rightarrow> r\<lparr>ph_replayFailures := ph_replayFailures r + n\<rparr>
   | SchemaFailure \<Rightarrow> r\<lparr>ph_schemaFailures := ph_schemaFailures r + n\<rparr>
   | RateFailure \<Rightarrow> r\<lparr>ph_rateViolations := ph_rateViolations r + n\<rparr>)"

definition recordPeerFailure :: "string \<Rightarrow> peer_failure \<Rightarrow> int \<Rightarrow> int \<Rightarrow> health_table \<Rightarrow> health_table" where
  "recordPeerFailure peer kind now howMany table =
     (if howMany \<le> 0 then table else upsert_health peer now (add_failures kind (nat howMany)) table)"

definition setEffectiveTierUntil :: "string \<Rightarrow> int option \<Rightarrow> int \<Rightarrow> health_table \<Rightarrow> health_table" where
  "setEffectiveTierUntil peer until now = upsert_health peer now (\<lambda>r. r\<lparr>ph_effectiveTierUntil := until\<rparr>)"

subsection \<open>The score\<close>

record peer_health =
  he_score :: real
  he_reasons :: "string list"

definition health_failures :: "peer_health_row \<Rightarrow> nat" where
  "health_failures r = ph_signatureFailures r + ph_replayFailures r + ph_schemaFailures r + ph_rateViolations r"

definition computePeerHealth :: "peer_health_row \<Rightarrow> peer_health" where
  "computePeerHealth row =
     (let attempts = ph_availabilityOk row + ph_availabilityFail row;
          availabilityScore = (if attempts = 0 then 1 else real (ph_availabilityOk row) / real attempts);
          failures = health_failures row;
          integrityDenom = attempts + failures;
          integrityScore = (if integrityDenom = 0 then 1 else 1 - real failures / real integrityDenom)
      in \<lparr>he_score = clamp01 (1/2 * availabilityScore + 1/2 * integrityScore),
          he_reasons =
            (if attempts > 0 \<and> availabilityScore < 99/100 then [''low_availability''] else []) @
            (if ph_signatureFailures row > 0 then [''signature_failures''] else []) @
            (if ph_replayFailures row > 0 then [''replay_failures''] else []) @
            (if ph_schemaFailures row > 0 then [''schema_failures''] else []) @
            (if ph_rateViolations row > 0 then [''rate_violations''] else [])\<rparr>)"

subsection \<open>Anomalies\<close>

record peer_baseline =
  pb_eventsPerMin :: real
  pb_typeEntropy :: real
  pb_meanConfidence :: real

record anomaly_options =
  ao_rateSpikeFactor :: real
  ao_entropyCollapseFraction :: real
  ao_confidenceShiftDelta :: real

definition anomaly_defaults :: anomaly_options where
  "anomaly_defaults = \<lparr>ao_rateSpikeFactor = 10, ao_entropyCollapseFraction = 4/10, ao_confidenceShiftDelta = 3/10\<rparr>"

definition detectAnomaly :: "peer_baseline \<Rightarrow> peer_baseline \<Rightarrow> anomaly_options \<Rightarrow> bool \<times> string list" where
  "detectAnomaly baseline window opts =
     (let signals =
        (if pb_eventsPerMin baseline > 0
            \<and> pb_eventsPerMin window \<ge> pb_eventsPerMin baseline * ao_rateSpikeFactor opts
         then [''event_rate_spike''] else []) @
        (if pb_typeEntropy baseline > 0
            \<and> pb_typeEntropy window \<le> pb_typeEntropy baseline * ao_entropyCollapseFraction opts
         then [''type_entropy_collapse''] else []) @
        (if \<bar>pb_meanConfidence window - pb_meanConfidence baseline\<bar> \<ge> ao_confidenceShiftDelta opts
         then [''confidence_shift''] else [])
      in (signals \<noteq> [], signals))"

text \<open>Counts and confidences of a raw window; a count is a number that may be zero or below.\<close>

record raw_peer_window =
  rw_windowSec :: real
  rw_typeCounts :: "real list"
  rw_confidences :: "real list"

definition shannonEntropy :: "real list \<Rightarrow> real" where
  "shannonEntropy counts =
     (let total = sum_list counts in
      if total = 0 then 0
      else foldl (\<lambda>entropy c. if c \<le> 0 then entropy else entropy - c / total * log 2 (c / total)) 0 counts)"

definition peerWindowStats :: "raw_peer_window \<Rightarrow> peer_baseline" where
  "peerWindowStats w =
     (let events = sum_list (rw_typeCounts w) in
      \<lparr>pb_eventsPerMin = (if rw_windowSec w > 0 then events / rw_windowSec w * 60 else 0),
       pb_typeEntropy = shannonEntropy (rw_typeCounts w),
       pb_meanConfidence = (if rw_confidences w \<noteq> []
         then sum_list (rw_confidences w) / real (length (rw_confidences w)) else 0)\<rparr>)"

subsection \<open>Properties\<close>

definition availability :: "nat \<Rightarrow> nat \<Rightarrow> real" where
  "availability ok bad = (if ok + bad = 0 then 1 else real ok / real (ok + bad))"

definition integrity :: "nat \<Rightarrow> nat \<Rightarrow> real" where
  "integrity n f = (if n + f = 0 then 1 else 1 - real f / real (n + f))"

definition score_of :: "nat \<Rightarrow> nat \<Rightarrow> nat \<Rightarrow> real" where
  "score_of ok bad f = 1/2 * availability ok bad + 1/2 * integrity (ok + bad) f"

lemma score_bounds: "0 \<le> availability ok bad" "availability ok bad \<le> 1" "0 \<le> integrity n f" "integrity n f \<le> 1"
  by (auto simp: availability_def integrity_def field_simps)

lemma cross: "0 < d \<Longrightarrow> 0 < d' \<Longrightarrow> a * d' \<le> c * d \<Longrightarrow> a / d \<le> c / (d' :: real)"
  by (simp add: field_simps)

lemma score_eq:
  "he_score (computePeerHealth r) = score_of (ph_availabilityOk r) (ph_availabilityFail r) (health_failures r)"
proof -
  have "0 \<le> score_of ok bad f \<and> score_of ok bad f \<le> 1" for ok bad f
    using score_bounds(1,2) [of ok bad] score_bounds(3,4) [of "ok + bad" f] unfolding score_of_def by linarith
  then show ?thesis
    unfolding computePeerHealth_def Let_def peer_health.simps availability_def [symmetric]
      integrity_def [symmetric] score_of_def [symmetric]
    by (intro clamp01_id) auto
qed

lemma integrity_mono:
  assumes "f \<le> g" and "n \<le> m" and "f = g \<or> n = m"
  shows "integrity n g \<le> integrity m f"
proof (cases "n + g = 0 \<or> m + f = 0")
  case True
  with assms score_bounds(4) [of n g] show ?thesis by (auto simp: integrity_def)
next
  case False
  have "f * (n + g) \<le> g * (m + f)" using assms by (simp add: distrib_left mult.commute [of f g] mult_le_mono)
  then have "real f * real (n + g) \<le> real g * real (m + f)"
    unfolding of_nat_mult [symmetric] of_nat_le_iff .
  then have "real f / real (m + f) \<le> real g / real (n + g)" using False by (intro cross) auto
  with False show ?thesis by (auto simp: integrity_def)
qed

lemma availability_mono: "availability ok bad \<le> availability (ok + 1) bad"
proof (cases "ok + bad = 0")
  case False
  then have "real ok / real (ok + bad) \<le> real (ok + 1) / real (ok + 1 + bad)"
    by (intro cross) (auto simp: algebra_simps)
  with False show ?thesis by (simp add: availability_def)
qed (simp add: availability_def)

lemma score_of_mono_failures: "f \<le> g \<Longrightarrow> score_of ok bad g \<le> score_of ok bad f"
  using integrity_mono [of f g "ok + bad" "ok + bad"] unfolding score_of_def by simp

lemma score_of_mono_ok: "score_of ok bad f \<le> score_of (ok + 1) bad f"
  using integrity_mono [of f f "ok + bad" "ok + 1 + bad"] availability_mono [of ok bad]
  unfolding score_of_def by simp

definition stored_score :: "health_table \<Rightarrow> string \<Rightarrow> real" where
  "stored_score table peer = (case table peer of None \<Rightarrow> 1 | Some r \<Rightarrow> he_score (computePeerHealth r))"

lemma stored_score_row:
  "stored_score table peer = he_score (computePeerHealth (case table peer of None \<Rightarrow> new_health_row now | Some r \<Rightarrow> r))"
  by (auto simp: stored_score_def score_eq score_of_def availability_def integrity_def new_health_row_def health_failures_def split: option.splits)

text \<open>A recorded transport failure never raises a peer's stored health and a successful poll never
  lowers it, the score always stays within 0 and 1, and no other peer's row changes.\<close>

theorem health_monotone:
  "stored_score (recordPeerFailure peer kind now howMany table) peer \<le> stored_score table peer
   \<and> stored_score table peer \<le> stored_score (recordAvailability peer True now table) peer
   \<and> 0 \<le> stored_score table peer \<and> stored_score table peer \<le> 1
   \<and> (recordPeerFailure peer kind now howMany table) |` (- {peer}) = table |` (- {peer})
   \<and> (recordAvailability peer up now table) |` (- {peer}) = table |` (- {peer})"
proof -
  let ?r = "case table peer of None \<Rightarrow> new_health_row now | Some r \<Rightarrow> r"
  note before = stored_score_row [of table peer now]
  have "stored_score (recordPeerFailure peer kind now howMany table) peer \<le> stored_score table peer"
  proof (cases "howMany \<le> 0")
    case False
    have "health_failures ?r \<le> health_failures (add_failures kind (nat howMany) ?r)"
      "ph_availabilityOk (add_failures kind (nat howMany) ?r) = ph_availabilityOk ?r"
      "ph_availabilityFail (add_failures kind (nat howMany) ?r) = ph_availabilityFail ?r"
      by (auto simp: health_failures_def add_failures_def split: peer_failure.splits)
    then have "he_score (computePeerHealth (add_failures kind (nat howMany) ?r)) \<le> he_score (computePeerHealth ?r)"
      by (simp add: score_eq score_of_mono_failures)
    moreover have "stored_score (recordPeerFailure peer kind now howMany table) peer
        = he_score (computePeerHealth (add_failures kind (nat howMany) ?r))"
      using False by (simp add: stored_score_def recordPeerFailure_def upsert_health_def Let_def score_eq health_failures_def)
    ultimately show ?thesis using before by simp
  qed (simp add: recordPeerFailure_def)
  moreover have "stored_score table peer \<le> stored_score (recordAvailability peer True now table) peer"
    using score_of_mono_ok unfolding before
    by (simp add: stored_score_def recordAvailability_def upsert_health_def Let_def score_eq health_failures_def)
  moreover have "0 \<le> stored_score table peer \<and> stored_score table peer \<le> 1"
    unfolding before by (simp add: computePeerHealth_def Let_def clamp01_bounds)
  ultimately show ?thesis
    by (simp add: recordPeerFailure_def recordAvailability_def upsert_health_def Let_def)
qed

text \<open>A failed poll is no such monotone signal: it adds an attempt, which thins out the failures
  recorded so far, so it can raise the score.\<close>

lemma failed_poll_can_raise_score:
  "\<exists>r. he_score (computePeerHealth r) < he_score (computePeerHealth (r\<lparr>ph_availabilityFail := ph_availabilityFail r + 1\<rparr>))"
  by (rule exI [of _ "(new_health_row 0)\<lparr>ph_availabilityFail := 1, ph_signatureFailures := 10\<rparr>"])
    (simp add: score_eq score_of_def availability_def integrity_def new_health_row_def health_failures_def)

text \<open>A window that behaves as its baseline is never reported, under the default options.\<close>

lemma baseline_not_anomalous: "detectAnomaly b b anomaly_defaults = (False, [])"
  by (auto simp: detectAnomaly_def anomaly_defaults_def Let_def)

end
