(* ===== verification/Geometry.thy ===== *)
theory Geometry
  imports OC_Prelude
begin

text \<open>
  Geometries and distances.

  \<^item> A geometry is a GeoJSON geometry whose shape its schema has checked, with the two ordinates
    the code reads of a position.
  \<^item> Bounding boxes are packages/federation/src/bbox.ts; the great-circle distance is
    packages/model/src/linking/similarity.ts; representative points are
    packages/model/src/linking/link.ts; the planar distance of a point to a geometry is
    packages/model/src/crowd/agree.ts.
\<close>

subsection \<open>Geometries\<close>

datatype position = Position (pos_x: real) (pos_y: real)

datatype geometry = Point position | MultiPoint "position list" | LineString "position list"
  | MultiLineString "position list list" | Polygon "position list list"
  | MultiPolygon "position list list list" | GeometryCollection "geometry list"

subsection \<open>Bounding boxes\<close>

text \<open>\<open>None\<close> is the initial \<open>[Infinity, Infinity, -Infinity, -Infinity]\<close>.\<close>

type_synonym bbox_acc = "(real \<times> real \<times> real \<times> real) option"

definition grow_bbox :: "bbox_acc \<Rightarrow> position \<Rightarrow> bbox_acc" where
  "grow_bbox acc p = (case acc of
     None \<Rightarrow> Some (pos_x p, pos_y p, pos_x p, pos_y p)
   | Some (x0, y0, x1, y1) \<Rightarrow> Some (min (pos_x p) x0, min (pos_y p) y0, max (pos_x p) x1, max (pos_y p) y1))"

definition bboxOfPositions :: "position list \<Rightarrow> bbox_acc \<Rightarrow> bbox_acc" where
  "bboxOfPositions ps acc = foldl grow_bbox acc ps"

fun collectBbox :: "geometry \<Rightarrow> bbox_acc \<Rightarrow> bbox_acc" where
  "collectBbox (Point p) acc = bboxOfPositions [p] acc"
| "collectBbox (MultiPoint ps) acc = bboxOfPositions ps acc"
| "collectBbox (LineString ps) acc = bboxOfPositions ps acc"
| "collectBbox (MultiLineString rings) acc = foldl (\<lambda>a ring. bboxOfPositions ring a) acc rings"
| "collectBbox (Polygon rings) acc = foldl (\<lambda>a ring. bboxOfPositions ring a) acc rings"
| "collectBbox (MultiPolygon polygons) acc =
     foldl (\<lambda>a rings. foldl (\<lambda>b ring. bboxOfPositions ring b) a rings) acc polygons"
| "collectBbox (GeometryCollection gs) acc = fold collectBbox gs acc"

definition intersectsBbox :: "geometry \<Rightarrow> real \<times> real \<times> real \<times> real \<Rightarrow> bool" where
  "intersectsBbox g bbox = (case collectBbox g None of None \<Rightarrow> False
     | Some (minX, minY, maxX, maxY) \<Rightarrow>
         case bbox of (west, south, east, north) \<Rightarrow>
           maxX \<ge> west \<and> minX \<le> east \<and> maxY \<ge> south \<and> minY \<le> north)"

subsection \<open>The great-circle distance\<close>

definition EARTH_RADIUS_M :: real where
  "EARTH_RADIUS_M = 63710088 / 10"

definition RAD :: real where
  "RAD = pi / 180"

definition haversineMetres :: "position \<Rightarrow> position \<Rightarrow> real" where
  "haversineMetres a b =
     (let dLat = (pos_y b - pos_y a) * RAD;
          dLon = (pos_x b - pos_x a) * RAD;
          h = sin (dLat / 2) ^ 2 + cos (pos_y a * RAD) * cos (pos_y b * RAD) * sin (dLon / 2) ^ 2
      in 2 * EARTH_RADIUS_M * arcsin (min 1 (sqrt h)))"

lemma haversine_same [simp]: "haversineMetres p p = 0"
  by (simp add: haversineMetres_def)

lemma haversine_commute: "haversineMetres a b = haversineMetres b a"
proof -
  have neg: "(x - y) * RAD / 2 = - ((y - x) * RAD / 2)" for x y by (simp add: field_simps)
  have sq: "sin ((x - y) * RAD / 2) ^ 2 = sin ((y - x) * RAD / 2) ^ 2" for x y
    by (subst neg) (simp only: sin_minus power2_minus)
  show ?thesis
    unfolding haversineMetres_def Let_def
    by (subst (1 2) sq) (simp add: mult.commute [of "cos (pos_y a * RAD)"])
qed

subsection \<open>A position to measure from\<close>

text \<open>
  The positions \<open>walk\<close> collects: the table of depths has no entry for a MultiPoint or a collection.
\<close>

definition walked_positions :: "geometry \<Rightarrow> position list option" where
  "walked_positions g = (case g of
     Point p \<Rightarrow> Some [p]
   | LineString ps \<Rightarrow> Some ps
   | MultiLineString lines \<Rightarrow> Some (concat lines)
   | Polygon rings \<Rightarrow> Some (concat rings)
   | MultiPolygon polygons \<Rightarrow> Some (concat (map concat polygons))
   | MultiPoint _ \<Rightarrow> None
   | GeometryCollection _ \<Rightarrow> None)"

definition representativePoint :: "geometry option \<Rightarrow> position option" where
  "representativePoint g = (case g of None \<Rightarrow> None | Some geom \<Rightarrow>
     (case walked_positions geom of None \<Rightarrow> None
      | Some ps \<Rightarrow> if ps = [] then None
          else Some (Position (foldl (\<lambda>s p. s + pos_x p) 0 ps / real (length ps))
                              (foldl (\<lambda>s p. s + pos_y p) 0 ps / real (length ps)))))"

subsection \<open>The distance to a geometry\<close>

text \<open>Lines and polygons of a geometry.\<close>

fun partsOf :: "geometry \<Rightarrow> position list list \<times> position list list list" where
  "partsOf (Point p) = ([[p]], [])"
| "partsOf (MultiPoint ps) = (map (\<lambda>p. [p]) ps, [])"
| "partsOf (LineString ps) = ([ps], [])"
| "partsOf (MultiLineString ls) = (ls, [])"
| "partsOf (Polygon rings) = ([], [rings])"
| "partsOf (MultiPolygon polygons) = ([], polygons)"
| "partsOf (GeometryCollection gs) =
     (concat (map (\<lambda>g. fst (partsOf g)) gs), concat (map (\<lambda>g. snd (partsOf g)) gs))"

text \<open>The edges of a ring, each vertex with the one before it; the first's is the last.\<close>

definition ring_edges :: "position list \<Rightarrow> (position \<times> position) list" where
  "ring_edges ring = (if ring = [] then [] else zip ring (last ring # butlast ring))"

definition inside :: "real \<Rightarrow> real \<Rightarrow> position list \<Rightarrow> bool" where
  "inside x y ring = foldl (\<lambda>hit (i, j).
     if (pos_y i > y) \<noteq> (pos_y j > y)
        \<and> x < (pos_x j - pos_x i) * (y - pos_y i) / (pos_y j - pos_y i) + pos_x i
     then \<not> hit else hit) False (ring_edges ring)"

definition hypot :: "real \<Rightarrow> real \<Rightarrow> real" where
  "hypot x y = sqrt (x ^ 2 + y ^ 2)"

definition toSegment :: "position \<Rightarrow> position \<Rightarrow> real" where
  "toSegment a b =
     (let dx = pos_x b - pos_x a; dy = pos_y b - pos_y a;
          len = dx * dx + dy * dy;
          t = (if len = 0 then 0 else max 0 (min 1 (- (pos_x a * dx + pos_y a * dy) / len)))
      in hypot (pos_x a + t * dx) (pos_y a + t * dy))"

text \<open>A difference of longitudes taken the short way round.\<close>

definition short_way :: "real \<Rightarrow> real" where
  "short_way d = (let d1 = (if d > 180 then d - 360 else d) in if d1 < -180 then d1 + 360 else d1)"

definition project :: "position \<Rightarrow> position \<Rightarrow> position" where
  "project origin p =
     (let kx = cos (pos_y origin * RAD) * EARTH_RADIUS_M * RAD;
          ky = EARTH_RADIUS_M * RAD
      in Position (short_way (pos_x p - pos_x origin) * kx) ((pos_y p - pos_y origin) * ky))"

text \<open>\<open>best\<close>, with \<open>None\<close> for Infinity.\<close>

definition closer :: "real option \<Rightarrow> real \<Rightarrow> real option" where
  "closer best d = (case best of None \<Rightarrow> Some d | Some b \<Rightarrow> Some (min b d))"

definition segments_of :: "position list \<Rightarrow> (position \<times> position) list" where
  "segments_of ring = zip ring (tl ring)"

definition measure_ring :: "real option \<Rightarrow> position list \<Rightarrow> real option" where
  "measure_ring best ring =
     (let single = (case ring of [p] \<Rightarrow> closer best (hypot (pos_x p) (pos_y p)) | _ \<Rightarrow> best)
      in foldl (\<lambda>m (p, q). closer m (toSegment p q)) single (segments_of ring))"

definition covers_origin :: "position list list \<Rightarrow> bool" where
  "covers_origin rings = (case rings of [] \<Rightarrow> False
     | outer # holes \<Rightarrow> inside 0 0 outer \<and> \<not> list_ex (inside 0 0) holes)"

fun measure_polygons :: "real option \<Rightarrow> position list list list \<Rightarrow> real option" where
  "measure_polygons best [] = best"
| "measure_polygons best (rings # rest) =
     (if covers_origin rings then Some 0
      else measure_polygons (foldl measure_ring best rings) rest)"

definition distanceToGeometryMetres :: "position \<Rightarrow> geometry \<Rightarrow> real option" where
  "distanceToGeometryMetres point geometry =
     (let (lines, polygons) = partsOf geometry;
          lined = foldl measure_ring None (map (map (project point)) lines)
      in measure_polygons lined (map (map (map (project point))) polygons))"

subsection \<open>The point a report stands for\<close>

definition open_ring :: "position list \<Rightarrow> position list" where
  "open_ring ring = (if length ring > 1 \<and> hd ring = last ring then butlast ring else ring)"

definition anchorOf :: "geometry \<Rightarrow> position option" where
  "anchorOf g = (case g of Point p \<Rightarrow> Some p
   | _ \<Rightarrow>
     (let (lines, polygons) = partsOf g;
          positions = concat lines @ concat (map (\<lambda>p. concat (map open_ring p)) polygons)
      in case positions of [] \<Rightarrow> None
         | first # _ \<Rightarrow>
           (let (lon, lat) = foldl (\<lambda>(lon, lat) p.
                  (lon + (pos_x first + short_way (pos_x p - pos_x first)), lat + pos_y p)) (0, 0) positions;
                lon1 = lon / real (length positions)
            in Some (Position (short_way lon1) (lat / real (length positions))))))"

subsection \<open>What the distance is\<close>

text \<open>The distances from the origin of the points of a line, and a least element or none.\<close>

definition edge_point :: "position \<times> position \<Rightarrow> real \<Rightarrow> real" where
  "edge_point e s = (case e of (p, q) \<Rightarrow>
     hypot (pos_x p + s * (pos_x q - pos_x p)) (pos_y p + s * (pos_y q - pos_y p)))"

definition line_distances :: "position list \<Rightarrow> real set" where
  "line_distances ring = {edge_point e s | e s. e \<in> set (segments_of ring) \<and> 0 \<le> s \<and> s \<le> 1}
     \<union> {hypot (pos_x p) (pos_y p) | p. ring = [p]}"

definition least_of :: "real option \<Rightarrow> real set \<Rightarrow> bool" where
  "least_of m S \<longleftrightarrow> (case m of None \<Rightarrow> S = {} | Some d \<Rightarrow> d \<in> S \<and> (\<forall>x \<in> S. d \<le> x))"

lemma least_of_closer:
  "least_of m S \<Longrightarrow> d \<in> T \<Longrightarrow> \<forall>x \<in> T. d \<le> x \<Longrightarrow> least_of (closer m d) (S \<union> T)"
  by (auto simp: least_of_def closer_def min_def split: option.splits)

lemma least_of_fold:
  assumes "least_of m S" and "\<And>x. x \<in> set xs \<Longrightarrow> f x \<in> T x \<and> (\<forall>y \<in> T x. f x \<le> y)"
  shows "least_of (foldl (\<lambda>m x. closer m (f x)) m xs) (S \<union> (\<Union>x \<in> set xs. T x))"
  using assms
proof (induction xs arbitrary: m S)
  case (Cons x xs)
  from Cons.prems have "least_of (closer m (f x)) (S \<union> T x)" by (intro least_of_closer) auto
  from Cons.IH [OF this] Cons.prems(2) show ?case by (simp add: Un_assoc)
qed simp

lemma hypot_mono: "x ^ 2 + y ^ 2 \<le> x' ^ 2 + y' ^ 2 \<Longrightarrow> hypot x y \<le> hypot x' y'"
  by (simp add: hypot_def)

lemma hypot_nonneg [simp]: "0 \<le> hypot x y"
  by (simp add: hypot_def)

lemma hypot_0 [simp]: "hypot 0 0 = 0"
  by (simp add: hypot_def)

text \<open>The foot of the perpendicular, clamped to the segment, is its nearest point.\<close>

lemma clamped_foot:
  fixes ax ay dx dy s :: real
  assumes t: "t = (if dx * dx + dy * dy = 0 then 0
      else max 0 (min 1 (- (ax * dx + ay * dy) / (dx * dx + dy * dy))))"
    and s: "0 \<le> s" "s \<le> 1"
  shows "(ax + t * dx) ^ 2 + (ay + t * dy) ^ 2 \<le> (ax + s * dx) ^ 2 + (ay + s * dy) ^ 2"
proof (cases "dx * dx + dy * dy = 0")
  case True
  then have "dx = 0" "dy = 0" by (simp_all add: sum_squares_eq_zero_iff)
  then show ?thesis by simp
next
  case False
  define L where "L = dx * dx + dy * dy"
  define c where "c = ax * dx + ay * dy"
  have L: "0 < L" unfolding L_def using False sum_squares_ge_zero [of dx dy] by linarith
  have t': "t = max 0 (min 1 (- c / L))" using t False by (simp add: L_def c_def)
  have "0 \<le> (s - t) * (c + t * L)"
  proof -
    consider "- c / L \<le> 0" | "1 \<le> - c / L" | "0 \<le> - c / L" "- c / L \<le> 1" by linarith
    then show ?thesis
    proof cases
      case 1
      then have "t = 0" unfolding t' by linarith
      moreover have "0 \<le> c" using 1 L by (simp add: zero_le_divide_iff)
      ultimately show ?thesis using s by simp
    next
      case 2
      then have "t = 1" unfolding t' by linarith
      moreover have "c + L \<le> 0" using 2 L by (simp add: divide_le_eq)
      ultimately show ?thesis using s by (simp add: mult_nonpos_nonpos)
    next
      case 3
      then have "t = - c / L" by (simp add: t')
      then show ?thesis using L by simp
    qed
  qed
  moreover have "0 \<le> (s - t) ^ 2 * L" using L by simp
  moreover have "(ax + s * dx) ^ 2 + (ay + s * dy) ^ 2 - ((ax + t * dx) ^ 2 + (ay + t * dy) ^ 2)
      = 2 * ((s - t) * (c + t * L)) + (s - t) ^ 2 * L"
    unfolding L_def c_def by (simp add: power2_eq_square algebra_simps)
  ultimately show ?thesis by linarith
qed

lemma toSegment_least:
  "toSegment p q \<in> {edge_point (p, q) s | s. 0 \<le> s \<and> s \<le> 1}"
  "0 \<le> s \<Longrightarrow> s \<le> 1 \<Longrightarrow> toSegment p q \<le> edge_point (p, q) s"
proof -
  let ?dx = "pos_x q - pos_x p" and ?dy = "pos_y q - pos_y p"
  define t where "t = (if ?dx * ?dx + ?dy * ?dy = 0 then 0
      else max 0 (min 1 (- (pos_x p * ?dx + pos_y p * ?dy) / (?dx * ?dx + ?dy * ?dy))))"
  have seg: "toSegment p q = edge_point (p, q) t"
    unfolding toSegment_def edge_point_def Let_def t_def by simp
  have "0 \<le> t" "t \<le> 1" by (simp_all add: t_def)
  then show "toSegment p q \<in> {edge_point (p, q) s | s. 0 \<le> s \<and> s \<le> 1}" using seg by blast
  show "toSegment p q \<le> edge_point (p, q) s" if "0 \<le> s" "s \<le> 1"
    unfolding seg edge_point_def prod.case
    by (intro hypot_mono clamped_foot) (use that in \<open>simp_all add: t_def\<close>)
qed

lemma measure_ring_least:
  assumes "least_of m S"
  shows "least_of (measure_ring m ring) (S \<union> line_distances ring)"
proof -
  define single where
    "single = (case ring of [p] \<Rightarrow> closer m (hypot (pos_x p) (pos_y p)) | _ \<Rightarrow> m)"
  have 1: "least_of single (S \<union> {hypot (pos_x p) (pos_y p) | p. ring = [p]})"
    unfolding single_def using assms
    by (auto simp: least_of_closer [of m S "hypot x y" "{hypot x y}" for x y, simplified] split: list.split)
  have fn: "(\<lambda>m (p, q). closer m (toSegment p q)) = (\<lambda>m e. closer m (toSegment (fst e) (snd e)))"
    by (simp add: fun_eq_iff split: prod.split)
  have "least_of (foldl (\<lambda>m e. closer m (toSegment (fst e) (snd e))) single (segments_of ring))
      (S \<union> {hypot (pos_x p) (pos_y p) | p. ring = [p]}
        \<union> (\<Union>e \<in> set (segments_of ring). {edge_point e s | s. 0 \<le> s \<and> s \<le> 1}))"
    using toSegment_least by (intro least_of_fold [OF 1]) fastforce
  moreover have "S \<union> {hypot (pos_x p) (pos_y p) | p. ring = [p]}
        \<union> (\<Union>e \<in> set (segments_of ring). {edge_point e s | s. 0 \<le> s \<and> s \<le> 1})
      = S \<union> line_distances ring"
    by (auto simp: line_distances_def)
  ultimately show ?thesis unfolding measure_ring_def Let_def fn single_def by simp
qed

lemma measure_rings_least:
  "least_of m S \<Longrightarrow> least_of (foldl measure_ring m rings) (S \<union> (\<Union>r \<in> set rings. line_distances r))"
proof (induction rings arbitrary: m S)
  case (Cons r rings)
  from Cons.IH [OF measure_ring_least [OF Cons.prems]] show ?case by (simp add: Un_assoc)
qed simp

lemma measure_polygons_covered: "list_ex covers_origin polygons \<Longrightarrow> measure_polygons m polygons = Some 0"
  by (induction polygons arbitrary: m) auto

lemma measure_polygons_least:
  "least_of m S \<Longrightarrow> \<not> list_ex covers_origin polygons \<Longrightarrow>
   least_of (measure_polygons m polygons) (S \<union> (\<Union>r \<in> set (concat polygons). line_distances r))"
proof (induction polygons arbitrary: m S)
  case (Cons rings rest)
  from Cons.IH [OF measure_rings_least [OF Cons.prems(1)]] Cons.prems(2)
  show ?case by (simp add: Un_assoc)
qed simp

text \<open>The lines and rings of a geometry and its polygons, in the plane of a point.\<close>

definition plane_lines :: "position \<Rightarrow> geometry \<Rightarrow> position list list" where
  "plane_lines point g = map (map (project point)) (fst (partsOf g) @ concat (snd (partsOf g)))"

definition plane_polygons :: "position \<Rightarrow> geometry \<Rightarrow> position list list list" where
  "plane_polygons point g = map (map (map (project point))) (snd (partsOf g))"

lemma distance_least:
  "if list_ex covers_origin (plane_polygons point g) then distanceToGeometryMetres point g = Some 0
   else least_of (distanceToGeometryMetres point g) (\<Union>r \<in> set (plane_lines point g). line_distances r)"
proof -
  obtain lines polygons where parts: "partsOf g = (lines, polygons)" by force
  let ?lined = "foldl measure_ring None (map (map (project point)) lines)"
  have d: "distanceToGeometryMetres point g = measure_polygons ?lined (plane_polygons point g)"
    by (simp add: distanceToGeometryMetres_def plane_polygons_def parts)
  have "least_of None {}" by (simp add: least_of_def)
  from measure_rings_least [OF this, of "map (map (project point)) lines"]
  have lined: "least_of ?lined (\<Union>r \<in> set (map (map (project point)) lines). line_distances r)" by simp
  show ?thesis
  proof (cases "list_ex covers_origin (plane_polygons point g)")
    case True
    then show ?thesis by (simp add: d measure_polygons_covered)
  next
    case False
    from measure_polygons_least [OF lined False] False show ?thesis
      by (simp add: d plane_lines_def plane_polygons_def parts map_concat)
  qed
qed

lemma line_distances_nonneg: "x \<in> line_distances r \<Longrightarrow> 0 \<le> x"
  by (auto simp: line_distances_def edge_point_def split: prod.splits)

lemma project_self [simp]: "project p p = Position 0 0"
  by (simp add: project_def short_way_def)

lemma distance_to_self: "distanceToGeometryMetres p (Point p) = Some 0"
  by (simp add: distanceToGeometryMetres_def measure_ring_def segments_of_def closer_def)

end
