(* ===== verification/Egress.thy ===== *)
theory Egress
  imports Fusion Geometry "HOL-Library.Sublist"
begin

text \<open>
  What leaves an instance: the licence gate of packages/ingest-framework/src/public-license.ts
  and the outbox filter of packages/federation/src/record-filter.ts.

  \<^item> \<open>licenses\<close> is the lookup \<open>licenseInfo\<close> of the licence table, a parameter.
  \<^item> A federated record keeps every field these files read; \<open>'x\<close> is the content they only copy.
  \<^item> A page holds liveness entries and record entries; an entry whose record is absent is \<open>None\<close>.
\<close>

subsection \<open>Public licences\<close>

record license_info =
  lc_shareAlike :: bool
  lc_redistribution :: "bool option"

type_synonym license_table = "string \<Rightarrow> license_info option"

definition isPublicLicense :: "license_table \<Rightarrow> string option \<Rightarrow> bool" where
  "isPublicLicense licenses license =
     (case license of None \<Rightarrow> False | Some l \<Rightarrow>
        l \<noteq> [] \<and> (case licenses l of None \<Rightarrow> False
          | Some info \<Rightarrow> \<not> lc_shareAlike info \<and> lc_redistribution info = Some True))"

record upstream_publisher =
  up_license :: "string option"
  up_sourceLicense :: "string option"

record 'x federated_record =
  fr_id :: string
  fr_revision :: "nat option"
  fr_geometry :: "geometry option"
  fr_origin :: string
  fr_sourceId :: string
  fr_accessMode :: string
  fr_license :: string
  fr_upstream :: "upstream_publisher list option"
  fr_mergedSources :: "string list option"
  fr_reporter :: "string option"
  fr_sourceUpdatedAt :: "instant option"
  fr_privacy :: string
  fr_fetchedAt :: instant
  fr_evidence :: "string option"
  fr_phenomenonStart :: "instant option"
  fr_extras :: "string option"
  fr_content :: 'x

definition isPublicRecord :: "license_table \<Rightarrow> 'x federated_record \<Rightarrow> bool" where
  "isPublicRecord licenses r \<longleftrightarrow>
     isPublicLicense licenses (Some (fr_license r)) \<and>
     list_all (\<lambda>u. (up_license u = None \<or> isPublicLicense licenses (up_license u))
         \<and> (up_sourceLicense u = None \<or> isPublicLicense licenses (up_sourceLicense u)))
       (case fr_upstream r of None \<Rightarrow> [] | Some us \<Rightarrow> us)"

definition withoutReporter :: "'x federated_record \<Rightarrow> 'x federated_record" where
  "withoutReporter r = r\<lparr>fr_reporter := None\<rparr>"

text \<open>\<open>fr_mergedSources\<close> holds the licences of the merged sources.\<close>

definition publicRecords :: "license_table \<Rightarrow> 'x federated_record list \<Rightarrow> 'x federated_record list" where
  "publicRecords licenses records =
     map (\<lambda>r. let stripped = withoutReporter r in
       case fr_mergedSources stripped of None \<Rightarrow> stripped
       | Some merged \<Rightarrow>
           let clean = filter (\<lambda>l. isPublicLicense licenses (Some l)) merged in
           if length clean = length merged then stripped
           else stripped\<lparr>fr_mergedSources := (if clean = [] then None else Some clean)\<rparr>)
       (filter (isPublicRecord licenses) records)"

subsection \<open>The outbox filter\<close>

datatype outbox_operation = Create | Update | Delete

record 'x record_entry =
  re_seq :: nat
  re_operation :: outbox_operation
  re_recordClass :: string
  re_recordId :: string
  re_kind :: string
  re_domain :: string
  re_property :: "string option"
  re_createdAt :: instant
  re_record :: "'x federated_record option"
  re_reason :: "string option"
  re_revision :: "nat option"

record liveness_entry =
  le_seq :: nat
  le_sourceId :: string
  le_domain :: string
  le_polledAt :: instant

datatype 'x outbox_entry = RecordEntry "'x record_entry" | LivenessEntry liveness_entry

record record_filter =
  rf_bbox :: "(real \<times> real \<times> real \<times> real) option"
  rf_classes :: "string list option"
  rf_kinds :: "string list option"
  rf_domains :: "string list option"
  rf_properties :: "string list option"
  rf_privacyClasses :: "string list option"
  rf_minEvidenceTier :: "string option"
  rf_maxAgeSec :: "real option"
  rf_sourceLiveness :: "bool option"

definition EVIDENCE_TIERS :: "string list" where
  "EVIDENCE_TIERS = [''self_reported'', ''corroborated'', ''externally_resolved'']"

definition DEFAULT_MIN_EVIDENCE_TIER :: string where
  "DEFAULT_MIN_EVIDENCE_TIER = ''corroborated''"

definition TIER_RANK :: "string \<Rightarrow> nat option" where
  "TIER_RANK tier = index_of tier EVIDENCE_TIERS"

definition WITHDRAWN_STATES :: "string list" where
  "WITHDRAWN_STATES = [''negated'', ''expired'']"

definition federatedSnapshot :: "bool \<Rightarrow> 'x federated_record \<Rightarrow> 'x federated_record option" where
  "federatedSnapshot federateExtras r =
     (if \<not> federationEligible (fr_accessMode r) (fr_sourceId r) then None
      else let stripped = withoutReporter r in
        if federateExtras \<or> fr_extras stripped = None then Some stripped
        else Some (stripped\<lparr>fr_extras := None\<rparr>))"

definition statedAt :: "'x federated_record \<Rightarrow> instant" where
  "statedAt r = (case fr_phenomenonStart r of Some t \<Rightarrow> t
     | None \<Rightarrow> (case fr_sourceUpdatedAt r of Some t \<Rightarrow> t | None \<Rightarrow> fr_fetchedAt r))"

definition isCrowd :: "'x federated_record \<Rightarrow> bool" where
  "isCrowd r \<longleftrightarrow> fr_origin r = ''crowd'' \<or> fr_privacy r = ''crowd_pseudonym''"

definition admits :: "string list option \<Rightarrow> string \<Rightarrow> bool" where
  "admits listed value = (case listed of None \<Rightarrow> True | Some vs \<Rightarrow> value \<in> set vs)"

definition wantsLiveness :: "record_filter option \<Rightarrow> liveness_entry \<Rightarrow> bool" where
  "wantsLiveness f e = (case f of None \<Rightarrow> False | Some flt \<Rightarrow>
     rf_sourceLiveness flt = Some True \<and> admits (rf_classes flt) ''observation''
       \<and> admits (rf_domains flt) (le_domain e))"

definition on_filter :: "(record_filter \<Rightarrow> 'a option) \<Rightarrow> record_filter option \<Rightarrow> 'a option" where
  "on_filter field f = (case f of None \<Rightarrow> None | Some flt \<Rightarrow> field flt)"

definition min_rank :: "record_filter option \<Rightarrow> nat" where
  "min_rank f =
     (case TIER_RANK (case on_filter rf_minEvidenceTier f of None \<Rightarrow> DEFAULT_MIN_EVIDENCE_TIER | Some t \<Rightarrow> t) of
        Some r \<Rightarrow> r
      | None \<Rightarrow> the (TIER_RANK DEFAULT_MIN_EVIDENCE_TIER))"

text \<open>\<open>filter.kinds\<close> or \<open>filter.properties\<close> names what a subscriber gets; the other list, when absent,
  then lists nothing.\<close>

definition listed_kind :: "record_filter option \<Rightarrow> 'x record_entry \<Rightarrow> bool" where
  "listed_kind f e =
     (if on_filter rf_kinds f = None \<and> on_filter rf_properties f = None then True
      else if re_recordClass e = ''observation''
      then (case on_filter rf_properties f of None \<Rightarrow> False
            | Some ps \<Rightarrow> (case re_property e of None \<Rightarrow> [] | Some p \<Rightarrow> p) \<in> set ps)
      else (case on_filter rf_kinds f of None \<Rightarrow> False | Some ks \<Rightarrow> re_kind e \<in> set ks))"

definition evidence_state_of :: "'x federated_record \<Rightarrow> string" where
  "evidence_state_of r = (case fr_evidence r of None \<Rightarrow> [] | Some s \<Rightarrow> s)"

text \<open>\<open>Math.max\<close> of two times is NaN when either is.\<close>

definition too_old :: "real option \<Rightarrow> instant \<Rightarrow> 'x record_entry \<Rightarrow> 'x federated_record \<Rightarrow> bool" where
  "too_old maxAge now e r = (case maxAge of None \<Rightarrow> False | Some sec \<Rightarrow>
     (let stated = statedAt r;
          time = (if re_recordClass e = ''observation''
                  then (case (stated, re_createdAt e) of (Some a, Some b) \<Rightarrow> Some (max a b) | _ \<Rightarrow> None)
                  else stated)
      in case time of None \<Rightarrow> True
         | Some t \<Rightarrow> (case now of None \<Rightarrow> False | Some n \<Rightarrow> real_of_int (n - t) > sec * 1000)))"

definition outside_bbox :: "(real \<times> real \<times> real \<times> real) option \<Rightarrow> 'x federated_record \<Rightarrow> bool" where
  "outside_bbox bbox r = (case bbox of None \<Rightarrow> False | Some b \<Rightarrow>
     (case fr_geometry r of None \<Rightarrow> True | Some g \<Rightarrow> \<not> intersectsBbox g b))"

definition retraction :: "'x record_entry \<Rightarrow> 'x federated_record \<Rightarrow> 'x record_entry" where
  "retraction e r = e\<lparr>re_operation := Delete, re_record := None,
     re_reason := Some (if fr_evidence r = Some ''expired'' then ''expired'' else ''withdrawn''),
     re_revision := (case fr_revision r of None \<Rightarrow> re_revision e | Some n \<Rightarrow> Some n)\<rparr>"

text \<open>The body of the loop: what one entry contributes to the page.\<close>

definition filter_entry ::
  "license_table \<Rightarrow> record_filter option \<Rightarrow> instant \<Rightarrow> 'x outbox_entry \<Rightarrow> 'x outbox_entry option" where
  "filter_entry licenses f now item = (case item of
     LivenessEntry l \<Rightarrow> if wantsLiveness f l then Some item else None
   | RecordEntry e \<Rightarrow>
       (case re_record e of None \<Rightarrow> Some item
        | Some r \<Rightarrow>
          if re_operation e = Delete then Some item
          else if \<not> admits (on_filter rf_classes f) (re_recordClass e) then None
          else if \<not> admits (on_filter rf_domains f) (re_domain e) then None
          else if \<not> listed_kind f e then None
          else if isCrowd r \<and> evidence_state_of r \<in> set WITHDRAWN_STATES
            then Some (RecordEntry (retraction e r))
          else if isCrowd r \<and> (case TIER_RANK (evidence_state_of r) of None \<Rightarrow> True | Some rank \<Rightarrow> rank < min_rank f)
            then None
          else if too_old (on_filter rf_maxAgeSec f) now e r then None
          else if outside_bbox (on_filter rf_bbox f) r then None
          else if \<not> admits (on_filter rf_privacyClasses f) (fr_privacy r) then None
          else (case publicRecords licenses [r] of [] \<Rightarrow> None
                | exported # _ \<Rightarrow> Some (RecordEntry (e\<lparr>re_record := Some exported\<rparr>)))))"

definition applyRecordFilter ::
  "license_table \<Rightarrow> 'x outbox_entry list \<Rightarrow> record_filter option \<Rightarrow> instant \<Rightarrow> 'x outbox_entry list" where
  "applyRecordFilter licenses entries f now = List.map_filter (filter_entry licenses f now) entries"

subsection \<open>What may leave\<close>

text \<open>A record fit for the public scope: public licences all the way up, no reporter, and no merged
  source that is not public.\<close>

definition clean_record :: "license_table \<Rightarrow> 'x federated_record \<Rightarrow> bool" where
  "clean_record licenses r \<longleftrightarrow> isPublicRecord licenses r \<and> fr_reporter r = None
     \<and> list_all (\<lambda>l. isPublicLicense licenses (Some l)) (case fr_mergedSources r of None \<Rightarrow> [] | Some ls \<Rightarrow> ls)"

text \<open>What an export keeps of a record.\<close>

definition same_facts :: "'x federated_record \<Rightarrow> 'x federated_record \<Rightarrow> bool" where
  "same_facts r r' \<longleftrightarrow> (\<exists>reporter merged. r' = r\<lparr>fr_reporter := reporter, fr_mergedSources := merged\<rparr>)"

lemma public_update [simp]:
  "isPublicRecord licenses (fr_reporter_update x r) = isPublicRecord licenses r"
  "isPublicRecord licenses (fr_mergedSources_update y r) = isPublicRecord licenses r"
  by (simp_all add: isPublicRecord_def)

lemma export_updates [simp]:
  "isCrowd (fr_reporter_update x r) = isCrowd r" "isCrowd (fr_mergedSources_update y r) = isCrowd r"
  "evidence_state_of (fr_reporter_update x r) = evidence_state_of r"
  "evidence_state_of (fr_mergedSources_update y r) = evidence_state_of r"
  "too_old a now e (fr_reporter_update x r) = too_old a now e r"
  "too_old a now e (fr_mergedSources_update y r) = too_old a now e r"
  "too_old a now (re_record_update z e) r = too_old a now e r"
  "outside_bbox b (fr_reporter_update x r) = outside_bbox b r"
  "outside_bbox b (fr_mergedSources_update y r) = outside_bbox b r"
  "listed_kind f (re_record_update z e) = listed_kind f e"
  by (simp_all add: isCrowd_def evidence_state_of_def too_old_def statedAt_def outside_bbox_def listed_kind_def Let_def
      cong: option.case_cong if_cong)

lemma filter_shorter: "length (filter P xs) = length xs \<longleftrightarrow> list_all P xs"
proof
  assume "length (filter P xs) = length xs"
  then have "filter P xs = xs" using length_filter_less [of _ xs P] by (metis filter_True less_irrefl)
  then show "list_all P xs" by (simp add: filter_id_conv list_all_iff)
qed (simp add: list_all_iff)

lemma publicRecords_one:
  "publicRecords licenses [r] = [] \<and> \<not> isPublicRecord licenses r \<or>
   (\<exists>r'. publicRecords licenses [r] = [r'] \<and> clean_record licenses r' \<and> same_facts r r')"
proof (cases "isPublicRecord licenses r")
  case True
  let ?s = "withoutReporter r"
  have s: "?s = r\<lparr>fr_reporter := None, fr_mergedSources := fr_mergedSources r\<rparr>" by (simp add: withoutReporter_def)
  have facts: "same_facts r ?s" "same_facts r (?s\<lparr>fr_mergedSources := m\<rparr>)" for m
    unfolding same_facts_def by (rule exI, rule exI, rule s) (auto simp: withoutReporter_def)
  show ?thesis
  proof (cases "fr_mergedSources r")
    case None
    then have "publicRecords licenses [r] = [?s]" using True by (simp add: publicRecords_def withoutReporter_def Let_def)
    moreover have "clean_record licenses ?s" using True None by (simp add: clean_record_def withoutReporter_def)
    ultimately show ?thesis using facts by blast
  next
    case (Some merged)
    define clean where "clean = filter (\<lambda>l. isPublicLicense licenses (Some l)) merged"
    have all: "list_all (\<lambda>l. isPublicLicense licenses (Some l)) clean" by (simp add: clean_def list_all_iff)
    show ?thesis
    proof (cases "length clean = length merged")
      case same: True
      then have "publicRecords licenses [r] = [?s]"
        using True Some by (simp add: publicRecords_def withoutReporter_def Let_def clean_def)
      moreover have "clean_record licenses ?s"
        using True Some same by (simp add: clean_record_def withoutReporter_def clean_def filter_shorter)
      ultimately show ?thesis using facts by blast
    next
      case False
      let ?r' = "?s\<lparr>fr_mergedSources := (if clean = [] then None else Some clean)\<rparr>"
      have "publicRecords licenses [r] = [?r']"
        using True Some False by (simp add: publicRecords_def withoutReporter_def Let_def clean_def)
      moreover have "clean_record licenses ?r'"
        using True all by (simp add: clean_record_def withoutReporter_def)
      ultimately show ?thesis using facts(2) by blast
    qed
  qed
qed (simp add: publicRecords_def)

lemma publicRecords_clean: "clean_record licenses r \<Longrightarrow> publicRecords licenses [r] = [r]"
proof -
  assume r: "clean_record licenses r"
  have "withoutReporter r = r" using r by (simp add: withoutReporter_def clean_record_def)
  then show ?thesis using r
    by (auto simp: publicRecords_def clean_record_def Let_def filter_shorter split: option.splits)
qed

text \<open>The journal never stores a record with a delete.\<close>

definition wf_outbox_entry :: "'x outbox_entry \<Rightarrow> bool" where
  "wf_outbox_entry item = (case item of LivenessEntry _ \<Rightarrow> True
     | RecordEntry e \<Rightarrow> if re_operation e = Delete then re_record e = None else True)"

text \<open>A record that is served passed the tier gate.\<close>

definition tier_ok :: "record_filter option \<Rightarrow> 'x federated_record \<Rightarrow> bool" where
  "tier_ok f r \<longleftrightarrow> (if isCrowd r
     then (case TIER_RANK (evidence_state_of r) of None \<Rightarrow> False | Some rank \<Rightarrow> min_rank f \<le> rank) else True)"

lemma filter_entry_record:
  assumes "filter_entry licenses f now item = Some (RecordEntry e)" and "re_record e = Some r" "wf_outbox_entry item"
  shows "clean_record licenses r \<and> tier_ok f r"
proof -
  obtain e0 r0 where item: "item = RecordEntry e0" "re_record e0 = Some r0" "re_operation e0 \<noteq> Delete"
    using assms by (auto simp: filter_entry_def wf_outbox_entry_def split: outbox_entry.splits option.splits if_splits)
  with assms(1,2) have "publicRecords licenses [r0] \<noteq> []" "r = hd (publicRecords licenses [r0])" "tier_ok f r0"
    by (auto simp: filter_entry_def retraction_def tier_ok_def split: option.splits if_splits list.splits)
  with publicRecords_one [of licenses r0] have "clean_record licenses r" "same_facts r0 r" by auto
  with \<open>tier_ok f r0\<close> show ?thesis by (auto simp: tier_ok_def same_facts_def)
qed

text \<open>The evidence a filter asks for: what it names, or corroboration when it names none or no tier there is; and the states
  that reach it.\<close>

definition asked_evidence :: "record_filter option \<Rightarrow> string set" where
  "asked_evidence f = (case f of None \<Rightarrow> {''corroborated'', ''externally_resolved''}
     | Some flt \<Rightarrow>
         if rf_minEvidenceTier flt = Some ''self_reported'' then {''self_reported'', ''corroborated'', ''externally_resolved''}
         else if rf_minEvidenceTier flt = Some ''externally_resolved'' then {''externally_resolved''}
         else {''corroborated'', ''externally_resolved''})"

lemma tier_ok_asked: "tier_ok f r \<Longrightarrow> isCrowd r \<Longrightarrow> evidence_state_of r \<in> asked_evidence f"
proof -
  assume ok: "tier_ok f r" "isCrowd r"
  then obtain k where k: "TIER_RANK (evidence_state_of r) = Some k" "min_rank f \<le> k" by (auto simp: tier_ok_def split: option.splits)
  have "index_of t [a, b, c] = (if t = a then Some 0 else if t = b then Some 1 else if t = c then Some 2 else None)"
    for t a b c :: string by simp
  then have tiers: "TIER_RANK t = (if t = ''self_reported'' then Some 0 else if t = ''corroborated'' then Some 1
      else if t = ''externally_resolved'' then Some 2 else None)" for t
    unfolding TIER_RANK_def EVIDENCE_TIERS_def by simp
  have "min_rank f = (case f of None \<Rightarrow> 1 | Some flt \<Rightarrow> if rf_minEvidenceTier flt = Some ''self_reported'' then 0
      else if rf_minEvidenceTier flt = Some ''externally_resolved'' then 2 else 1)"
    by (cases f) (simp_all add: min_rank_def on_filter_def DEFAULT_MIN_EVIDENCE_TIER_def tiers split: option.split)
  then show ?thesis using k by (cases f) (auto simp: asked_evidence_def tiers split: if_splits)
qed

text \<open>C5. Nothing private leaves an instance, whatever a subscriber asks: every record on a filtered page
  carries public licences only, its own and all its upstream ones, no reporter key and no merged
  source of a non-public licence, and a crowd record has reached the evidence the filter asks for, corroboration where
  it asks for none, so neither a negated nor an expired report is ever served as a record.\<close>

theorem outbox_page_public:
  assumes "list_all wf_outbox_entry entries"
    and "RecordEntry e \<in> set (applyRecordFilter licenses entries f now)" and "re_record e = Some r"
  shows "clean_record licenses r
    \<and> (isCrowd r \<longrightarrow> evidence_state_of r \<in> asked_evidence f \<and> evidence_state_of r \<notin> {''negated'', ''expired''})"
proof -
  obtain item where "item \<in> set entries" "filter_entry licenses f now item = Some (RecordEntry e)"
    using assms(2) by (auto simp: applyRecordFilter_def map_filter_def)
  moreover from this(1) assms(1) have "wf_outbox_entry item" by (simp add: list_all_iff)
  ultimately have r: "clean_record licenses r" "tier_ok f r"
    using filter_entry_record [of licenses f now item e r] assms(3) by simp_all
  then show ?thesis using tier_ok_asked [OF r(2)] by (auto simp: asked_evidence_def split: option.splits if_splits)
qed

text \<open>A retraction reaches every subscriber: each delete of a page passes every filter unchanged, and
  a crowd report the crowd withdrew, where the subscriber would be served its class, domain and
  kind, goes out as a delete that carries nothing of what it said.\<close>

theorem retractions_always_pass:
  "set (filter (\<lambda>item. case item of LivenessEntry _ \<Rightarrow> False | RecordEntry e \<Rightarrow> re_operation e = Delete) entries)
     \<subseteq> set (applyRecordFilter licenses entries f now)
   \<and> {RecordEntry (retraction e r) | e r. RecordEntry e \<in> set entries \<and> re_record e = Some r \<and> re_operation e \<noteq> Delete
        \<and> admits (on_filter rf_classes f) (re_recordClass e) \<and> admits (on_filter rf_domains f) (re_domain e)
        \<and> listed_kind f e \<and> isCrowd r \<and> evidence_state_of r \<in> set WITHDRAWN_STATES}
     \<subseteq> {item \<in> set (applyRecordFilter licenses entries f now). case item of LivenessEntry _ \<Rightarrow> False
          | RecordEntry e \<Rightarrow> re_operation e = Delete \<and> re_record e = None}"
proof -
  have page: "filter_entry licenses f now item = Some item' \<Longrightarrow> item \<in> set entries \<Longrightarrow>
      item' \<in> set (applyRecordFilter licenses entries f now)" for item item'
    by (force simp: applyRecordFilter_def map_filter_def)
  have "filter_entry licenses f now (RecordEntry e) = Some (RecordEntry e)" if "re_operation e = Delete" for e :: "'a record_entry"
    using that by (simp add: filter_entry_def split: option.splits)
  moreover have "filter_entry licenses f now (RecordEntry e) = Some (RecordEntry (retraction e r))"
    if "re_record e = Some r" "re_operation e \<noteq> Delete" "admits (on_filter rf_classes f) (re_recordClass e)"
      "admits (on_filter rf_domains f) (re_domain e)" "listed_kind f e" "isCrowd r"
      "evidence_state_of r \<in> set WITHDRAWN_STATES" for e :: "'a record_entry" and r
    using that by (simp add: filter_entry_def)
  moreover have "re_operation (retraction e r) = Delete" "re_record (retraction e r) = None" for e :: "'a record_entry" and r
    by (simp_all add: retraction_def)
  ultimately show ?thesis
    by (intro conjI subsetI) (auto intro: page split: outbox_entry.splits)
qed

lemma filter_entry_stable:
  assumes "filter_entry licenses f now item = Some item'"
  shows "filter_entry licenses f now item' = Some item'"
proof -
  consider "item' = item" | e r where "item = RecordEntry e" "re_record e = Some r" "item' = RecordEntry (retraction e r)"
    | e r r' where "item = RecordEntry e" "re_record e = Some r" "re_operation e \<noteq> Delete"
      "publicRecords licenses [r] = [r']" "item' = RecordEntry (e\<lparr>re_record := Some r'\<rparr>)"
      "admits (on_filter rf_classes f) (re_recordClass e)" "admits (on_filter rf_domains f) (re_domain e)"
      "listed_kind f e" "\<not> (isCrowd r \<and> evidence_state_of r \<in> set WITHDRAWN_STATES)"
      "\<not> (isCrowd r \<and> (case TIER_RANK (evidence_state_of r) of None \<Rightarrow> True | Some rank \<Rightarrow> rank < min_rank f))"
      "\<not> too_old (on_filter rf_maxAgeSec f) now e r" "\<not> outside_bbox (on_filter rf_bbox f) r"
      "admits (on_filter rf_privacyClasses f) (fr_privacy r)"
  proof (cases item)
    case (LivenessEntry l)
    then show ?thesis using assms that(1) by (auto simp: filter_entry_def split: if_splits)
  next
    case (RecordEntry e)
    show ?thesis
    proof (cases "re_record e")
      case None
      then show ?thesis using assms that(1) RecordEntry by (simp add: filter_entry_def)
    next
      case (Some r)
      have one: "publicRecords licenses [r] = x # xs \<Longrightarrow> xs = []" for x xs
        using publicRecords_one [of licenses r] by auto
      show ?thesis
        using assms that(1) that(2) [OF RecordEntry Some] that(3) [OF RecordEntry Some] one
        by (simp add: filter_entry_def RecordEntry Some split: if_splits list.splits)
    qed
  qed
  then show ?thesis
  proof cases
    case 1
    then show ?thesis using assms by simp
  next
    case 2
    then show ?thesis by (simp add: filter_entry_def retraction_def)
  next
    case 3
    with publicRecords_one [of licenses r] have clean: "clean_record licenses r'" and "same_facts r r'" by auto
    then obtain x y where r': "r' = r\<lparr>fr_reporter := x, fr_mergedSources := y\<rparr>" by (auto simp: same_facts_def)
    have "publicRecords licenses [r'] = [r']" by (rule publicRecords_clean [OF clean])
    moreover have "isCrowd r' = isCrowd r" "evidence_state_of r' = evidence_state_of r" "fr_privacy r' = fr_privacy r"
      "too_old a now (e\<lparr>re_record := z\<rparr>) r' = too_old a now e r" "outside_bbox b r' = outside_bbox b r" for a b z
      by (simp_all add: r')
    ultimately show ?thesis using 3 by (auto simp: filter_entry_def)
  qed
qed

text \<open>Filtering is idempotent and keeps the sequence: filtering a filtered page again changes nothing,
  and the sequence numbers of a page are those of the journal with gaps, in order.\<close>

theorem outbox_filter_idempotent:
  "applyRecordFilter licenses (applyRecordFilter licenses entries f now) f now = applyRecordFilter licenses entries f now
   \<and> subseq (map (\<lambda>item. case item of RecordEntry e \<Rightarrow> re_seq e | LivenessEntry l \<Rightarrow> le_seq l)
        (applyRecordFilter licenses entries f now))
      (map (\<lambda>item. case item of RecordEntry e \<Rightarrow> re_seq e | LivenessEntry l \<Rightarrow> le_seq l) entries)"
proof -
  let ?seq = "\<lambda>item. case item of RecordEntry e \<Rightarrow> re_seq e | LivenessEntry l \<Rightarrow> le_seq l"
  have seq: "?seq item' = ?seq item" if "filter_entry licenses f now item = Some item'" for item item' :: "'a outbox_entry"
    using that by (auto simp: filter_entry_def retraction_def split: outbox_entry.splits option.splits if_splits list.splits)
  have again: "applyRecordFilter licenses (applyRecordFilter licenses entries f now) f now
      = applyRecordFilter licenses entries f now"
  proof (induction entries)
    case (Cons item entries)
    then show ?case
      using filter_entry_stable [of licenses f now item]
      by (cases "filter_entry licenses f now item") (simp_all add: applyRecordFilter_def map_filter_simps)
  qed (simp add: applyRecordFilter_def map_filter_simps)
  have "subseq (map ?seq (applyRecordFilter licenses entries f now)) (map ?seq entries)"
  proof (induction entries)
    case (Cons item entries)
    then show ?case
      using seq [of item]
      by (cases "filter_entry licenses f now item") (auto simp: applyRecordFilter_def map_filter_simps)
  qed (simp add: applyRecordFilter_def map_filter_simps)
  with again show ?thesis by blast
qed

definition sample_licenses :: license_table where
  "sample_licenses l = (if l = ''CC0-1.0'' then Some \<lparr>lc_shareAlike = False, lc_redistribution = Some True\<rparr>
     else if l = ''ODbL-1.0'' then Some \<lparr>lc_shareAlike = True, lc_redistribution = Some True\<rparr> else None)"

definition sample_entry :: "unit outbox_entry" where
  "sample_entry = RecordEntry \<lparr>re_seq = 7, re_operation = Update, re_recordClass = ''situation'', re_recordId = ''r'',
     re_kind = ''incident'', re_domain = ''roads'', re_property = None, re_createdAt = Some 0,
     re_record = Some \<lparr>fr_id = ''r'', fr_revision = Some 2, fr_geometry = None, fr_origin = ''crowd'',
       fr_sourceId = ''crowd'', fr_accessMode = ''bulk'', fr_license = ''CC0-1.0'', fr_upstream = None,
       fr_mergedSources = Some [''ODbL-1.0''], fr_reporter = Some ''key'', fr_sourceUpdatedAt = None,
       fr_privacy = ''crowd_pseudonym'', fr_fetchedAt = Some 0, fr_evidence = Some ''corroborated'',
       fr_phenomenonStart = None, fr_extras = None, fr_content = ()\<rparr>,
     re_reason = None, re_revision = None\<rparr>"

text \<open>A corroborated report with a reporter key and a share-alike merged source is served without both.\<close>

theorem outbox_page_public_witness:
  "\<exists>e r. RecordEntry e \<in> set (applyRecordFilter sample_licenses [sample_entry] None (Some 10))
    \<and> re_record e = Some r \<and> fr_reporter r = None \<and> fr_mergedSources r = None"
proof -
  have page: "case applyRecordFilter sample_licenses [sample_entry] None (Some 10) of
      RecordEntry e # _ \<Rightarrow> (case re_record e of None \<Rightarrow> False | Some r \<Rightarrow> fr_mergedSources r = None) | _ \<Rightarrow> False"
    by code_simp
  then obtain e r where e: "RecordEntry e \<in> set (applyRecordFilter sample_licenses [sample_entry] None (Some 10))"
    and r: "re_record e = Some r" "fr_mergedSources r = None"
    by (auto split: list.splits outbox_entry.splits option.splits)
  have "list_all wf_outbox_entry [sample_entry]" by code_simp
  from outbox_page_public [OF this e r(1)] e r show ?thesis by (auto simp: clean_record_def)
qed

end
