(* ===== verification/Text16.thy ===== *)
theory Text16
  imports OC_Prelude "HOL-Library.Word"
begin

text \<open>
  Texts as JavaScript holds them: lists of 16-bit code units. Reading a text by code point
  (\<open>codePointAt\<close>, the iterator of a string, a regular expression with the \<open>u\<close> flag) is \<open>points_of\<close>.
  White space is the class \<open>\s\<close>. What the Unicode tables say (lower case, composition, which code
  points are letters or digits) is a record of functions, a parameter of every definition that
  uses it.
\<close>

type_synonym text16 = "16 word list"

definition u16 :: "string \<Rightarrow> text16" where
  "u16 s = map (\<lambda>c. of_nat (of_char c)) s"

definition high_surrogate :: "16 word \<Rightarrow> bool" where
  "high_surrogate x \<longleftrightarrow> 0xD800 \<le> x \<and> x \<le> 0xDBFF"

definition low_surrogate :: "16 word \<Rightarrow> bool" where
  "low_surrogate x \<longleftrightarrow> 0xDC00 \<le> x \<and> x \<le> 0xDFFF"

definition combine :: "16 word \<Rightarrow> 16 word \<Rightarrow> nat" where
  "combine hi lo = (unat hi - 0xD800) * 0x400 + (unat lo - 0xDC00) + 0x10000"

text \<open>\<open>codePointAt(0)\<close> of a text that is not empty, and how many units it takes.\<close>

definition code_point :: "text16 \<Rightarrow> nat" where
  "code_point t = (case t of [] \<Rightarrow> 0 | [x] \<Rightarrow> unat x
     | x # y # _ \<Rightarrow> if high_surrogate x \<and> low_surrogate y then combine x y else unat x)"

definition point_width :: "nat \<Rightarrow> nat" where
  "point_width p = (if p > 0xFFFF then 2 else 1)"

fun points_of :: "text16 \<Rightarrow> nat list" where
  "points_of [] = []"
| "points_of [x] = [unat x]"
| "points_of (x # y # r) =
     (if high_surrogate x \<and> low_surrogate y then combine x y # points_of r
      else unat x # points_of (y # r))"

definition units_of_point :: "nat \<Rightarrow> text16" where
  "units_of_point p =
     (if p > 0xFFFF then [of_nat (0xD800 + (p - 0x10000) div 0x400), of_nat (0xDC00 + (p - 0x10000) mod 0x400)]
      else [of_nat p])"

definition units_of :: "nat list \<Rightarrow> text16" where
  "units_of ps = concat (map units_of_point ps)"

lemma surrogate_bounds:
  "high_surrogate x \<Longrightarrow> 0xD800 \<le> unat x \<and> unat x \<le> 0xDBFF"
  "low_surrogate y \<Longrightarrow> 0xDC00 \<le> unat y \<and> unat y \<le> 0xDFFF"
  by (simp_all add: high_surrogate_def low_surrogate_def word_le_nat_alt)

lemma unit_bound: "unat (x :: 16 word) < 0x10000"
  using unsigned_less [of x] by simp

lemma combine_units:
  assumes "high_surrogate x" and "low_surrogate y"
  shows "0xFFFF < combine x y" and "units_of_point (combine x y) = [x, y]"
proof -
  from surrogate_bounds(1) [OF assms(1)] have x: "0xD800 \<le> unat x" by simp
  from surrogate_bounds(2) [OF assms(2)] have y: "0xDC00 \<le> unat y" "unat y \<le> 0xDFFF" by simp_all
  define a where "a = unat x - 0xD800"
  define b where "b = unat y - 0xDC00"
  have ab: "unat x = 0xD800 + a" "unat y = 0xDC00 + b" "b < 0x400" using x y by (simp_all add: a_def b_def)
  have c: "combine x y = a * 0x400 + b + 0x10000" by (simp add: combine_def ab)
  then show "0xFFFF < combine x y" by simp
  have "(a * 0x400 + b) div 0x400 = a" "(a * 0x400 + b) mod 0x400 = b" using ab(3) by simp_all
  then have "units_of_point (combine x y) = [of_nat (unat x), of_nat (unat y)]"
    unfolding units_of_point_def c by (simp add: ab)
  then show "units_of_point (combine x y) = [x, y]" by simp
qed

lemma unit_point [simp]: "units_of_point (unat (x :: 16 word)) = [x]"
  using unit_bound [of x] by (simp add: units_of_point_def)

text \<open>No two texts have the same code points.\<close>

lemma units_of_points [simp]: "units_of (points_of t) = t"
  by (induction t rule: points_of.induct) (simp_all add: units_of_def combine_units)

lemma points_of_eq [simp]: "points_of s = points_of t \<longleftrightarrow> s = t"
  by (metis units_of_points)

lemma unit_width [simp]: "point_width (unat (x :: 16 word)) = 1"
  using unit_bound [of x] by (simp add: point_width_def)

lemma points_of_Cons:
  "t \<noteq> [] \<Longrightarrow> points_of t = code_point t # points_of (drop (point_width (code_point t)) t)"
proof (cases t rule: points_of.cases)
  case (3 x y r)
  then show ?thesis
    by (simp add: code_point_def point_width_def [of "combine x y"] combine_units numeral_2_eq_2)
qed (simp_all add: code_point_def)

subsection \<open>White space\<close>

definition space_unit :: "16 word \<Rightarrow> bool" where
  "space_unit x \<longleftrightarrow> x \<in> {9, 10, 11, 12, 13, 32, 160, 5760, 8232, 8233, 8239, 8287, 12288, 65279}
     \<or> (8192 \<le> x \<and> x \<le> 8202)"

definition trim16 :: "text16 \<Rightarrow> text16" where
  "trim16 t = rev (dropWhile space_unit (rev (dropWhile space_unit t)))"

lemma dropWhile_shorter [termination_simp]: "length (dropWhile P xs) < Suc (length xs)"
  by (rule le_imp_less_Suc) (rule length_dropWhile_le)

text \<open>\<open>replace(/\s+/g, " ")\<close> and \<open>replace(/\s+/g, "")\<close>.\<close>

fun squeeze_spaces :: "text16 \<Rightarrow> text16" where
  "squeeze_spaces [] = []"
| "squeeze_spaces (x # xs) =
     (if space_unit x then 32 # squeeze_spaces (dropWhile space_unit xs) else x # squeeze_spaces xs)"

definition strip_spaces :: "text16 \<Rightarrow> text16" where
  "strip_spaces t = filter (\<lambda>x. \<not> space_unit x) t"

subsection \<open>Digits and letters\<close>

definition digit_unit :: "16 word \<Rightarrow> bool" where
  "digit_unit x \<longleftrightarrow> 48 \<le> x \<and> x \<le> 57"

definition lower_letter :: "16 word \<Rightarrow> bool" where
  "lower_letter x \<longleftrightarrow> 97 \<le> x \<and> x \<le> 122"

text \<open>\<open>[a-z]\<close> under the \<open>i\<close> flag.\<close>

definition any_letter :: "16 word \<Rightarrow> bool" where
  "any_letter x \<longleftrightarrow> (97 \<le> x \<and> x \<le> 122) \<or> (65 \<le> x \<and> x \<le> 90)"

definition number16 :: "text16 \<Rightarrow> nat" where
  "number16 t = foldl (\<lambda>v x. v * 10 + (unat x - 48)) 0 t"

subsection \<open>What the Unicode tables say\<close>

record unicode =
  un_lower :: "text16 \<Rightarrow> text16"
  un_nfc :: "text16 \<Rightarrow> text16"
  un_word :: "nat \<Rightarrow> bool"

text \<open>The runs of letters and digits, what \<open>match(/[\p{L}\p{N}]+/gu)\<close> finds.\<close>

fun runs :: "(nat \<Rightarrow> bool) \<Rightarrow> nat list \<Rightarrow> nat list \<Rightarrow> nat list list" where
  "runs P acc [] = (if acc = [] then [] else [rev acc])"
| "runs P acc (x # xs) =
     (if P x then runs P (x # acc) xs
      else if acc = [] then runs P [] xs else rev acc # runs P [] xs)"

definition raw_tokens :: "unicode \<Rightarrow> text16 \<Rightarrow> text16 list" where
  "raw_tokens uc value = map units_of (runs (un_word uc) [] (points_of (un_nfc uc (un_lower uc value))))"

end
