(* ===== verification/Linking.thy ===== *)
theory Linking
  imports Text16 Geometry
begin

text \<open>
  When two sources' features are linked: packages/model/src/linking/similarity.ts and
  packages/model/src/linking/link.ts.

  \<^item> Texts are UTF-16; a localized text is its texts in order. What Unicode says of letters is the
    parameter \<open>uc\<close>. The numbers of a house number are read exactly (the code's are doubles).
  \<^item> A table of thresholds, whose entries the code reads in insertion order, is a list of pairs.
  \<^item> A Set of tokens is a list without duplicates.
\<close>

subsection \<open>Names and directions\<close>

definition tokenize :: "unicode \<Rightarrow> text16 \<Rightarrow> text16 list \<Rightarrow> text16 list" where
  "tokenize uc value stopwords = filter (\<lambda>t. length t > 1 \<and> t \<notin> set stopwords) (raw_tokens uc value)"

text \<open>
  \<open>DIRECTIONS[t]\<close>. The table is a plain object, so the token \<open>constructor\<close> finds the member every
  object inherits, a value equal to itself only.
\<close>

definition DIRECTIONS :: "(text16 \<times> text16) list" where
  "DIRECTIONS =
     map (\<lambda>w. (u16 w, u16 ''n'')) [''n'', ''nord'', ''north'', ''noord''] @
     (u16 ''s'' @ [0xFC] @ u16 ''d'', u16 ''s'') #
     map (\<lambda>w. (u16 w, u16 ''s'')) [''s'', ''sud'', ''south'', ''zuid''] @
     map (\<lambda>w. (u16 w, u16 ''e'')) [''e'', ''o'', ''ost'', ''east'', ''est'', ''oost''] @
     map (\<lambda>w. (u16 w, u16 ''w'')) [''w'', ''west'', ''ouest''] @
     [(u16 ''constructor'', u16 ''constructor'')]"

definition directionsOf :: "unicode \<Rightarrow> text16 \<Rightarrow> text16 list" where
  "directionsOf uc value = remdups (List.map_filter (map_of DIRECTIONS) (raw_tokens uc value))"

definition tokenSimilarity :: "unicode \<Rightarrow> text16 option \<Rightarrow> text16 option \<Rightarrow> text16 list \<Rightarrow> real" where
  "tokenSimilarity uc a b stopwords = (case (a, b) of
     (Some x, Some y) \<Rightarrow>
       (let da = directionsOf uc x; db = directionsOf uc y;
            differ = (length da \<noteq> length db \<or> list_ex (\<lambda>d. d \<notin> set db) da)
        in if length da > 0 \<and> length db > 0 \<and> differ then 0
           else let left = remdups (tokenize uc x stopwords); right = remdups (tokenize uc y stopwords)
             in if left = [] \<or> right = [] then 0
                else real (length (filter (\<lambda>t. t \<in> set right) left)) / real (min (length left) (length right)))
   | _ \<Rightarrow> 0)"

subsection \<open>Features and rules\<close>

datatype link_method = ExternalId | SpatialAttribute | Manual
datatype link_state = Accepted | Rejected | Pending
datatype link_field = NameField | OperatorField | AddressField

record house_address =
  ad_street :: "text16 option"
  ad_houseNumber :: "text16 option"

record postal_address = house_address +
  ad_postalCode :: "text16 option"
  ad_city :: "text16 option"
  ad_text :: "text16 option"

record ext_id =
  xi_scheme :: text16
  xi_id :: text16
  xi_authority :: "text16 option"

record linkable_feature =
  lk_id :: text16
  lk_kind :: text16
  lk_type :: "text16 option"
  lk_name :: "text16 list option"
  lk_operator :: "text16 list option"
  lk_externalIds :: "ext_id list option"
  lk_components :: "ext_id list option list option"
  lk_geometry :: "geometry option"
  lk_fuzziness :: string
  lk_address :: "postal_address option"

record osm_rules =
  or_tags :: "text16 list"
  or_idTags :: "(text16 \<times> text16) list option"

record linking_rules =
  lr_idSchemes :: "text16 list"
  lr_alwaysMetres :: real
  lr_neverMetres :: real
  lr_attribute :: "(link_field \<times> real) list"
  lr_attributeWithinMetres :: "(link_field \<times> real) list option"
  lr_pendingAttribute :: "(link_field \<times> real) list option"
  lr_nameStopwords :: "text16 list option"
  lr_typeCompatible :: "(text16 option \<Rightarrow> text16 option \<Rightarrow> bool) option"
  lr_osm :: "osm_rules option"

record proposed_link =
  pk_aId :: text16
  pk_bId :: text16
  pk_method :: link_method
  pk_confidence :: real
  pk_status :: link_state
  pk_reasons :: "text16 list"

definition EXTERNAL_ID_CONFIDENCE :: real where "EXTERNAL_ID_CONFIDENCE = 1"
definition NEAR_CONFIDENCE :: real where "NEAR_CONFIDENCE = 9/10"
definition ATTRIBUTE_CONFIDENCE :: real where "ATTRIBUTE_CONFIDENCE = 7/10"
definition PENDING_CONFIDENCE :: real where "PENDING_CONFIDENCE = 4/10"

text \<open>\<open>xs ?? []\<close>.\<close>

definition or_nil :: "'a list option \<Rightarrow> 'a list" where
  "or_nil xs = (case xs of None \<Rightarrow> [] | Some ys \<Rightarrow> ys)"

definition textOf :: "text16 list option \<Rightarrow> text16 option" where
  "textOf value = (case value of Some (t # _) \<Rightarrow> Some t | _ \<Rightarrow> None)"

text \<open>\<open>parts.join(" ")\<close>.\<close>

fun join_spaced :: "text16 list \<Rightarrow> text16" where
  "join_spaced [] = []"
| "join_spaced [p] = p"
| "join_spaced (p # q # ps) = p @ 32 # join_spaced (q # ps)"

definition addressOf :: "linkable_feature \<Rightarrow> text16 option" where
  "addressOf f = (case lk_address f of None \<Rightarrow> None | Some a \<Rightarrow>
     (let parts = List.map_filter id [ad_street a, ad_houseNumber a, ad_postalCode a, ad_city a]
      in if parts \<noteq> [] then Some (join_spaced parts) else ad_text a))"

subsection \<open>House numbers\<close>

definition dash_unit :: "16 word \<Rightarrow> bool" where
  "dash_unit x \<longleftrightarrow> x \<in> {45, 0x2013, 47}"

text \<open>\<open>[-\<dots>/]\s*\d+\s*[a-z]?$\<close>: the end of a range.\<close>

definition range_tail :: "text16 \<Rightarrow> bool" where
  "range_tail t = (case t of [] \<Rightarrow> False | d # r \<Rightarrow>
     (let n = dropWhile space_unit r; m = dropWhile space_unit (dropWhile digit_unit n)
      in dash_unit d \<and> takeWhile digit_unit n \<noteq> []
         \<and> (case m of [] \<Rightarrow> True | [l] \<Rightarrow> any_letter l | _ \<Rightarrow> False)))"

text \<open>What follows the space of \<open>TRAILING_HOUSE_NUMBER\<close>, up to the end.\<close>

definition house_tail :: "text16 \<Rightarrow> bool" where
  "house_tail t \<longleftrightarrow> takeWhile digit_unit t \<noteq> [] \<and>
     (let r = dropWhile space_unit (dropWhile digit_unit t) in
      case r of [] \<Rightarrow> True
      | c # cs \<Rightarrow> if any_letter c then cs = [] \<or> range_tail (dropWhile space_unit cs) else range_tail r)"

fun trailing_house_number :: "text16 \<Rightarrow> text16 option" where
  "trailing_house_number [] = None"
| "trailing_house_number (x # xs) =
     (if space_unit x \<and> house_tail xs then Some xs else trailing_house_number xs)"

definition road_number :: "text16 \<Rightarrow> bool" where
  "road_number t =
     (let l = takeWhile any_letter t; r = dropWhile space_unit (dropWhile any_letter t)
      in 1 \<le> length l \<and> length l \<le> 3 \<and> r \<noteq> [] \<and> list_all digit_unit r)"

definition spaced :: "unicode \<Rightarrow> text16 \<Rightarrow> text16" where
  "spaced uc t = un_lower uc (squeeze_spaces (trim16 t))"

definition houseNumberOf :: "unicode \<Rightarrow> 'a house_address_scheme \<Rightarrow> 'b house_address_scheme \<Rightarrow> text16 option" where
  "houseNumberOf uc a other =
     (let street = map_option trim16 (ad_street a);
          written = (case (ad_houseNumber a, street) of
              (None, Some st) \<Rightarrow>
                if road_number st then None
                else
                  let otherStreet = (case ad_street other of None \<Rightarrow> [] | Some o_st \<Rightarrow> spaced uc o_st);
                      named = (otherStreet = spaced uc st
                        \<or> take (length (spaced uc st @ [32])) otherStreet = spaced uc st @ [32])
                  in if named then None else trailing_house_number st
            | (w, _) \<Rightarrow> w)
      in case map_option (\<lambda>w. un_lower uc (strip_spaces w)) written of
           Some (x # xs) \<Rightarrow> Some (x # xs)
         | _ \<Rightarrow> None)"

text \<open>From, to and letter.\<close>

definition houseSpan :: "text16 \<Rightarrow> (nat \<times> nat \<times> text16) option" where
  "houseSpan t =
     (let ds = takeWhile digit_unit t; r = dropWhile digit_unit t;
          letter = (case r of c # _ \<Rightarrow> if lower_letter c then [c] else [] | [] \<Rightarrow> []);
          r1 = drop (length letter) r; start = number16 ds
      in if ds = [] then None
         else case r1 of [] \<Rightarrow> Some (start, start, letter)
           | d # e \<Rightarrow>
             (let es = takeWhile digit_unit e; tail = dropWhile digit_unit e
              in if dash_unit d \<and> es \<noteq> []
                    \<and> (case tail of [] \<Rightarrow> True | [l] \<Rightarrow> lower_letter l | _ \<Rightarrow> False)
                 then Some (min start (number16 es), max start (number16 es), []) else None))"

definition houseNumbersDiffer ::
  "unicode \<Rightarrow> 'a house_address_scheme \<Rightarrow> 'b house_address_scheme \<Rightarrow> bool" where
  "houseNumbersDiffer uc a b = (case (houseNumberOf uc a b, houseNumberOf uc b a) of
     (Some na, Some nb) \<Rightarrow>
       if na = nb then False
       else (case (houseSpan na, houseSpan nb) of
          (Some (fa, ta, la), Some (fb, tb, lb)) \<Rightarrow>
            if ta < fb \<or> tb < fa then True
            else if fa = ta \<and> fb = tb \<and> la \<noteq> [] \<and> lb \<noteq> [] then la \<noteq> lb else False
        | _ \<Rightarrow> True)
   | _ \<Rightarrow> False)"

definition no_address :: house_address where
  "no_address = \<lparr>ad_street = None, ad_houseNumber = None\<rparr>"

definition house_of :: "linkable_feature \<Rightarrow> house_address" where
  "house_of f = (case lk_address f of None \<Rightarrow> no_address | Some a \<Rightarrow> house_address.truncate a)"

definition addressSimilarity :: "unicode \<Rightarrow> linkable_feature \<Rightarrow> linkable_feature \<Rightarrow> real" where
  "addressSimilarity uc a b =
     (if houseNumbersDiffer uc (house_of a) (house_of b) then 0
      else tokenSimilarity uc (addressOf a) (addressOf b) [])"

subsection \<open>Identifiers\<close>

definition comparable :: "ext_id \<Rightarrow> ext_id \<Rightarrow> bool" where
  "comparable a b \<longleftrightarrow> xi_scheme a = xi_scheme b \<and> xi_authority a = xi_authority b"

definition id_pairs :: "linkable_feature \<Rightarrow> linkable_feature \<Rightarrow> text16 \<Rightarrow> (ext_id \<times> ext_id) list" where
  "id_pairs a b scheme =
     concat (map (\<lambda>l. map (\<lambda>r. (l, r)) (filter (comparable l) (or_nil (lk_externalIds b))))
       (filter (\<lambda>e. xi_scheme e = scheme) (or_nil (lk_externalIds a))))"

definition conflictingIds :: "linkable_feature \<Rightarrow> linkable_feature \<Rightarrow> text16 list \<Rightarrow> text16 option" where
  "conflictingIds a b schemes = find (\<lambda>scheme.
     let pairs = id_pairs a b scheme
     in pairs \<noteq> [] \<and> \<not> list_ex (\<lambda>(l, r). xi_id l = xi_id r) pairs) schemes"

definition shared_id :: "linkable_feature \<Rightarrow> linkable_feature \<Rightarrow> text16 \<Rightarrow> ext_id option" where
  "shared_id a b scheme = find (\<lambda>l. xi_scheme l = scheme
       \<and> list_ex (\<lambda>r. comparable l r \<and> xi_id l = xi_id r) (or_nil (lk_externalIds b)))
     (or_nil (lk_externalIds a))"

subsection \<open>The order of a pair\<close>

text \<open>The two indices of the loop are one; the texts shrink by what it skips.\<close>

function before :: "text16 \<Rightarrow> text16 \<Rightarrow> bool" where
  "before a b =
     (if a = [] \<or> b = [] then length a < length b
      else let x = code_point a; y = code_point b in
        if x \<noteq> y then x < y else before (drop (point_width x) a) (drop (point_width x) b))"
  by pat_completeness auto
termination
  by (relation "measure (\<lambda>(a, b). length a)") (auto simp: point_width_def)

declare before.simps [simp del]

definition ordered :: "linkable_feature \<Rightarrow> linkable_feature \<Rightarrow> linkable_feature \<times> linkable_feature" where
  "ordered a b = (if before (lk_id a) (lk_id b) then (a, b) else (b, a))"

text \<open>The loop over code units sorts by code points, the order of the UTF-8 bytes.\<close>

lemma before_Nil [simp]: "before [] b \<longleftrightarrow> b \<noteq> []" "\<not> before a []"
  by (simp_all add: before.simps)

lemma points_of_Nil [simp]: "points_of t = [] \<longleftrightarrow> t = []"
  using points_of_eq [of t "[]"] by simp

lemma before_points: "before a b \<longleftrightarrow> points_of a < points_of b"
proof (induction a b rule: before.induct)
  case (1 a b)
  show ?case
  proof (cases "a = [] \<or> b = []")
    case True
    then show ?thesis by (cases "points_of b") auto
  next
    case False
    then have pa: "points_of a = code_point a # points_of (drop (point_width (code_point a)) a)"
      and pb: "points_of b = code_point b # points_of (drop (point_width (code_point b)) b)"
      by (auto intro: points_of_Cons)
    show ?thesis
    proof (cases "code_point a = code_point b")
      case True
      with False have "before a b = before (drop (point_width (code_point a)) a) (drop (point_width (code_point a)) b)"
        by (subst before.simps) (simp only: Let_def if_False not_True_eq_False simp_thms)
      also have "\<dots> = (points_of (drop (point_width (code_point a)) a) < points_of (drop (point_width (code_point a)) b))"
        by (rule 1 [OF False refl refl]) (simp add: True)
      finally show ?thesis unfolding pa pb by (simp only: True Cons_less_Cons simp_thms less_irrefl)
    next
      case neq: False
      with False have "before a b = (code_point a < code_point b)"
        by (subst before.simps) (simp only: Let_def if_False if_True simp_thms)
      then show ?thesis unfolding pa pb using neq by (simp only: Cons_less_Cons simp_thms)
    qed
  qed
qed

lemma before_total: "a \<noteq> b \<Longrightarrow> before b a \<longleftrightarrow> \<not> before a b"
  using points_of_eq [of a b] by (auto simp: before_points not_less order_le_less)

lemma ordered_commute: "lk_id a \<noteq> lk_id b \<Longrightarrow> ordered a b = ordered b a"
  using before_total [of "lk_id a" "lk_id b"] by (auto simp: ordered_def)

subsection \<open>Links\<close>

definition decimal_digit :: "nat \<Rightarrow> 16 word" where
  "decimal_digit d = of_nat (48 + d)"

fun decimal :: "nat \<Rightarrow> text16" where
  "decimal n = (if n < 10 then [decimal_digit n] else decimal (n div 10) @ [decimal_digit (n mod 10)])"

declare decimal.simps [simp del]

text \<open>\<open>x.toFixed(d)\<close> of a number that is not negative and below \<open>10 ^ 21\<close>, with \<open>d > 0\<close>.\<close>

definition to_fixed :: "nat \<Rightarrow> real \<Rightarrow> text16" where
  "to_fixed d x =
     (let s = decimal (nat \<lfloor>x * 10 ^ d + 1 / 2\<rfloor>); t = replicate (d + 1 - length s) 48 @ s
      in take (length t - d) t @ 46 # drop (length t - d) t)"

definition field_name :: "link_field \<Rightarrow> text16" where
  "field_name f = u16 (case f of NameField \<Rightarrow> ''name'' | OperatorField \<Rightarrow> ''operator''
     | AddressField \<Rightarrow> ''address'')"

definition score :: "unicode \<Rightarrow> linking_rules \<Rightarrow> linkable_feature \<Rightarrow> linkable_feature \<Rightarrow> link_field \<Rightarrow> real" where
  "score uc rules a b f = (case f of
     NameField \<Rightarrow> tokenSimilarity uc (textOf (lk_name a)) (textOf (lk_name b)) (or_nil (lr_nameStopwords rules))
   | OperatorField \<Rightarrow> tokenSimilarity uc (textOf (lk_operator a)) (textOf (lk_operator b)) []
   | AddressField \<Rightarrow> addressSimilarity uc a b)"

text \<open>The fields that agree; the first word of a reason is its field.\<close>

definition agreeing :: "(link_field \<Rightarrow> real) \<Rightarrow> (link_field \<times> real) list \<Rightarrow> link_field list" where
  "agreeing scores thresholds = map fst (filter (\<lambda>(f, m). scores f \<ge> m) thresholds)"

definition reason_of :: "(link_field \<Rightarrow> real) \<Rightarrow> link_field \<Rightarrow> text16" where
  "reason_of scores f = field_name f @ 32 # to_fixed 2 (scores f)"

definition type_compatible :: "linking_rules \<Rightarrow> text16 option \<Rightarrow> text16 option \<Rightarrow> bool" where
  "type_compatible rules = (case lr_typeCompatible rules of Some f \<Rightarrow> f
     | None \<Rightarrow> (\<lambda>x y. x = y \<or> x = None \<or> y = None))"

definition spatial_link ::
  "unicode \<Rightarrow> linking_rules \<Rightarrow> linkable_feature \<Rightarrow> linkable_feature \<Rightarrow> real \<Rightarrow> proposed_link option" where
  "spatial_link uc rules a b distance =
     (let link = (\<lambda>confidence status reasons. Some \<lparr>pk_aId = lk_id a, pk_bId = lk_id b,
            pk_method = SpatialAttribute, pk_confidence = confidence, pk_status = status, pk_reasons = reasons\<rparr>);
          scores = score uc rules a b;
          metres = to_fixed 1 distance @ u16 '' m'';
          limits = or_nil (lr_attributeWithinMetres rules);
          accepted = filter (\<lambda>f. case map_of limits f of None \<Rightarrow> True | Some limit \<Rightarrow> distance \<le> limit)
            (agreeing scores (lr_attribute rules));
          pending = agreeing scores (or_nil (lr_pendingAttribute rules))
      in if distance \<le> lr_alwaysMetres rules then link NEAR_CONFIDENCE Accepted [metres]
         else if accepted \<noteq> [] then link ATTRIBUTE_CONFIDENCE Accepted (metres # map (reason_of scores) accepted)
         else if pending \<noteq> [] then link PENDING_CONFIDENCE Pending (metres # map (reason_of scores) pending)
         else None)"

definition proposeLink ::
  "unicode \<Rightarrow> linkable_feature \<Rightarrow> linkable_feature \<Rightarrow> linking_rules option \<Rightarrow> proposed_link option" where
  "proposeLink uc first second rules_opt = (case rules_opt of None \<Rightarrow> None | Some rules \<Rightarrow>
     if lk_kind first \<noteq> lk_kind second \<or> lk_id first = lk_id second then None
     else case ordered first second of (a, b) \<Rightarrow>
       (if conflictingIds a b (lr_idSchemes rules) \<noteq> None then None
        else case find (\<lambda>scheme. shared_id a b scheme \<noteq> None) (lr_idSchemes rules) of
          Some scheme \<Rightarrow>
            Some \<lparr>pk_aId = lk_id a, pk_bId = lk_id b, pk_method = ExternalId,
              pk_confidence = EXTERNAL_ID_CONFIDENCE, pk_status = Accepted,
              pk_reasons = [scheme @ 32 # xi_id (the (shared_id a b scheme))]\<rparr>
        | None \<Rightarrow>
            if \<not> type_compatible rules (lk_type a) (lk_type b) then None
            else if lk_fuzziness a \<noteq> ''exact'' \<or> lk_fuzziness b \<noteq> ''exact'' then None
            else (case (representativePoint (lk_geometry a), representativePoint (lk_geometry b)) of
              (Some pa, Some pb) \<Rightarrow>
                if haversineMetres pa pb \<ge> lr_neverMetres rules then None
                else spatial_link uc rules a b (haversineMetres pa pb)
            | _ \<Rightarrow> None)))"

text \<open>Whether two features are linked, and the row the link becomes, does not depend on which of
  the two is looked at first.\<close>

theorem proposeLink_symmetric:
  "proposeLink uc second first rules = proposeLink uc first second rules"
  using ordered_commute [of first second]
  by (simp add: proposeLink_def eq_commute cong: option.case_cong split: option.split)

lemma ordered_before:
  assumes "ordered first second = (a, b)" and "lk_id first \<noteq> lk_id second"
  shows "points_of (lk_id a) < points_of (lk_id b)"
  using assms before_total [OF assms(2)]
  by (auto simp: ordered_def before_points [symmetric] split: if_splits)

text \<open>What an accepted spatial link rests on: nearness, or a field that agrees within its limit.\<close>

definition spatial_evidence ::
  "unicode \<Rightarrow> linking_rules \<Rightarrow> linkable_feature \<Rightarrow> linkable_feature \<Rightarrow> real \<Rightarrow> bool" where
  "spatial_evidence uc rules a b distance \<longleftrightarrow> distance \<le> lr_alwaysMetres rules
     \<or> (\<exists>f m. (f, m) \<in> set (lr_attribute rules) \<and> m \<le> score uc rules a b f
         \<and> (case map_of (or_nil (lr_attributeWithinMetres rules)) f of None \<Rightarrow> True | Some limit \<Rightarrow> distance \<le> limit))"

lemma spatial_link_accepted:
  assumes "spatial_link uc rules a b d = Some l" and "pk_status l = Accepted"
  shows "pk_aId l = lk_id a \<and> pk_bId l = lk_id b \<and> pk_method l = SpatialAttribute \<and> spatial_evidence uc rules a b d"
proof (cases "d \<le> lr_alwaysMetres rules")
  case True
  then show ?thesis using assms by (auto simp: spatial_link_def Let_def spatial_evidence_def)
next
  case False
  let ?acc = "filter (\<lambda>f. case map_of (or_nil (lr_attributeWithinMetres rules)) f of None \<Rightarrow> True | Some limit \<Rightarrow> d \<le> limit)
    (agreeing (score uc rules a b) (lr_attribute rules))"
  have "?acc \<noteq> []"
    using assms False by (auto simp: spatial_link_def Let_def split: if_splits)
  then obtain f where "f \<in> set ?acc" by (meson last_in_set)
  then obtain m where fm: "(f, m) \<in> set (lr_attribute rules)" "m \<le> score uc rules a b f"
    "case map_of (or_nil (lr_attributeWithinMetres rules)) f of None \<Rightarrow> True | Some limit \<Rightarrow> d \<le> limit"
    by (auto simp: agreeing_def)
  then have "spatial_evidence uc rules a b d" unfolding spatial_evidence_def by blast
  then show ?thesis using assms False by (auto simp: spatial_link_def Let_def split: if_splits)
qed

lemma shared_id_Some:
  assumes "shared_id a b scheme = Some x"
  shows "xi_scheme x = scheme \<and> x \<in> set (or_nil (lk_externalIds a))
    \<and> (\<exists>y \<in> set (or_nil (lk_externalIds b)). comparable x y \<and> xi_id x = xi_id y)"
  using find_in [OF assms [unfolded shared_id_def]] by (auto simp: list_ex_iff)

text \<open>C13. What a link that is accepted without a human rests on: the two features are of one kind, no
  id scheme names them as two things, and either one issuer gave both the same id, or both are
  located exactly, lie closer than the kind's limit, and are near enough on their own or agree in
  a field that may decide at that distance. The link names the pair in code point order.\<close>

theorem proposeLink_sound:
  assumes "proposeLink uc first second (Some rules) = Some l" and "pk_status l = Accepted"
  shows "\<exists>a b. {a, b} = {first, second} \<and> pk_aId l = lk_id a \<and> pk_bId l = lk_id b
    \<and> points_of (lk_id a) < points_of (lk_id b) \<and> lk_kind a = lk_kind b
    \<and> conflictingIds a b (lr_idSchemes rules) = None
    \<and> (if pk_method l = ExternalId
       then \<exists>x \<in> set (or_nil (lk_externalIds a)). \<exists>y \<in> set (or_nil (lk_externalIds b)).
          xi_scheme x \<in> set (lr_idSchemes rules) \<and> comparable x y \<and> xi_id x = xi_id y
       else lk_fuzziness a = ''exact'' \<and> lk_fuzziness b = ''exact''
         \<and> (\<exists>pa pb. representativePoint (lk_geometry a) = Some pa \<and> representativePoint (lk_geometry b) = Some pb
              \<and> haversineMetres pa pb < lr_neverMetres rules
              \<and> spatial_evidence uc rules a b (haversineMetres pa pb)))"
proof -
  obtain a b where ab: "ordered first second = (a, b)" by force
  have pre: "lk_kind first = lk_kind second" "lk_id first \<noteq> lk_id second"
    and confl: "conflictingIds a b (lr_idSchemes rules) = None"
    using assms(1) by (auto simp: proposeLink_def ab split: if_splits)
  have pair: "{a, b} = {first, second}" using ab by (auto simp: ordered_def split: if_splits)
  have kinds: "lk_kind a = lk_kind b" using ab pre(1) by (auto simp: ordered_def split: if_splits)
  note lt = ordered_before [OF ab pre(2)]
  show ?thesis
  proof (cases "find (\<lambda>scheme. shared_id a b scheme \<noteq> None) (lr_idSchemes rules)")
    case (Some scheme)
    then have "scheme \<in> set (lr_idSchemes rules)" and "shared_id a b scheme \<noteq> None"
      using find_in [OF Some] by simp_all
    then obtain x where "shared_id a b scheme = Some x" by auto
    note x = shared_id_Some [OF this]
    have "pk_aId l = lk_id a" "pk_bId l = lk_id b" "pk_method l = ExternalId"
      using assms(1) pre confl Some by (auto simp: proposeLink_def ab)
    then show ?thesis using pair kinds lt confl x \<open>scheme \<in> _\<close>
      by (intro exI [of _ a] exI [of _ b]) auto
  next
    case None
    then obtain pa pb where pts: "representativePoint (lk_geometry a) = Some pa" "representativePoint (lk_geometry b) = Some pb"
      and fuzz: "lk_fuzziness a = ''exact''" "lk_fuzziness b = ''exact''"
      and near: "haversineMetres pa pb < lr_neverMetres rules"
      and l: "spatial_link uc rules a b (haversineMetres pa pb) = Some l"
      using assms(1) pre confl by (auto simp: proposeLink_def ab split: if_splits option.splits)
    from spatial_link_accepted [OF l assms(2)] show ?thesis
      using pair kinds lt confl pts fuzz near by (intro exI [of _ a] exI [of _ b]) simp
  qed
qed

subsection \<open>Witnesses\<close>

definition plain_unicode :: unicode where
  "plain_unicode = \<lparr>un_lower = (\<lambda>t. map (\<lambda>x. if 65 \<le> x \<and> x \<le> 90 then x + 32 else x) t), un_nfc = (\<lambda>t. t),
     un_word = (\<lambda>p. (48 \<le> p \<and> p \<le> 57) \<or> (65 \<le> p \<and> p \<le> 90) \<or> (97 \<le> p \<and> p \<le> 122))\<rparr>"

definition sample_site :: "string \<Rightarrow> linkable_feature" where
  "sample_site i = \<lparr>lk_id = u16 i, lk_kind = u16 ''parking'', lk_type = None, lk_name = Some [u16 ''Am Markt''],
     lk_operator = None, lk_externalIds = None, lk_components = None,
     lk_geometry = Some (Point (Position 7 50)), lk_fuzziness = ''exact'', lk_address = None\<rparr>"

definition sample_rules :: linking_rules where
  "sample_rules = \<lparr>lr_idSchemes = [u16 ''osm:node''], lr_alwaysMetres = 25, lr_neverMetres = 300,
     lr_attribute = [(NameField, 8/10)], lr_attributeWithinMetres = None, lr_pendingAttribute = None,
     lr_nameStopwords = None, lr_typeCompatible = None, lr_osm = None\<rparr>"

lemma sample_ordered: "ordered (sample_site ''a'') (sample_site ''b'') = (sample_site ''a'', sample_site ''b'')"
  by (simp add: ordered_def sample_site_def before_points u16_def)

theorem proposeLink_sound_witness:
  "\<exists>l. proposeLink plain_unicode (sample_site ''a'') (sample_site ''b'') (Some sample_rules) = Some l
    \<and> pk_status l = Accepted \<and> points_of (pk_aId l) < points_of (pk_bId l)"
proof -
  have "haversineMetres p p = 0" for p by simp
  then obtain l where l: "proposeLink plain_unicode (sample_site ''a'') (sample_site ''b'') (Some sample_rules) = Some l"
    and acc: "pk_status l = Accepted"
    unfolding proposeLink_def sample_ordered
    by (auto simp: sample_site_def sample_rules_def u16_def conflictingIds_def id_pairs_def shared_id_def or_nil_def
        type_compatible_def spatial_link_def Let_def representativePoint_def walked_positions_def)
  from proposeLink_sound [OF this] l acc show ?thesis by auto
qed

end
