(* ===== verification/Osm_Match.thy ===== *)
theory Osm_Match
  imports Linking
begin

text \<open>
  Which OpenStreetMap element a feature is: packages/model/src/linking/osm.ts. The tags of an element
  are a map; the tables of the rules, read in insertion order, are lists of pairs.
\<close>

record osm_id =
  oi_scheme :: text16
  oi_id :: text16

record osm_candidate =
  oc_id :: osm_id
  oc_tags :: "text16 \<Rightarrow> text16 option"
  oc_geometry :: "geometry option"

datatype osm_method = ById | SpatialTag

record osm_match =
  om_id :: osm_id
  om_method :: osm_method
  om_confidence :: real

definition OSM_ID_CONFIDENCE :: real where "OSM_ID_CONFIDENCE = 1"
definition OSM_NEAR_CONFIDENCE :: real where "OSM_NEAR_CONFIDENCE = 85/100"
definition OSM_ATTRIBUTE_CONFIDENCE :: real where "OSM_ATTRIBUTE_CONFIDENCE = 65/100"

subsection \<open>Identifiers\<close>

definition normalizeId :: "unicode \<Rightarrow> text16 \<Rightarrow> text16" where
  "normalizeId uc value =
     filter (\<lambda>x. \<not> (space_unit x \<or> x = 42 \<or> x = 45)) (un_lower uc (trim16 value))"

text \<open>\<open>value.split(c)\<close> of a one-unit separator.\<close>

fun split_at :: "16 word \<Rightarrow> text16 \<Rightarrow> text16 list" where
  "split_at c [] = [[]]"
| "split_at c (x # xs) = (if x = c then [] # split_at c xs
     else case split_at c xs of [] \<Rightarrow> [[x]] | p # ps \<Rightarrow> (x # p) # ps)"

definition taggedIds :: "unicode \<Rightarrow> text16 \<Rightarrow> text16 list" where
  "taggedIds uc value = map (normalizeId uc) (split_at 59 value)"

definition hasKindTag :: "osm_candidate \<Rightarrow> text16 list \<Rightarrow> bool" where
  "hasKindTag candidate tags = list_ex (\<lambda>flt. case split_at 61 flt of
     [] \<Rightarrow> False
   | key # others \<Rightarrow> oc_tags candidate key = (case others of [] \<Rightarrow> None | value # _ \<Rightarrow> Some value)) tags"

text \<open>The reference ids a tag must hold, for each tag of the rules that the feature has an id for.\<close>

definition own_ids :: "linkable_feature \<Rightarrow> ext_id list" where
  "own_ids f = or_nil (lk_externalIds f) @ concat (map or_nil (or_nil (lk_components f)))"

definition reference_ids :: "unicode \<Rightarrow> linkable_feature \<Rightarrow> osm_rules \<Rightarrow> (text16 \<times> text16 list) list" where
  "reference_ids uc f rules =
     filter (\<lambda>(tag, values). values \<noteq> [])
       (map (\<lambda>(tag, scheme). (tag, map (\<lambda>e. normalizeId uc (xi_id e))
              (filter (\<lambda>e. xi_scheme e = scheme) (own_ids f))))
         (or_nil (or_idTags rules)))"

definition identified :: "unicode \<Rightarrow> linkable_feature \<Rightarrow> osm_rules \<Rightarrow> osm_candidate \<Rightarrow> bool" where
  "identified uc f rules c \<longleftrightarrow>
     list_ex (\<lambda>e. xi_scheme e = oi_scheme (oc_id c) \<and> xi_id e = oi_id (oc_id c)) (or_nil (lk_externalIds f))
     \<or> list_ex (\<lambda>(tag, values). case oc_tags c tag of None \<Rightarrow> False
          | Some tagged \<Rightarrow> list_ex (\<lambda>i. i \<in> set values) (taggedIds uc tagged)) (reference_ids uc f rules)"

subsection \<open>Nearness\<close>

text \<open>Confidence and distance of a candidate that could be the feature by where it is.\<close>

definition threshold :: "linking_rules \<Rightarrow> link_field \<Rightarrow> real" where
  "threshold rules f = (case map_of (lr_attribute rules) f of None \<Rightarrow> 1 | Some m \<Rightarrow> m)"

definition osm_eligible ::
  "unicode \<Rightarrow> linkable_feature \<Rightarrow> linking_rules \<Rightarrow> osm_rules \<Rightarrow> position \<Rightarrow> osm_candidate \<Rightarrow> (real \<times> real) option" where
  "osm_eligible uc f rules osm point c =
     (if \<not> hasKindTag c (or_tags osm) then None
      else case representativePoint (oc_geometry c) of None \<Rightarrow> None
       | Some other \<Rightarrow>
         (let distance = haversineMetres point other;
              name = tokenSimilarity uc (textOf (lk_name f)) (oc_tags c (u16 ''name'')) (or_nil (lr_nameStopwords rules));
              operator = tokenSimilarity uc (textOf (lk_operator f)) (oc_tags c (u16 ''operator'')) [];
              near = (distance \<le> lr_alwaysMetres rules);
              agrees = (name \<ge> threshold rules NameField \<or> operator \<ge> threshold rules OperatorField)
          in if distance \<ge> lr_neverMetres rules then None
             else if \<not> near \<and> \<not> agrees then None
             else Some (if near then OSM_NEAR_CONFIDENCE else OSM_ATTRIBUTE_CONFIDENCE, distance)))"

text \<open>One turn of the loop that keeps the best match so far, with its distance.\<close>

definition better :: "(osm_candidate \<Rightarrow> (real \<times> real) option) \<Rightarrow> osm_candidate
    \<Rightarrow> (osm_id \<times> real \<times> real) option \<Rightarrow> (osm_id \<times> real \<times> real) option" where
  "better eligible c best = (case eligible c of None \<Rightarrow> best
     | Some (confidence, distance) \<Rightarrow>
         (case best of None \<Rightarrow> Some (oc_id c, confidence, distance)
          | Some (i, bc, bd) \<Rightarrow>
              if confidence > bc \<or> distance < bd then Some (oc_id c, confidence, distance) else best))"

definition matchOsm ::
  "unicode \<Rightarrow> linkable_feature \<Rightarrow> osm_candidate list \<Rightarrow> linking_rules option \<Rightarrow> osm_match option" where
  "matchOsm uc f candidates rules_opt = (case rules_opt of None \<Rightarrow> None | Some rules \<Rightarrow>
     (case lr_osm rules of None \<Rightarrow> None | Some osm \<Rightarrow>
       (case find (identified uc f osm) candidates of
          Some c \<Rightarrow> Some \<lparr>om_id = oc_id c, om_method = ById, om_confidence = OSM_ID_CONFIDENCE\<rparr>
        | None \<Rightarrow>
            if lk_fuzziness f \<noteq> ''exact'' then None
            else (case representativePoint (lk_geometry f) of None \<Rightarrow> None
              | Some point \<Rightarrow>
                (case fold (better (osm_eligible uc f rules osm point)) candidates None of None \<Rightarrow> None
                 | Some (i, confidence, _) \<Rightarrow>
                     Some \<lparr>om_id = i, om_method = SpatialTag, om_confidence = confidence\<rparr>)))))"

subsection \<open>The best match is the nearest\<close>

text \<open>Confidence falls with distance: only a near candidate has the higher one.\<close>

definition graded :: "real \<Rightarrow> real \<times> real \<Rightarrow> bool" where
  "graded limit m \<longleftrightarrow> fst m = (if snd m \<le> limit then OSM_NEAR_CONFIDENCE else OSM_ATTRIBUTE_CONFIDENCE)"

lemma osm_eligible_graded: "osm_eligible uc f rules osm point c = Some m \<Longrightarrow> graded (lr_alwaysMetres rules) m"
  by (auto simp: osm_eligible_def graded_def Let_def split: if_splits option.splits)

lemma better_nearest:
  assumes "\<And>c m. eligible c = Some m \<Longrightarrow> graded limit m"
    and "case best of None \<Rightarrow> True | Some (i, m) \<Rightarrow> graded limit m"
  shows "case fold (better eligible) cs best of
      None \<Rightarrow> best = None \<and> (\<forall>c \<in> set cs. eligible c = None)
    | Some (i, bc, bd) \<Rightarrow> graded limit (bc, bd)
        \<and> (best = Some (i, bc, bd) \<or> (\<exists>c \<in> set cs. oc_id c = i \<and> eligible c = Some (bc, bd)))
        \<and> (\<forall>c \<in> set cs. \<forall>m. eligible c = Some m \<longrightarrow> bd \<le> snd m)
        \<and> (\<forall>j m. best = Some (j, m) \<longrightarrow> bd \<le> snd m)"
  using assms(2)
proof (induction cs arbitrary: best)
  case Nil
  then show ?case by (auto split: option.splits)
next
  case (Cons c cs)
  let ?best' = "better eligible c best"
  have "case ?best' of None \<Rightarrow> True | Some (i, m) \<Rightarrow> graded limit m"
    using Cons.prems assms(1) by (auto simp: better_def split: option.splits)
  note IH = Cons.IH [OF this]
  show ?case
  proof (cases "eligible c")
    case None
    then have "?best' = best" by (simp add: better_def)
    then show ?thesis using IH None by (auto split: option.splits)
  next
    case (Some m)
    obtain mc md where m: "m = (mc, md)" by force
    have gm: "graded limit (mc, md)" using assms(1) Some m by auto
    show ?thesis
    proof (cases best)
      case None
      then have "?best' = Some (oc_id c, mc, md)" using Some m by (simp add: better_def)
      then show ?thesis using IH Some m None by (auto split: option.splits)
    next
      case bs: (Some b)
      obtain i bc bd where b: "b = (i, bc, bd)" by (metis prod_cases3)
      have gb: "graded limit (bc, bd)" using Cons.prems bs b by simp
      show ?thesis
      proof (cases "mc > bc \<or> md < bd")
        case True
        then have "md < bd"
          using gm gb by (auto simp: graded_def OSM_NEAR_CONFIDENCE_def OSM_ATTRIBUTE_CONFIDENCE_def split: if_splits)
        moreover have "?best' = Some (oc_id c, mc, md)" using Some m bs b True by (simp add: better_def)
        ultimately show ?thesis using IH Some m bs b by (auto split: option.splits)
      next
        case False
        then have "bd \<le> md" by simp
        moreover have "?best' = best" using Some m bs b False by (simp add: better_def)
        ultimately show ?thesis using IH Some m bs b by (force split: option.splits)
      qed
    qed
  qed
qed

text \<open>Which element a feature is matched to: one that carries an identity the two share, whatever
  lies nearer; else, of the elements tagged as the feature's kind that are near or agree, one
  that no other is nearer than, with the higher confidence exactly when it is near. A feature whose
  position is not exact is never matched by where it is.\<close>

theorem matchOsm_nearest:
  assumes "matchOsm uc f candidates (Some rules) = Some m" and "lr_osm rules = Some osm"
  shows "(om_method m = ById \<longrightarrow> (\<exists>c \<in> set candidates. oc_id c = om_id m \<and> identified uc f osm c))
    \<and> (om_method m = SpatialTag \<longrightarrow> lk_fuzziness f = ''exact''
        \<and> (\<forall>c \<in> set candidates. \<not> identified uc f osm c)
        \<and> (\<exists>point d. representativePoint (lk_geometry f) = Some point \<and> d < lr_neverMetres rules
             \<and> (\<exists>c \<in> set candidates. oc_id c = om_id m \<and> osm_eligible uc f rules osm point c = Some (om_confidence m, d))
             \<and> (\<forall>c \<in> set candidates. \<forall>e. osm_eligible uc f rules osm point c = Some e \<longrightarrow> d \<le> snd e)
             \<and> (om_confidence m = OSM_NEAR_CONFIDENCE \<longleftrightarrow> d \<le> lr_alwaysMetres rules)))"
proof (cases "find (identified uc f osm) candidates")
  case (Some c)
  then have "m = \<lparr>om_id = oc_id c, om_method = ById, om_confidence = OSM_ID_CONFIDENCE\<rparr>"
    using assms by (simp add: matchOsm_def)
  then show ?thesis using find_in [OF Some] by auto
next
  case None
  then have none: "\<forall>c \<in> set candidates. \<not> identified uc f osm c" by (simp add: find_None_iff)
  obtain point i confidence d where exact: "lk_fuzziness f = ''exact''"
    and point: "representativePoint (lk_geometry f) = Some point"
    and best: "fold (better (osm_eligible uc f rules osm point)) candidates None = Some (i, confidence, d)"
    and m: "m = \<lparr>om_id = i, om_method = SpatialTag, om_confidence = confidence\<rparr>"
    using assms None by (auto simp: matchOsm_def split: if_splits option.splits)
  have "case (None :: (osm_id \<times> real \<times> real) option) of None \<Rightarrow> True | Some (i, m) \<Rightarrow> graded (lr_alwaysMetres rules) m"
    by simp
  from better_nearest [where eligible = "osm_eligible uc f rules osm point" and cs = candidates,
      OF osm_eligible_graded this] best
  have near: "graded (lr_alwaysMetres rules) (confidence, d)"
    "\<exists>c \<in> set candidates. oc_id c = i \<and> osm_eligible uc f rules osm point c = Some (confidence, d)"
    "\<forall>c \<in> set candidates. \<forall>e. osm_eligible uc f rules osm point c = Some e \<longrightarrow> d \<le> snd e"
    by auto
  then obtain c where "osm_eligible uc f rules osm point c = Some (confidence, d)" by blast
  then have "d < lr_neverMetres rules"
    by (auto simp: osm_eligible_def Let_def split: if_splits option.splits)
  moreover have "confidence = OSM_NEAR_CONFIDENCE \<longleftrightarrow> d \<le> lr_alwaysMetres rules"
    using near(1) by (simp add: graded_def OSM_NEAR_CONFIDENCE_def OSM_ATTRIBUTE_CONFIDENCE_def)
  ultimately show ?thesis unfolding m using exact point none near(2,3)
    by (intro conjI impI; simp?) blast
qed

definition sample_osm_rules :: osm_rules where
  "sample_osm_rules = \<lparr>or_tags = [u16 ''amenity=parking''], or_idTags = None\<rparr>"

definition sample_element :: osm_candidate where
  "sample_element = \<lparr>oc_id = \<lparr>oi_scheme = u16 ''osm:node'', oi_id = u16 ''1''\<rparr>,
     oc_tags = [u16 ''amenity'' \<mapsto> u16 ''parking''], oc_geometry = Some (Point (Position 7 50))\<rparr>"

theorem matchOsm_nearest_witness:
  "\<exists>m. matchOsm plain_unicode (sample_site ''a'') [sample_element]
      (Some (sample_rules\<lparr>lr_osm := Some sample_osm_rules\<rparr>)) = Some m
    \<and> om_method m = SpatialTag \<and> lk_fuzziness (sample_site ''a'') = ''exact''"
proof -
  let ?rules = "sample_rules\<lparr>lr_osm := Some sample_osm_rules\<rparr>"
  have tag: "hasKindTag sample_element (or_tags sample_osm_rules)"
    by (simp add: hasKindTag_def sample_osm_rules_def sample_element_def u16_def)
  have ids: "\<not> identified plain_unicode (sample_site ''a'') sample_osm_rules sample_element"
    by (simp add: identified_def sample_site_def or_nil_def reference_ids_def sample_osm_rules_def)
  have pt: "representativePoint (Some (Point (Position 7 50))) = Some (Position 7 50)"
    by (simp add: representativePoint_def walked_positions_def)
  have "osm_eligible plain_unicode (sample_site ''a'') ?rules sample_osm_rules (Position 7 50) sample_element
      = Some (OSM_NEAR_CONFIDENCE, 0)"
    using tag by (simp add: osm_eligible_def sample_element_def pt sample_rules_def)
  then obtain m where m: "matchOsm plain_unicode (sample_site ''a'') [sample_element] (Some ?rules) = Some m"
    and "om_method m = SpatialTag"
    using ids by (auto simp: matchOsm_def better_def sample_site_def pt)
  moreover have "lr_osm ?rules = Some sample_osm_rules" by simp
  from matchOsm_nearest [OF m this] have "om_method m = SpatialTag \<longrightarrow> lk_fuzziness (sample_site ''a'') = ''exact''"
    by blast
  ultimately show ?thesis by blast
qed

end
