(* ===== verification/Components.thy ===== *)
theory Components
  imports Clusters
begin

text \<open>
  The components of a canonical feature: packages/model/src/linking/components.ts, over the
  clusters of theory Clusters.

  \<^item> What the registry says of a component kind's identity is the parameter \<open>identity_of\<close>; \<open>jcs\<close> is
    the canonical JSON of a list of values, \<open>None\<close> for null.
  \<^item> A Set of ids is a list; the map \<open>placed\<close> holds references of which only the key is read, so it
    maps a component's key to that key.
\<close>

subsection \<open>Data\<close>

record component_id =
  ci_scheme :: string
  ci_id :: string
  ci_authority :: "string option"

record 'v linkable_component =
  co_key :: string
  co_parentKey :: "string option"
  co_kind :: string
  co_externalIds :: "component_id list option"
  co_details :: "string \<Rightarrow> 'v option"

record 'v component_holder =
  ch_id :: feature_id
  ch_sourceId :: string
  ch_components :: "'v linkable_component list option"

record canonical_component =
  cp_key :: string
  cp_kind :: string
  cp_parentKey :: "string option"
  cp_members :: "(feature_id \<times> string) list"

record building = canonical_component +
  bu_ids :: "string list"
  bu_fields :: "string option"

record component_identity =
  cy_idSchemes :: "string list option"
  cy_fields :: "string list option"
  cy_withinParent :: bool

definition idKey :: "component_id \<Rightarrow> string" where
  "idKey i = ci_scheme i @ CHR 0x00 # (case ci_authority i of None \<Rightarrow> [] | Some a \<Rightarrow> a) @ CHR 0x00 # ci_id i"

subsection \<open>Placing a component\<close>

record components_state =
  cs_set :: "building list"
  cs_taken :: "string list"
  cs_placed :: "string \<rightharpoonup> string"

definition component_ids :: "component_identity option \<Rightarrow> 'v linkable_component \<Rightarrow> string list" where
  "component_ids identity c =
     map idKey (filter (\<lambda>i. case identity of None \<Rightarrow> False
         | Some y \<Rightarrow> (case cy_idSchemes y of None \<Rightarrow> False | Some ss \<Rightarrow> ci_scheme i \<in> set ss))
       (case co_externalIds c of None \<Rightarrow> [] | Some ids \<Rightarrow> ids))"

definition component_fields ::
  "('v option list \<Rightarrow> string) \<Rightarrow> component_identity option \<Rightarrow> 'v linkable_component \<Rightarrow> string option" where
  "component_fields jcs identity c = (case identity of None \<Rightarrow> None
     | Some y \<Rightarrow> map_option (\<lambda>fs. jcs (map (co_details c) fs)) (cy_fields y))"

definition same_component :: "component_identity option \<Rightarrow> feature_id \<Rightarrow> string \<Rightarrow> string option \<Rightarrow> string list
    \<Rightarrow> string option \<Rightarrow> building \<Rightarrow> bool" where
  "same_component identity featureId kind parent ids idFields b \<longleftrightarrow>
     cp_kind b = kind
     \<and> \<not> list_ex (\<lambda>m. fst m = featureId) (cp_members b)
     \<and> (\<not> (case identity of None \<Rightarrow> False | Some y \<Rightarrow> cy_withinParent y) \<or> cp_parentKey b = parent)
     \<and> (list_ex (\<lambda>i. i \<in> set (bu_ids b)) ids \<or> (idFields \<noteq> None \<and> bu_fields b = idFields))"

text \<open>The local id of a feature, or the whole id when it is no record id.\<close>

definition local_of :: "feature_id \<Rightarrow> string" where
  "local_of featureId = (case parseRecordId (u featureId) of None \<Rightarrow> featureId
     | Some p \<Rightarrow> map char_of (id_local p))"

text \<open>\<open>find\<close> and the update of what it found.\<close>

fun update_first :: "('a \<Rightarrow> bool) \<Rightarrow> ('a \<Rightarrow> 'a) \<Rightarrow> 'a list \<Rightarrow> 'a list" where
  "update_first P f [] = []"
| "update_first P f (x # xs) = (if P x then f x # xs else x # update_first P f xs)"

definition parent_of :: "'v linkable_component \<Rightarrow> components_state \<Rightarrow> string option" where
  "parent_of component s = (case co_parentKey component of None \<Rightarrow> None | Some k \<Rightarrow> cs_placed s k)"

definition same_as ::
  "(string \<Rightarrow> component_identity option) \<Rightarrow> ('v option list \<Rightarrow> string) \<Rightarrow> feature_id
    \<Rightarrow> 'v linkable_component \<Rightarrow> components_state \<Rightarrow> building \<Rightarrow> bool" where
  "same_as identity_of jcs featureId component s =
     (let identity = identity_of (co_kind component)
      in same_component identity featureId (co_kind component) (parent_of component s)
           (component_ids identity component) (component_fields jcs identity component))"

definition place_component ::
  "(string \<Rightarrow> component_identity option) \<Rightarrow> ('v option list \<Rightarrow> string) \<Rightarrow> bool \<Rightarrow> feature_id \<Rightarrow> string
    \<Rightarrow> 'v linkable_component \<Rightarrow> components_state \<Rightarrow> components_state" where
  "place_component identity_of jcs survivor featureId sourceId component s =
     (let identity = identity_of (co_kind component);
          ids = component_ids identity component;
          same = same_as identity_of jcs featureId component s;
          found = (if survivor then None else find same (cs_set s))
      in case found of
           Some b \<Rightarrow> s\<lparr>
             cs_set := update_first same (\<lambda>b. b\<lparr>cp_members := cp_members b @ [(featureId, co_key component)],
               bu_ids := bu_ids b @ ids\<rparr>) (cs_set s),
             cs_placed := (cs_placed s)(co_key component \<mapsto> cp_key b)\<rparr>
         | None \<Rightarrow>
             (let key0 = (if survivor then co_key component else sourceId @ CHR ''/'' # co_key component);
                  key = (if key0 \<in> set (cs_taken s) then local_of featureId @ CHR ''/'' # co_key component else key0);
                  created = \<lparr>cp_key = key, cp_kind = co_kind component, cp_parentKey = parent_of component s,
                    cp_members = [(featureId, co_key component)], bu_ids = ids,
                    bu_fields = component_fields jcs identity component\<rparr>
              in s\<lparr>cs_set := cs_set s @ [created], cs_taken := key # cs_taken s,
                   cs_placed := (cs_placed s)(co_key component \<mapsto> key)\<rparr>))"

text \<open>\<open>Number(a.parentKey !== undefined) - Number(b.parentKey !== undefined)\<close>.\<close>

definition parent_cmp :: "'v linkable_component \<Rightarrow> 'v linkable_component \<Rightarrow> real" where
  "parent_cmp a b = of_bool (co_parentKey a \<noteq> None) - of_bool (co_parentKey b \<noteq> None)"

definition sorted_components :: "'v component_holder \<Rightarrow> 'v linkable_component list" where
  "sorted_components f = js_sort parent_cmp (case ch_components f of None \<Rightarrow> [] | Some cs \<Rightarrow> cs)"

text \<open>One turn of the outer loop; \<open>placed\<close> starts empty for each feature.\<close>

definition place_feature ::
  "(string \<Rightarrow> component_identity option) \<Rightarrow> ('v option list \<Rightarrow> string) \<Rightarrow> (feature_id \<Rightarrow> 'v component_holder option)
    \<Rightarrow> feature_id \<Rightarrow> feature_id \<Rightarrow> components_state \<Rightarrow> components_state" where
  "place_feature identity_of jcs byId survivorId featureId s = (case byId featureId of None \<Rightarrow> s
     | Some f \<Rightarrow> fold (place_component identity_of jcs (featureId = survivorId) featureId (ch_sourceId f))
         (sorted_components f) (s\<lparr>cs_placed := Map.empty\<rparr>))"

definition member_order :: "canonical_cluster \<Rightarrow> feature_id list" where
  "member_order c = cc_survivorId c # filter (\<lambda>i. i \<noteq> cc_survivorId c) (cc_memberIds c)"

text \<open>\<open>new Map(members.map(\<dots>))\<close>: of two members with one id the later wins.\<close>

definition holders :: "'v component_holder list \<Rightarrow> feature_id \<Rightarrow> 'v component_holder option" where
  "holders members = map_of (rev (map (\<lambda>m. (ch_id m, m)) members))"

definition canonicalComponents ::
  "(string \<Rightarrow> component_identity option) \<Rightarrow> ('v option list \<Rightarrow> string) \<Rightarrow> canonical_cluster
    \<Rightarrow> 'v component_holder list \<Rightarrow> canonical_component list" where
  "canonicalComponents identity_of jcs c members =
     map canonical_component.truncate
       (cs_set (fold (place_feature identity_of jcs (holders members) (cc_survivorId c)) (member_order c)
         \<lparr>cs_set = [], cs_taken = [], cs_placed = Map.empty\<rparr>))"

subsection \<open>Every component is placed exactly once\<close>

lemma update_first_find:
  "find P xs = Some x \<Longrightarrow> \<exists>ys zs. xs = ys @ x # zs \<and> update_first P f xs = ys @ f x # zs \<and> P x"
proof (induction xs)
  case (Cons y xs)
  show ?case
  proof (cases "P y")
    case True
    with Cons.prems show ?thesis by (intro exI [of _ "[]"] exI [of _ xs]) simp
  next
    case False
    with Cons obtain ys zs where "xs = ys @ x # zs" "update_first P f xs = ys @ f x # zs" "P x" by auto
    with False show ?thesis by (intro exI [of _ "y # ys"] exI [of _ zs]) simp
  qed
qed simp

text \<open>What holds of the set while it grows: \<open>A\<close> are the components placed so far.\<close>

definition placed_inv ::
  "(feature_id \<Rightarrow> string \<Rightarrow> string \<Rightarrow> bool) \<Rightarrow> (feature_id \<times> string) multiset \<Rightarrow> building list \<Rightarrow> bool" where
  "placed_inv known A bs \<longleftrightarrow> mset (concat (map cp_members bs)) = A
     \<and> list_all (\<lambda>b. distinct (map fst (cp_members b))
          \<and> list_all (\<lambda>(i, k). known i k (cp_kind b)) (cp_members b)) bs"

lemma place_component_inv:
  assumes inv: "placed_inv known A (cs_set s)" and k: "known featureId (co_key c) (co_kind c)"
  shows "placed_inv known (add_mset (featureId, co_key c) A)
    (cs_set (place_component identity_of jcs survivor featureId sourceId c s))"
proof -
  define same where "same = same_as identity_of jcs featureId c s"
  define found where "found = (if survivor then None else find same (cs_set s))"
  note place = place_component_def [of identity_of jcs survivor featureId sourceId c s, folded same_def,
      unfolded Let_def, folded found_def]
  show ?thesis
  proof (cases found)
    case None
    then show ?thesis using inv k by (auto simp: place placed_inv_def)
  next
    case (Some b)
    let ?f = "\<lambda>b. b\<lparr>cp_members := cp_members b @ [(featureId, co_key c)],
      bu_ids := bu_ids b @ component_ids (identity_of (co_kind c)) c\<rparr>"
    have "find same (cs_set s) = Some b" using Some by (simp add: found_def split: if_splits)
    from update_first_find [OF this, of ?f] obtain ys zs where split: "cs_set s = ys @ b # zs"
      and upd: "update_first same ?f (cs_set s) = ys @ ?f b # zs" and "same b" by blast
    then have fresh: "featureId \<notin> fst ` set (cp_members b)" and kind: "cp_kind b = co_kind c"
      by (auto simp: same_def same_as_def Let_def same_component_def list_ex_iff)
    have "cs_set (place_component identity_of jcs survivor featureId sourceId c s) = ys @ ?f b # zs"
      by (simp add: place Some upd)
    then show ?thesis using inv fresh kind k by (simp add: placed_inv_def split)
  qed
qed

lemma place_components_inv:
  assumes "placed_inv known A (cs_set s)" and "\<And>c. c \<in> set cs \<Longrightarrow> known featureId (co_key c) (co_kind c)"
  shows "placed_inv known (A + mset (map (\<lambda>c. (featureId, co_key c)) cs))
    (cs_set (fold (place_component identity_of jcs survivor featureId sourceId) cs s))"
  using assms
proof (induction cs arbitrary: s A)
  case (Cons c cs)
  from place_component_inv [OF Cons.prems(1), of featureId c] Cons.prems(2)
  have "placed_inv known (add_mset (featureId, co_key c) A)
      (cs_set (place_component identity_of jcs survivor featureId sourceId c s))" by simp
  from Cons.IH [OF this] Cons.prems(2) show ?case by simp
qed simp

text \<open>The components of the members of a cluster, each with its feature.\<close>

definition member_components ::
  "(feature_id \<Rightarrow> 'v component_holder option) \<Rightarrow> feature_id \<Rightarrow> (feature_id \<times> string) list" where
  "member_components byId i = (case byId i of None \<Rightarrow> []
     | Some f \<Rightarrow> map (\<lambda>c. (i, co_key c)) (case ch_components f of None \<Rightarrow> [] | Some cs \<Rightarrow> cs))"

definition has_component :: "(feature_id \<Rightarrow> 'v component_holder option) \<Rightarrow> feature_id \<Rightarrow> string \<Rightarrow> string \<Rightarrow> bool" where
  "has_component byId i key kind \<longleftrightarrow> (\<exists>f cs c. byId i = Some f \<and> ch_components f = Some cs \<and> c \<in> set cs
     \<and> co_key c = key \<and> co_kind c = kind)"

lemma place_feature_inv:
  assumes "placed_inv (has_component byId) A (cs_set s)"
  shows "placed_inv (has_component byId) (A + mset (member_components byId i))
    (cs_set (place_feature identity_of jcs byId survivorId i s))"
proof (cases "byId i")
  case None
  then show ?thesis using assms by (simp add: place_feature_def member_components_def)
next
  case (Some f)
  have known: "has_component byId i (co_key c) (co_kind c)" if "c \<in> set (sorted_components f)" for c
    using that Some by (cases "ch_components f") (auto simp: sorted_components_def has_component_def)
  have eq: "mset (map (\<lambda>c. (i, co_key c)) (sorted_components f)) = mset (member_components byId i)"
    by (simp only: sorted_components_def member_components_def Some option.case mset_map mset_js_sort)
  have "placed_inv (has_component byId) A (cs_set (s\<lparr>cs_placed := Map.empty\<rparr>))" using assms by simp
  from place_components_inv [OF this known, of "sorted_components f"] show ?thesis
    by (simp only: place_feature_def Some option.case eq)
qed

lemma place_features_inv:
  "placed_inv (has_component byId) A (cs_set s) \<Longrightarrow>
   placed_inv (has_component byId) (A + mset (concat (map (member_components byId) ids)))
     (cs_set (fold (place_feature identity_of jcs byId survivorId) ids s))"
proof (induction ids arbitrary: s A)
  case (Cons i ids)
  from Cons.IH [OF place_feature_inv [OF Cons.prems]] show ?case by (simp add: add.assoc)
qed simp

text \<open>C14. Nothing a source publishes disappears from the canonical view and nothing is counted twice:
  the members of the canonical components are exactly the components of the cluster's features,
  each in one place; a canonical component takes at most one component of a feature, and only
  components of its own kind.\<close>

theorem canonicalComponents_partition:
  "mset (concat (map cp_members (canonicalComponents identity_of jcs c members)))
     = mset (concat (map (member_components (holders members)) (member_order c)))
   \<and> list_all (\<lambda>b. distinct (map fst (cp_members b))
        \<and> list_all (\<lambda>(i, key). has_component (holders members) i key (cp_kind b)) (cp_members b))
      (canonicalComponents identity_of jcs c members)"
proof -
  let ?s = "\<lparr>cs_set = [], cs_taken = [], cs_placed = Map.empty\<rparr>"
  let ?bs = "cs_set (fold (place_feature identity_of jcs (holders members) (cc_survivorId c)) (member_order c) ?s)"
  have "placed_inv (has_component (holders members)) {#} (cs_set ?s)" by (simp add: placed_inv_def)
  from place_features_inv [OF this, of "member_order c"]
  have "placed_inv (has_component (holders members)) (mset (concat (map (member_components (holders members)) (member_order c)))) ?bs"
    by simp
  moreover have "cp_members (canonical_component.truncate b) = cp_members b"
    "cp_kind (canonical_component.truncate b) = cp_kind b" for b :: building
    by (simp_all add: canonical_component.truncate_def)
  ultimately show ?thesis
    by (simp add: canonicalComponents_def placed_inv_def list.pred_map comp_def)
qed

end
