(* ===== verification/Agreement.thy ===== *)
theory Agreement
  imports Evidence_Ledger Schedule Geometry
begin

text \<open>
  When two records agree: packages/model/src/crowd/agree.ts (its plane geometry is in theory
  Geometry). The registry is the crowd part of it (theory Evidence_Ledger); \<open>zone\<close> is the time
  zone data (theory Schedule) and \<open>jcs\<close> the canonical JSON, both parameters. A money amount is its
  decimal value; 'r is a result that is neither a quantity nor money.
\<close>

subsection \<open>Situations\<close>

record agreeing_situation =
  as_kind :: string
  as_type :: string
  as_geometry :: "geometry option"
  as_validity :: validity

definition situationsAgree ::
  "zone_data \<Rightarrow> crowd_registry \<Rightarrow> agreeing_situation \<Rightarrow> agreeing_situation \<Rightarrow> bool" where
  "situationsAgree zone reg report other_one =
     (if as_kind report \<noteq> as_kind other_one \<or> as_type report \<noteq> as_type other_one then False
      else case (crowdRulesFor reg (SituationTarget (as_kind report) (as_type report)), as_geometry other_one) of
        (Some rules, Some geometry) \<Rightarrow>
          (case va_start (as_validity report) of None \<Rightarrow> False
           | Some made \<Rightarrow>
             if \<not> isValidityInEffectAt zone (as_validity other_one) (stamp_time made) then False
             else (case as_geometry report of None \<Rightarrow> False
               | Some g \<Rightarrow> (case anchorOf g of None \<Rightarrow> False
                 | Some anchor \<Rightarrow> (case distanceToGeometryMetres anchor geometry of None \<Rightarrow> False
                   | Some d \<Rightarrow> d \<le> the (cr_matchMetres rules)))))
      | _ \<Rightarrow> False)"

subsection \<open>Results\<close>

datatype 'r result =
    QuantityResult (q_value: real) (q_unit: string) (q_accuracy: "real option")
  | MoneyResult (m_amount: real) (m_currency: string) (m_per: "string option")
  | OtherResult (o_type: string) (o_value: 'r)

definition result_type :: "'r result \<Rightarrow> string" where
  "result_type r = (case r of QuantityResult _ _ _ \<Rightarrow> ''quantity'' | MoneyResult _ _ _ \<Rightarrow> ''money''
     | OtherResult t _ \<Rightarrow> t)"

definition tolerance_of :: "crowd_registry \<Rightarrow> string \<Rightarrow> real" where
  "tolerance_of reg prop = (case crowd_properties reg prop of None \<Rightarrow> 0 | Some r \<Rightarrow> nullish (pc_tolerance r) 0)"

definition resultsAgree ::
  "('r result \<Rightarrow> string) \<Rightarrow> crowd_registry \<Rightarrow> string \<Rightarrow> 'r result \<Rightarrow> 'r result \<Rightarrow> bool" where
  "resultsAgree jcs reg prop a b =
     (if result_type a \<noteq> result_type b then False
      else case (a, b) of
        (QuantityResult va ua _, QuantityResult vb ub _) \<Rightarrow> ua = ub \<and> \<bar>va - vb\<bar> \<le> tolerance_of reg prop + 1 / 10 ^ 9
      | (MoneyResult va ca pa, MoneyResult vb cb pb) \<Rightarrow>
          ca = cb \<and> pa = pb \<and> \<bar>va - vb\<bar> \<le> tolerance_of reg prop + 1 / 10 ^ 9
      | _ \<Rightarrow> jcs a = jcs b)"

subsection \<open>Observations\<close>

datatype phenomenon_time = AtInstant instant | Between instant instant

record ('q, 'r) agreeing_observation =
  ao_property :: string
  ao_qualifiers :: "'q option"
  ao_result :: "'r result"
  ao_time :: phenomenon_time

definition startOf :: "phenomenon_time \<Rightarrow> instant" where
  "startOf t = (case t of AtInstant i \<Rightarrow> i | Between s _ \<Rightarrow> s)"

text \<open>\<open>x <= y\<close> of an instant and a number of milliseconds that may be NaN.\<close>

definition instant_upto :: "instant \<Rightarrow> real option \<Rightarrow> bool" where
  "instant_upto a b = (case (a, b) of (Some x, Some y) \<Rightarrow> of_int x \<le> y | _ \<Rightarrow> False)"

definition observationConfirms ::
  "('r result \<Rightarrow> string) \<Rightarrow> ('q option \<Rightarrow> string) \<Rightarrow> crowd_registry \<Rightarrow> ('q, 'r) agreeing_observation \<Rightarrow> instant option
    \<Rightarrow> ('q, 'r) agreeing_observation \<Rightarrow> instant option \<Rightarrow> bool" where
  "observationConfirms jcs jcsQualifiers reg report expiresAt authoritative validUntil =
     (if ao_property report \<noteq> ao_property authoritative then False
      else if jcsQualifiers (ao_qualifiers report) \<noteq> jcsQualifiers (ao_qualifiers authoritative) then False
      else case crowdRulesFor reg (ObservationTarget (ao_property report)) of None \<Rightarrow> False
        | Some rules \<Rightarrow>
          (let made = startOf (ao_time report);
               start = startOf (ao_time authoritative);
               ended = (case ao_time authoritative of Between _ e \<Rightarrow> e
                 | AtInstant _ \<Rightarrow> (case validUntil of None \<Rightarrow> None | Some v \<Rightarrow> v));
               inForce = (inst_le start made \<and> \<not> inst_le ended made);
               alive = (case expiresAt of
                   None \<Rightarrow> map_option (\<lambda>t. of_int t + cr_ttlSec rules * 1000) made
                 | Some e \<Rightarrow> map_option of_int e);
               after = (inst_less made start \<and> instant_upto start alive)
           in if \<not> inForce \<and> \<not> after then False
              else resultsAgree jcs reg (ao_property report) (ao_result report) (ao_result authoritative)))"

subsection \<open>What agreement means\<close>

text \<open>The distance agreement measures is the exact one: zero when the geometry covers the point, none
  when it has no part, and otherwise the least distance, in the plane tangent at the point, from
  the point to any point of any line or ring of the geometry, and some point of it is that far.\<close>

theorem distance_exact:
  "if list_ex covers_origin (plane_polygons point g) then distanceToGeometryMetres point g = Some 0
   else least_of (distanceToGeometryMetres point g) (\<Union>r \<in> set (plane_lines point g). line_distances r)"
  by (rule distance_least)

lemma plane_distance_nonneg: "distanceToGeometryMetres point g = Some d \<Longrightarrow> 0 \<le> d"
  using distance_least [of point g] line_distances_nonneg
  by (auto simp: least_of_def split: if_splits)

text \<open>Two situations agree only about one phenomenon: they are of one kind and type, the other one
  was in effect when the report was made, and it covers the reported place or some point of it
  lies within the kind's match distance of it.\<close>

theorem situationsAgree_near:
  assumes "situationsAgree zone reg report other_one"
  shows "as_kind report = as_kind other_one \<and> as_type report = as_type other_one
    \<and> (\<exists>made. va_start (as_validity report) = Some made
         \<and> isValidityInEffectAt zone (as_validity other_one) (stamp_time made))
    \<and> (\<exists>rules g g' anchor. crowdRulesFor reg (SituationTarget (as_kind report) (as_type report)) = Some rules
         \<and> as_geometry report = Some g \<and> as_geometry other_one = Some g' \<and> anchorOf g = Some anchor
         \<and> (list_ex covers_origin (plane_polygons anchor g')
            \<or> (\<exists>r \<in> set (plane_lines anchor g'). \<exists>d \<in> line_distances r. d \<le> the (cr_matchMetres rules))))"
proof -
  from assms obtain rules g' made g anchor d where kinds: "as_kind report = as_kind other_one" "as_type report = as_type other_one"
    and rules: "crowdRulesFor reg (SituationTarget (as_kind report) (as_type report)) = Some rules"
    and made: "va_start (as_validity report) = Some made"
      "isValidityInEffectAt zone (as_validity other_one) (stamp_time made)"
    and geo: "as_geometry other_one = Some g'" "as_geometry report = Some g" "anchorOf g = Some anchor"
    and d: "distanceToGeometryMetres anchor g' = Some d" "d \<le> the (cr_matchMetres rules)"
    by (auto simp: situationsAgree_def split: if_splits option.splits)
  have "list_ex covers_origin (plane_polygons anchor g')
      \<or> (\<exists>r \<in> set (plane_lines anchor g'). \<exists>d \<in> line_distances r. d \<le> the (cr_matchMetres rules))"
    using distance_least [of anchor g'] d by (auto simp: least_of_def split: if_splits)
  then show ?thesis using kinds rules made geo by blast
qed

text \<open>Agreement of results takes no side and every result agrees with itself: the order of the two
  readings does not matter, whatever the tolerance, as long as it is not negative.\<close>

theorem resultsAgree_symmetric:
  assumes "0 \<le> tolerance_of reg prop"
  shows "resultsAgree jcs reg prop a b = resultsAgree jcs reg prop b a \<and> resultsAgree jcs reg prop a a"
proof
  show "resultsAgree jcs reg prop a b = resultsAgree jcs reg prop b a"
    by (auto simp: resultsAgree_def result_type_def abs_minus_commute split: result.splits)
  show "resultsAgree jcs reg prop a a"
    using assms by (auto simp: resultsAgree_def split: result.splits)
qed

subsection \<open>Witnesses\<close>

definition sample_situation :: agreeing_situation where
  "sample_situation = \<lparr>as_kind = ''roadworks'', as_type = ''works'',
     as_geometry = Some (Point (Position 7 50)),
     as_validity = \<lparr>va_status = ''active'', va_start = Some (Stamp ''1970-01-01T00:00:01Z'' (Some 1000)),
       va_end = None, va_periods = None, va_exceptions = None\<rparr>\<rparr>"

definition sample_registry :: crowd_registry where
  "sample_registry = \<lparr>situation_kinds = (\<lambda>k. Some \<lparr>sk_lifetime = \<lparr>lt_ttlSec = 3600, lt_maxLifetimeSec = 7200\<rparr>,
       sk_types = (\<lambda>t. None), sk_corroborationKeys = None, sk_negationKeys = None, sk_matchMetres = None\<rparr>),
     crowd_properties = (\<lambda>p. Some \<lparr>pc_lifetime = \<lparr>lt_ttlSec = 3600, lt_maxLifetimeSec = 7200\<rparr>,
       pc_corroborationKeys = None, pc_negationKeys = None, pc_tolerance = Some 2, pc_reachMetres = None\<rparr>)\<rparr>"

lemma sample_parts:
  "as_geometry sample_situation = Some (Point (Position 7 50))" "as_kind sample_situation = ''roadworks''"
  "as_type sample_situation = ''works''"
  "va_start (as_validity sample_situation) = Some (Stamp ''1970-01-01T00:00:01Z'' (Some 1000))"
  by (simp_all only: sample_situation_def agreeing_situation.select_convs validity.select_convs)

lemma sample_in_effect: "isValidityInEffectAt zone (as_validity sample_situation) (Some 1000)"
  by (simp add: isValidityInEffectAt_def isInEffectAt_def sample_situation_def truthy_stamp_def listed_def)

lemma sample_rules_for:
  "\<exists>rules. crowdRulesFor sample_registry (SituationTarget kind type) = Some rules \<and> cr_matchMetres rules = Some 250"
  by (simp add: crowdRulesFor_def sample_registry_def Let_def)

lemma sample_agrees: "situationsAgree zone sample_registry sample_situation sample_situation"
proof -
  obtain rules where rules: "crowdRulesFor sample_registry (SituationTarget ''roadworks'' ''works'') = Some rules"
    "cr_matchMetres rules = Some 250"
    using sample_rules_for by blast
  have "anchorOf (Point p) = Some p" for p by (simp add: anchorOf_def)
  then show ?thesis
    by (simp add: situationsAgree_def sample_parts rules sample_in_effect distance_to_self)
qed

theorem situationsAgree_near_witness:
  "\<exists>rules. crowdRulesFor sample_registry (SituationTarget ''roadworks'' ''works'') = Some rules
    \<and> situationsAgree (\<lambda>tz t. None) sample_registry sample_situation sample_situation"
  using situationsAgree_near [OF sample_agrees [of "\<lambda>tz t. None"]] sample_agrees [of "\<lambda>tz t. None"]
  unfolding sample_parts by blast

theorem resultsAgree_symmetric_witness:
  "resultsAgree (\<lambda>r :: unit result. []) sample_registry ''fuel_price'' (MoneyResult 1 ''EUR'' None) (MoneyResult 2 ''EUR'' None)
     = resultsAgree (\<lambda>r :: unit result. []) sample_registry ''fuel_price'' (MoneyResult 2 ''EUR'' None) (MoneyResult 1 ''EUR'' None)"
proof -
  have "0 \<le> tolerance_of sample_registry ''fuel_price''" by (simp add: tolerance_of_def sample_registry_def)
  then show ?thesis by (rule conjunct1 [OF resultsAgree_symmetric])
qed

end
