(* ===== verification/Observation_Id.thy ===== *)
theory Observation_Id
  imports Geometry
begin

text \<open>
  The identity of an observation: packages/model/src/classes/observation.ts. The hash and the
  canonical JSON of what is hashed are a record of functions, a parameter; an ISO string of an
  instant is its milliseconds.
\<close>

datatype 's subject =
    FeatureSubject (su_featureId: string) (su_componentKey: "string option")
  | SegmentsSubject 's
  | LocationSubject
  | SituationSubject (su_situationId: string)

record keyable_location =
  kl_geometry :: "geometry option"
  kl_geocodes :: "(string \<times> string) list option"

record ('s, 'q) digests =
  dg_sha256 :: "string \<Rightarrow> string"
  dg_geometry :: "geometry \<Rightarrow> string"
  dg_spans :: "'s \<Rightarrow> string"
  dg_qualifiers :: "'q \<Rightarrow> string"
  dg_series :: "string \<times> string \<times> string \<times> int \<times> int option \<Rightarrow> string"

record ('s, 'q) keyable =
  ke_subject :: "'s subject"
  ke_location :: keyable_location
  ke_property :: string
  ke_qualifiers :: "'q option"
  ke_start :: instant
  ke_issuedAt :: "instant option"

definition locationKeyOf :: "('s, 'q) digests \<Rightarrow> keyable_location \<Rightarrow> string option" where
  "locationKeyOf dg location = (case kl_geocodes location of
     Some ((scheme, code) # _) \<Rightarrow> Some (''location:'' @ scheme @ '':'' @ code)
   | _ \<Rightarrow> (case kl_geometry location of
       Some g \<Rightarrow> Some (''location:'' @ dg_sha256 dg (dg_geometry dg g))
     | None \<Rightarrow> None))"

definition subjectKey :: "('s, 'q) digests \<Rightarrow> 's subject \<Rightarrow> keyable_location \<Rightarrow> js_error + string" where
  "subjectKey dg subject location = (case subject of
     FeatureSubject featureId None \<Rightarrow> Inr (''feature:'' @ featureId)
   | FeatureSubject featureId (Some componentKey) \<Rightarrow> Inr (''feature:'' @ featureId @ ''#'' @ componentKey)
   | SegmentsSubject spans \<Rightarrow> Inr (''segments:'' @ dg_sha256 dg (dg_spans dg spans))
   | SituationSubject situationId \<Rightarrow> Inr (''situation:'' @ situationId)
   | LocationSubject \<Rightarrow> (case locationKeyOf dg location of
       None \<Rightarrow> Inl (TypeError ''a location subject needs an admin geocode or a geometry'')
     | Some key \<Rightarrow> Inr key))"

definition qualifierKey :: "('s, 'q) digests \<Rightarrow> 'q option \<Rightarrow> string" where
  "qualifierKey dg q = (case q of None \<Rightarrow> [] | Some v \<Rightarrow> dg_qualifiers dg v)"

text \<open>\<open>new Date(text).toISOString()\<close> of a timestamp.\<close>

definition iso_of :: "instant \<Rightarrow> js_error + int" where
  "iso_of t = (case t of None \<Rightarrow> Inl (RangeError ''Invalid time value'') | Some ms \<Rightarrow> Inr ms)"

definition observationLocalId :: "('s, 'q) digests \<Rightarrow> ('s, 'q) keyable \<Rightarrow> js_error + string" where
  "observationLocalId dg o' =
     bindE (iso_of (ke_start o')) (\<lambda>start.
     bindE (subjectKey dg (ke_subject o') (ke_location o')) (\<lambda>subject.
     bindE (case ke_issuedAt o' of None \<Rightarrow> Inr None | Some t \<Rightarrow> bindE (iso_of t) (\<lambda>ms. Inr (Some ms))) (\<lambda>issued.
       Inr (dg_sha256 dg (dg_series dg
         (subject, ke_property o', qualifierKey dg (ke_qualifiers o'), start, issued))))))"

definition observationId :: "('s, 'q) digests \<Rightarrow> string \<Rightarrow> ('s, 'q) keyable \<Rightarrow> js_error + string" where
  "observationId dg namespace o' =
     bindE (observationLocalId dg o') (\<lambda>local. Inr (''oc:observation:'' @ namespace @ '':'' @ local))"

text \<open>The series and the point an id stands for.\<close>

definition series_point :: "('s, 'q) digests \<Rightarrow> ('s, 'q) keyable \<Rightarrow> js_error + (string \<times> string \<times> string \<times> int \<times> int option)" where
  "series_point dg o' =
     bindE (iso_of (ke_start o')) (\<lambda>start.
     bindE (subjectKey dg (ke_subject o') (ke_location o')) (\<lambda>subject.
     bindE (case ke_issuedAt o' of None \<Rightarrow> Inr None | Some t \<Rightarrow> bindE (iso_of t) (\<lambda>ms. Inr (Some ms))) (\<lambda>issued.
       Inr (subject, ke_property o', qualifierKey dg (ke_qualifiers o'), start, issued))))"

lemma observationLocalId_series:
  "observationLocalId dg o' = bindE (series_point dg o') (\<lambda>p. Inr (dg_sha256 dg (dg_series dg p)))"
  by (simp add: observationLocalId_def series_point_def bindE_def split: sum.split)

text \<open>One id is one point of one series: where the digest tells two points apart, two observations
  of an instance have the same id exactly when they agree in subject key, property, qualifier key,
  start instant and forecast issue, and each of the two has an id exactly when its times parse
  and a subject that is a location has a geocode or a geometry.\<close>

theorem observationId_point:
  assumes "series_point dg o1 = Inr p1" and "series_point dg o2 = Inr p2"
    and "dg_sha256 dg (dg_series dg p1) = dg_sha256 dg (dg_series dg p2) \<Longrightarrow> p1 = p2"
  shows "(\<exists>i. observationId dg namespace o1 = Inr i)
    \<and> (observationId dg namespace o1 = observationId dg namespace o2 \<longleftrightarrow> p1 = p2)"
  using assms by (auto simp: observationId_def observationLocalId_series)

text \<open>A feature's own id may hold the sign that separates it from a component's key, so a feature and
  another feature's component can have one subject key.\<close>

lemma subject_keys_collide:
  "subjectKey dg (FeatureSubject ''oc:feature:a:x#1'' None) l = subjectKey dg (FeatureSubject ''oc:feature:a:x'' (Some ''1'')) l
   \<and> (FeatureSubject ''oc:feature:a:x#1'' None :: 's subject) \<noteq> FeatureSubject ''oc:feature:a:x'' (Some ''1'')"
  by (simp add: subjectKey_def)

definition sample_digests :: "(unit, string) digests" where
  "sample_digests = \<lparr>dg_sha256 = (\<lambda>s. s), dg_geometry = (\<lambda>g. ''g''), dg_spans = (\<lambda>s. ''s''), dg_qualifiers = (\<lambda>q. q),
     dg_series = (\<lambda>(s, p, q, t, f). s @ ''|'' @ p @ ''|'' @ q @ ''|'' @ (if t = 0 then ''0'' else ''1''))\<rparr>"

definition sample_reading :: "int \<Rightarrow> (unit, string) keyable" where
  "sample_reading t = \<lparr>ke_subject = FeatureSubject ''oc:feature:a:x'' None,
     ke_location = \<lparr>kl_geometry = None, kl_geocodes = None\<rparr>, ke_property = ''fuel_price'', ke_qualifiers = None,
     ke_start = Some t, ke_issuedAt = None\<rparr>"

theorem observationId_point_witness:
  "observationId sample_digests ''a'' (sample_reading 0) \<noteq> observationId sample_digests ''a'' (sample_reading 1)"
proof -
  have p: "series_point sample_digests (sample_reading t) = Inr (''feature:oc:feature:a:x'', ''fuel_price'', [], t, None)" for t
    by (simp add: series_point_def sample_reading_def iso_of_def subjectKey_def qualifierKey_def)
  have "observationId sample_digests ''a'' (sample_reading 0) = observationId sample_digests ''a'' (sample_reading 1)
      \<longleftrightarrow> (''feature:oc:feature:a:x'', ''fuel_price'', ([] :: string), 0 :: int, None :: int option)
        = (''feature:oc:feature:a:x'', ''fuel_price'', [], 1, None)"
    by (rule conjunct2 [OF observationId_point [OF p p]]) (simp add: sample_digests_def)
  then show ?thesis by simp
qed

end
