(* ===== verification/Landing.thy ===== *)
theory Landing
  imports Agreement Observation_Id Identity
begin

text \<open>
  Landing a crowd report: packages/model/src/crowd/land.ts. 'j is JSON the landing only copies
  (effects, details, text, results, qualifiers, attribution, locations but for their geometry).

  \<^item> A claim is one the claim schema accepted; the schema itself, the registry's kinds and the final
    validation of the draft are the parameters \<open>checked\<close>, \<open>deriveSeverity\<close>, \<open>majorVersion\<close> and
    \<open>validateDraft\<close>. \<open>crowdLocalId\<close> is the hash of key and nonce.
  \<^item> What the server adds (its clock, its credit, what a feature resolves to) is the context.
\<close>

subsection \<open>Claims and contexts\<close>

record 'j location_ref =
  lo_geometry :: "geometry option"
  lo_rest :: 'j

record 'j situation_claim =
  sc_kind :: string
  sc_type :: string
  sc_subtype :: "string option"
  sc_geometry :: geometry
  sc_fuzziness :: string
  sc_severityLevel :: "nat option"
  sc_effects :: "'j list option"
  sc_details :: "'j option"
  sc_text :: "'j option"
  sc_reportedAt :: instant
  sc_nonce :: string

datatype 'j claim_subject =
    ClaimFeature string "string option"
  | ClaimPlace "'j location_ref"

record 'j observation_claim =
  ob_subject :: "'j claim_subject"
  ob_property :: string
  ob_qualifiers :: "'j option"
  ob_result :: 'j
  ob_position :: position
  ob_reportedAt :: instant
  ob_nonce :: string

datatype 'j report_claim = SituationClaim "'j situation_claim" | ObservationClaim "'j observation_claim"

record 'j resolved_feature =
  rf_featureId :: string
  rf_componentKey :: "string option"
  rf_location :: "'j location_ref"
  rf_reachFrom :: "'j location_ref option"

record 'j landing_context =
  lx_instanceId :: string
  lx_now :: instant
  lx_attribution :: 'j
  lx_resolveFeature :: "string \<Rightarrow> string option \<Rightarrow> 'j resolved_feature option"
  lx_placeReachFrom :: "'j location_ref option"

record issue =
  is_path :: string
  is_code :: string
  is_message :: string

definition MAX_CLOCK_SKEW_MS :: int where "MAX_CLOCK_SKEW_MS = 5 * 60 * 1000"
definition MAX_REPORT_AGE_MS :: int where "MAX_REPORT_AGE_MS = 24 * 3600 * 1000"

subsection \<open>Drafts\<close>

definition LABEL_OF_LEVEL :: "string list" where
  "LABEL_OF_LEVEL = [''minor'', ''minor'', ''moderate'', ''major'', ''critical'']"

definition extentOf :: "geometry \<Rightarrow> string" where
  "extentOf g = (case g of Point _ \<Rightarrow> ''point'' | MultiPoint _ \<Rightarrow> ''point'' | LineString _ \<Rightarrow> ''linear''
     | MultiLineString _ \<Rightarrow> ''linear'' | _ \<Rightarrow> ''area'')"

definition addSeconds :: "instant \<Rightarrow> real \<Rightarrow> js_error + int" where
  "addSeconds t sec = (case t of None \<Rightarrow> Inl (RangeError ''Invalid time value'')
     | Some ms \<Rightarrow> to_iso (of_int ms + sec * 1000))"

record 'j crowd_provenance =
  pv_origin :: string
  pv_sourceId :: string
  pv_sourceFormat :: string
  pv_accessMode :: string
  pv_recordId :: string
  pv_attribution :: 'j
  pv_reporter :: string
  pv_privacy :: string

definition provenance :: "'j landing_context \<Rightarrow> string \<Rightarrow> string \<Rightarrow> 'j crowd_provenance" where
  "provenance ctx keyId localId = \<lparr>pv_origin = ''crowd'', pv_sourceId = ''crowd'', pv_sourceFormat = ''crowd'',
     pv_accessMode = ''bulk'', pv_recordId = localId, pv_attribution = lx_attribution ctx,
     pv_reporter = keyId, pv_privacy = ''crowd_pseudonym''\<rparr>"

text \<open>Label, level and source.\<close>

type_synonym severity_ref = "string \<times> nat option \<times> string option"

record 'j situation_draft =
  sd_id :: code_points
  sd_kind :: string
  sd_type :: string
  sd_subtype :: "string option"
  sd_geometry :: geometry
  sd_extent :: string
  sd_fuzziness :: string
  sd_provenance :: "'j crowd_provenance"
  sd_fetchedAt :: instant
  sd_expiresAt :: int
  sd_severity :: severity_ref
  sd_description :: "'j option"
  sd_start :: instant
  sd_effects :: "'j list"
  sd_details :: "'j + (string \<times> nat)"

record 'j observation_draft =
  od_id :: string
  od_property :: string
  od_subject :: "unit subject"
  od_qualifiers :: "'j option"
  od_result :: 'j
  od_instant :: instant
  od_location :: "'j location_ref"
  od_provenance :: "'j crowd_provenance"
  od_fetchedAt :: instant
  od_expiresAt :: int

datatype 'j draft = SituationDraft "'j situation_draft" | ObservationDraft "'j observation_draft"

record 'j land_env =
  le_registry :: crowd_registry
  le_hash :: "string \<Rightarrow> string \<Rightarrow> string"
  le_digests :: "(unit, 'j) digests"
  le_geocodes :: "'j location_ref \<Rightarrow> (string \<times> string) list option"
  le_deriveSeverity :: "string \<Rightarrow> string \<Rightarrow> string option \<Rightarrow> 'j list \<Rightarrow> string option"
  le_majorVersion :: "string \<Rightarrow> nat"
  le_validateDraft :: "'j draft \<Rightarrow> issue list + 'j draft"

definition crowdLocalId :: "'j land_env \<Rightarrow> string \<Rightarrow> string \<Rightarrow> string" where
  "crowdLocalId env keyId nonce = le_hash env keyId nonce"

definition situationDraft ::
  "'j land_env \<Rightarrow> 'j situation_claim \<Rightarrow> string \<Rightarrow> 'j landing_context \<Rightarrow> int \<Rightarrow> js_error + 'j situation_draft" where
  "situationDraft env claim keyId ctx expiresAt =
     (let localId = crowdLocalId env keyId (sc_nonce claim);
          effects = (case sc_effects claim of None \<Rightarrow> [] | Some es \<Rightarrow> es);
          derived = (if sc_severityLevel claim = None
            then le_deriveSeverity env (sc_kind claim) (sc_type claim) (sc_subtype claim) effects else None);
          severity = (case sc_severityLevel claim of
              Some level \<Rightarrow> (LABEL_OF_LEVEL ! (level - 1), Some level, Some ''declared'')
            | None \<Rightarrow> (case derived of Some label \<Rightarrow> (label, None, Some ''derived'')
                | None \<Rightarrow> (''unknown'', None, None)))
      in bindE (formatRecordId \<lparr>id_class = u ''situation'', id_namespace = u (lx_instanceId ctx), id_local = u localId\<rparr>)
        (\<lambda>i. Inr \<lparr>sd_id = i, sd_kind = sc_kind claim, sd_type = sc_type claim, sd_subtype = sc_subtype claim,
          sd_geometry = sc_geometry claim, sd_extent = extentOf (sc_geometry claim), sd_fuzziness = sc_fuzziness claim,
          sd_provenance = provenance ctx keyId localId, sd_fetchedAt = lx_now ctx, sd_expiresAt = expiresAt,
          sd_severity = severity, sd_description = sc_text claim, sd_start = sc_reportedAt claim, sd_effects = effects,
          sd_details = (case sc_details claim of Some d \<Rightarrow> Inl d
            | None \<Rightarrow> Inr (sc_kind claim, le_majorVersion env (sc_kind claim)))\<rparr>))"

text \<open>Subject, location to copy, location to measure from, and whether that one is hidden.\<close>

definition observed_subject ::
  "'j observation_claim \<Rightarrow> 'j landing_context
    \<Rightarrow> issue + (unit subject \<times> 'j location_ref \<times> 'j location_ref \<times> bool)" where
  "observed_subject claim ctx = (case ob_subject claim of
     ClaimFeature featureId componentKey \<Rightarrow>
       (case lx_resolveFeature ctx featureId componentKey of
          None \<Rightarrow> Inl \<lparr>is_path = ''subject'', is_code = ''unknown_subject'',
            is_message = ''no feature '' @ featureId @
              (case componentKey of None \<Rightarrow> [] | Some k \<Rightarrow> '' with component '' @ k)\<rparr>
        | Some r \<Rightarrow> Inr (FeatureSubject (rf_featureId r) (rf_componentKey r), rf_location r,
            nullish (rf_reachFrom r) (rf_location r), rf_reachFrom r \<noteq> None))
   | ClaimPlace location \<Rightarrow> Inr (LocationSubject, location, nullish (lx_placeReachFrom ctx) location,
       lx_placeReachFrom ctx \<noteq> None))"

text \<open>The reach of a reporter: the issue when the subject is out of it. \<open>metres\<close> prints a number.\<close>

definition reach_issue :: "(real \<Rightarrow> string) \<Rightarrow> position \<Rightarrow> 'j location_ref \<Rightarrow> bool \<Rightarrow> real \<Rightarrow> issue option" where
  "reach_issue metres p reachFrom hidden reachMetres =
     (let away = (case lo_geometry reachFrom of None \<Rightarrow> None | Some g \<Rightarrow> Some (distanceToGeometryMetres p g));
          refused = (case away of None \<Rightarrow> True | Some None \<Rightarrow> True | Some (Some d) \<Rightarrow> d > reachMetres);
          message = (case away of None \<Rightarrow> ''the subject has no position to observe it at''
            | Some d \<Rightarrow> if hidden then ''further than '' @ metres reachMetres @ '' m from the subject''
              else ''reported '' @ (case d of None \<Rightarrow> ''Infinity'' | Some x \<Rightarrow> metres (of_int \<lfloor>x + 1 / 2\<rfloor>))
                @ '' m from the subject, further than '' @ metres reachMetres @ '' m'')
      in if refused then Some \<lparr>is_path = ''geometry'', is_code = ''out_of_reach'', is_message = message\<rparr> else None)"

definition observationDraft ::
  "(real \<Rightarrow> string) \<Rightarrow> 'j land_env \<Rightarrow> 'j observation_claim \<Rightarrow> string \<Rightarrow> 'j landing_context \<Rightarrow> int \<Rightarrow> real
    \<Rightarrow> js_error + (issue + 'j observation_draft)" where
  "observationDraft metres env claim keyId ctx expiresAt reachMetres =
     (case observed_subject claim ctx of Inl i \<Rightarrow> Inr (Inl i)
      | Inr (subject, location, reachFrom, reachHidden) \<Rightarrow>
        (case reach_issue metres (ob_position claim) reachFrom reachHidden reachMetres of Some i \<Rightarrow> Inr (Inl i)
         | None \<Rightarrow>
           (let localId = crowdLocalId env keyId (ob_nonce claim);
                keyed = \<lparr>ke_subject = subject,
                  ke_location = \<lparr>kl_geometry = lo_geometry location, kl_geocodes = le_geocodes env location\<rparr>,
                  ke_property = ob_property claim, ke_qualifiers = ob_qualifiers claim,
                  ke_start = ob_reportedAt claim, ke_issuedAt = None\<rparr>
            in bindE (observationId (le_digests env) (lx_instanceId ctx) keyed) (\<lambda>i.
                 Inr (Inr \<lparr>od_id = i, od_property = ob_property claim, od_subject = subject,
                   od_qualifiers = ob_qualifiers claim, od_result = ob_result claim, od_instant = ob_reportedAt claim,
                   od_location = location, od_provenance = provenance ctx keyId localId,
                   od_fetchedAt = lx_now ctx, od_expiresAt = expiresAt\<rparr>)))))"

subsection \<open>Landing\<close>

datatype 'j landing = Landed "'j draft" int | Refused "issue list"

definition claim_reportedAt :: "'j report_claim \<Rightarrow> instant" where
  "claim_reportedAt claim = (case claim of SituationClaim c \<Rightarrow> sc_reportedAt c | ObservationClaim c \<Rightarrow> ob_reportedAt c)"

definition claim_target :: "'j report_claim \<Rightarrow> crowd_target" where
  "claim_target claim = (case claim of SituationClaim c \<Rightarrow> SituationTarget (sc_kind c) (sc_type c)
     | ObservationClaim c \<Rightarrow> ObservationTarget (ob_property c))"

definition late_issue :: "string \<Rightarrow> string \<Rightarrow> issue" where
  "late_issue code message = \<lparr>is_path = ''reportedAt'', is_code = code, is_message = message\<rparr>"

text \<open>The window: the first issue of a report made at one instant and arriving at another.\<close>

definition window_issue :: "instant \<Rightarrow> instant \<Rightarrow> issue option" where
  "window_issue madeAt now = (case (madeAt, now) of
     (Some r, Some n) \<Rightarrow>
       if r > n + MAX_CLOCK_SKEW_MS then Some (late_issue ''reported_in_future'' ''reported ahead of the server clock'')
       else if n - r > MAX_REPORT_AGE_MS then Some (late_issue ''reported_too_long_ago''
         ''a report uploaded more than a day after it was made is no longer an observation'')
       else None
   | _ \<Rightarrow> None)"

text \<open>The claim as its schema left it, or the schema's issues.\<close>

definition landClaim ::
  "(real \<Rightarrow> string) \<Rightarrow> 'j land_env \<Rightarrow> issue list + 'j report_claim \<Rightarrow> string \<Rightarrow> 'j landing_context
    \<Rightarrow> js_error + 'j landing" where
  "landClaim metres env checked keyId ctx = (case checked of Inl issues \<Rightarrow> Inr (Refused issues)
   | Inr claim \<Rightarrow>
     (case crowdRulesFor (le_registry env) (claim_target claim) of
        None \<Rightarrow> Inl (TypeError ''undefined'')
      | Some rules \<Rightarrow>
        (case window_issue (claim_reportedAt claim) (lx_now ctx) of Some i \<Rightarrow> Inr (Refused [i])
         | None \<Rightarrow>
           bindE (addSeconds (claim_reportedAt claim) (cr_ttlSec rules)) (\<lambda>expiresAt.
             if inst_le (Some expiresAt) (lx_now ctx)
             then Inr (Refused [late_issue ''expired_on_arrival'' ''the report's lifetime had ended before it arrived''])
             else bindE (case claim of
                 SituationClaim c \<Rightarrow> bindE (situationDraft env c keyId ctx expiresAt) (\<lambda>d. Inr (Inr (SituationDraft d)))
               | ObservationClaim c \<Rightarrow>
                   bindE (observationDraft metres env c keyId ctx expiresAt (the (cr_reachMetres rules))) (\<lambda>built.
                     Inr (case built of Inl i \<Rightarrow> Inl i | Inr d \<Rightarrow> Inr (ObservationDraft d))))
               (\<lambda>built. case built of Inl i \<Rightarrow> Inr (Refused [i])
                 | Inr draft \<Rightarrow> (case le_validateDraft env draft of Inl issues \<Rightarrow> Inr (Refused issues)
                     | Inr valid \<Rightarrow> Inr (Landed valid expiresAt)))))))"

subsection \<open>What lands\<close>

lemma addSeconds_Inr: "addSeconds t sec = Inr e \<longleftrightarrow> (\<exists>ms. t = Some ms \<and> to_iso (of_int ms + sec * 1000) = Inr e)"
  by (cases t) (simp_all add: addSeconds_def)

lemma reach_None:
  assumes "reach_issue metres p reachFrom hidden reach = None"
  shows "\<exists>g d. lo_geometry reachFrom = Some g \<and> distanceToGeometryMetres p g = Some d \<and> d \<le> reach"
  using assms by (cases "lo_geometry reachFrom") (auto simp: reach_issue_def Let_def split: if_splits option.splits)

lemma observationDraft_reach:
  assumes "observationDraft metres env c keyId ctx expiresAt reach = Inr (Inr d)"
  obtains subject location reachFrom hidden g away where
    "observed_subject c ctx = Inr (subject, location, reachFrom, hidden)" and "od_location d = location"
    and "lo_geometry reachFrom = Some g" and "distanceToGeometryMetres (ob_position c) g = Some away" and "away \<le> reach"
    and "od_provenance d = provenance ctx keyId (crowdLocalId env keyId (ob_nonce c))" and "od_expiresAt d = expiresAt"
proof -
  from assms obtain subject location reachFrom hidden
    where s: "observed_subject c ctx = Inr (subject, location, reachFrom, hidden)"
      and r: "reach_issue metres (ob_position c) reachFrom hidden reach = None"
      and d: "od_location d = location" "od_expiresAt d = expiresAt"
        "od_provenance d = provenance ctx keyId (crowdLocalId env keyId (ob_nonce c))"
    by (auto simp: observationDraft_def Let_def split: sum.splits option.splits)
  from reach_None [OF r] obtain g away where "lo_geometry reachFrom = Some g"
    "distanceToGeometryMetres (ob_position c) g = Some away" "away \<le> reach" by blast
  from that [OF s d(1) this d(3,2)] show thesis .
qed

text \<open>What every draft handed to the registry says of where it comes from and how long it lives.\<close>

definition draft_expiresAt :: "'j draft \<Rightarrow> int" where
  "draft_expiresAt d = (case d of SituationDraft s \<Rightarrow> sd_expiresAt s | ObservationDraft o' \<Rightarrow> od_expiresAt o')"

definition draft_provenance :: "'j draft \<Rightarrow> 'j crowd_provenance" where
  "draft_provenance d = (case d of SituationDraft s \<Rightarrow> sd_provenance s | ObservationDraft o' \<Rightarrow> od_provenance o')"

lemma situationDraft_fields:
  assumes "situationDraft env c keyId ctx expiresAt = Inr d"
  shows "sd_expiresAt d = expiresAt \<and> sd_provenance d = provenance ctx keyId (crowdLocalId env keyId (sc_nonce c))"
  using assms by (auto simp: situationDraft_def Let_def)

text \<open>C12. What the crowd lands is timely, near and labelled as the crowd's: a landed report was made
  neither ahead of the clock's drift nor more than a day ago, expires after it arrived at the end
  of its kind's lifetime, names the crowd as its origin under the pseudonym class, and a reading
  was made within the property's reach of where its subject stands.\<close>

theorem landed_report:
  assumes "landClaim metres env (Inr claim) keyId ctx = Inr (Landed valid expiresAt)"
    and now: "lx_now ctx = Some now"
  shows "\<exists>made rules draft. claim_reportedAt claim = Some made
    \<and> crowdRulesFor (le_registry env) (claim_target claim) = Some rules
    \<and> made \<le> now + MAX_CLOCK_SKEW_MS \<and> now \<le> made + MAX_REPORT_AGE_MS
    \<and> now < expiresAt \<and> to_iso (of_int made + cr_ttlSec rules * 1000) = Inr expiresAt
    \<and> le_validateDraft env draft = Inr valid \<and> draft_expiresAt draft = expiresAt
    \<and> pv_origin (draft_provenance draft) = ''crowd'' \<and> pv_privacy (draft_provenance draft) = ''crowd_pseudonym''
    \<and> pv_reporter (draft_provenance draft) = keyId
    \<and> (\<forall>c. claim = ObservationClaim c \<longrightarrow> (\<exists>subject location reachFrom hidden g away.
         observed_subject c ctx = Inr (subject, location, reachFrom, hidden) \<and> lo_geometry reachFrom = Some g
         \<and> distanceToGeometryMetres (ob_position c) g = Some away \<and> away \<le> the (cr_reachMetres rules)))"
proof -
  obtain rules where rules: "crowdRulesFor (le_registry env) (claim_target claim) = Some rules"
    using assms(1) by (auto simp: landClaim_def split: option.splits)
  have window: "window_issue (claim_reportedAt claim) (lx_now ctx) = None"
    using assms(1) rules by (auto simp: landClaim_def split: option.splits)
  note land = assms(1) [unfolded landClaim_def sum.case rules option.case window]
  from land obtain e where e: "addSeconds (claim_reportedAt claim) (cr_ttlSec rules) = Inr e" "\<not> inst_le (Some e) (lx_now ctx)"
    by (auto split: if_splits)
  then obtain made where made: "claim_reportedAt claim = Some made" "to_iso (of_int made + cr_ttlSec rules * 1000) = Inr e"
    by (auto simp: addSeconds_Inr)
  have times: "made \<le> now + MAX_CLOCK_SKEW_MS" "now \<le> made + MAX_REPORT_AGE_MS"
    using window by (auto simp: window_issue_def made now split: if_splits)
  show ?thesis
  proof (cases claim)
    case (SituationClaim c)
    with land e obtain d where d: "situationDraft env c keyId ctx e = Inr d"
      and v: "le_validateDraft env (SituationDraft d) = Inr valid" and ex: "expiresAt = e"
      by (auto split: sum.splits)
    show ?thesis
      using rules made times e(2) now v ex situationDraft_fields [OF d] SituationClaim
      by (intro exI [of _ made] exI [of _ rules] exI [of _ "SituationDraft d"])
        (simp add: draft_expiresAt_def draft_provenance_def provenance_def)
  next
    case (ObservationClaim c)
    with land e obtain d where d: "observationDraft metres env c keyId ctx e (the (cr_reachMetres rules)) = Inr (Inr d)"
      and v: "le_validateDraft env (ObservationDraft d) = Inr valid" and ex: "expiresAt = e"
      by (auto split: sum.splits)
    from observationDraft_reach [OF d] obtain subject location reachFrom hidden g away
      where r: "observed_subject c ctx = Inr (subject, location, reachFrom, hidden)" "lo_geometry reachFrom = Some g"
        "distanceToGeometryMetres (ob_position c) g = Some away" "away \<le> the (cr_reachMetres rules)"
      and f: "od_provenance d = provenance ctx keyId (crowdLocalId env keyId (ob_nonce c))" "od_expiresAt d = e"
      by metis
    show ?thesis
      using rules made times e(2) now v ex f r ObservationClaim
      by (intro exI [of _ made] exI [of _ rules] exI [of _ "ObservationDraft d"])
        (simp add: draft_expiresAt_def draft_provenance_def provenance_def)
  qed
qed

text \<open>A refusal does not locate what is hidden: where a feature's own location is withheld, a report
  refused as out of reach gets the same answer wherever the feature stands.\<close>

theorem hidden_location_not_revealed:
  assumes "lo_geometry l1 = Some g1" and "lo_geometry l2 = Some g2"
    and "reach_issue metres p l1 True reach = Some i1" and "reach_issue metres p l2 True reach = Some i2"
  shows "i1 = i2"
  using assms by (auto simp: reach_issue_def Let_def split: if_splits)

subsection \<open>Witnesses\<close>

definition sample_env :: "unit land_env" where
  "sample_env = \<lparr>le_registry = sample_registry, le_hash = (\<lambda>k n. ''h''),
     le_digests = \<lparr>dg_sha256 = (\<lambda>s. s), dg_geometry = (\<lambda>g. ''g''), dg_spans = (\<lambda>s. ''s''), dg_qualifiers = (\<lambda>q. []),
       dg_series = (\<lambda>x. ''x'')\<rparr>,
     le_geocodes = (\<lambda>l. None), le_deriveSeverity = (\<lambda>k t s e. None), le_majorVersion = (\<lambda>k. 1), le_validateDraft = Inr\<rparr>"

definition sample_context :: "unit landing_context" where
  "sample_context = \<lparr>lx_instanceId = ''oc.example'', lx_now = Some 1000000, lx_attribution = (),
     lx_resolveFeature = (\<lambda>f c. None), lx_placeReachFrom = None\<rparr>"

definition sample_claim :: "unit observation_claim" where
  "sample_claim = \<lparr>ob_subject = ClaimPlace \<lparr>lo_geometry = Some (Point (Position 7 50)), lo_rest = ()\<rparr>,
     ob_property = ''fuel_price'', ob_qualifiers = None, ob_result = (), ob_position = Position 7 50,
     ob_reportedAt = Some 900000, ob_nonce = ''n''\<rparr>"

lemma sample_lands:
  "\<exists>valid. landClaim (\<lambda>x. []) sample_env (Inr (ObservationClaim sample_claim)) ''k'' sample_context = Inr (Landed valid 4500000)"
proof -
  have 1: "reach_issue (\<lambda>x. []) (Position 7 50) \<lparr>lo_geometry = Some (Point (Position 7 50)), lo_rest = ()\<rparr> False 300 = None"
    by (simp add: reach_issue_def distance_to_self)
  have 2: "to_iso 4500000 = Inr 4500000"
    using trunc_int_of_int [of 4500000] by (simp add: to_iso_def max_time_def)
  show ?thesis
    by (simp add: landClaim_def sample_env_def sample_claim_def sample_context_def claim_target_def claim_reportedAt_def
        crowdRulesFor_def sample_registry_def window_issue_def MAX_CLOCK_SKEW_MS_def MAX_REPORT_AGE_MS_def addSeconds_def
        observationDraft_def observed_subject_def 1 2 observationId_def observationLocalId_def iso_of_def subjectKey_def
        locationKeyOf_def)
qed

theorem landed_report_witness:
  "\<exists>valid. landClaim (\<lambda>x. []) sample_env (Inr (ObservationClaim sample_claim)) ''k'' sample_context = Inr (Landed valid 4500000)
    \<and> (\<exists>draft. le_validateDraft sample_env draft = Inr valid \<and> pv_privacy (draft_provenance draft) = ''crowd_pseudonym'')"
proof -
  obtain valid where v: "landClaim (\<lambda>x. []) sample_env (Inr (ObservationClaim sample_claim)) ''k'' sample_context
      = Inr (Landed valid 4500000)" using sample_lands by blast
  have "lx_now sample_context = Some 1000000" by (simp add: sample_context_def)
  from landed_report [OF v this] v show ?thesis by blast
qed

lemma far_away:
  assumes "1 \<le> \<bar>y\<bar>"
  shows "\<exists>d. distanceToGeometryMetres (Position 0 0) (Point (Position 0 y)) = Some d \<and> 300 < d"
proof -
  let ?d = "hypot 0 (y * (EARTH_RADIUS_M * RAD))"
  have "distanceToGeometryMetres (Position 0 0) (Point (Position 0 y)) = Some ?d"
    by (simp add: distanceToGeometryMetres_def measure_ring_def segments_of_def closer_def project_def short_way_def)
  moreover have "300 < EARTH_RADIUS_M * RAD"
    using pi_ge_two by (simp add: EARTH_RADIUS_M_def RAD_def field_simps)
  then have "300 < \<bar>y\<bar> * \<bar>EARTH_RADIUS_M * RAD\<bar>"
    using mult_right_mono [OF assms, of "\<bar>EARTH_RADIUS_M * RAD\<bar>"] by linarith
  then have "300 < ?d" by (simp add: hypot_def abs_mult)
  ultimately show ?thesis by blast
qed

theorem hidden_location_not_revealed_witness:
  "\<exists>i. reach_issue (\<lambda>x. ''300'') (Position 0 0) \<lparr>lo_geometry = Some (Point (Position 0 1)), lo_rest = ()\<rparr> True 300 = Some i
    \<and> reach_issue (\<lambda>x. ''300'') (Position 0 0) \<lparr>lo_geometry = Some (Point (Position 0 (-2))), lo_rest = ()\<rparr> True 300 = Some i"
proof -
  have ex: "\<exists>i. reach_issue (\<lambda>x. ''300'') (Position 0 0) \<lparr>lo_geometry = Some (Point (Position 0 y)), lo_rest = ()\<rparr> True 300 = Some i"
    if "1 \<le> \<bar>y\<bar>" for y :: real
    using far_away [OF that] by (auto simp: reach_issue_def)
  obtain i1 i2 where i: "reach_issue (\<lambda>x. ''300'') (Position 0 0) \<lparr>lo_geometry = Some (Point (Position 0 1)), lo_rest = ()\<rparr> True 300 = Some i1"
    "reach_issue (\<lambda>x. ''300'') (Position 0 0) \<lparr>lo_geometry = Some (Point (Position 0 (-2))), lo_rest = ()\<rparr> True 300 = Some i2"
    using ex [of 1] ex [of "-2"] by auto
  from hidden_location_not_revealed [OF _ _ i] have "i1 = i2" by simp
  with i show ?thesis by blast
qed

end
