(* ===== verification/Wire_Values.thy ===== *)
theory Wire_Values
  imports Text16 Geometry
begin

text \<open>
  Values that come off the wire: the I-JSON walk of packages/contrib-core/src/validate.ts and the
  geometry screen of packages/contrib-core/src/plausibility.ts. A value is any JavaScript value the
  two look at, an object its members in order. The text of an error leaves out the path.
\<close>

subsection \<open>Values\<close>

datatype wire = WUndefined | WNull | WBool bool | WNumber jsnum | WString text16
  | WBigInt | WFunction | WSymbol | WArray "wire list" | WObject "(text16 \<times> wire) list"

text \<open>A loop whose body may throw.\<close>

fun forE :: "('a \<Rightarrow> 'e + unit) \<Rightarrow> 'a list \<Rightarrow> 'e + unit" where
  "forE f [] = Inr ()"
| "forE f (x # xs) = bindE (f x) (\<lambda>_. forE f xs)"

lemma forE_Inr: "forE f xs = Inr () \<longleftrightarrow> (\<forall>x \<in> set xs. f x = Inr ())"
  by (induction xs) (auto simp: bindE_def split: sum.splits)

lemma forE_cong [fundef_cong]: "xs = ys \<Longrightarrow> (\<And>x. x \<in> set ys \<Longrightarrow> f x = g x) \<Longrightarrow> forE f xs = forE g ys"
  by (induction xs arbitrary: ys) auto

subsection \<open>I-JSON\<close>

definition hasLoneSurrogate :: "text16 \<Rightarrow> bool" where
  "hasLoneSurrogate t = list_ex (\<lambda>p. 0xD800 \<le> p \<and> p \<le> 0xDFFF) (points_of t)"

definition MAX_TREE_DEPTH :: nat where "MAX_TREE_DEPTH = 64"

fun assertIJsonTree :: "wire \<Rightarrow> nat \<Rightarrow> js_error + unit" where
  "assertIJsonTree v depth =
     (if depth > MAX_TREE_DEPTH then Inl (TypeError ''nesting depth exceeds 64 levels'')
      else case v of
        WNumber n \<Rightarrow> guardE (isFinite n) (TypeError ''non-finite number'')
      | WString s \<Rightarrow> guardE (\<not> hasLoneSurrogate s) (TypeError ''string with a lone surrogate'')
      | WBool _ \<Rightarrow> Inr ()
      | WUndefined \<Rightarrow> Inr ()
      | WBigInt \<Rightarrow> Inl (TypeError ''bigint value is not JSON-serializable'')
      | WFunction \<Rightarrow> Inl (TypeError ''function value is not JSON-serializable'')
      | WSymbol \<Rightarrow> Inl (TypeError ''symbol value is not JSON-serializable'')
      | WNull \<Rightarrow> Inr ()
      | WArray xs \<Rightarrow> forE (\<lambda>x. if x = WUndefined \<or> x = WSymbol
            then Inl (TypeError ''array element is not JSON-serializable'')
            else assertIJsonTree x (depth + 1)) xs
      | WObject ms \<Rightarrow> forE (\<lambda>(key, member). if hasLoneSurrogate key
            then Inl (TypeError ''object key with a lone surrogate'')
            else assertIJsonTree member (depth + 1)) ms)"

declare assertIJsonTree.simps [simp del]

text \<open>What I-JSON is, and how deep a value nests.\<close>

fun i_json :: "wire \<Rightarrow> bool" where
  "i_json (WNumber n) = isFinite n"
| "i_json (WString s) = (\<not> hasLoneSurrogate s)"
| "i_json (WArray xs) = list_all (\<lambda>x. x \<noteq> WUndefined \<and> i_json x) xs"
| "i_json (WObject ms) = list_all (\<lambda>m. \<not> hasLoneSurrogate (fst m) \<and> i_json (snd m)) ms"
| "i_json WBigInt = False"
| "i_json WFunction = False"
| "i_json WSymbol = False"
| "i_json _ = True"

fun nesting :: "wire \<Rightarrow> nat" where
  "nesting (WArray xs) = fold max (map (\<lambda>x. nesting x + 1) xs) 0"
| "nesting (WObject ms) = fold max (map (\<lambda>m. nesting (snd m) + 1) ms) 0"
| "nesting _ = 0"

lemma fold_max_le: "fold max xs (a :: nat) \<le> n \<longleftrightarrow> a \<le> n \<and> (\<forall>x \<in> set xs. x \<le> n)"
  by (induction xs arbitrary: a) auto

lemma nesting_le:
  assumes "(d :: nat) \<le> m"
  shows "d + fold max (map (\<lambda>x. f x + 1) xs) 0 \<le> m \<longleftrightarrow> (\<forall>x \<in> set xs. d + 1 + f x \<le> m)"
proof -
  have "d + k \<le> m \<longleftrightarrow> k \<le> m - d" for k using assms by linarith
  then show ?thesis using assms by (auto simp: fold_max_le)
qed

lemma assertIJsonTree_iff:
  "assertIJsonTree v depth = Inr () \<longleftrightarrow> depth + nesting v \<le> MAX_TREE_DEPTH \<and> i_json v"
proof (induction v depth rule: assertIJsonTree.induct)
  case (1 v depth)
  show ?case
  proof (cases "depth > MAX_TREE_DEPTH")
    case True
    then show ?thesis by (simp add: assertIJsonTree.simps [of v])
  next
    case False
    show ?thesis
    proof (cases v)
      case (WArray xs)
      have IH: "assertIJsonTree x (depth + 1) = Inr () \<longleftrightarrow> depth + 1 + nesting x \<le> MAX_TREE_DEPTH \<and> i_json x"
        if "x \<in> set xs" "x \<noteq> WUndefined" "x \<noteq> WSymbol" for x
        by (rule 1(1) [OF False WArray that(1)]) (use that in simp)
      have "assertIJsonTree v depth = Inr () \<longleftrightarrow> (\<forall>x \<in> set xs. x \<noteq> WUndefined \<and> x \<noteq> WSymbol
          \<and> assertIJsonTree x (depth + 1) = Inr ())"
        using False by (subst assertIJsonTree.simps) (auto simp: WArray forE_Inr)
      also have "\<dots> \<longleftrightarrow> (\<forall>x \<in> set xs. x \<noteq> WUndefined \<and> depth + 1 + nesting x \<le> MAX_TREE_DEPTH \<and> i_json x)"
      proof (intro ball_cong refl)
        fix x assume "x \<in> set xs"
        then show "(x \<noteq> WUndefined \<and> x \<noteq> WSymbol \<and> assertIJsonTree x (depth + 1) = Inr ())
            = (x \<noteq> WUndefined \<and> depth + 1 + nesting x \<le> MAX_TREE_DEPTH \<and> i_json x)"
          using IH [of x] by (cases "x = WSymbol") auto
      qed
      finally show ?thesis using False nesting_le [of depth MAX_TREE_DEPTH nesting xs]
        by (auto simp: WArray list_all_iff)
    next
      case (WObject ms)
      have IH: "assertIJsonTree member (depth + 1) = Inr () \<longleftrightarrow> depth + 1 + nesting member \<le> MAX_TREE_DEPTH \<and> i_json member"
        if "(key, member) \<in> set ms" "\<not> hasLoneSurrogate key" for key member
        by (rule 1(2) [OF False WObject that(1) refl that(2)])
      have "assertIJsonTree v depth = Inr () \<longleftrightarrow> (\<forall>m \<in> set ms. \<not> hasLoneSurrogate (fst m)
          \<and> assertIJsonTree (snd m) (depth + 1) = Inr ())"
        using False by (subst assertIJsonTree.simps) (auto simp: WObject forE_Inr split: if_splits)
      also have "\<dots> \<longleftrightarrow> (\<forall>m \<in> set ms. \<not> hasLoneSurrogate (fst m)
          \<and> depth + 1 + nesting (snd m) \<le> MAX_TREE_DEPTH \<and> i_json (snd m))"
        using IH by (intro ball_cong refl) (auto split: prod.splits)
      finally show ?thesis using False nesting_le [of depth MAX_TREE_DEPTH "\<lambda>m. nesting (snd m)" ms]
        by (auto simp: WObject list_all_iff)
    qed (use False in \<open>simp_all add: assertIJsonTree.simps\<close>)
  qed
qed

end
