(* ===== verification/Geometry_Screen.thy ===== *)
theory Geometry_Screen
  imports Wire_Values
begin

text \<open>
  The screen a signed geometry passes before it lands: packages/contrib-core/src/plausibility.ts.
  Reading a member of \<open>null\<close> or \<open>undefined\<close> throws.
\<close>

subsection \<open>Members\<close>

fun member_of :: "string \<Rightarrow> wire \<Rightarrow> js_error + wire" where
  "member_of name WNull = Inl (TypeError ''Cannot read properties of null'')"
| "member_of name WUndefined = Inl (TypeError ''Cannot read properties of undefined'')"
| "member_of name (WObject ms) = Inr (case map_of (rev ms) (u16 name) of None \<Rightarrow> WUndefined | Some v \<Rightarrow> v)"
| "member_of name _ = Inr WUndefined"

lemma size_map_of: "map_of xs k = Some v \<Longrightarrow> size v < Suc (size_list (size_prod size size) xs)"
  by (induction xs) (auto split: if_splits)

lemma size_member: "member_of name v = Inr w \<Longrightarrow> w = WUndefined \<or> size w < size v"
proof (induction name v rule: member_of.induct)
  case (3 name ms)
  show ?case
  proof (cases "map_of (rev ms) (u16 name)")
    case (Some x)
    then have "(u16 name, x) \<in> set ms" by (metis map_of_SomeD set_rev)
    then have "size_prod (\<lambda>_. 0) size (u16 name, x) \<le> size_list (size_prod (\<lambda>_. 0) size) ms"
      by (intro size_list_estimation') auto
    with 3 Some show ?thesis by simp
  qed (use 3 in simp)
qed simp_all

lemma member_smaller:
  assumes "member_of name g = Inr (WArray gs)" and sub: "sub \<in> set gs"
  shows "size sub < size g"
proof -
  have "size (WArray gs) < size g" using size_member [OF assms(1)] by simp
  moreover have "size sub < size (WArray gs)" using size_list_estimation' [OF sub order_refl, of size] by simp
  ultimately show ?thesis by simp
qed

subsection \<open>Positions and structure\<close>

fun isPosition :: "wire \<Rightarrow> bool" where
  "isPosition (WArray [WNumber _, WNumber _]) = True"
| "isPosition _ = False"

lemma isPosition_numbers: "isPosition v \<Longrightarrow> \<exists>a b. v = WArray [WNumber a, WNumber b]"
  by (cases v rule: isPosition.cases) simp_all

definition isPositionArray :: "wire \<Rightarrow> nat \<Rightarrow> bool" where
  "isPositionArray v least = (case v of WArray ps \<Rightarrow> length ps \<ge> least \<and> list_all isPosition ps | _ \<Rightarrow> False)"

text \<open>\<open>first[0] === last[0] && first[1] === last[1]\<close>; NaN equals nothing.\<close>

definition same_position :: "wire \<Rightarrow> wire \<Rightarrow> bool" where
  "same_position a b = (case (a, b) of
     (WArray (WNumber x # WNumber y # _), WArray (WNumber x' # WNumber y' # _)) \<Rightarrow>
       x = x' \<and> x \<noteq> JNaN \<and> y = y' \<and> y \<noteq> JNaN
   | _ \<Rightarrow> False)"

definition isLinearRing :: "wire \<Rightarrow> bool" where
  "isLinearRing v = (case v of WArray ps \<Rightarrow> length ps \<ge> 4 \<and> list_all isPosition ps \<and> same_position (hd ps) (last ps)
     | _ \<Rightarrow> False)"

definition isRingArray :: "wire \<Rightarrow> bool" where
  "isRingArray v = (case v of WArray rings \<Rightarrow> length rings \<ge> 1 \<and> list_all isLinearRing rings | _ \<Rightarrow> False)"

definition array_of :: "(wire \<Rightarrow> bool) \<Rightarrow> wire \<Rightarrow> bool" where
  "array_of P v = (case v of WArray xs \<Rightarrow> length xs \<ge> 1 \<and> list_all P xs | _ \<Rightarrow> False)"

text \<open>\<open>xs.every(f)\<close> of an \<open>f\<close> that may throw: it stops at the first false.\<close>

fun everyE :: "('a \<Rightarrow> 'e + bool) \<Rightarrow> 'a list \<Rightarrow> 'e + bool" where
  "everyE f [] = Inr True"
| "everyE f (x # xs) = bindE (f x) (\<lambda>b. if b then everyE f xs else Inr False)"

lemma everyE_cong [fundef_cong]: "xs = ys \<Longrightarrow> (\<And>x. x \<in> set ys \<Longrightarrow> f x = g x) \<Longrightarrow> everyE f xs = everyE g ys"
  by (induction xs arbitrary: ys) (auto simp: bindE_def split: sum.splits)

lemma everyE_True: "everyE f xs = Inr True \<longleftrightarrow> (\<forall>x \<in> set xs. f x = Inr True)"
  by (induction xs) (auto simp: bindE_def split: sum.splits)

function hasValidStructure :: "wire \<Rightarrow> js_error + bool" where
  "hasValidStructure g =
     bindE (member_of ''type'' g) (\<lambda>type.
     bindE (member_of ''coordinates'' g) (\<lambda>coordinates.
       if type = WString (u16 ''Point'') then Inr (isPosition coordinates)
       else if type = WString (u16 ''MultiPoint'') then Inr (isPositionArray coordinates 1)
       else if type = WString (u16 ''LineString'') then Inr (isPositionArray coordinates 2)
       else if type = WString (u16 ''MultiLineString'') then Inr (array_of (\<lambda>line. isPositionArray line 2) coordinates)
       else if type = WString (u16 ''Polygon'') then Inr (isRingArray coordinates)
       else if type = WString (u16 ''MultiPolygon'') then Inr (array_of isRingArray coordinates)
       else if type = WString (u16 ''GeometryCollection'') then
         (case member_of ''geometries'' g of Inr (WArray gs) \<Rightarrow> everyE hasValidStructure gs | _ \<Rightarrow> Inr False)
       else Inr False))"
  by pat_completeness auto
termination
  by (relation "measure size") (simp, simp only: in_measure member_smaller)

declare hasValidStructure.simps [simp del]

subsection \<open>The scan\<close>

record geometry_scan =
  gs_count :: nat
  gs_hasNonFinite :: bool
  gs_outOfRange :: bool

definition out_of_range :: "wire \<Rightarrow> real \<Rightarrow> bool" where
  "out_of_range v limit = (case v of WNumber (JNum x) \<Rightarrow> x < - limit \<or> x > limit | _ \<Rightarrow> False)"

definition finite_number :: "wire \<Rightarrow> bool" where
  "finite_number v = (case v of WNumber n \<Rightarrow> isFinite n | _ \<Rightarrow> False)"

definition visitPosition :: "wire list \<Rightarrow> geometry_scan \<Rightarrow> geometry_scan" where
  "visitPosition position s =
     s\<lparr>gs_count := gs_count s + 1,
       gs_hasNonFinite := gs_hasNonFinite s \<or> list_ex (\<lambda>v. \<not> finite_number v) position,
       gs_outOfRange := gs_outOfRange s
         \<or> (case position of lon # _ \<Rightarrow> out_of_range lon 180 | _ \<Rightarrow> False)
         \<or> (case position of _ # lat # _ \<Rightarrow> out_of_range lat 90 | _ \<Rightarrow> False)\<rparr>"

fun walk :: "wire \<Rightarrow> geometry_scan \<Rightarrow> geometry_scan" where
  "walk (WArray (WNumber n # rest)) s = visitPosition (WNumber n # rest) s"
| "walk (WArray children) s = fold walk children s"
| "walk _ s = s"

text \<open>A loop over a state whose body may throw.\<close>

fun foldE :: "('a \<Rightarrow> 's \<Rightarrow> 'e + 's) \<Rightarrow> 'a list \<Rightarrow> 's \<Rightarrow> 'e + 's" where
  "foldE f [] s = Inr s"
| "foldE f (x # xs) s = bindE (f x s) (foldE f xs)"

lemma foldE_cong [fundef_cong]:
  "xs = ys \<Longrightarrow> s = t \<Longrightarrow> (\<And>x s. x \<in> set ys \<Longrightarrow> f x s = g x s) \<Longrightarrow> foldE f xs s = foldE g ys t"
  by (induction xs arbitrary: ys s t) (auto simp: bindE_def split: sum.splits)

function visitGeometry :: "wire \<Rightarrow> geometry_scan \<Rightarrow> js_error + geometry_scan" where
  "visitGeometry g s = (case member_of ''geometries'' g of
     Inl e \<Rightarrow> Inl e
   | Inr (WArray gs) \<Rightarrow> foldE visitGeometry gs s
   | Inr _ \<Rightarrow> bindE (member_of ''coordinates'' g) (\<lambda>c. Inr (walk c s)))"
  by pat_completeness auto
termination
  by (relation "measure (\<lambda>(g, s). size g)") (simp, simp only: in_measure prod.case member_smaller)

declare visitGeometry.simps [simp del]

definition scanGeometry :: "wire \<Rightarrow> js_error + geometry_scan" where
  "scanGeometry g = visitGeometry g \<lparr>gs_count = 0, gs_hasNonFinite = False, gs_outOfRange = False\<rparr>"

datatype plausibility_reason = GeometryEmpty | GeometryMalformed | GeometryNotFinite | GeometryNotPoint
  | GeometryOutOfRange

definition checkGeometryPlausibility :: "wire \<Rightarrow> string option \<Rightarrow> js_error + plausibility_reason list" where
  "checkGeometryPlausibility g requireType =
     bindE (case requireType of None \<Rightarrow> Inr False
       | Some t \<Rightarrow> bindE (member_of ''type'' g) (\<lambda>type. Inr (type \<noteq> WString (u16 t)))) (\<lambda>mismatch.
     if mismatch then Inr [GeometryNotPoint]
     else bindE (hasValidStructure g) (\<lambda>valid.
       bindE (scanGeometry g) (\<lambda>s. Inr (
         (if valid then [] else [GeometryMalformed]) @
         (if gs_count s = 0 then [GeometryEmpty] else []) @
         (if gs_hasNonFinite s then [GeometryNotFinite] else []) @
         (if gs_outOfRange s then [GeometryOutOfRange] else [])))))"

subsection \<open>What passes the screen\<close>

definition position_wire :: "position \<Rightarrow> wire" where
  "position_wire p = WArray [WNumber (JNum (pos_x p)), WNumber (JNum (pos_y p))]"

definition array_wire :: "('a \<Rightarrow> wire) \<Rightarrow> 'a list \<Rightarrow> wire" where
  "array_wire enc xs = WArray (map enc xs)"

definition in_wgs84 :: "position \<Rightarrow> bool" where
  "in_wgs84 p \<longleftrightarrow> \<bar>pos_x p\<bar> \<le> 180 \<and> \<bar>pos_y p\<bar> \<le> 90"

definition clean :: "geometry_scan \<Rightarrow> bool" where
  "clean s \<longleftrightarrow> \<not> gs_hasNonFinite s \<and> \<not> gs_outOfRange s"

text \<open>Values a predicate admits are, where the scan finds nothing wrong, encodings of what is in range.\<close>

definition screens :: "(wire \<Rightarrow> bool) \<Rightarrow> ('a \<Rightarrow> wire) \<Rightarrow> ('a \<Rightarrow> position list) \<Rightarrow> bool" where
  "screens P enc pos \<longleftrightarrow> (\<forall>v. P v \<longrightarrow> (\<exists>vs. v = WArray vs)
     \<and> (\<forall>s. clean (walk v s) \<longrightarrow> clean s \<and> (\<exists>x. v = enc x \<and> list_all in_wgs84 (pos x)
          \<and> gs_count (walk v s) = gs_count s + length (pos x))))"

lemma screens_position: "screens isPosition position_wire (\<lambda>p. [p])"
proof -
  have "(\<exists>vs. v = WArray vs) \<and> (\<forall>s. clean (walk v s) \<longrightarrow> clean s \<and> (\<exists>p. v = position_wire p \<and> list_all in_wgs84 [p]
      \<and> gs_count (walk v s) = gs_count s + length [p]))" if P: "isPosition v" for v
  proof -
    obtain a b where v: "v = WArray [WNumber a, WNumber b]"
      using isPosition_numbers [OF P] by blast
    have "clean s \<and> (\<exists>p. v = position_wire p \<and> list_all in_wgs84 [p] \<and> gs_count (walk v s) = gs_count s + length [p])"
      if c: "clean (walk v s)" for s
    proof -
      obtain x y where ab: "a = JNum x" "b = JNum y"
        using c by (cases a; cases b) (auto simp: v clean_def visitPosition_def finite_number_def)
      have "clean s" "\<bar>x\<bar> \<le> 180" "\<bar>y\<bar> \<le> 90"
        using c by (auto simp: v ab clean_def visitPosition_def out_of_range_def)
      then show ?thesis
        by (intro conjI exI [of _ "Position x y"]) (simp_all add: v ab position_wire_def in_wgs84_def visitPosition_def)
    qed
    then show ?thesis using v by blast
  qed
  then show ?thesis unfolding screens_def by blast
qed

lemma screens_fold:
  assumes "screens P enc pos" and "list_all P vs" and "clean (fold walk vs s)"
  shows "clean s \<and> (\<exists>xs. vs = map enc xs \<and> list_all in_wgs84 (concat (map pos xs))
    \<and> gs_count (fold walk vs s) = gs_count s + length (concat (map pos xs)))"
  using assms(2,3)
proof (induction vs arbitrary: s)
  case (Cons v vs)
  from Cons.IH [of "walk v s"] Cons.prems obtain xs where IH: "clean (walk v s)" "vs = map enc xs"
    "list_all in_wgs84 (concat (map pos xs))"
    "gs_count (fold walk vs (walk v s)) = gs_count (walk v s) + length (concat (map pos xs))"
    by auto
  moreover from Cons.prems(1) have "P v" by simp
  with assms(1) have "clean (walk v s) \<longrightarrow> clean s \<and> (\<exists>x. v = enc x \<and> list_all in_wgs84 (pos x)
      \<and> gs_count (walk v s) = gs_count s + length (pos x))"
    unfolding screens_def by blast
  with IH(1) obtain x where "clean s" "v = enc x" "list_all in_wgs84 (pos x)"
    "gs_count (walk v s) = gs_count s + length (pos x)"
    by blast
  ultimately show ?case by (intro conjI exI [of _ "x # xs"]) simp_all
qed (auto intro: exI [of _ "[]"])

lemma screens_array:
  assumes "screens P enc pos"
  shows "screens (\<lambda>v. \<exists>vs. v = WArray vs \<and> list_all P vs) (array_wire enc) (\<lambda>xs. concat (map pos xs))"
proof -
  have walk: "walk (WArray vs) s = fold walk vs s" if P: "list_all P vs" for vs s
  proof (cases vs)
    case (Cons v rest)
    with P assms obtain us where "v = WArray us" unfolding screens_def by auto
    then show ?thesis by (simp add: Cons)
  qed simp
  have "clean s \<and> (\<exists>xs. WArray vs = array_wire enc xs \<and> list_all in_wgs84 (concat (map pos xs))
      \<and> gs_count (walk (WArray vs) s) = gs_count s + length (concat (map pos xs)))"
    if "list_all P vs" "clean (walk (WArray vs) s)" for vs s
  proof -
    from screens_fold [OF assms that(1), of s] that obtain xs where "clean s" "vs = map enc xs"
      "list_all in_wgs84 (concat (map pos xs))" "gs_count (fold walk vs s) = gs_count s + length (concat (map pos xs))"
      by (auto simp: walk)
    then show ?thesis
      unfolding walk [OF that(1)] array_wire_def by blast
  qed
  then show ?thesis unfolding screens_def by blast
qed

lemma screens_mono: "screens P enc pos \<Longrightarrow> (\<And>v. Q v \<Longrightarrow> P v) \<Longrightarrow> screens Q enc pos"
  unfolding screens_def by blast

lemmas screens_line = screens_array [OF screens_position]
lemmas screens_rings = screens_array [OF screens_line]
lemmas screens_polygons = screens_array [OF screens_rings]

abbreviation line_wire :: "position list \<Rightarrow> wire" where "line_wire \<equiv> array_wire position_wire"
abbreviation rings_wire :: "position list list \<Rightarrow> wire" where "rings_wire \<equiv> array_wire line_wire"

definition ring_ok :: "position list \<Rightarrow> bool" where
  "ring_ok ps \<longleftrightarrow> 4 \<le> length ps \<and> hd ps = last ps"

text \<open>The positions of a geometry, its structure and the values that encode it.\<close>

fun positions :: "geometry \<Rightarrow> position list" where
  "positions (Point p) = [p]"
| "positions (MultiPoint ps) = ps"
| "positions (LineString ps) = ps"
| "positions (MultiLineString ls) = concat ls"
| "positions (Polygon rs) = concat rs"
| "positions (MultiPolygon ps) = concat (map concat ps)"
| "positions (GeometryCollection gs) = concat (map positions gs)"

fun well_formed :: "geometry \<Rightarrow> bool" where
  "well_formed (Point p) = True"
| "well_formed (MultiPoint ps) = (ps \<noteq> [])"
| "well_formed (LineString ps) = (2 \<le> length ps)"
| "well_formed (MultiLineString ls) = (ls \<noteq> [] \<and> list_all (\<lambda>l. 2 \<le> length l) ls)"
| "well_formed (Polygon rs) = (rs \<noteq> [] \<and> list_all ring_ok rs)"
| "well_formed (MultiPolygon ps) = (ps \<noteq> [] \<and> list_all (\<lambda>rs. rs \<noteq> [] \<and> list_all ring_ok rs) ps)"
| "well_formed (GeometryCollection gs) = list_all well_formed gs"

definition carries :: "wire \<Rightarrow> string \<Rightarrow> wire \<Rightarrow> bool" where
  "carries v type c \<longleftrightarrow> member_of ''type'' v = Inr (WString (u16 type)) \<and> member_of ''coordinates'' v = Inr c"

fun encodes :: "geometry \<Rightarrow> wire \<Rightarrow> bool" where
  "encodes (Point p) v = carries v ''Point'' (position_wire p)"
| "encodes (MultiPoint ps) v = carries v ''MultiPoint'' (line_wire ps)"
| "encodes (LineString ps) v = carries v ''LineString'' (line_wire ps)"
| "encodes (MultiLineString ls) v = carries v ''MultiLineString'' (rings_wire ls)"
| "encodes (Polygon rs) v = carries v ''Polygon'' (rings_wire rs)"
| "encodes (MultiPolygon ps) v = carries v ''MultiPolygon'' (array_wire rings_wire ps)"
| "encodes (GeometryCollection gs) v \<longleftrightarrow> member_of ''type'' v = Inr (WString (u16 ''GeometryCollection''))
     \<and> (\<exists>vs. member_of ''geometries'' v = Inr (WArray vs) \<and> list_all2 encodes gs vs)"

text \<open>Only a collection carries a list of geometries.\<close>

function single_kind :: "wire \<Rightarrow> bool" where
  "single_kind g = (case member_of ''geometries'' g of
     Inr (WArray gs) \<Rightarrow> member_of ''type'' g = Inr (WString (u16 ''GeometryCollection'')) \<and> (\<forall>x \<in> set gs. single_kind x)
   | _ \<Rightarrow> True)"
  by pat_completeness auto
termination
  by (relation "measure size") (simp, simp only: in_measure member_smaller)

declare single_kind.simps [simp del]

lemma screened_coordinates:
  assumes "screens P enc pos" and "P c" and "member_of ''coordinates'' v = Inr c"
    and "\<And>gs. member_of ''geometries'' v \<noteq> Inr (WArray gs)" and "visitGeometry v s = Inr s'" and "clean s'"
  shows "clean s \<and> (\<exists>x. c = enc x \<and> list_all in_wgs84 (pos x) \<and> gs_count s' = gs_count s + length (pos x))"
proof -
  have "s' = walk c s"
    using assms(3-5) by (subst (asm) visitGeometry.simps) (auto split: sum.splits wire.splits)
  then show ?thesis using assms(1,2,6) unfolding screens_def by blast
qed

lemma position_arrays:
  "isPositionArray v n \<Longrightarrow> \<exists>vs. v = WArray vs \<and> list_all isPosition vs"
  "array_of P v \<Longrightarrow> \<exists>vs. v = WArray vs \<and> list_all P vs"
  "isLinearRing v \<Longrightarrow> \<exists>vs. v = WArray vs \<and> list_all isPosition vs"
  "isRingArray v \<Longrightarrow> \<exists>vs. v = WArray vs \<and> list_all isLinearRing vs"
  by (auto simp: isPositionArray_def array_of_def isLinearRing_def isRingArray_def split: wire.splits)

lemma same_position_wire [simp]: "same_position (position_wire p) (position_wire q) \<longleftrightarrow> p = q"
  by (cases p; cases q) (simp add: same_position_def position_wire_def)

lemma isPosition_wire [simp]: "isPosition (position_wire p)"
  by (simp add: position_wire_def)

lemma structure_of_wires:
  "isPositionArray (line_wire ps) n \<longleftrightarrow> n \<le> length ps"
  "isLinearRing (line_wire ps) \<longleftrightarrow> ring_ok ps"
  "isRingArray (rings_wire rs) \<longleftrightarrow> rs \<noteq> [] \<and> list_all ring_ok rs"
proof -
  show "isPositionArray (line_wire ps) n \<longleftrightarrow> n \<le> length ps"
    by (simp add: isPositionArray_def array_wire_def list_all_iff)
  have ring: "isLinearRing (line_wire ps) \<longleftrightarrow> ring_ok ps" for ps
    by (cases "ps = []") (auto simp: isLinearRing_def array_wire_def ring_ok_def list_all_iff hd_map last_map)
  then show "isLinearRing (line_wire ps) \<longleftrightarrow> ring_ok ps" .
  show "isRingArray (rings_wire rs) \<longleftrightarrow> rs \<noteq> [] \<and> list_all ring_ok rs"
    using ring by (cases "rs = []") (auto simp: isRingArray_def array_wire_def [of line_wire] list_all_iff Suc_le_eq)
qed

lemma screens_shapes:
  "screens (\<lambda>v. isPositionArray v n) line_wire concat'"
  if "concat' = (\<lambda>xs. concat (map (\<lambda>p. [p]) xs))" for concat'
  unfolding that by (rule screens_mono [OF screens_line]) (rule position_arrays)

lemma screens_lines: "screens (array_of (\<lambda>v. isPositionArray v n)) rings_wire concat"
proof -
  have "\<exists>vs. v = WArray vs \<and> list_all (\<lambda>v. \<exists>vs. v = WArray vs \<and> list_all isPosition vs) vs"
    if "array_of (\<lambda>v. isPositionArray v n) v" for v
  proof -
    from position_arrays(2) [OF that] obtain vs where "v = WArray vs" "list_all (\<lambda>v. isPositionArray v n) vs" by blast
    moreover from this(2) have "list_all (\<lambda>v. \<exists>vs. v = WArray vs \<and> list_all isPosition vs) vs"
      by (rule list.pred_mono_strong) (rule position_arrays)
    ultimately show ?thesis by blast
  qed
  from screens_mono [OF screens_rings this] show ?thesis by (simp add: concat_map_singleton)
qed

lemma screens_ring_array: "screens isRingArray rings_wire concat"
proof -
  have "\<exists>vs. v = WArray vs \<and> list_all (\<lambda>v. \<exists>vs. v = WArray vs \<and> list_all isPosition vs) vs" if "isRingArray v" for v
  proof -
    from position_arrays(4) [OF that] obtain vs where "v = WArray vs" "list_all isLinearRing vs" by blast
    moreover from this(2) have "list_all (\<lambda>v. \<exists>vs. v = WArray vs \<and> list_all isPosition vs) vs"
      by (rule list.pred_mono_strong) (rule position_arrays)
    ultimately show ?thesis by blast
  qed
  from screens_mono [OF screens_rings this] show ?thesis by (simp add: concat_map_singleton)
qed

lemma screens_polygon_array:
  "screens (array_of isRingArray) (array_wire rings_wire) (\<lambda>ps. concat (map concat ps))"
  by (rule screens_mono [OF screens_array [OF screens_ring_array]]) (rule position_arrays)

lemma types_differ:
  "u16 ''MultiPoint'' \<noteq> u16 ''Point''" "u16 ''LineString'' \<noteq> u16 ''Point''" "u16 ''LineString'' \<noteq> u16 ''MultiPoint''"
  "u16 ''MultiLineString'' \<noteq> u16 ''Point''" "u16 ''MultiLineString'' \<noteq> u16 ''MultiPoint''" "u16 ''MultiLineString'' \<noteq> u16 ''LineString''"
  "u16 ''GeometryCollection'' \<noteq> u16 ''Point''" "u16 ''GeometryCollection'' \<noteq> u16 ''MultiPoint''"
  "u16 ''GeometryCollection'' \<noteq> u16 ''LineString''" "u16 ''GeometryCollection'' \<noteq> u16 ''MultiLineString''"
  "u16 ''GeometryCollection'' \<noteq> u16 ''Polygon''" "u16 ''GeometryCollection'' \<noteq> u16 ''MultiPolygon''"
  by (simp_all add: u16_def)

text \<open>The collections: what holds of every member holds of the whole.\<close>

lemma foldE_screens:
  assumes "\<And>v s s'. v \<in> set vs \<Longrightarrow> visitGeometry v s = Inr s' \<Longrightarrow> clean s' \<Longrightarrow>
      clean s \<and> (\<exists>g. encodes g v \<and> well_formed g \<and> list_all in_wgs84 (positions g)
        \<and> gs_count s' = gs_count s + length (positions g))"
    and "foldE visitGeometry vs s = Inr s'" and "clean s'"
  shows "clean s \<and> (\<exists>gs. list_all2 encodes gs vs \<and> list_all well_formed gs
      \<and> list_all in_wgs84 (concat (map positions gs)) \<and> gs_count s' = gs_count s + length (concat (map positions gs)))"
  using assms
proof (induction vs arbitrary: s)
  case (Cons v vs)
  from Cons.prems(2) obtain s1 where s1: "visitGeometry v s = Inr s1" "foldE visitGeometry vs s1 = Inr s'" by auto
  from Cons.IH [OF Cons.prems(1) s1(2) Cons.prems(3)] obtain gs where gs: "clean s1" "list_all2 encodes gs vs"
    "list_all well_formed gs" "list_all in_wgs84 (concat (map positions gs))"
    "gs_count s' = gs_count s1 + length (concat (map positions gs))" by auto
  from Cons.prems(1) [OF _ s1(1) gs(1)] obtain g where "clean s" "encodes g v" "well_formed g"
    "list_all in_wgs84 (positions g)" "gs_count s1 = gs_count s + length (positions g)" by auto
  with gs show ?case by (intro conjI exI [of _ "g # gs"]) simp_all
qed (auto intro: exI [of _ "[]"])

lemma everyE_member: "everyE f xs = Inr True \<Longrightarrow> x \<in> set xs \<Longrightarrow> f x = Inr True"
  by (simp add: everyE_True)

lemma screened:
  assumes "hasValidStructure v = Inr True" and "single_kind v" and "visitGeometry v s = Inr s'" and "clean s'"
  shows "clean s \<and> (\<exists>g. encodes g v \<and> well_formed g \<and> list_all in_wgs84 (positions g)
    \<and> gs_count s' = gs_count s + length (positions g))"
  using assms
proof (induction v arbitrary: s s' rule: hasValidStructure.induct)
  case (1 v)
  obtain type c where members: "member_of ''type'' v = Inr type" "member_of ''coordinates'' v = Inr c"
    using 1(2) by (subst (asm) hasValidStructure.simps) auto
  note shape = 1(2) [unfolded hasValidStructure.simps [of v] members bindE_simps]
  show ?case
  proof (cases "type = WString (u16 ''GeometryCollection'')")
    case True
    note type = members(1) [unfolded True]
    obtain vs where vs: "member_of ''geometries'' v = Inr (WArray vs)" "everyE hasValidStructure vs = Inr True"
      using shape by (auto simp: True types_differ split: sum.splits wire.splits)
    have fold: "foldE visitGeometry vs s = Inr s'"
      using 1(4) by (subst (asm) visitGeometry.simps) (simp add: vs(1))
    have kinds: "single_kind x" if "x \<in> set vs" for x
      using 1(3) that by (subst (asm) single_kind.simps) (simp add: vs(1))
    have member: "clean t \<and> (\<exists>g. encodes g x \<and> well_formed g \<and> list_all in_wgs84 (positions g)
        \<and> gs_count t' = gs_count t + length (positions g))"
      if "x \<in> set vs" "visitGeometry x t = Inr t'" "clean t'" for x t t'
      by (rule 1(1) [OF members _ _ _ _ _ _ _ vs(1) refl that(1) everyE_member [OF vs(2) that(1)] kinds [OF that(1)] that(2,3)])
        (simp_all add: True types_differ)
    from foldE_screens [OF member fold 1(5)] obtain gs where "clean s" "list_all2 encodes gs vs" "list_all well_formed gs"
      "list_all in_wgs84 (concat (map positions gs))" "gs_count s' = gs_count s + length (concat (map positions gs))"
      by blast
    then show ?thesis
      by (intro conjI exI [of _ "GeometryCollection gs"]) (simp_all add: type vs(1))
  next
    case False
    have none: "member_of ''geometries'' v \<noteq> Inr (WArray gs)" for gs
      using 1(3) False members(1) by (subst (asm) single_kind.simps) auto
    note level = screened_coordinates [OF _ _ members(2) none 1(4,5)]
    consider "type = WString (u16 ''Point'')" "isPosition c"
      | "type = WString (u16 ''MultiPoint'')" "isPositionArray c 1"
      | "type = WString (u16 ''LineString'')" "isPositionArray c 2"
      | "type = WString (u16 ''MultiLineString'')" "array_of (\<lambda>line. isPositionArray line 2) c"
      | "type = WString (u16 ''Polygon'')" "isRingArray c"
      | "type = WString (u16 ''MultiPolygon'')" "array_of isRingArray c"
      using shape False by (auto split: if_splits)
    then show ?thesis
    proof cases
      case 1
      from level [OF screens_position this(2)] obtain p where "clean s" "c = position_wire p" "list_all in_wgs84 [p]"
        "gs_count s' = gs_count s + length [p]" by blast
      then show ?thesis using members 1(1) by (intro conjI exI [of _ "Point p"]) (simp_all add: carries_def)
    next
      case 2
      from level [OF screens_shapes [OF refl] this(2)] obtain ps where "clean s" "c = line_wire ps" "list_all in_wgs84 ps"
        "gs_count s' = gs_count s + length ps" by (auto simp: concat_map_singleton)
      then show ?thesis using members 2
        by (intro conjI exI [of _ "MultiPoint ps"]) (auto simp: carries_def structure_of_wires)
    next
      case 3
      from level [OF screens_shapes [OF refl] this(2)] obtain ps where "clean s" "c = line_wire ps" "list_all in_wgs84 ps"
        "gs_count s' = gs_count s + length ps" by (auto simp: concat_map_singleton)
      then show ?thesis using members 3
        by (intro conjI exI [of _ "LineString ps"]) (auto simp: carries_def structure_of_wires)
    next
      case 4
      from level [OF screens_lines this(2)] obtain ls where "clean s" "c = rings_wire ls" "list_all in_wgs84 (concat ls)"
        "gs_count s' = gs_count s + length (concat ls)" by blast
      then show ?thesis using members 4
        by (intro conjI exI [of _ "MultiLineString ls"])
          (auto simp: carries_def array_of_def array_wire_def [of line_wire] list_all_iff structure_of_wires)
    next
      case 5
      from level [OF screens_ring_array this(2)] obtain rs where "clean s" "c = rings_wire rs" "list_all in_wgs84 (concat rs)"
        "gs_count s' = gs_count s + length (concat rs)" by blast
      then show ?thesis using members 5
        by (intro conjI exI [of _ "Polygon rs"]) (auto simp: carries_def structure_of_wires)
    next
      case 6
      from level [OF screens_polygon_array this(2)] obtain ps where "clean s" "c = array_wire rings_wire ps"
        "list_all in_wgs84 (concat (map concat ps))" "gs_count s' = gs_count s + length (concat (map concat ps))" by blast
      then show ?thesis using members 6
        by (intro conjI exI [of _ "MultiPolygon ps"])
          (auto simp: carries_def array_of_def array_wire_def [of rings_wire] list_all_iff structure_of_wires)
    qed
  qed
qed

text \<open>C15. A geometry that passes the screen is one the database can hold: it is the encoding of a
  geometry of its declared type with at least one position, every position a pair of numbers within
  the range of WGS84, lines of two positions or more and closed rings of four or more; and it is of
  the type a caller requires. This holds of values in which only a collection, at any depth, carries a list of geometries; of
  another value the screen says less, as \<open>screen_bypassed\<close> below shows.\<close>

theorem screened_geometry:
  assumes "checkGeometryPlausibility v requireType = Inr []" and "single_kind v"
  shows "(\<exists>g. encodes g v \<and> well_formed g \<and> positions g \<noteq> [] \<and> list_all in_wgs84 (positions g))
    \<and> (\<forall>t. requireType = Some t \<longrightarrow> member_of ''type'' v = Inr (WString (u16 t)))"
proof -
  obtain s where structure_ok: "hasValidStructure v = Inr True" and s: "scanGeometry v = Inr s" "gs_count s \<noteq> 0" "clean s"
    and type: "\<forall>t. requireType = Some t \<longrightarrow> member_of ''type'' v = Inr (WString (u16 t))"
    using assms(1) by (auto simp: checkGeometryPlausibility_def clean_def split: if_splits option.splits)
  from screened [OF structure_ok assms(2) s(1) [unfolded scanGeometry_def] s(3)] obtain g
    where "encodes g v" "well_formed g" "list_all in_wgs84 (positions g)" "gs_count s = length (positions g)" by auto
  with s(2) have "positions g \<noteq> []" by auto
  with \<open>encodes g v\<close> \<open>well_formed g\<close> \<open>list_all in_wgs84 (positions g)\<close> type show ?thesis by blast
qed

text \<open>The hypothesis matters: the scan prefers a list of geometries over the coordinates whatever the
  type, so a point that also carries one hides its own coordinates from the range check.\<close>

definition point_wire :: "real \<Rightarrow> real \<Rightarrow> (text16 \<times> wire) list \<Rightarrow> wire" where
  "point_wire x y others = WObject ([(u16 ''type'', WString (u16 ''Point'')),
     (u16 ''coordinates'', WArray [WNumber (JNum x), WNumber (JNum y)])] @ others)"

lemma member_names [simp]:
  "u16 ''type'' \<noteq> u16 ''coordinates''" "u16 ''geometries'' \<noteq> u16 ''coordinates''" "u16 ''geometries'' \<noteq> u16 ''type''"
  "u16 ''coordinates'' \<noteq> u16 ''type''" "u16 ''coordinates'' \<noteq> u16 ''geometries''" "u16 ''type'' \<noteq> u16 ''geometries''"
  by (simp_all add: u16_def)

lemma point_members [simp]:
  "member_of ''type'' (point_wire x y []) = Inr (WString (u16 ''Point''))"
  "member_of ''coordinates'' (point_wire x y []) = Inr (WArray [WNumber (JNum x), WNumber (JNum y)])"
  "member_of ''geometries'' (point_wire x y []) = Inr WUndefined"
  by (simp_all add: point_wire_def)

lemma point_scan: "visitGeometry (point_wire x y []) s = Inr (visitPosition [WNumber (JNum x), WNumber (JNum y)] s)"
  by (subst visitGeometry.simps) simp

lemma point_screened: "\<bar>x\<bar> \<le> 180 \<Longrightarrow> \<bar>y\<bar> \<le> 90 \<Longrightarrow> checkGeometryPlausibility (point_wire x y []) (Some ''Point'') = Inr []"
  by (simp add: checkGeometryPlausibility_def hasValidStructure.simps scanGeometry_def point_scan visitPosition_def
      out_of_range_def finite_number_def abs_le_iff)

lemma screen_bypassed:
  "checkGeometryPlausibility (point_wire 999 999 [(u16 ''geometries'', WArray [point_wire 0 0 []])]) None = Inr []"
proof -
  let ?v = "point_wire 999 999 [(u16 ''geometries'', WArray [point_wire 0 0 []])]"
  have members: "member_of ''type'' ?v = Inr (WString (u16 ''Point''))"
    "member_of ''coordinates'' ?v = Inr (WArray [WNumber (JNum 999), WNumber (JNum 999)])"
    "member_of ''geometries'' ?v = Inr (WArray [point_wire 0 0 []])"
    by (simp_all add: point_wire_def)
  have "hasValidStructure ?v = Inr True" by (subst hasValidStructure.simps) (simp add: members)
  moreover have "scanGeometry ?v = Inr \<lparr>gs_count = 1, gs_hasNonFinite = False, gs_outOfRange = False\<rparr>"
    unfolding scanGeometry_def
    by (subst visitGeometry.simps) (simp add: members point_scan visitPosition_def out_of_range_def finite_number_def)
  ultimately show ?thesis by (simp add: checkGeometryPlausibility_def)
qed

theorem screened_geometry_witness:
  "\<exists>g. encodes g (point_wire 7 50 []) \<and> well_formed g \<and> list_all in_wgs84 (positions g)"
proof -
  have "single_kind (point_wire 7 50 [])" by (subst single_kind.simps) simp
  from screened_geometry [OF point_screened this] show ?thesis by auto
qed

text \<open>The walk over a signed tree accepts exactly I-JSON of bounded depth: every number finite, every
  string and key free of lone surrogates, nothing the canonical form would drop or coerce inside an
  array, and at most 64 levels of nesting; every other tree throws.\<close>

theorem assertIJsonTree_exact:
  "isOk (assertIJsonTree v 0) \<longleftrightarrow> i_json v \<and> nesting v \<le> MAX_TREE_DEPTH"
  by (auto simp: isOk_iff assertIJsonTree_iff)

end
