(* ===== verification/Claim_Verification.thy ===== *)
theory Claim_Verification
  imports Geometry_Screen Base64Url LowS
begin

text \<open>
  Signed reports and sub-claims: packages/contrib-core/src/thumbprint.ts, verifyCommon.ts, jcs.ts,
  validate.ts, report.ts and subclaim.ts.

  \<^item> Whatever the platform computes is a record \<open>crypto\<close>, a parameter: the canonical JSON of a value
    (or the error the package throws), SHA-256, signing, importing a key and verifying. A promise is
    its value, a rejected one its error.
  \<^item> Envelopes and keys are wire values, as they arrive; what the claim schemas say of a body is the
    parameter \<open>issues\<close>, the messages of the issues found. The text of an error is kept in short form.
\<close>

subsection \<open>The platform\<close>

record ('sk, 'pk) crypto =
  ct_canonicalize :: "wire \<Rightarrow> js_error + byte list option"
  ct_sha256 :: "byte list \<Rightarrow> byte list"
  ct_sign :: "'sk \<Rightarrow> byte list \<Rightarrow> byte list"
  ct_import :: "wire \<Rightarrow> js_error + 'pk"
  ct_verify :: "'pk \<Rightarrow> byte list \<Rightarrow> byte list \<Rightarrow> bool"

fun message_of :: "js_error \<Rightarrow> string" where
  "message_of (TypeError m) = m"
| "message_of (RangeError m) = m"
| "message_of (JsError m) = m"

definition MAX_CANONICAL_BYTES :: nat where "MAX_CANONICAL_BYTES = 64 * 1024"

text \<open>\<open>/NaN|Infinity/.test(message)\<close>.\<close>

fun mentions :: "string \<Rightarrow> string \<Rightarrow> bool" where
  "mentions word [] = (word = [])"
| "mentions word (c # cs) = (take (length word) (c # cs) = word \<or> mentions word cs)"

definition canonicalClaimBytes :: "('sk, 'pk) crypto \<Rightarrow> wire \<Rightarrow> js_error + byte list" where
  "canonicalClaimBytes ct claim = (case ct_canonicalize ct claim of
     Inl (RangeError _) \<Rightarrow> Inl (TypeError ''value is nested too deeply to canonicalize'')
   | Inl e \<Rightarrow> if mentions ''NaN'' (message_of e) \<or> mentions ''Infinity'' (message_of e)
       then Inl (TypeError ''non-finite number in value'') else Inl e
   | Inr None \<Rightarrow> Inl (TypeError ''value is not JSON-serializable'')
   | Inr (Some bytes) \<Rightarrow> Inr bytes)"

definition boundedCanonicalBytes :: "('sk, 'pk) crypto \<Rightarrow> wire \<Rightarrow> js_error + byte list" where
  "boundedCanonicalBytes ct v = bindE (canonicalClaimBytes ct v) (\<lambda>bytes.
     if length bytes > MAX_CANONICAL_BYTES then Inl (TypeError ''exceeds the 64 KiB canonical size limit'')
     else Inr bytes)"

subsection \<open>Keys\<close>

definition text_member :: "string \<Rightarrow> wire \<Rightarrow> text16 option" where
  "text_member name v = (case member_of name v of Inr (WString t) \<Rightarrow> Some t | _ \<Rightarrow> None)"

definition is_object :: "wire \<Rightarrow> bool" where
  "is_object v = (case v of WArray _ \<Rightarrow> True | WObject _ \<Rightarrow> True | _ \<Rightarrow> False)"

definition REQUIRED_MEMBERS_BY_KTY :: "(text16 \<times> string list) list" where
  "REQUIRED_MEMBERS_BY_KTY = [(u16 ''EC'', [''crv'', ''kty'', ''x'', ''y'']), (u16 ''OKP'', [''crv'', ''kty'', ''x'']),
     (u16 ''RSA'', [''e'', ''kty'', ''n'']), (u16 ''oct'', [''k'', ''kty''])]"

definition required_member :: "wire \<Rightarrow> string \<Rightarrow> js_error + (text16 \<times> wire)" where
  "required_member jwk name = (case text_member name jwk of
     Some (c # cs) \<Rightarrow> Inr (u16 name, WString (c # cs))
   | _ \<Rightarrow> Inl (TypeError ''required JWK member is missing or empty''))"

definition keyIdFromJwk :: "('sk, 'pk) crypto \<Rightarrow> wire \<Rightarrow> js_error + string" where
  "keyIdFromJwk ct jwk =
     (if \<not> is_object jwk then Inl (TypeError ''jwk must be an object with a string kty'')
      else case text_member ''kty'' jwk of
        None \<Rightarrow> Inl (TypeError ''jwk must be an object with a string kty'')
      | Some kty \<Rightarrow> (case map_of REQUIRED_MEMBERS_BY_KTY kty of
          None \<Rightarrow> Inl (TypeError ''unsupported kty'')
        | Some names \<Rightarrow> bindE (mapE (required_member jwk) names) (\<lambda>subset.
            bindE (canonicalClaimBytes ct (WObject subset)) (\<lambda>bytes.
              Inr (toBase64Url (ct_sha256 ct bytes))))))"

definition assertPublicP256Jwk :: "wire \<Rightarrow> js_error + unit" where
  "assertPublicP256Jwk jwk =
     (if \<not> is_object jwk then Inl (TypeError ''must be a JWK object'')
      else if member_of ''d'' jwk \<noteq> Inr WUndefined then Inl (TypeError ''contains private key material'')
      else if text_member ''kty'' jwk \<noteq> Some (u16 ''EC'') \<or> text_member ''crv'' jwk \<noteq> Some (u16 ''P-256'')
        then Inl (TypeError ''must be an EC P-256 public JWK'')
      else if text_member ''x'' jwk \<in> {None, Some []} \<or> text_member ''y'' jwk \<in> {None, Some []}
        then Inl (TypeError ''is missing the x/y coordinates'')
      else Inr ())"

text \<open>An absent key is \<open>WUndefined\<close>. The inner sum is the returned object: an error or the key.\<close>

definition resolveVerificationJwk ::
  "('sk, 'pk) crypto \<Rightarrow> wire \<Rightarrow> wire \<Rightarrow> wire \<Rightarrow> js_error + (string + wire)" where
  "resolveVerificationJwk ct keyId pubJwk knownJwk =
     bindE (if pubJwk \<noteq> WUndefined then assertPublicP256Jwk pubJwk else Inr ()) (\<lambda>_.
     bindE (if knownJwk \<noteq> WUndefined then assertPublicP256Jwk knownJwk else Inr ()) (\<lambda>_.
       (let jwk = (if knownJwk \<noteq> WUndefined then knownJwk else pubJwk) in
        if jwk = WUndefined then Inr (Inl ''no public key'')
        else bindE (if knownJwk \<noteq> WUndefined \<and> pubJwk \<noteq> WUndefined
            then bindE (keyIdFromJwk ct knownJwk) (\<lambda>known. bindE (keyIdFromJwk ct pubJwk) (\<lambda>embedded.
              Inr (known \<noteq> embedded)))
            else Inr False) (\<lambda>mismatch.
          if mismatch then Inr (Inl ''embedded pubJwk does not match the known key for this reporter'')
          else bindE (keyIdFromJwk ct jwk) (\<lambda>thumbprint.
            if keyId \<noteq> WString (u16 thumbprint)
            then Inr (Inl ''keyId does not match the RFC 7638 thumbprint of the verification key'')
            else Inr (Inr jwk))))))"

subsection \<open>Signatures\<close>

text \<open>A text as bytes-as-characters; a unit beyond them is no character of the alphabet either way.\<close>

definition latin :: "text16 \<Rightarrow> string" where
  "latin t = map (\<lambda>x. if unat x < 256 then char_of (unat x) else CHR 0xFF) t"

definition decodeRawSignature :: "wire \<Rightarrow> js_error + byte list" where
  "decodeRawSignature signature = (case signature of
     WString t \<Rightarrow> bindE (fromBase64Url (latin t)) (\<lambda>bytes.
       if length bytes \<noteq> 64 then
         (if take 1 bytes = [0x30] then Inl (TypeError ''signature appears DER-encoded'')
          else Inl (TypeError ''signature must decode to exactly 64 bytes (raw r||s)''))
       else bindE (assertCanonicalSignature bytes) (\<lambda>_. Inr bytes))
   | _ \<Rightarrow> Inl (TypeError ''invalid base64url input''))"

subsection \<open>Bodies\<close>

definition ENVELOPE_FIELDS :: "string list" where
  "ENVELOPE_FIELDS = [''alg'', ''keyId'', ''pubJwk'', ''signature'']"

definition envelope_key :: "text16 \<Rightarrow> bool" where
  "envelope_key k \<longleftrightarrow> k \<in> u16 ` set ENVELOPE_FIELDS"

definition issuesMessage :: "string list \<Rightarrow> string" where
  "issuesMessage messages = concat messages"

definition assertReportClaim :: "(wire \<Rightarrow> string list) \<Rightarrow> wire \<Rightarrow> js_error + unit" where
  "assertReportClaim issues claim = bindE (assertIJsonTree claim 0) (\<lambda>_.
     guardE (issues claim = []) (TypeError (issuesMessage (issues claim))))"

definition assertSubClaimBody :: "(wire \<Rightarrow> string list) \<Rightarrow> wire \<Rightarrow> js_error + unit" where
  "assertSubClaimBody issues body =
     bindE (guardE (case body of WObject ms \<Rightarrow> list_all (\<lambda>m. \<not> envelope_key (fst m)) ms | _ \<Rightarrow> True)
       (TypeError ''subClaim body must not carry an envelope field'')) (\<lambda>_.
     bindE (assertIJsonTree body 0) (\<lambda>_.
       guardE (issues body = []) (TypeError (issuesMessage (issues body)))))"

subsection \<open>Signing and verifying\<close>

record 'sk reporter_key =
  rk_keyId :: string
  rk_publicJwk :: wire
  rk_privateKey :: 'sk

record verify_result =
  vr_ok :: bool
  vr_keyId :: "wire option"
  vr_error :: "string option"

definition refused :: "string \<Rightarrow> verify_result" where
  "refused e = \<lparr>vr_ok = False, vr_keyId = None, vr_error = Some e\<rparr>"

definition envelope :: "'sk reporter_key \<Rightarrow> byte list \<Rightarrow> (text16 \<times> wire) list" where
  "envelope key low = [(u16 ''alg'', WString (u16 ''ES256'')), (u16 ''keyId'', WString (u16 (rk_keyId key))),
     (u16 ''pubJwk'', rk_publicJwk key), (u16 ''signature'', WString (u16 (toBase64Url low)))]"

text \<open>The key order of the envelope differs between the two: a report's claim comes before its
  signature.\<close>

definition signReport ::
  "('sk, 'pk) crypto \<Rightarrow> (wire \<Rightarrow> string list) \<Rightarrow> wire \<Rightarrow> 'sk reporter_key \<Rightarrow> js_error + wire" where
  "signReport ct issues claim key =
     bindE (boundedCanonicalBytes ct claim) (\<lambda>bytes.
     bindE (assertReportClaim issues claim) (\<lambda>_.
     bindE (normalizeLowS (ct_sign ct (rk_privateKey key) bytes)) (\<lambda>low.
       Inr (WObject (take 3 (envelope key low) @ (u16 ''claim'', claim) # drop 3 (envelope key low))))))"

definition signSubClaim ::
  "('sk, 'pk) crypto \<Rightarrow> (wire \<Rightarrow> string list) \<Rightarrow> (text16 \<times> wire) list \<Rightarrow> 'sk reporter_key \<Rightarrow> js_error + wire" where
  "signSubClaim ct issues body key =
     bindE (boundedCanonicalBytes ct (WObject body)) (\<lambda>bytes.
     bindE (assertSubClaimBody issues (WObject body)) (\<lambda>_.
     bindE (normalizeLowS (ct_sign ct (rk_privateKey key) bytes)) (\<lambda>low.
       Inr (WObject (body @ envelope key low)))))"

text \<open>What both verifiers do once the envelope's algorithm is right: \<open>covered\<close> is the value the
  signature covers and \<open>check\<close> its validation.\<close>

definition verify_signed ::
  "('sk, 'pk) crypto \<Rightarrow> wire \<Rightarrow> wire \<Rightarrow> wire \<Rightarrow> (wire \<Rightarrow> js_error + unit) \<Rightarrow> js_error + verify_result" where
  "verify_signed ct outer knownJwk covered check =
     bindE (member_of ''keyId'' outer) (\<lambda>keyId.
     bindE (member_of ''pubJwk'' outer) (\<lambda>pubJwk.
     bindE (resolveVerificationJwk ct keyId pubJwk knownJwk) (\<lambda>resolved. case resolved of
       Inl e \<Rightarrow> Inr (refused e)
     | Inr jwk \<Rightarrow>
         bindE (boundedCanonicalBytes ct covered) (\<lambda>bytes.
         bindE (check covered) (\<lambda>_.
         bindE (member_of ''signature'' outer) (\<lambda>text_sig.
         bindE (decodeRawSignature text_sig) (\<lambda>sig.
         bindE (ct_import ct jwk) (\<lambda>publicKey.
           Inr (if ct_verify ct publicKey sig bytes then \<lparr>vr_ok = True, vr_keyId = Some keyId, vr_error = None\<rparr>
             else \<lparr>vr_ok = False, vr_keyId = Some keyId, vr_error = Some ''signature verification failed''\<rparr>)))))))))"

definition caught :: "js_error + verify_result \<Rightarrow> verify_result" where
  "caught m = (case m of Inl e \<Rightarrow> refused (message_of e) | Inr r \<Rightarrow> r)"

definition verifyReport ::
  "('sk, 'pk) crypto \<Rightarrow> (wire \<Rightarrow> string list) \<Rightarrow> wire \<Rightarrow> wire \<Rightarrow> verify_result" where
  "verifyReport ct issues report knownJwk =
     (if \<not> is_object report then refused ''report must be an object''
      else if text_member ''alg'' report \<noteq> Some (u16 ''ES256'') then refused ''alg must be exactly ES256''
      else caught (bindE (member_of ''claim'' report) (\<lambda>claim.
        verify_signed ct report knownJwk claim (assertReportClaim issues))))"

definition subClaimBodyOf :: "wire \<Rightarrow> wire" where
  "subClaimBodyOf sub = (case sub of WObject ms \<Rightarrow> WObject (filter (\<lambda>m. \<not> envelope_key (fst m)) ms) | _ \<Rightarrow> WObject [])"

definition verifySubClaim ::
  "('sk, 'pk) crypto \<Rightarrow> (wire \<Rightarrow> string list) \<Rightarrow> wire \<Rightarrow> wire \<Rightarrow> verify_result" where
  "verifySubClaim ct issues sub knownJwk =
     (if \<not> is_object sub then refused ''sub-claim must be an object''
      else if text_member ''alg'' sub \<noteq> Some (u16 ''ES256'') then refused ''alg must be exactly ES256''
      else caught (verify_signed ct sub knownJwk (subClaimBodyOf sub) (assertSubClaimBody issues)))"

subsection \<open>What verification establishes\<close>

lemma decodeRawSignature_Inr:
  "decodeRawSignature v = Inr bytes \<longleftrightarrow>
    (\<exists>t. v = WString t \<and> fromBase64Url (latin t) = Inr bytes \<and> length bytes = 64 \<and> assertCanonicalSignature bytes = Inr ())"
  by (auto simp: decodeRawSignature_def split: wire.splits if_splits)

lemma boundedCanonicalBytes_Inr:
  "boundedCanonicalBytes ct v = Inr bytes \<longleftrightarrow> canonicalClaimBytes ct v = Inr bytes \<and> length bytes \<le> MAX_CANONICAL_BYTES"
  by (cases "canonicalClaimBytes ct v") (auto simp: boundedCanonicalBytes_def)

text \<open>The key a signature is verified with: the known one before the embedded one, a P-256 public key
  whose thumbprint is the envelope's key id, and the same key as the embedded one when both are there.\<close>

definition bound_key :: "('sk, 'pk) crypto \<Rightarrow> wire \<Rightarrow> wire \<Rightarrow> wire \<Rightarrow> wire \<Rightarrow> bool" where
  "bound_key ct keyId pubJwk knownJwk jwk \<longleftrightarrow>
     jwk = (if knownJwk \<noteq> WUndefined then knownJwk else pubJwk) \<and> assertPublicP256Jwk jwk = Inr ()
     \<and> (\<exists>thumbprint. keyIdFromJwk ct jwk = Inr thumbprint \<and> keyId = WString (u16 thumbprint)
          \<and> (knownJwk = WUndefined \<or> pubJwk = WUndefined \<or> keyIdFromJwk ct pubJwk = Inr thumbprint))"

lemma resolve_Inr:
  assumes "resolveVerificationJwk ct keyId pubJwk knownJwk = Inr (Inr jwk)"
  shows "bound_key ct keyId pubJwk knownJwk jwk"
proof (cases "knownJwk = WUndefined")
  case True
  then show ?thesis
    using assms by (auto simp: resolveVerificationJwk_def bound_key_def Let_def split: if_splits)
next
  case False
  then show ?thesis
    using assms
    by (cases "pubJwk = WUndefined") (auto simp: resolveVerificationJwk_def bound_key_def Let_def split: if_splits)
qed

lemma resolve_bound:
  assumes "assertPublicP256Jwk jwk = Inr ()" and "keyIdFromJwk ct jwk = Inr thumbprint" and "knownJwk \<in> {WUndefined, jwk}"
  shows "resolveVerificationJwk ct (WString (u16 thumbprint)) jwk knownJwk = Inr (Inr jwk)"
proof -
  have "jwk \<noteq> WUndefined" using assms(1) by (auto simp: assertPublicP256Jwk_def is_object_def)
  with assms show ?thesis by (auto simp: resolveVerificationJwk_def)
qed

lemma verify_signed_ok:
  assumes "caught (verify_signed ct outer knownJwk covered check) = r" and "vr_ok r"
  shows "\<exists>keyId pubJwk jwk pk sig bytes t. member_of ''keyId'' outer = Inr keyId \<and> member_of ''pubJwk'' outer = Inr pubJwk
    \<and> bound_key ct keyId pubJwk knownJwk jwk \<and> vr_keyId r = Some keyId
    \<and> canonicalClaimBytes ct covered = Inr bytes \<and> length bytes \<le> MAX_CANONICAL_BYTES \<and> check covered = Inr ()
    \<and> member_of ''signature'' outer = Inr (WString t) \<and> fromBase64Url (latin t) = Inr sig \<and> length sig = 64
    \<and> assertCanonicalSignature sig = Inr () \<and> ct_import ct jwk = Inr pk \<and> ct_verify ct pk sig bytes"
proof -
  obtain r' where r': "verify_signed ct outer knownJwk covered check = Inr r'" "r = r'"
    using assms by (auto simp: caught_def refused_def split: sum.splits)
  then obtain keyId pubJwk jwk bytes text_sig sig pk where
      members: "member_of ''keyId'' outer = Inr keyId" "member_of ''pubJwk'' outer = Inr pubJwk"
        "member_of ''signature'' outer = Inr text_sig"
    and jwk: "resolveVerificationJwk ct keyId pubJwk knownJwk = Inr (Inr jwk)"
    and bytes: "boundedCanonicalBytes ct covered = Inr bytes" and ok: "check covered = Inr ()"
    and sig: "decodeRawSignature text_sig = Inr sig" and pk: "ct_import ct jwk = Inr pk"
    and v: "ct_verify ct pk sig bytes" "vr_keyId r = Some keyId"
    using assms(2) by (auto simp: verify_signed_def refused_def split: sum.splits if_splits)
  from sig obtain t where "text_sig = WString t" "fromBase64Url (latin t) = Inr sig" "length sig = 64"
    "assertCanonicalSignature sig = Inr ()" by (auto simp: decodeRawSignature_Inr)
  with members resolve_Inr [OF jwk] bytes ok pk v show ?thesis
    unfolding boundedCanonicalBytes_Inr by blast
qed

lemma assertIJson_ok: "assertIJsonTree v 0 = Inr () \<longleftrightarrow> i_json v \<and> nesting v \<le> MAX_TREE_DEPTH"
  by (auto simp: assertIJsonTree_iff)

text \<open>C11. What an accepted sub-claim establishes: its algorithm is ES256; the key is the one the server
  knows, or else the embedded one, a public P-256 key whose thumbprint is the envelope's key id; the
  object less its envelope is I-JSON of bounded size and depth that its schema accepts; and the
  signature, in the one canonical form of 64 bytes, verifies over exactly that object's bytes.\<close>

theorem verified_subclaim:
  assumes "verifySubClaim ct issues sub knownJwk = r" and "vr_ok r"
  shows "text_member ''alg'' sub = Some (u16 ''ES256'')
    \<and> (\<exists>keyId pubJwk jwk pk sig bytes t. member_of ''keyId'' sub = Inr keyId \<and> member_of ''pubJwk'' sub = Inr pubJwk
         \<and> bound_key ct keyId pubJwk knownJwk jwk \<and> vr_keyId r = Some keyId
         \<and> i_json (subClaimBodyOf sub) \<and> nesting (subClaimBodyOf sub) \<le> MAX_TREE_DEPTH \<and> issues (subClaimBodyOf sub) = []
         \<and> canonicalClaimBytes ct (subClaimBodyOf sub) = Inr bytes \<and> length bytes \<le> MAX_CANONICAL_BYTES
         \<and> member_of ''signature'' sub = Inr (WString t) \<and> fromBase64Url (latin t) = Inr sig \<and> length sig = 64
         \<and> assertCanonicalSignature sig = Inr () \<and> ct_import ct jwk = Inr pk \<and> ct_verify ct pk sig bytes)"
proof -
  from assms have alg: "text_member ''alg'' sub = Some (u16 ''ES256'')"
    and c: "caught (verify_signed ct sub knownJwk (subClaimBodyOf sub) (assertSubClaimBody issues)) = r"
    by (auto simp: verifySubClaim_def refused_def split: if_splits)
  from verify_signed_ok [OF c assms(2)] obtain keyId pubJwk jwk pk sig bytes t where
      v: "member_of ''keyId'' sub = Inr keyId" "member_of ''pubJwk'' sub = Inr pubJwk"
        "bound_key ct keyId pubJwk knownJwk jwk" "vr_keyId r = Some keyId"
        "canonicalClaimBytes ct (subClaimBodyOf sub) = Inr bytes" "length bytes \<le> MAX_CANONICAL_BYTES"
        "member_of ''signature'' sub = Inr (WString t)" "fromBase64Url (latin t) = Inr sig" "length sig = 64"
        "assertCanonicalSignature sig = Inr ()" "ct_import ct jwk = Inr pk" "ct_verify ct pk sig bytes"
    and body: "assertSubClaimBody issues (subClaimBodyOf sub) = Inr ()"
    by blast
  from body have "i_json (subClaimBodyOf sub)" "nesting (subClaimBodyOf sub) \<le> MAX_TREE_DEPTH" "issues (subClaimBodyOf sub) = []"
    by (auto simp: assertSubClaimBody_def assertIJson_ok [simplified] bindE_eq_Inr)
  with v alg show ?thesis by blast
qed


subsection \<open>Round trip\<close>

lemma latin_u16 [simp]: "latin (u16 s) = s"
proof -
  have lt: "(of_char c :: nat) < 65536" for c :: char
    by (rule less_trans [OF nat_of_char_less_256]) simp
  then have "unat (of_nat (of_char c) :: 16 word) = of_char c" for c :: char
    by (simp add: unat_of_nat mod_less)
  then show ?thesis by (induction s) (simp_all add: latin_def u16_def)
qed

lemma envelope_names:
  "u16 ''alg'' \<noteq> u16 ''keyId''" "u16 ''alg'' \<noteq> u16 ''pubJwk''" "u16 ''alg'' \<noteq> u16 ''signature''"
  "u16 ''keyId'' \<noteq> u16 ''pubJwk''" "u16 ''keyId'' \<noteq> u16 ''signature''" "u16 ''pubJwk'' \<noteq> u16 ''signature''"
  by (simp_all add: u16_def)

lemma envelope_members:
  "member_of ''alg'' (WObject (body @ envelope key low)) = Inr (WString (u16 ''ES256''))"
  "member_of ''keyId'' (WObject (body @ envelope key low)) = Inr (WString (u16 (rk_keyId key)))"
  "member_of ''pubJwk'' (WObject (body @ envelope key low)) = Inr (rk_publicJwk key)"
  "member_of ''signature'' (WObject (body @ envelope key low)) = Inr (WString (u16 (toBase64Url low)))"
  using envelope_names by (auto simp: envelope_def)

lemma envelope_keys: "list_all (\<lambda>m. envelope_key (fst m)) (envelope key low)"
  by (simp add: envelope_def envelope_key_def ENVELOPE_FIELDS_def)

lemma body_of_signed:
  assumes "list_all (\<lambda>m. \<not> envelope_key (fst m)) body"
  shows "subClaimBodyOf (WObject (body @ envelope key low)) = WObject body"
proof -
  have "filter (\<lambda>m. \<not> envelope_key (fst m)) body = body"
    using assms by (simp add: filter_id_conv list_all_iff)
  moreover have "filter (\<lambda>m. \<not> envelope_key (fst m)) (envelope key low) = []"
    using envelope_keys by (simp add: filter_empty_conv list_all_iff)
  ultimately show ?thesis by (simp add: subClaimBodyOf_def)
qed

lemma low_form:
  assumes "wf_signature raw" and "normalizeLowS raw = Inr low"
  shows "low \<in> {raw, twin raw}" "length low = 64" "assertCanonicalSignature low = Inr ()"
proof -
  have low: "low = (if sig_s raw \<le> P256_HALF_ORDER then raw else twin raw)"
    using assms normalizeLowS_eq [of raw] by (simp add: wf_signature_def)
  then show "low \<in> {raw, twin raw}" by simp
  have wf: "wf_signature low" using low assms(1) sig_twin(3) by simp
  then show "length low = 64" by (simp add: wf_signature_def)
  have "isOk (assertCanonicalSignature low)"
    using low assms(1) wf half_swap [of "sig_s raw"] sig_twin [OF assms(1)]
    by (auto simp: assert_iff wf_signature_def)
  then show "assertCanonicalSignature low = Inr ()" by (simp add: isOk_iff)
qed

lemma accepted_envelope:
  assumes key: "assertPublicP256Jwk (rk_publicJwk key) = Inr ()"
      "keyIdFromJwk ct (rk_publicJwk key) = Inr (rk_keyId key)" "ct_import ct (rk_publicJwk key) = Inr pk"
    and known: "knownJwk \<in> {WUndefined, rk_publicJwk key}"
    and body: "boundedCanonicalBytes ct (WObject body) = Inr bytes" "assertSubClaimBody issues (WObject body) = Inr ()"
    and low: "length low = 64" "assertCanonicalSignature low = Inr ()" "ct_verify ct pk low bytes"
  defines "sub \<equiv> WObject (body @ envelope key low)"
  shows "verifySubClaim ct issues sub knownJwk
      = \<lparr>vr_ok = True, vr_keyId = Some (WString (u16 (rk_keyId key))), vr_error = None\<rparr>"
    and "subClaimBodyOf sub = WObject body"
proof -
  show b: "subClaimBodyOf sub = WObject body"
    unfolding sub_def using body(2) by (intro body_of_signed) (auto simp: assertSubClaimBody_def)
  have "decodeRawSignature (WString (u16 (toBase64Url low))) = Inr low"
    using low by (simp add: decodeRawSignature_Inr base64url_roundtrip)
  moreover have "text_member ''alg'' sub = Some (u16 ''ES256'')" "is_object sub"
    by (simp_all only: sub_def text_member_def is_object_def envelope_members sum.case wire.case)
  moreover have "member_of ''keyId'' sub = Inr (WString (u16 (rk_keyId key)))"
    "member_of ''pubJwk'' sub = Inr (rk_publicJwk key)"
    "member_of ''signature'' sub = Inr (WString (u16 (toBase64Url low)))"
    by (simp_all only: sub_def envelope_members)
  moreover note resolve_bound [OF key(1,2) known] body b key(3) low
  ultimately show "verifySubClaim ct issues sub knownJwk
      = \<lparr>vr_ok = True, vr_keyId = Some (WString (u16 (rk_keyId key))), vr_error = None\<rparr>"
    by (simp add: verifySubClaim_def verify_signed_def caught_def)
qed

text \<open>C10. What a reporter signs verifies: a sub-claim that \<open>signSubClaim\<close> returns is accepted, whether the
  server knows the reporter's key or takes the embedded one, and the body it covers is exactly the
  signed one. The hypotheses are the contract of a reporter's key (a public P-256 key, named by its
  thumbprint, that imports) and of ECDSA: a signature is well formed, verifies over what was signed,
  and so does its twin.\<close>

theorem signed_subclaim_verifies:
  assumes signed: "signSubClaim ct issues body key = Inr sub"
    and key: "assertPublicP256Jwk (rk_publicJwk key) = Inr ()"
      "keyIdFromJwk ct (rk_publicJwk key) = Inr (rk_keyId key)" "ct_import ct (rk_publicJwk key) = Inr pk"
    and ecdsa: "\<And>m. wf_signature (ct_sign ct (rk_privateKey key) m)"
      "\<And>m. ct_verify ct pk (ct_sign ct (rk_privateKey key) m) m"
      "\<And>m sig. wf_signature sig \<Longrightarrow> ct_verify ct pk (twin sig) m = ct_verify ct pk sig m"
    and known: "knownJwk \<in> {WUndefined, rk_publicJwk key}"
  shows "verifySubClaim ct issues sub knownJwk
      = \<lparr>vr_ok = True, vr_keyId = Some (WString (u16 (rk_keyId key))), vr_error = None\<rparr>
    \<and> subClaimBodyOf sub = WObject body"
proof -
  from signed obtain bytes low where bytes: "boundedCanonicalBytes ct (WObject body) = Inr bytes"
    and ok: "assertSubClaimBody issues (WObject body) = Inr ()"
    and low: "normalizeLowS (ct_sign ct (rk_privateKey key) bytes) = Inr low"
    and sub: "sub = WObject (body @ envelope key low)"
    by (auto simp: signSubClaim_def)
  note lf = low_form [OF ecdsa(1) low]
  have "ct_verify ct pk low bytes" using lf(1) ecdsa by auto
  from accepted_envelope [OF key known bytes ok lf(2,3) this] show ?thesis by (simp add: sub)
qed

text \<open>A platform on which the contract holds: every value is written as no bytes, and the two forms of
  one signature verify.\<close>

definition toy_crypto :: "(unit, unit) crypto" where
  "toy_crypto = \<lparr>ct_canonicalize = (\<lambda>_. Inr (Some [])), ct_sha256 = (\<lambda>_. []), ct_sign = (\<lambda>_ _. sample_signature),
     ct_import = (\<lambda>_. Inr ()), ct_verify = (\<lambda>_ sig _. sig_r sig = sig_r sample_signature)\<rparr>"

definition toy_jwk :: wire where
  "toy_jwk = WObject [(u16 ''kty'', WString (u16 ''EC'')), (u16 ''crv'', WString (u16 ''P-256'')),
     (u16 ''x'', WString (u16 ''f83O'')), (u16 ''y'', WString (u16 ''x_Fe''))]"

definition toy_key :: "unit reporter_key" where
  "toy_key = \<lparr>rk_keyId = [], rk_publicJwk = toy_jwk, rk_privateKey = ()\<rparr>"

definition toy_body :: "(text16 \<times> wire) list" where
  "toy_body = [(u16 ''ok'', WBool True)]"

lemma toy_key_ok:
  "assertPublicP256Jwk (rk_publicJwk toy_key) = Inr ()"
  "keyIdFromJwk toy_crypto (rk_publicJwk toy_key) = Inr (rk_keyId toy_key)"
  by (simp_all add: toy_key_def toy_jwk_def assertPublicP256Jwk_def keyIdFromJwk_def is_object_def text_member_def
      REQUIRED_MEMBERS_BY_KTY_def required_member_def canonicalClaimBytes_def toy_crypto_def u16_def)

lemma toy_body_ok:
  "boundedCanonicalBytes toy_crypto (WObject toy_body) = Inr []"
  "assertSubClaimBody (\<lambda>_. []) (WObject toy_body) = Inr ()"
proof -
  have "assertIJsonTree (WObject toy_body) 0 = Inr ()"
    by (simp add: assertIJson_ok [simplified] toy_body_def MAX_TREE_DEPTH_def hasLoneSurrogate_def u16_def
        high_surrogate_def low_surrogate_def)
  moreover have "\<not> envelope_key (u16 ''ok'')" by (simp add: envelope_key_def ENVELOPE_FIELDS_def u16_def)
  ultimately show "assertSubClaimBody (\<lambda>_. []) (WObject toy_body) = Inr ()"
    by (simp add: assertSubClaimBody_def toy_body_def)
  show "boundedCanonicalBytes toy_crypto (WObject toy_body) = Inr []"
    by (simp add: boundedCanonicalBytes_def canonicalClaimBytes_def toy_crypto_def)
qed

lemma toy_signed:
  obtains low where "normalizeLowS sample_signature = Inr low" "low \<in> {sample_signature, twin sample_signature}"
    "length low = 64" "assertCanonicalSignature low = Inr ()"
    "signSubClaim toy_crypto (\<lambda>_. []) toy_body toy_key = Inr (WObject (toy_body @ envelope toy_key low))"
proof -
  obtain low where low: "normalizeLowS sample_signature = Inr low"
    using wf_sample normalizeLowS_eq [of sample_signature] by (simp add: wf_signature_def)
  have "signSubClaim toy_crypto (\<lambda>_. []) toy_body toy_key = Inr (WObject (toy_body @ envelope toy_key low))"
    using low toy_body_ok by (simp add: signSubClaim_def) (simp add: toy_crypto_def)
  with low low_form [OF wf_sample low] that show ?thesis by blast
qed

theorem signed_subclaim_verifies_witness:
  "\<exists>sub. signSubClaim toy_crypto (\<lambda>_. []) toy_body toy_key = Inr sub
     \<and> vr_ok (verifySubClaim toy_crypto (\<lambda>_. []) sub WUndefined)"
proof -
  from toy_signed obtain sub where sub: "signSubClaim toy_crypto (\<lambda>_. []) toy_body toy_key = Inr sub" by blast
  from signed_subclaim_verifies [OF sub toy_key_ok, of "()" WUndefined]
  have "vr_ok (verifySubClaim toy_crypto (\<lambda>_. []) sub WUndefined)"
    by (simp add: toy_crypto_def wf_sample sig_twin)
  with sub show ?thesis by blast
qed

theorem verified_subclaim_witness:
  "\<exists>sub jwk. vr_ok (verifySubClaim toy_crypto (\<lambda>_. []) sub WUndefined)
     \<and> bound_key toy_crypto (WString []) toy_jwk WUndefined jwk"
proof -
  obtain low where low: "low \<in> {sample_signature, twin sample_signature}" "length low = 64"
    "assertCanonicalSignature low = Inr ()" by (rule toy_signed)
  define sub where "sub = WObject (toy_body @ envelope toy_key low)"
  have "ct_import toy_crypto (rk_publicJwk toy_key) = Inr ()" "ct_verify toy_crypto () low []"
    using low(1) sig_twin [OF wf_sample] by (auto simp: toy_crypto_def)
  from accepted_envelope(1) [OF toy_key_ok this(1) _ toy_body_ok low(2,3) this(2), of WUndefined]
  have ok: "vr_ok (verifySubClaim toy_crypto (\<lambda>_. []) sub WUndefined)" by (simp add: sub_def)
  moreover have "member_of ''keyId'' sub = Inr (WString [])" "member_of ''pubJwk'' sub = Inr toy_jwk"
    by (simp_all only: sub_def envelope_members) (simp_all add: toy_key_def u16_def)
  ultimately show ?thesis using verified_subclaim [OF refl ok] by auto
qed

end
