(* ===== verification/Token_Bucket.thy ===== *)
theory Token_Bucket
  imports OC_Prelude
begin

text \<open>
  The token-bucket limiter of the public feeds: services/ingest/src/rate-limit.ts. A state is the
  map of buckets; the clock is an argument of every step, in milliseconds, and the request key is
  what \<open>keyFn\<close> answers. Tokens are reals, the code's doubles without rounding.
\<close>

subsection \<open>The limiter\<close>

record bucket =
  bk_tokens :: real
  bk_lastRefill :: int

record bucket_options =
  bo_max :: real
  bo_windowMs :: real

type_synonym buckets = "string \<rightharpoonup> bucket"

text \<open>\<open>defaultKeyFn\<close>: the forwarded address and the peer's, when there is one.\<close>

definition defaultKeyFn :: "string \<Rightarrow> string option \<Rightarrow> string" where
  "defaultKeyFn ip remote = ip @ ''|'' @ nullish remote ''unknown''"

definition gain :: "bucket_options \<Rightarrow> int \<Rightarrow> real" where
  "gain opts elapsed = real_of_int elapsed / bo_windowMs opts * bo_max opts"

definition refill :: "bucket_options \<Rightarrow> int \<Rightarrow> bucket \<Rightarrow> bucket" where
  "refill opts now b = b\<lparr>
     bk_tokens := min (bo_max opts) (bk_tokens b + gain opts (now - bk_lastRefill b)),
     bk_lastRefill := now\<rparr>"

definition consume :: "bucket_options \<Rightarrow> int \<Rightarrow> string \<Rightarrow> buckets \<Rightarrow> (bool \<times> int) \<times> buckets" where
  "consume opts now key s =
     (let stored = nullish (s key) \<lparr>bk_tokens = bo_max opts, bk_lastRefill = now\<rparr>;
          bucket = refill opts now stored
      in if bk_tokens bucket < 1
         then ((False, max 1 \<lceil>((1 - bk_tokens bucket) / bo_max opts * bo_windowMs opts) / 1000\<rceil>), s(key \<mapsto> bucket))
         else ((True, 0), s(key \<mapsto> bucket\<lparr>bk_tokens := bk_tokens bucket - 1\<rparr>)))"

definition cleanup :: "bucket_options \<Rightarrow> int \<Rightarrow> buckets \<Rightarrow> buckets" where
  "cleanup opts now s = (\<lambda>key. case s key of None \<Rightarrow> None
     | Some b \<Rightarrow> if real_of_int (now - bk_lastRefill b) > bo_windowMs opts * 2 then None else Some b)"

definition destroy :: "buckets \<Rightarrow> buckets" where
  "destroy s = Map.empty"

text \<open>The hook: what the reply is, \<open>None\<close> when the request goes on.\<close>

record too_many =
  tm_status :: nat
  tm_retryAfter :: int

definition hook :: "bucket_options \<Rightarrow> int \<Rightarrow> string \<Rightarrow> buckets \<Rightarrow> too_many option \<times> buckets" where
  "hook opts now key s = (case consume opts now key s of ((allowed, retryAfterSec), s') \<Rightarrow>
     (if allowed then None else Some \<lparr>tm_status = 429, tm_retryAfter = retryAfterSec\<rparr>, s'))"

definition LOOPBACK :: "string set" where
  "LOOPBACK = {''127.0.0.1'', ''::1'', ''::ffff:127.0.0.1''}"

text \<open>What the server applies to a request: its url, its scope and the address of its peer, as the
  code reads them.\<close>

definition registerRateLimit ::
  "bucket_options \<Rightarrow> int \<Rightarrow> string \<Rightarrow> string \<Rightarrow> string option \<Rightarrow> string \<Rightarrow> buckets \<Rightarrow> too_many option \<times> buckets" where
  "registerRateLimit opts now url scope peer key s =
     (if url = ''/status'' \<or> take 8 url = ''/status?'' then (None, s)
      else if scope = ''operator'' then (None, s)
      else if (case peer of None \<Rightarrow> False | Some p \<Rightarrow> p \<in> LOOPBACK) then (None, s)
      else hook opts now key s)"

subsection \<open>Runs\<close>

datatype limiter_event = Request int string | Sweep int

fun event_time :: "limiter_event \<Rightarrow> int" where
  "event_time (Request t _) = t"
| "event_time (Sweep t) = t"

fun limiter_step :: "bucket_options \<Rightarrow> limiter_event \<Rightarrow> buckets \<Rightarrow> buckets" where
  "limiter_step opts (Request t key) s = snd (consume opts t key s)"
| "limiter_step opts (Sweep t) s = cleanup opts t s"

fun granted_by :: "bucket_options \<Rightarrow> string \<Rightarrow> limiter_event \<Rightarrow> buckets \<Rightarrow> nat" where
  "granted_by opts k (Request t key) s = (if key = k \<and> fst (fst (consume opts t key s)) then 1 else 0)"
| "granted_by opts k (Sweep t) s = 0"

fun granted :: "bucket_options \<Rightarrow> string \<Rightarrow> limiter_event list \<Rightarrow> buckets \<Rightarrow> nat" where
  "granted opts k [] s = 0"
| "granted opts k (e # es) s = granted_by opts k e s + granted opts k es (limiter_step opts e s)"

text \<open>The tokens a key has at an instant, whether its bucket is stored or not.\<close>

definition tokens_at :: "bucket_options \<Rightarrow> buckets \<Rightarrow> string \<Rightarrow> int \<Rightarrow> real" where
  "tokens_at opts s k t = (case s k of None \<Rightarrow> bo_max opts | Some b \<Rightarrow> bk_tokens (refill opts t b))"

definition limiter_inv :: "bucket_options \<Rightarrow> int \<Rightarrow> buckets \<Rightarrow> bool" where
  "limiter_inv opts now s \<longleftrightarrow> (\<forall>k b. s k = Some b \<longrightarrow>
     0 \<le> bk_tokens b \<and> bk_tokens b \<le> bo_max opts \<and> bk_lastRefill b \<le> now)"

definition wf_options :: "bucket_options \<Rightarrow> bool" where
  "wf_options opts \<longleftrightarrow> 0 < bo_max opts \<and> 0 < bo_windowMs opts"

lemma gain_nonneg: "wf_options opts \<Longrightarrow> 0 \<le> d \<Longrightarrow> 0 \<le> gain opts d"
  by (simp add: wf_options_def gain_def)

lemma gain_add: "gain opts (a + b) = gain opts a + gain opts b"
  by (simp add: gain_def add_divide_distrib distrib_right)

lemma gain_full:
  assumes "wf_options opts" and "bo_windowMs opts \<le> real_of_int d"
  shows "bo_max opts \<le> gain opts d"
proof -
  have "1 * bo_max opts \<le> real_of_int d / bo_windowMs opts * bo_max opts"
    using assms by (intro mult_right_mono) (auto simp: wf_options_def le_divide_eq)
  then show ?thesis by (simp add: gain_def)
qed

lemma limiter_inv_step:
  assumes "wf_options opts" and "limiter_inv opts now s" and "now \<le> event_time e"
  shows "limiter_inv opts (event_time e) (limiter_step opts e s)"
proof (cases e)
  case (Request t key)
  have "0 \<le> bk_tokens b + gain opts (t - bk_lastRefill b)" if "s key = Some b" for b
    using that assms Request gain_nonneg [OF assms(1), of "t - bk_lastRefill b"]
    by (force simp: limiter_inv_def)
  moreover have "gain opts 0 = 0" by (simp add: gain_def)
  ultimately show ?thesis
    using assms Request
    by (auto simp: limiter_inv_def consume_def refill_def Let_def wf_options_def nullish_def
        intro: order_trans split: option.splits if_splits)
next
  case (Sweep t)
  then show ?thesis
    using assms by (auto simp: limiter_inv_def cleanup_def intro: order_trans split: option.splits if_splits)
qed

text \<open>A bucket swept away was full again.\<close>

lemma tokens_swept:
  assumes "wf_options opts" and "limiter_inv opts now s" and "now \<le> t"
  shows "tokens_at opts (cleanup opts t s) k t = tokens_at opts s k t"
proof (cases "s k")
  case (Some b)
  then have "0 \<le> bk_tokens b" using assms(2) by (auto simp: limiter_inv_def)
  then have "bo_max opts \<le> bk_tokens b + gain opts (t - bk_lastRefill b)"
    if "real_of_int (t - bk_lastRefill b) > bo_windowMs opts * 2"
    using that gain_full [OF assms(1), of "t - bk_lastRefill b"] assms(1) by (simp add: wf_options_def)
  then show ?thesis using Some by (simp add: tokens_at_def cleanup_def refill_def)
qed (simp add: tokens_at_def cleanup_def)

lemma tokens_later:
  assumes "wf_options opts" and "t \<le> t'"
  shows "tokens_at opts s k t' \<le> tokens_at opts s k t + gain opts (t' - t)"
proof (cases "s k")
  case None
  then show ?thesis using gain_nonneg [OF assms(1)] assms(2) by (simp add: tokens_at_def)
next
  case (Some b)
  have "gain opts (t' - bk_lastRefill b) = gain opts (t - bk_lastRefill b) + gain opts (t' - t)"
    using gain_add [of opts "t - bk_lastRefill b" "t' - t"] by simp
  then show ?thesis
    using Some gain_nonneg [OF assms(1), of "t' - t"] assms(2) by (simp add: tokens_at_def refill_def)
qed

text \<open>Every granted request takes one token of its key, and nothing else does.\<close>

lemma tokens_step:
  assumes "wf_options opts" and "limiter_inv opts now s" and "now \<le> event_time e"
  shows "tokens_at opts (limiter_step opts e s) k (event_time e)
    = tokens_at opts s k (event_time e) - granted_by opts k e s"
proof (cases e)
  case (Request t key)
  have "gain opts 0 = 0" by (simp add: gain_def)
  then show ?thesis
    using Request
    by (auto simp: tokens_at_def consume_def refill_def Let_def nullish_def min_def split: option.splits)
next
  case (Sweep t)
  then show ?thesis using assms tokens_swept by simp
qed

lemma tokens_range:
  assumes "wf_options opts" and "limiter_inv opts now s" and "now \<le> t"
  shows "0 \<le> tokens_at opts s k t \<and> tokens_at opts s k t \<le> bo_max opts"
proof (cases "s k")
  case (Some b)
  then have "bk_lastRefill b \<le> t" "0 \<le> bk_tokens b" using assms by (auto simp: limiter_inv_def intro: order_trans)
  then show ?thesis
    using Some assms(1) gain_nonneg [OF assms(1), of "t - bk_lastRefill b"]
    by (auto simp: tokens_at_def refill_def wf_options_def)
next
  case None
  then show ?thesis using assms(1) by (simp add: tokens_at_def wf_options_def)
qed

lemma granted_tokens:
  assumes "wf_options opts" and "limiter_inv opts now s" and "sorted (now # map event_time es)"
  shows "granted opts k es s \<le> tokens_at opts s k now + gain opts (last (now # map event_time es) - now)"
  using assms(2,3)
proof (induction es arbitrary: now s)
  case Nil
  then show ?case using tokens_range [OF assms(1), of now s now k] by (simp add: gain_def)
next
  case (Cons e es)
  let ?t = "event_time e" and ?s = "limiter_step opts e s"
  have le: "now \<le> ?t" and "sorted (?t # map event_time es)" using Cons.prems(2) by auto
  from Cons.IH [OF limiter_inv_step [OF assms(1) Cons.prems(1) le] this(2)]
  have "granted opts k es ?s \<le> tokens_at opts ?s k ?t + gain opts (last (?t # map event_time es) - ?t)" .
  moreover have "tokens_at opts ?s k ?t = tokens_at opts s k ?t - granted_by opts k e s"
    by (rule tokens_step [OF assms(1) Cons.prems(1) le])
  moreover have "tokens_at opts s k ?t \<le> tokens_at opts s k now + gain opts (?t - now)"
    by (rule tokens_later [OF assms(1) le])
  moreover have "gain opts (last (?t # map event_time es) - ?t) + gain opts (?t - now)
      = gain opts (last (now # map event_time (e # es)) - now)"
    using gain_add [of opts "last (?t # map event_time es) - ?t" "?t - now"] by simp
  ultimately show ?case by simp
qed

subsection \<open>What a client is allowed\<close>

lemma limiter_inv_run:
  assumes "wf_options opts" and "limiter_inv opts now s" and "sorted (now # map event_time es)"
  shows "limiter_inv opts (last (now # map event_time es)) (fold (limiter_step opts) es s)"
  using assms(2,3)
proof (induction es arbitrary: now s)
  case (Cons e es)
  have le: "now \<le> event_time e" and "sorted (event_time e # map event_time es)" using Cons.prems(2) by auto
  from Cons.IH [OF limiter_inv_step [OF assms(1) Cons.prems(1) le] this(2)] show ?case by simp
qed simp

text \<open>C30. What a client gets through: in any stretch of a run of the limiter, sweeps included, a client is
  granted at most one full bucket and what regenerates over the stretch. A bucket that is swept
  away gives nobody a request more.\<close>

theorem bucket_budget:
  assumes "wf_options opts" and "sorted (map event_time (before @ first # es))"
  shows "granted opts k (first # es) (fold (limiter_step opts) before Map.empty)
    \<le> bo_max opts + gain opts (event_time (last (first # es)) - event_time first)"
proof -
  let ?s = "fold (limiter_step opts) before Map.empty" and ?t = "event_time first"
  have sorted: "sorted (?t # map event_time (first # es))" using assms(2) by (simp add: sorted_append)
  have "limiter_inv opts ?t ?s"
  proof (cases before)
    case Nil
    then show ?thesis by (simp add: limiter_inv_def)
  next
    case (Cons e rest)
    have "limiter_inv opts (event_time e) Map.empty" by (simp add: limiter_inv_def)
    then have "limiter_inv opts (last (event_time e # map event_time before)) ?s"
      using assms(2) Cons by (intro limiter_inv_run [OF assms(1)]) (auto simp: sorted_append)
    moreover have "last (event_time e # map event_time before) \<le> ?t"
      using assms(2) Cons by (auto simp: sorted_append last_map)
    ultimately show ?thesis by (force simp: limiter_inv_def)
  qed
  note granted_tokens [OF assms(1) this sorted, of k] and tokens_range [OF assms(1) this order_refl, of k]
  moreover have "last (?t # map event_time (first # es)) = event_time (last (first # es))"
    by (simp add: last_map)
  ultimately show ?thesis by simp
qed

lemma consume_granted: "fst (fst (consume opts t k s)) \<longleftrightarrow> 1 \<le> tokens_at opts s k t"
  by (auto simp: consume_def tokens_at_def refill_def gain_def Let_def nullish_def split: option.splits)

text \<open>Other clients and sweeps leave a client's tokens alone.\<close>

lemma tokens_idle_step:
  assumes "wf_options opts" and "limiter_inv opts now s" and "now \<le> event_time e" and "event_time e \<le> t"
    and "\<forall>t. e \<noteq> Request t k"
  shows "tokens_at opts (limiter_step opts e s) k t = tokens_at opts s k t"
proof (cases e)
  case (Request t0 key)
  then show ?thesis using assms(5) by (simp add: tokens_at_def consume_def Let_def)
next
  case (Sweep t0)
  show ?thesis
  proof (cases "s k")
    case (Some b)
    then have "0 \<le> bk_tokens b" using assms(2) by (auto simp: limiter_inv_def)
    then have "bo_max opts \<le> bk_tokens b + gain opts (t - bk_lastRefill b)"
      if "real_of_int (t0 - bk_lastRefill b) > bo_windowMs opts * 2"
      using that gain_full [OF assms(1), of "t - bk_lastRefill b"] assms(1,4) Sweep by (simp add: wf_options_def)
    then show ?thesis using Some Sweep by (simp add: tokens_at_def cleanup_def refill_def)
  qed (simp add: Sweep tokens_at_def cleanup_def)
qed

lemma tokens_idle:
  assumes "wf_options opts" and "limiter_inv opts now s" and "sorted (now # map event_time es)"
    and "\<forall>e \<in> set es. \<forall>t. e \<noteq> Request t k" and "last (now # map event_time es) \<le> t"
  shows "tokens_at opts (fold (limiter_step opts) es s) k t = tokens_at opts s k t"
  using assms(2-5)
proof (induction es arbitrary: now s)
  case (Cons e es)
  have le: "now \<le> event_time e" and srt: "sorted (event_time e # map event_time es)" using Cons.prems(2) by auto
  have "event_time e \<le> last (event_time e # map event_time es)"
    using srt by (metis last_in_set list.distinct(1) order_refl set_ConsD sorted_wrt.simps(2))
  then have "event_time e \<le> t" using Cons.prems(4) by simp
  then have "tokens_at opts (limiter_step opts e s) k t = tokens_at opts s k t"
    using Cons.prems(3) by (intro tokens_idle_step [OF assms(1) Cons.prems(1) le]) auto
  with Cons.IH [OF limiter_inv_step [OF assms(1) Cons.prems(1) le] srt] Cons.prems(3,4) show ?case by simp
qed simp

lemma refused_tokens:
  assumes "wf_options opts" and "consume opts now k s = ((False, retry), s')"
  obtains b where "s' k = Some b" "bk_lastRefill b = now" "1 - bk_tokens b \<le> gain opts (1000 * retry)"
proof -
  define b where "b = refill opts now (nullish (s k) \<lparr>bk_tokens = bo_max opts, bk_lastRefill = now\<rparr>)"
  have s': "s' k = Some b" and retry: "retry = max 1 \<lceil>((1 - bk_tokens b) / bo_max opts * bo_windowMs opts) / 1000\<rceil>"
    using assms(2) by (auto simp: consume_def b_def Let_def split: if_splits)
  have "((1 - bk_tokens b) / bo_max opts * bo_windowMs opts) / 1000 \<le> real_of_int retry"
    unfolding retry by linarith
  then have "(1 - bk_tokens b) / bo_max opts * bo_windowMs opts \<le> 1000 * real_of_int retry" by simp
  then have "1 - bk_tokens b \<le> gain opts (1000 * retry)"
    using assms(1) by (simp add: gain_def wf_options_def field_simps)
  with s' that show thesis by (simp add: b_def refill_def)
qed

text \<open>\<open>Retry-After\<close> is true: a client that is refused and asks again after that many seconds, having
  asked nothing in between, is granted, however the other clients and the sweeps went.\<close>

theorem bucket_retry_granted:
  assumes "wf_options opts" and "1 \<le> bo_max opts"
    and "limiter_inv opts now s" and "consume opts now k s = ((False, retry), s')"
    and "sorted (now # map event_time es)" and "\<forall>e \<in> set es. \<forall>t. e \<noteq> Request t k"
    and "last (now # map event_time es) \<le> later" and "now + 1000 * retry \<le> later"
  shows "fst (fst (consume opts later k (fold (limiter_step opts) es s')))"
proof -
  obtain b where b: "s' k = Some b" "bk_lastRefill b = now" "1 - bk_tokens b \<le> gain opts (1000 * retry)"
    by (rule refused_tokens [OF assms(1,4)])
  have "limiter_inv opts now s'"
    using limiter_inv_step [OF assms(1,3), of "Request now k"] assms(4) by simp
  then have "tokens_at opts (fold (limiter_step opts) es s') k later = tokens_at opts s' k later"
    using assms(5-7) by (intro tokens_idle [OF assms(1)])
  moreover have "gain opts (later - now) = gain opts (1000 * retry) + gain opts (later - now - 1000 * retry)"
    using gain_add [of opts "1000 * retry" "later - now - 1000 * retry"] by simp
  then have "1 \<le> bk_tokens b + gain opts (later - now)"
    using b(3) gain_nonneg [OF assms(1), of "later - now - 1000 * retry"] assms(8) by simp
  ultimately show ?thesis using b assms(2) by (simp add: consume_granted tokens_at_def refill_def)
qed

subsection \<open>The limiter without laziness\<close>

text \<open>The abstract limiter holds a level for every client there is, lets all of them regenerate as time
  passes, and forgets none. The code stores a bucket on a client's first request, refills it when
  the client asks again, and sweeps it away when it has been idle for two windows.\<close>

type_synonym levels = "string \<Rightarrow> real"

definition regenerate :: "bucket_options \<Rightarrow> int \<Rightarrow> levels \<Rightarrow> levels" where
  "regenerate opts elapsed lv = (\<lambda>k. min (bo_max opts) (lv k + gain opts elapsed))"

definition take_token :: "string \<Rightarrow> levels \<Rightarrow> bool \<times> levels" where
  "take_token k lv = (if lv k < 1 then (False, lv) else (True, lv(k := lv k - 1)))"

fun abstract_answers :: "bucket_options \<Rightarrow> int \<Rightarrow> limiter_event list \<Rightarrow> levels \<Rightarrow> bool list" where
  "abstract_answers opts now [] lv = []"
| "abstract_answers opts now (Request t k # es) lv =
     (case take_token k (regenerate opts (t - now) lv) of (ok, lv') \<Rightarrow> ok # abstract_answers opts t es lv')"
| "abstract_answers opts now (Sweep t # es) lv = abstract_answers opts t es (regenerate opts (t - now) lv)"

fun answers :: "bucket_options \<Rightarrow> limiter_event list \<Rightarrow> buckets \<Rightarrow> bool list" where
  "answers opts [] s = []"
| "answers opts (Request t k # es) s = fst (fst (consume opts t k s)) # answers opts es (snd (consume opts t k s))"
| "answers opts (Sweep t # es) s = answers opts es (cleanup opts t s)"

lemma regenerate_tokens:
  assumes "wf_options opts" and "now \<le> t"
  shows "regenerate opts (t - now) (\<lambda>k. tokens_at opts s k now) = (\<lambda>k. tokens_at opts s k t)"
proof
  fix k
  show "regenerate opts (t - now) (\<lambda>k. tokens_at opts s k now) k = tokens_at opts s k t"
  proof (cases "s k")
    case None
    then show ?thesis using gain_nonneg [OF assms(1), of "t - now"] assms(2) by (simp add: regenerate_def tokens_at_def)
  next
    case (Some b)
    have "gain opts (t - bk_lastRefill b) = gain opts (now - bk_lastRefill b) + gain opts (t - now)"
      using gain_add [of opts "now - bk_lastRefill b" "t - now"] by simp
    then show ?thesis
      using Some gain_nonneg [OF assms(1), of "t - now"] assms(2) by (simp add: regenerate_def tokens_at_def refill_def)
  qed
qed

lemma take_token_consume:
  assumes "wf_options opts" and "limiter_inv opts now s" and "now \<le> t"
  shows "take_token k (\<lambda>k. tokens_at opts s k t)
    = (fst (fst (consume opts t k s)), \<lambda>j. tokens_at opts (snd (consume opts t k s)) j t)"
proof -
  have "tokens_at opts (snd (consume opts t k s)) j t
      = tokens_at opts s j t - (if k = j \<and> fst (fst (consume opts t k s)) then 1 else 0)" for j
    using tokens_step [OF assms(1,2), of "Request t k" j] assms(3) by (cases "k = j") auto
  then show ?thesis by (auto simp: take_token_def consume_granted)
qed

lemma answers_refine:
  assumes "wf_options opts" and "limiter_inv opts now s" and "sorted (now # map event_time es)"
  shows "answers opts es s = abstract_answers opts now es (\<lambda>k. tokens_at opts s k now)"
  using assms(2,3)
proof (induction es arbitrary: now s)
  case (Cons e es)
  have le: "now \<le> event_time e" and srt: "sorted (event_time e # map event_time es)" using Cons.prems(2) by auto
  note IH = Cons.IH [OF limiter_inv_step [OF assms(1) Cons.prems(1) le] srt]
  show ?case
  proof (cases e)
    case (Request t k)
    then show ?thesis
      using IH le regenerate_tokens [OF assms(1), of now t s] take_token_consume [OF assms(1) Cons.prems(1), of t k] by simp
  next
    case (Sweep t)
    then show ?thesis
      using IH le regenerate_tokens [OF assms(1), of now t s] tokens_swept [OF assms(1) Cons.prems(1), of t] by simp
  qed
qed simp

text \<open>C29. The limiter refines the abstract one: over any run, sweeps included, it answers every request as
  a limiter would that keeps a bucket for every client there is, refills all of them continuously
  and never forgets one.\<close>

theorem limiter_refines:
  assumes "wf_options opts" and "sorted (start # map event_time es)"
  shows "answers opts es Map.empty = abstract_answers opts start es (\<lambda>_. bo_max opts)"
  using answers_refine [OF assms(1) _ assms(2), of Map.empty] by (simp add: limiter_inv_def tokens_at_def)

definition sample_limits :: bucket_options where
  "sample_limits = \<lparr>bo_max = 2, bo_windowMs = 1000\<rparr>"

theorem bucket_budget_witness:
  "granted sample_limits ''a'' [Request 0 ''a'', Request 0 ''a'', Request 0 ''a''] Map.empty \<le> (2 :: real)"
  using bucket_budget [of sample_limits "[]" "Request 0 ''a''" "[Request 0 ''a'', Request 0 ''a'']" "''a''"]
  by (simp add: sample_limits_def wf_options_def gain_def)

theorem bucket_retry_granted_witness:
  "fst (fst (consume sample_limits 1000 ''a'' (fold (limiter_step sample_limits) [Request 10 ''b'', Sweep 20]
     (snd (consume sample_limits 0 ''a'' [''a'' \<mapsto> \<lparr>bk_tokens = 0, bk_lastRefill = 0\<rparr>])))))"
proof -
  let ?s = "[''a'' \<mapsto> \<lparr>bk_tokens = 0, bk_lastRefill = 0\<rparr>]"
  have "consume sample_limits 0 ''a'' ?s = ((False, 1), snd (consume sample_limits 0 ''a'' ?s))"
    by (simp add: consume_def sample_limits_def refill_def gain_def Let_def)
  from bucket_retry_granted [OF _ _ _ this, of "[Request 10 ''b'', Sweep 20]" 1000] show ?thesis
    by (simp add: sample_limits_def wf_options_def limiter_inv_def)
qed

theorem limiter_refines_witness:
  "answers sample_limits [Request 0 ''a'', Request 1 ''a'', Request 2 ''a'', Sweep 5000, Request 5001 ''a''] Map.empty
    = abstract_answers sample_limits 0 [Request 0 ''a'', Request 1 ''a'', Request 2 ''a'', Sweep 5000, Request 5001 ''a''] (\<lambda>_. 2)"
  using limiter_refines [of sample_limits 0 "[Request 0 ''a'', Request 1 ''a'', Request 2 ''a'', Sweep 5000, Request 5001 ''a'']"]
  by (simp add: sample_limits_def wf_options_def)

end
