(* ===== verification/Openlr.thy ===== *)
theory Openlr
  imports Geometry
begin

text \<open>
  OpenLR line locations: packages/openlr/src/encode.ts and decode.ts.

  \<^item> Reals are the code's doubles without rounding; a position is a pair of degrees.
  \<^item> The binary layer is the third-party openlr-js, a parameter: \<open>encodes\<close> answers for points and
    offsets, \<open>decodes\<close> for a text; \<open>raw_location\<close> holds what the code reads of its answer.
\<close>

subsection \<open>Distances and bearings\<close>

definition MAX_DNP_METERS :: real where "MAX_DNP_METERS = 15000"

definition BEARING_SAMPLE_METERS :: real where "BEARING_SAMPLE_METERS = 20"

definition EARTH_RADIUS_METERS :: real where "EARTH_RADIUS_METERS = 6371000"

definition toRadians :: "real \<Rightarrow> real" where "toRadians deg = deg * pi / 180"

definition toDegrees :: "real \<Rightarrow> real" where "toDegrees rad = rad * 180 / pi"

definition geodesicDistance :: "position \<Rightarrow> position \<Rightarrow> real" where
  "geodesicDistance a b =
     (let dLat = toRadians (pos_y b - pos_y a);
          dLon = toRadians (pos_x b - pos_x a);
          sinDLat = sin (dLat / 2);
          sinDLon = sin (dLon / 2);
          h = sinDLat * sinDLat + cos (toRadians (pos_y a)) * cos (toRadians (pos_y b)) * sinDLon * sinDLon
      in 2 * EARTH_RADIUS_METERS * arcsin (min 1 (sqrt h)))"

text \<open>\<open>Math.atan2\<close>, on reals (there is no negative zero), and \<open>%\<close> for a non-negative dividend.\<close>

definition atan2 :: "real \<Rightarrow> real \<Rightarrow> real" where
  "atan2 y x =
     (if 0 < x then arctan (y / x)
      else if x < 0 then (if 0 \<le> y then arctan (y / x) + pi else arctan (y / x) - pi)
      else if 0 < y then pi / 2 else if y < 0 then - pi / 2 else 0)"

definition remainder :: "real \<Rightarrow> real \<Rightarrow> real" where
  "remainder x m = x - m * of_int \<lfloor>x / m\<rfloor>"

definition initialBearing :: "position \<Rightarrow> position \<Rightarrow> real" where
  "initialBearing a b =
     (let phi1 = toRadians (pos_y a);
          phi2 = toRadians (pos_y b);
          dLon = toRadians (pos_x b - pos_x a);
          y = sin dLon * cos phi2;
          x = cos phi1 * sin phi2 - sin phi1 * cos phi2 * cos dLon
      in remainder (toDegrees (atan2 y x) + 360) 360)"

definition interpolate :: "position \<Rightarrow> position \<Rightarrow> real \<Rightarrow> position" where
  "interpolate a b t = Position (pos_x a + (pos_x b - pos_x a) * t) (pos_y a + (pos_y b - pos_y a) * t)"

subsection \<open>The dense polyline\<close>

record dense_point =
  dp_point :: position
  dp_cum :: real

text \<open>The inner loop: an edge is cut wherever the distance since the last reference point would pass the
  cap. The arguments are the edge, what is consumed of it, the distance since the last reference
  point and the two lists.\<close>

function split_edge :: "position \<Rightarrow> position \<Rightarrow> real \<Rightarrow> real \<Rightarrow> real \<Rightarrow> dense_point list \<Rightarrow> nat list
    \<Rightarrow> real \<times> real \<times> dense_point list \<times> nat list" where
  "split_edge a b edgeLen consumed since dense lrps =
     (if edgeLen - consumed > 0 \<and> since + (edgeLen - consumed) > MAX_DNP_METERS
      then let neededOnEdge = MAX_DNP_METERS - since;
               t = (consumed + neededOnEdge) / edgeLen;
               cut = \<lparr>dp_point = interpolate a b t, dp_cum = dp_cum (last dense) + neededOnEdge\<rparr>
           in split_edge a b edgeLen (consumed + neededOnEdge) 0 (dense @ [cut]) (lrps @ [length dense])
      else (consumed, since, dense, lrps))"
  by pat_completeness auto

text \<open>Every cut takes 15 km off what is left of the edge and the distance before it.\<close>

termination
proof (relation "measure (\<lambda>(a, b, edgeLen, consumed, since, dense, lrps).
    nat \<lceil>(since + (edgeLen - consumed)) / MAX_DNP_METERS\<rceil>)")
  fix a b edgeLen consumed since dense lrps x xa xb
  assume cut: "edgeLen - consumed > 0 \<and> since + (edgeLen - consumed) > MAX_DNP_METERS"
    and x: "x = MAX_DNP_METERS - since"
  let ?now = "(since + (edgeLen - consumed)) / MAX_DNP_METERS"
  let ?next = "(0 + (edgeLen - (consumed + x))) / MAX_DNP_METERS"
  have "?next = ?now - 1" by (simp add: x MAX_DNP_METERS_def field_simps)
  moreover have "1 < ?now" using cut by (simp add: MAX_DNP_METERS_def)
  ultimately have "nat \<lceil>?next\<rceil> < nat \<lceil>?now\<rceil>" by linarith
  then show "((a, b, edgeLen, consumed + x, 0, dense @ [xb], lrps @ [length dense]),
      (a, b, edgeLen, consumed, since, dense, lrps))
    \<in> measure (\<lambda>(a, b, edgeLen, consumed, since, dense, lrps). nat \<lceil>(since + (edgeLen - consumed)) / MAX_DNP_METERS\<rceil>)"
    by simp
qed simp

declare split_edge.simps [simp del]

fun walk_edges :: "position \<Rightarrow> position list \<Rightarrow> real \<times> dense_point list \<times> nat list
    \<Rightarrow> real \<times> dense_point list \<times> nat list" where
  "walk_edges a [] s = s"
| "walk_edges a (b # rest) (since, dense, lrps) =
     (let edgeLen = geodesicDistance a b
      in case split_edge a b edgeLen 0 since dense lrps of (consumed, since', dense', lrps') \<Rightarrow>
        (let remaining = edgeLen - consumed
         in walk_edges b rest (since' + remaining,
              dense' @ [\<lparr>dp_point = b, dp_cum = dp_cum (last dense') + remaining\<rparr>], lrps')))"

definition buildDensePolyline :: "position list \<Rightarrow> dense_point list \<times> nat list" where
  "buildDensePolyline coords =
     (case walk_edges (hd coords) (tl coords) (0, [\<lparr>dp_point = hd coords, dp_cum = 0\<rparr>], [0]) of
        (_, dense, lrps) \<Rightarrow>
          (let lastIndex = length dense - 1
           in (dense, if last lrps \<noteq> lastIndex then lrps @ [lastIndex] else lrps)))"

fun point_from :: "real \<Rightarrow> dense_point \<Rightarrow> dense_point list \<Rightarrow> position" where
  "point_from clamped prev [] = dp_point prev"
| "point_from clamped prev (cur # rest) =
     (if clamped \<le> dp_cum cur
      then let span = dp_cum cur - dp_cum prev;
               t = (if span > 0 then (clamped - dp_cum prev) / span else 0)
           in interpolate (dp_point prev) (dp_point cur) t
      else point_from clamped cur rest)"

definition pointAtCumDistance :: "dense_point list \<Rightarrow> real \<Rightarrow> position" where
  "pointAtCumDistance dense targetDistance =
     (let total = dp_cum (last dense) in point_from (max 0 (min targetDistance total)) (hd dense) (tl dense))"

definition bearingAtLrp :: "dense_point list \<Rightarrow> nat list \<Rightarrow> nat \<Rightarrow> real" where
  "bearingAtLrp dense lrps i =
     (let idx = lrps ! i;
          cum = dp_cum (dense ! idx)
      in if i \<noteq> length lrps - 1
         then let nextCum = dp_cum (dense ! (lrps ! (i + 1)));
                  sample = pointAtCumDistance dense (min (cum + BEARING_SAMPLE_METERS) nextCum)
              in initialBearing (dp_point (dense ! idx)) sample
         else let prevCum = dp_cum (dense ! (lrps ! (i - 1)));
                  sample = pointAtCumDistance dense (max (cum - BEARING_SAMPLE_METERS) prevCum)
              in initialBearing (dp_point (dense ! idx)) sample)"

subsection \<open>Encoding\<close>

record lrp_input =
  li_longitude :: real
  li_latitude :: real
  li_frc :: nat
  li_fow :: nat
  li_bearing :: real
  li_distanceToNext :: real
  li_lfrcnp :: "nat option"

record line_input =
  ln_points :: "lrp_input list"
  ln_positiveOffset :: "real option"
  ln_negativeOffset :: "real option"

text \<open>What \<open>LocationReferencePoint.fromValues\<close> is given, and what the encoder answers.\<close>

record lrp_value =
  lv_sequence :: nat
  lv_input :: lrp_input
  lv_distanceToNext :: real
  lv_lfrcnp :: "nat option"
  lv_isLast :: bool

record encoded =
  ec_valid :: bool
  ec_data :: "string option"

definition lrp_values :: "lrp_input list \<Rightarrow> js_error + lrp_value list" where
  "lrp_values points = mapE (\<lambda>(i, p).
     let isLast = (i = length points - 1)
     in if \<not> isLast \<and> li_lfrcnp p = None
        then Inl (JsError ''OpenLR LRP needs the lowest FRC to the next point'')
        else Inr \<lparr>lv_sequence = i + 1, lv_input = p,
          lv_distanceToNext = (if isLast then 0 else li_distanceToNext p),
          lv_lfrcnp = (if isLast then None else li_lfrcnp p), lv_isLast = isLast\<rparr>)
     (zip [0..<length points] points)"

definition encodeOpenLrBinary ::
  "(lrp_value list \<Rightarrow> real \<Rightarrow> real \<Rightarrow> encoded) \<Rightarrow> line_input \<Rightarrow> js_error + string" where
  "encodeOpenLrBinary encodes location =
     (if length (ln_points location) < 2
      then Inl (JsError ''an OpenLR line location needs at least two LRPs'')
      else bindE (lrp_values (ln_points location)) (\<lambda>lrps.
        (let ref = encodes lrps (nullish (ln_positiveOffset location) 0) (nullish (ln_negativeOffset location) 0)
         in if \<not> ec_valid ref then Inl (JsError ''OpenLR encode failed'')
            else case ec_data ref of None \<Rightarrow> Inl (JsError ''OpenLR encode produced no binary data'')
              | Some text \<Rightarrow> Inr text)))"

definition line_points :: "position list \<Rightarrow> nat \<Rightarrow> nat \<Rightarrow> lrp_input list" where
  "line_points coords frc fow = (case buildDensePolyline coords of (dense, lrps) \<Rightarrow>
     map (\<lambda>i. let idx = lrps ! i; isLast = (i = length lrps - 1)
       in \<lparr>li_longitude = pos_x (dp_point (dense ! idx)), li_latitude = pos_y (dp_point (dense ! idx)),
          li_frc = frc, li_fow = fow, li_bearing = bearingAtLrp dense lrps i,
          li_distanceToNext = (if isLast then 0 else dp_cum (dense ! (lrps ! (i + 1))) - dp_cum (dense ! idx)),
          li_lfrcnp = (if isLast then None else Some frc)\<rparr>) [0..<length lrps])"

definition encodeOpenlrLine ::
  "(lrp_value list \<Rightarrow> real \<Rightarrow> real \<Rightarrow> encoded) \<Rightarrow> position list \<Rightarrow> nat \<Rightarrow> nat \<Rightarrow> js_error + string" where
  "encodeOpenlrLine encodes coords frc fow =
     (if length coords < 2 then Inl (JsError ''encodeOpenlrLine requires at least two coordinates'')
      else encodeOpenLrBinary encodes \<lparr>ln_points = line_points coords frc fow,
        ln_positiveOffset = None, ln_negativeOffset = None\<rparr>)"

subsection \<open>Decoding\<close>

record lrp_point = lrp_input +
  lp_sequenceNumber :: nat
  lp_isLast :: bool

record openlr_location =
  ol_points :: "lrp_point list"
  ol_positiveOffset :: real
  ol_negativeOffset :: real

text \<open>What the code reads of the library's answer: a point whose classes may be missing, and offsets as
  functions of the length they are a share of.\<close>

record raw_point =
  rp_longitude :: real
  rp_latitude :: real
  rp_frc :: "nat option"
  rp_fow :: "nat option"
  rp_lfrcnp :: "nat option"
  rp_bearing :: real
  rp_distanceToNext :: real
  rp_isLast :: bool

record raw_location =
  rw_valid :: bool
  rw_isLine :: bool
  rw_points :: "raw_point list option"
  rw_offsets :: "((real \<Rightarrow> real) \<times> (real \<Rightarrow> real)) option"

definition read_point :: "nat \<times> raw_point \<Rightarrow> js_error + lrp_point" where
  "read_point ip = (case ip of (i, p) \<Rightarrow>
     (case rp_frc p of None \<Rightarrow> Inl (JsError ''FRC is missing'')
      | Some frc \<Rightarrow> (case rp_fow p of None \<Rightarrow> Inl (JsError ''FOW is missing'')
        | Some fow \<Rightarrow> Inr \<lparr>li_longitude = rp_longitude p, li_latitude = rp_latitude p, li_frc = frc, li_fow = fow,
            li_bearing = rp_bearing p, li_distanceToNext = rp_distanceToNext p, li_lfrcnp = rp_lfrcnp p,
            lp_sequenceNumber = i + 1, lp_isLast = rp_isLast p\<rparr>)))"

definition decodeOpenLrBinary :: "(string \<Rightarrow> raw_location option) \<Rightarrow> string \<Rightarrow> js_error + openlr_location" where
  "decodeOpenLrBinary decodes text_in = (case decodes text_in of
     None \<Rightarrow> Inl (JsError ''OpenLR decode failed'')
   | Some raw \<Rightarrow>
     if \<not> rw_valid raw then Inl (JsError ''OpenLR decode failed'')
     else if \<not> rw_isLine raw then Inl (JsError ''Unsupported OpenLR location type'')
     else case rw_points raw of
       None \<Rightarrow> Inl (JsError ''OpenLR line location must have at least two LRPs'')
     | Some rawPoints \<Rightarrow>
       if length rawPoints < 2 then Inl (JsError ''OpenLR line location must have at least two LRPs'')
       else bindE (mapE read_point (zip [0..<length rawPoints] rawPoints)) (\<lambda>points.
         (let headLength = li_distanceToNext (hd points);
              tailLength = li_distanceToNext (points ! (length points - 2))
          in Inr \<lparr>ol_points = points,
               ol_positiveOffset = (case rw_offsets raw of None \<Rightarrow> 0 | Some (f, g) \<Rightarrow> f headLength),
               ol_negativeOffset = (case rw_offsets raw of None \<Rightarrow> 0 | Some (f, g) \<Rightarrow> g tailLength)\<rparr>)))"


subsection \<open>Where the reference points lie\<close>

lemma geodesic_nonneg:
  assumes "\<bar>pos_y a\<bar> \<le> 90" and "\<bar>pos_y b\<bar> \<le> 90"
  shows "0 \<le> geodesicDistance a b"
proof -
  have cos: "0 \<le> cos (toRadians y)" if "\<bar>y\<bar> \<le> 90" for y
  proof -
    have "\<bar>y * pi / 180\<bar> \<le> pi / 2" using that by (simp add: abs_mult field_simps)
    then show ?thesis unfolding toRadians_def by (intro cos_ge_zero) linarith+
  qed
  have arcsin: "0 \<le> arcsin (min 1 (sqrt h))" if "0 \<le> h" for h
    using arcsin_le_arcsin [of 0 "min 1 (sqrt h)"] that by simp
  have "0 \<le> x * x + cos (toRadians (pos_y a)) * cos (toRadians (pos_y b)) * y * y" for x y
    using cos [OF assms(1)] cos [OF assms(2)] by (simp add: mult.assoc)
  then show ?thesis
    unfolding geodesicDistance_def Let_def EARTH_RADIUS_METERS_def by (simp add: arcsin)
qed

abbreviation cum_at :: "dense_point list \<Rightarrow> nat \<Rightarrow> real" where
  "cum_at dense i \<equiv> dp_cum (dense ! i)"

text \<open>The state of the walk: the reference points so far are 15 km apart each, and the distance since the
  last of them is within the cap.\<close>

definition walk_inv :: "real \<Rightarrow> dense_point list \<Rightarrow> nat list \<Rightarrow> bool" where
  "walk_inv since dense lrps \<longleftrightarrow> dense \<noteq> [] \<and> lrps \<noteq> [] \<and> hd lrps = 0 \<and> cum_at dense 0 = 0
     \<and> sorted_wrt (<) lrps \<and> last lrps < length dense
     \<and> 0 \<le> since \<and> since \<le> MAX_DNP_METERS \<and> dp_cum (last dense) = cum_at dense (last lrps) + since
     \<and> (\<forall>i. Suc i < length lrps \<longrightarrow> cum_at dense (lrps ! Suc i) - cum_at dense (lrps ! i) = MAX_DNP_METERS)"

lemma lrps_bound: "sorted_wrt (<) (lrps :: nat list) \<Longrightarrow> i < length lrps \<Longrightarrow> lrps ! i \<le> last lrps"
proof -
  assume "sorted_wrt (<) lrps" and i: "i < length lrps"
  then have "lrps ! i \<le> lrps ! (length lrps - 1)"
    by (cases "i = length lrps - 1") (auto simp: sorted_wrt_iff_nth_less order_less_imp_le)
  moreover have "lrps \<noteq> []" using i by auto
  ultimately show ?thesis by (simp add: last_conv_nth)
qed

lemma walk_inv_grow:
  assumes "walk_inv since dense lrps" and "0 \<le> extra" and "since + extra \<le> MAX_DNP_METERS"
  shows "walk_inv (since + extra) (dense @ [\<lparr>dp_point = p, dp_cum = dp_cum (last dense) + extra\<rparr>]) lrps"
  using assms lrps_bound [of lrps]
  by (auto simp: walk_inv_def nth_append) (meson Suc_lessD le_less_trans)+

lemma walk_inv_cut:
  assumes "walk_inv since dense lrps"
  shows "walk_inv 0 (dense @ [\<lparr>dp_point = p, dp_cum = dp_cum (last dense) + (MAX_DNP_METERS - since)\<rparr>])
    (lrps @ [length dense])"
proof -
  note inv = assms [unfolded walk_inv_def]
  have bound: "lrps ! i < length dense" if "i < length lrps" for i
    using inv that lrps_bound [of lrps i] by auto
  moreover have "Suc i = length lrps \<Longrightarrow> lrps ! i = last lrps" for i
    using inv by (metis diff_Suc_1 last_conv_nth)
  moreover have "\<forall>x \<in> set lrps. x < length dense" using bound by (auto simp: in_set_conv_nth)
  ultimately show ?thesis
    using inv by (auto simp: walk_inv_def nth_append sorted_wrt_append MAX_DNP_METERS_def less_Suc_eq)
qed

lemma split_edge_inv:
  assumes "split_edge a b edgeLen consumed since dense lrps = (consumed', since', dense', lrps')"
    and "walk_inv since dense lrps" and "consumed \<le> edgeLen"
  shows "walk_inv since' dense' lrps' \<and> consumed' \<le> edgeLen \<and> since' + (edgeLen - consumed') \<le> MAX_DNP_METERS
    \<and> dp_cum (last dense') - consumed' = dp_cum (last dense) - consumed \<and> length dense \<le> length dense'"
  using assms
proof (induction a b edgeLen consumed since dense lrps rule: split_edge.induct)
  case (1 a b edgeLen consumed since dense lrps)
  show ?case
  proof (cases "edgeLen - consumed > 0 \<and> since + (edgeLen - consumed) > MAX_DNP_METERS")
    case True
    let ?more = "MAX_DNP_METERS - since"
    let ?cut = "\<lparr>dp_point = interpolate a b ((consumed + ?more) / edgeLen), dp_cum = dp_cum (last dense) + ?more\<rparr>"
    have "split_edge a b edgeLen (consumed + ?more) 0 (dense @ [?cut]) (lrps @ [length dense])
        = (consumed', since', dense', lrps')"
      using 1(2) True by (subst (asm) split_edge.simps) (simp add: Let_def)
    moreover have "consumed + ?more \<le> edgeLen" using True by simp
    ultimately show ?thesis using 1(1) [OF True refl refl refl _ walk_inv_cut [OF 1(3)]] by simp
  next
    case False
    then show ?thesis
      using 1(2-4) by (subst (asm) split_edge.simps) (auto simp: walk_inv_def)
  qed
qed

text \<open>C31. The loop over one edge ends, whatever the numbers: with \<open>d\<close> metres from the last reference point to the end of the edge
  (what is left of the edge and the distance since that point), and something left of it, it makes \<open>\<lceil>d / 15 km\<rceil> - 1\<close> cuts, each a
  new reference point; when nothing is left it makes none. After them no more than 15 km lie between the last reference point and
  the end of the edge. So no fuel is needed to run it.\<close>

theorem split_edge_cuts:
  assumes "split_edge a b edgeLen consumed since dense lrps = (consumed', since', dense', lrps')"
  shows "length dense' = length dense + (if edgeLen - consumed > 0
      then nat \<lceil>(since + (edgeLen - consumed)) / MAX_DNP_METERS\<rceil> - 1 else 0)
    \<and> length lrps' + length dense = length lrps + length dense'
    \<and> (edgeLen - consumed' \<le> 0 \<or> since' + (edgeLen - consumed') \<le> MAX_DNP_METERS)"
  using assms
proof (induction a b edgeLen consumed since dense lrps rule: split_edge.induct)
  case (1 a b edgeLen consumed since dense lrps)
  show ?case
  proof (cases "edgeLen - consumed > 0 \<and> since + (edgeLen - consumed) > MAX_DNP_METERS")
    case True
    let ?more = "MAX_DNP_METERS - since" and ?now = "(since + (edgeLen - consumed)) / MAX_DNP_METERS"
    let ?cut = "\<lparr>dp_point = interpolate a b ((consumed + ?more) / edgeLen), dp_cum = dp_cum (last dense) + ?more\<rparr>"
    have step: "split_edge a b edgeLen (consumed + ?more) 0 (dense @ [?cut]) (lrps @ [length dense])
        = (consumed', since', dense', lrps')"
      using 1(2) True by (subst (asm) split_edge.simps) (simp add: Let_def)
    have less: "(edgeLen - (consumed + ?more)) / MAX_DNP_METERS = ?now - 1" and pos: "edgeLen - (consumed + ?more) > 0"
      using True by (simp_all add: MAX_DNP_METERS_def field_simps)
    have "\<lceil>?now - 1\<rceil> = \<lceil>?now\<rceil> - 1" and "1 < ?now" using True by (simp_all add: MAX_DNP_METERS_def)
    then have "nat \<lceil>?now - 1\<rceil> = nat \<lceil>?now\<rceil> - 1" and "nat \<lceil>?now\<rceil> \<ge> 2" by linarith+
    then show ?thesis using 1(1) [OF True refl refl refl step] less pos True by auto
  next
    case False
    moreover from False have "nat \<lceil>(since + (edgeLen - consumed)) / MAX_DNP_METERS\<rceil> \<le> 1" if "edgeLen - consumed > 0"
      using that by (simp add: MAX_DNP_METERS_def ceiling_le_iff)
    ultimately show ?thesis using 1(2) by (subst (asm) split_edge.simps) auto
  qed
qed

lemma split_edge_cuts_witness:
  "length (fst (snd (snd (split_edge (Position 0 0) (Position 1 0) 40000 0 5000 [] [])))) = 2"
proof -
  obtain c s d l where split: "split_edge (Position 0 0) (Position 1 0) 40000 0 5000 [] [] = (c, s, d, l)"
    by (metis prod_cases4)
  from split_edge_cuts [OF this] show ?thesis by (simp add: split MAX_DNP_METERS_def)
qed

fun path_length :: "position list \<Rightarrow> real" where
  "path_length (a # b # rest) = geodesicDistance a b + path_length (b # rest)"
| "path_length _ = 0"

lemma walk_edges_inv:
  assumes "walk_edges a rest (since, dense, lrps) = (since', dense', lrps')"
    and "walk_inv since dense lrps" and "\<forall>p \<in> set (a # rest). \<bar>pos_y p\<bar> \<le> 90"
  shows "walk_inv since' dense' lrps' \<and> dp_cum (last dense') = dp_cum (last dense) + path_length (a # rest)
    \<and> length dense + length rest \<le> length dense'"
  using assms
proof (induction a rest "(since, dense, lrps)" arbitrary: since dense lrps rule: walk_edges.induct)
  case (2 a b rest since dense lrps)
  let ?len = "geodesicDistance a b"
  obtain c s1 d1 l1 where split: "split_edge a b ?len 0 since dense lrps = (c, s1, d1, l1)"
    by (cases "split_edge a b ?len 0 since dense lrps")
  have "0 \<le> ?len" using 2(4) by (intro geodesic_nonneg) auto
  from split_edge_inv [OF split 2(3) this] have inv: "walk_inv s1 d1 l1" "c \<le> ?len" "s1 + (?len - c) \<le> MAX_DNP_METERS"
    "dp_cum (last d1) - c = dp_cum (last dense)" "length dense \<le> length d1" by auto
  let ?d2 = "d1 @ [\<lparr>dp_point = b, dp_cum = dp_cum (last d1) + (?len - c)\<rparr>]"
  have "walk_edges b rest (s1 + (?len - c), ?d2, l1) = (since', dense', lrps')"
    using 2(2) by (simp add: split Let_def)
  moreover have "walk_inv (s1 + (?len - c)) ?d2 l1" using inv by (intro walk_inv_grow) auto
  ultimately show ?case using 2(1) [OF refl split [symmetric] refl refl refl] 2(4) inv(4,5) by auto
qed (simp add: Let_def)


lemma split_edge_hd:
  "split_edge a b edgeLen consumed since dense lrps = (consumed', since', dense', lrps') \<Longrightarrow> dense \<noteq> []
    \<Longrightarrow> dense' \<noteq> [] \<and> hd dense' = hd dense"
proof (induction a b edgeLen consumed since dense lrps rule: split_edge.induct)
  case (1 a b edgeLen consumed since dense lrps)
  note unfolded = 1(2) [unfolded split_edge.simps [of a b edgeLen consumed since dense lrps] Let_def]
  show ?case
    using 1(1) [OF _ refl refl refl] unfolded 1(3) by (cases "dense = []") (auto split: if_splits)
qed

lemma walk_edges_ends:
  assumes "walk_edges a rest (since, dense, lrps) = (since', dense', lrps')" and "dense \<noteq> []" and "dp_point (last dense) = a"
  shows "hd dense' = hd dense \<and> dp_point (last dense') = last (a # rest)"
  using assms
proof (induction a rest "(since, dense, lrps)" arbitrary: since dense lrps rule: walk_edges.induct)
  case (2 a b rest since dense lrps)
  let ?len = "geodesicDistance a b"
  obtain c s1 d1 l1 where split: "split_edge a b ?len 0 since dense lrps = (c, s1, d1, l1)"
    by (cases "split_edge a b ?len 0 since dense lrps")
  let ?d2 = "d1 @ [\<lparr>dp_point = b, dp_cum = dp_cum (last d1) + (?len - c)\<rparr>]"
  have walk: "walk_edges b rest (s1 + (?len - c), ?d2, l1) = (since', dense', lrps')"
    using 2(2) by (simp add: split Let_def)
  from split_edge_hd [OF split 2(3)] have "d1 \<noteq> []" "hd ?d2 = hd dense" by auto
  then show ?case using 2(1) [OF refl split [symmetric] refl refl refl walk] by auto
qed (simp add: Let_def)

definition cap_kept :: "dense_point list \<Rightarrow> nat list \<Rightarrow> bool" where
  "cap_kept dense lrps \<longleftrightarrow> 2 \<le> length lrps \<and> hd lrps = 0 \<and> last lrps = length dense - 1 \<and> dense \<noteq> []
     \<and> (\<forall>i. Suc i < length lrps \<longrightarrow>
          cum_at dense (lrps ! Suc i) - cum_at dense (lrps ! i) \<in> {0..MAX_DNP_METERS})"

lemma dense_cap:
  assumes "2 \<le> length coords" and "\<forall>p \<in> set coords. \<bar>pos_y p\<bar> \<le> 90" and "buildDensePolyline coords = (dense, lrps)"
  shows "cap_kept dense lrps \<and> cum_at dense 0 = 0 \<and> dp_cum (last dense) = path_length coords
    \<and> dp_point (hd dense) = hd coords \<and> dp_point (last dense) = last coords"
proof -
  obtain a b rest where coords: "coords = a # b # rest" using assms(1) by (cases coords; cases "tl coords") auto
  obtain since d l where walk: "walk_edges a (b # rest) (0, [\<lparr>dp_point = a, dp_cum = 0\<rparr>], [0]) = (since, d, l)"
    by (cases "walk_edges a (b # rest) (0, [\<lparr>dp_point = a, dp_cum = 0\<rparr>], [0])")
  have "walk_inv 0 [\<lparr>dp_point = a, dp_cum = 0\<rparr>] [0]" by (simp add: walk_inv_def MAX_DNP_METERS_def)
  from walk_edges_inv [OF walk this] have inv: "walk_inv since d l" and len: "dp_cum (last d) = path_length coords"
    and long: "2 \<le> length d" using assms(2) by (auto simp: coords)
  from walk_edges_ends [OF walk] have ends: "dp_point (hd d) = a" "dp_point (last d) = last coords" by (auto simp: coords)
  have dense: "dense = d" and lrps: "lrps = (if last l \<noteq> length d - 1 then l @ [length d - 1] else l)"
    using assms(3) by (auto simp: buildDensePolyline_def coords walk Let_def simp del: walk_edges.simps)
  note inv' = inv [unfolded walk_inv_def]
  have "cap_kept d lrps"
  proof (cases "last l = length d - 1")
    case True
    then have "2 \<le> length l" using inv' long by (cases l; cases "tl l") auto
    with True lrps inv' show ?thesis by (simp add: cap_kept_def MAX_DNP_METERS_def)
  next
    case False
    have "cum_at d (length d - 1) - cum_at d (last l) = since" using inv' last_conv_nth [of d] by auto
    moreover have "Suc i = length l \<Longrightarrow> l ! i = last l" for i using inv' by (metis diff_Suc_1 last_conv_nth)
    ultimately show ?thesis
      using False lrps inv' by (auto simp: cap_kept_def nth_append MAX_DNP_METERS_def less_Suc_eq Suc_le_eq)
  qed
  with dense inv' len ends show ?thesis by (simp add: coords)
qed

lemma bearing_range: "0 \<le> remainder x 360 \<and> remainder x 360 < 360"
proof -
  have "of_int \<lfloor>x / 360\<rfloor> \<le> x / 360" "x / 360 < of_int \<lfloor>x / 360\<rfloor> + 1" by linarith+
  then show ?thesis by (simp add: remainder_def field_simps)
qed

lemma bearingAtLrp_range: "0 \<le> bearingAtLrp dense lrps i \<and> bearingAtLrp dense lrps i < 360"
  by (simp add: bearingAtLrp_def initialBearing_def Let_def bearing_range)

lemma telescope:
  "lrps \<noteq> [] \<Longrightarrow> sum_list (map (\<lambda>i. if i = length lrps - 1 then 0 else f (lrps ! (i + 1)) - f (lrps ! i)) [0..<length lrps])
    = f (last lrps) - (f (hd lrps) :: real)"
proof (induction lrps rule: rev_induct)
  case (snoc x xs)
  show ?case
  proof (cases "xs = []")
    case False
    have "sum_list (map (\<lambda>i. if i = length xs then 0 else f ((xs @ [x]) ! (i + 1)) - f ((xs @ [x]) ! i)) [0..<length xs])
        = sum_list (map (\<lambda>i. if i = length xs - 1 then f x - f (last xs) else f (xs ! (i + 1)) - f (xs ! i)) [0..<length xs])"
      using False by (intro arg_cong [of _ _ sum_list] map_cong) (auto simp: nth_append last_conv_nth)
    also have "\<dots> = sum_list (map (\<lambda>i. (if i = length xs - 1 then 0 else f (xs ! (i + 1)) - f (xs ! i))
        + (if i = length xs - 1 then f x - f (last xs) else 0)) [0..<length xs])"
      by (intro arg_cong [of _ _ sum_list] map_cong) auto
    also have "\<dots> = f (last xs) - f (hd xs) + (f x - f (last xs))"
      using snoc.IH [OF False] False by (simp add: sum_list_addf sum_list_map_filter' interv_sum_list_conv_sum_set_nat)
    finally show ?thesis using False by simp
  qed simp
qed simp

lemma encoded_points_count:
  assumes "2 \<le> length coords" and "\<forall>p \<in> set coords. \<bar>pos_y p\<bar> \<le> 90"
  shows "2 \<le> length (line_points coords frc fow)"
proof -
  obtain dense lrps where build: "buildDensePolyline coords = (dense, lrps)" by force
  from dense_cap [OF assms build] show ?thesis by (simp add: line_points_def build cap_kept_def Let_def)
qed

text \<open>What a line is encoded as keeps Rule 1 of OpenLR: at least two reference points, the first and the
  last of them at the ends of the geometry; every distance to the next point within the 15 km cap,
  the distances adding up to the length of the geometry; and every bearing in [0, 360).\<close>

theorem encoded_points:
  assumes "2 \<le> length coords" and "\<forall>p \<in> set coords. \<bar>pos_y p\<bar> \<le> 90"
  shows "2 \<le> length (line_points coords frc fow)
    \<and> list_all (\<lambda>p. 0 \<le> li_distanceToNext p \<and> li_distanceToNext p \<le> MAX_DNP_METERS
        \<and> 0 \<le> li_bearing p \<and> li_bearing p < 360) (line_points coords frc fow)
    \<and> sum_list (map li_distanceToNext (line_points coords frc fow)) = path_length coords
    \<and> Position (li_longitude (hd (line_points coords frc fow))) (li_latitude (hd (line_points coords frc fow))) = hd coords
    \<and> Position (li_longitude (last (line_points coords frc fow))) (li_latitude (last (line_points coords frc fow))) = last coords"
proof -
  obtain dense lrps where build: "buildDensePolyline coords = (dense, lrps)" by force
  from dense_cap [OF assms build] have cap: "cap_kept dense lrps" and start: "cum_at dense 0 = 0"
    and total: "dp_cum (last dense) = path_length coords"
    and ends: "dp_point (hd dense) = hd coords" "dp_point (last dense) = last coords" by auto
  note cap' = cap [unfolded cap_kept_def]
  have ne: "lrps \<noteq> []" using cap' by auto
  define pts where "pts = line_points coords frc fow"
  have pts: "pts = map (\<lambda>i. \<lparr>li_longitude = pos_x (dp_point (dense ! (lrps ! i))), li_latitude = pos_y (dp_point (dense ! (lrps ! i))),
      li_frc = frc, li_fow = fow, li_bearing = bearingAtLrp dense lrps i,
      li_distanceToNext = (if i = length lrps - 1 then 0 else cum_at dense (lrps ! (i + 1)) - cum_at dense (lrps ! i)),
      li_lfrcnp = (if i = length lrps - 1 then None else Some frc)\<rparr>) [0..<length lrps]"
    by (simp add: pts_def line_points_def build Let_def)
  have "length pts = length lrps" by (simp add: pts)
  moreover have "list_all (\<lambda>p. 0 \<le> li_distanceToNext p \<and> li_distanceToNext p \<le> MAX_DNP_METERS
      \<and> 0 \<le> li_bearing p \<and> li_bearing p < 360) pts"
    using cap' bearingAtLrp_range by (auto simp: pts list_all_iff MAX_DNP_METERS_def)
  moreover have "sum_list (map li_distanceToNext pts) = path_length coords"
    using telescope [OF ne, of "cum_at dense"] cap' start total by (simp add: pts comp_def last_conv_nth)
  moreover have "hd pts = pts ! 0" "last pts = pts ! (length lrps - 1)"
    using ne by (simp_all add: pts hd_conv_nth last_conv_nth)
  moreover have "lrps ! 0 = 0" "lrps ! (length lrps - 1) = length dense - 1"
    using cap' ne by (simp_all add: hd_conv_nth last_conv_nth)
  ultimately show ?thesis
    unfolding pts_def [symmetric] using cap' ne ends by (simp add: pts hd_conv_nth last_conv_nth)
qed

theorem encoded_points_witness:
  "sum_list (map li_distanceToNext (line_points [Position 7 50, Position 8 51] 1 1))
      = geodesicDistance (Position 7 50) (Position 8 51)
    \<and> list_all (\<lambda>p. li_distanceToNext p \<le> MAX_DNP_METERS) (line_points [Position 7 50, Position 8 51] 1 1)"
  using encoded_points [of "[Position 7 50, Position 8 51]" 1 1] by (simp add: list_all_iff)

text \<open>A line that is long enough is refused by nothing but the library.\<close>

lemma line_values:
  assumes "2 \<le> length coords"
  shows "\<exists>values. lrp_values (line_points coords frc fow) = Inr values \<and> length values = length (line_points coords frc fow)"
proof -
  let ?pts = "line_points coords frc fow"
  have "li_lfrcnp (?pts ! i) \<noteq> None" if "i < length ?pts" "i \<noteq> length ?pts - 1" for i
    using that by (cases "buildDensePolyline coords") (auto simp: line_points_def Let_def)
  then have "\<forall>x \<in> set (zip [0..<length ?pts] ?pts). isOk (case x of (i, p) \<Rightarrow>
      let isLast = (i = length ?pts - 1) in
      if \<not> isLast \<and> li_lfrcnp p = None then Inl (JsError ''OpenLR LRP needs the lowest FRC to the next point'')
      else Inr \<lparr>lv_sequence = i + 1, lv_input = p, lv_distanceToNext = (if isLast then 0 else li_distanceToNext p),
        lv_lfrcnp = (if isLast then None else li_lfrcnp p), lv_isLast = isLast\<rparr>)"
    by (force simp: in_set_zip Let_def isOk_def)
  from mapE_all [OF this] show ?thesis by (auto simp: lrp_values_def)
qed

lemma encode_line_total:
  assumes "2 \<le> length coords" and "\<forall>p \<in> set coords. \<bar>pos_y p\<bar> \<le> 90"
    and "\<And>lrps. ec_valid (encodes lrps 0 0) \<and> ec_data (encodes lrps 0 0) \<noteq> None"
  shows "isOk (encodeOpenlrLine encodes coords frc fow)"
proof -
  have "2 \<le> length (line_points coords frc fow)" using encoded_points_count [OF assms(1,2)] .
  moreover obtain vs where "lrp_values (line_points coords frc fow) = Inr vs"
    using line_values [OF assms(1)] by blast
  moreover have "ec_valid (encodes vs 0 0)" "\<exists>t. ec_data (encodes vs 0 0) = Some t" using assms(3) by auto
  ultimately show ?thesis
    using assms(1) by (auto simp: encodeOpenlrLine_def encodeOpenLrBinary_def isOk_def)
qed

text \<open>What a decoded line holds: two points or more, numbered from one, each classified, and offsets taken
  as shares of the first and of the last stretch.\<close>

lemma read_point_Inr:
  "read_point (i, p) = Inr q \<Longrightarrow>
    lp_sequenceNumber q = i + 1 \<and> rp_frc p = Some (li_frc q) \<and> rp_fow p = Some (li_fow q)"
  by (auto simp: read_point_def split: option.splits)

lemma decoded_line:
  assumes "decodeOpenLrBinary decodes t = Inr loc"
  shows "\<exists>raw pts. decodes t = Some raw \<and> rw_points raw = Some pts \<and> 2 \<le> length pts
    \<and> length (ol_points loc) = length pts
    \<and> (\<forall>i < length pts. lp_sequenceNumber (ol_points loc ! i) = i + 1
        \<and> rp_frc (pts ! i) = Some (li_frc (ol_points loc ! i)) \<and> rp_fow (pts ! i) = Some (li_fow (ol_points loc ! i)))
    \<and> (rw_offsets raw = None \<longrightarrow> ol_positiveOffset loc = 0 \<and> ol_negativeOffset loc = 0)"
proof -
  from assms obtain raw pts points where raw: "decodes t = Some raw" "rw_points raw = Some pts" "2 \<le> length pts"
    and points: "mapE read_point (zip [0..<length pts] pts) = Inr points" and loc: "ol_points loc = points"
    and off: "rw_offsets raw = None \<longrightarrow> ol_positiveOffset loc = 0 \<and> ol_negativeOffset loc = 0"
    by (auto simp: decodeOpenLrBinary_def Let_def split: option.splits if_splits)
  have len: "length points = length pts" using mapE_length [OF points] by simp
  have read: "read_point (i, pts ! i) = Inr (points ! i)" if "i < length pts" for i
    using points that by (auto simp: mapE_Inr_iff list_all2_conv_all_nth)
  have each: "lp_sequenceNumber (points ! i) = i + 1 \<and> rp_frc (pts ! i) = Some (li_frc (points ! i))
      \<and> rp_fow (pts ! i) = Some (li_fow (points ! i))" if "i < length pts" for i
    by (rule read_point_Inr [OF read [OF that]])
  show ?thesis
    by (rule exI [of _ raw], rule exI [of _ pts]) (use raw len loc off each in simp)
qed

end
