(* ===== verification/Routing_Evidence.thy ===== *)
theory Routing_Evidence
  imports Effect_State Geometry
begin

text \<open>
  What routing may read of a bound effect: packages/core/src/routing-evidence.ts.

  \<^item> A timestamp is a \<open>stamp\<close>: its text and what \<open>Date.parse\<close> makes of it (theory Schedule); a date
    that comes from the database as a Date is its ISO form. Enumerations are their strings, and a
    reason code is one.
  \<^item> A revision or a fraction is a \<open>jsnum\<close>, since the guards ask whether it is finite.
\<close>

subsection \<open>Evidence\<close>

record vehicle_selector =
  vs_class :: "string option"
  vs_keys :: "string list"

record routing_rights =
  rr_source_redistribution :: string
  rr_derived_redistribution :: string
  rr_commercial_use :: string
  rr_retention :: string
  rr_reviewed_at :: "stamp option"

record evidence_span =
  es_segment_id :: string
  es_direction :: string
  es_from :: jsnum
  es_to :: jsnum

record routing_evidence =
  rv_schema_version :: int
  rv_record_id :: string
  rv_effect_id :: string
  rv_record_revision :: jsnum
  rv_binding_revision :: jsnum
  rv_effect_kind :: string
  rv_graph_generation :: string
  rv_resolver_version :: string
  rv_source_id :: string
  rv_child_source_id :: "string option"
  rv_source_license :: string
  rv_license_url :: "string option"
  rv_attribution :: "string option"
  rv_record_url :: "string option"
  rv_source_checked_at :: stamp
  rv_fresh_until :: stamp
  rv_expires_at :: "stamp option"
  rv_valid_from :: "stamp option"
  rv_valid_to :: "stamp option"
  rv_next_transition_at :: "stamp option"
  rv_direction_mode :: string
  rv_applicability :: string
  rv_include :: "vehicle_selector list option"
  rv_rights :: routing_rights
  rv_segments :: "evidence_span list"
  rv_binding_status :: string
  rv_reason_codes :: "string list"
  rv_evaluated_at :: stamp

text \<open>\<open>/T[^T...]*(?:Z|[+-]\d{2}:?\d{2})$/i\<close>: what follows the last T, in either case, is one line and
  ends in a zone. (The two line separators beyond Latin-1 are no characters of these texts.)\<close>

definition after_last_T :: "string \<Rightarrow> string option" where
  "after_last_T s = (if \<exists>c \<in> set s. c \<in> {CHR ''T'', CHR ''t''}
     then Some (rev (takeWhile (\<lambda>c. c \<notin> {CHR ''T'', CHR ''t''}) (rev s))) else None)"

definition ends_in_zone :: "string \<Rightarrow> bool" where
  "ends_in_zone s \<longleftrightarrow> list_ex (\<lambda>k. k \<le> length s \<and> zone_suffix (drop (length s - k) s)) [1, 5, 6]"

definition zoned :: "string \<Rightarrow> bool" where
  "zoned s = (case after_last_T s of None \<Rightarrow> False
     | Some tail \<Rightarrow> CHR 0x0A \<notin> set tail \<and> CHR 0x0D \<notin> set tail \<and> ends_in_zone tail)"

definition finiteInstant :: "stamp option \<Rightarrow> instant" where
  "finiteInstant v = (case v of None \<Rightarrow> None
     | Some s \<Rightarrow> if trim (stamp_text s) = [] then None
         else if \<not> zoned (trim (stamp_text s)) then None else stamp_time s)"

text \<open>\<open>!==\<close> on numbers, where NaN differs from itself.\<close>

definition js_differs :: "jsnum \<Rightarrow> jsnum \<Rightarrow> bool" where
  "js_differs a b \<longleftrightarrow> a \<noteq> b \<or> a = JNaN"

definition blank :: "string \<Rightarrow> bool" where
  "blank s \<longleftrightarrow> trim s = []"

text \<open>A deadline: missed when it has been reached, and only by an evaluation at a known instant.\<close>

definition reached :: "instant \<Rightarrow> instant \<Rightarrow> bool" where
  "reached deadline now = (case (now, deadline) of (Some n, Some d) \<Rightarrow> n \<ge> d | _ \<Rightarrow> False)"

definition bad_span :: "evidence_span \<Rightarrow> bool" where
  "bad_span s \<longleftrightarrow> es_segment_id s = [] \<or> \<not> isFinite (es_from s) \<or> \<not> isFinite (es_to s)
     \<or> js_less (es_from s) (JNum 0) \<or> js_less (JNum 1) (es_to s) \<or> js_less (es_to s) (es_from s)"

definition direction_mismatch :: "string \<Rightarrow> string set \<Rightarrow> bool" where
  "direction_mismatch mode directions \<longleftrightarrow>
     (mode = ''forward'' \<and> (card directions \<noteq> 1 \<or> ''forward'' \<notin> directions)) \<or>
     (mode = ''reverse'' \<and> (card directions \<noteq> 1 \<or> ''reverse'' \<notin> directions)) \<or>
     (mode = ''both'' \<and> (''forward'' \<notin> directions \<or> ''reverse'' \<notin> directions))"

definition bad_revision :: "jsnum \<Rightarrow> bool" where
  "bad_revision v \<longleftrightarrow> \<not> isSafeInteger v \<or> js_less v (JNum 1)"

definition identity_reasons :: "routing_evidence \<Rightarrow> string list" where
  "identity_reasons ev =
     (if rv_schema_version ev \<noteq> 2 then [''schema_version_unsupported''] else []) @
     map (\<lambda>(field, value). field @ ''_missing'') (filter (\<lambda>(field, value). blank value)
       [(''record_id'', rv_record_id ev), (''effect_id'', rv_effect_id ev), (''effect_kind'', rv_effect_kind ev),
        (''graph_generation'', rv_graph_generation ev), (''resolver_version'', rv_resolver_version ev),
        (''source_id'', rv_source_id ev), (''source_license'', rv_source_license ev)]) @
     map (\<lambda>(field, value). field @ ''_missing'')
       (filter (\<lambda>(field, value). bad_revision value)
         [(''record_revision'', rv_record_revision ev), (''binding_revision'', rv_binding_revision ev)]) @
     (if js_differs (rv_record_revision ev) (rv_binding_revision ev) then [''binding_revision_mismatch''] else []) @
     (if rv_binding_status ev \<noteq> ''exact'' \<and> rv_binding_status ev \<noteq> ''likely''
      then [''binding_'' @ rv_binding_status ev] else [])"

definition time_reasons :: "routing_evidence \<Rightarrow> instant \<Rightarrow> string list" where
  "time_reasons ev now =
     (let freshUntil = finiteInstant (Some (rv_fresh_until ev));
          expiresAt = finiteInstant (rv_expires_at ev)
      in (if finiteInstant (Some (rv_source_checked_at ev)) = None then [''source_check_invalid''] else []) @
         (if finiteInstant (Some (rv_evaluated_at ev)) = None then [''evaluated_at_invalid''] else []) @
         (if freshUntil = None then [''freshness_deadline_invalid'']
          else if reached freshUntil now then [''source_stale''] else []) @
         (if rv_expires_at ev \<noteq> None \<and> expiresAt = None then [''expires_at_invalid'']
          else if reached expiresAt now then [''record_expired''] else []) @
         map (\<lambda>(field, value). field @ ''_invalid'')
           (filter (\<lambda>(field, value). value \<noteq> None \<and> finiteInstant value = None)
             [(''valid_from'', rv_valid_from ev), (''valid_to'', rv_valid_to ev),
              (''next_transition'', rv_next_transition_at ev)]))"

definition rights_reasons :: "routing_rights \<Rightarrow> string list" where
  "rights_reasons r =
     map (\<lambda>(grant, value). ''rights_'' @ grant @ ''_'' @ value) (filter (\<lambda>(grant, value). value \<noteq> ''yes'')
       [(''source_redistribution'', rr_source_redistribution r), (''derived_redistribution'', rr_derived_redistribution r),
        (''commercial_use'', rr_commercial_use r), (''retention'', rr_retention r)]) @
     (if rr_reviewed_at r \<noteq> None \<and> finiteInstant (rr_reviewed_at r) = None then [''rights_reviewed_at_invalid''] else [])"

definition span_reasons :: "routing_evidence \<Rightarrow> string list" where
  "span_reasons ev =
     (if rv_applicability ev = ''unknown'' then [''applicability_unknown''] else []) @
     (if rv_applicability ev = ''classes'' \<and> (case rv_include ev of None \<Rightarrow> True | Some xs \<Rightarrow> xs = [])
      then [''applicability_empty''] else []) @
     (if rv_direction_mode ev = ''unknown'' then [''direction_unknown''] else []) @
     (if rv_segments ev = [] then [''segments_unresolved'']
      else if list_ex bad_span (rv_segments ev) then [''invalid_segment_span''] else []) @
     (if direction_mismatch (rv_direction_mode ev) (set (map es_direction (rv_segments ev)))
      then [''segment_direction_mismatch''] else []) @
     (if rv_reason_codes ev \<noteq> [] then [''evidence_reported_unapplied''] else [])"

definition routingEvidenceReasons :: "routing_evidence \<Rightarrow> instant \<Rightarrow> string list" where
  "routingEvidenceReasons ev now =
     identity_reasons ev @ time_reasons ev now @ rights_reasons (rv_rights ev) @ span_reasons ev"


subsection \<open>What evidence without a reason is\<close>

definition whole_revision :: "jsnum \<Rightarrow> bool" where
  "whole_revision v \<longleftrightarrow> (\<exists>r :: int. v = JNum (of_int r) \<and> 1 \<le> r \<and> r \<le> 2 ^ 53 - 1)"

definition good_span :: "evidence_span \<Rightarrow> bool" where
  "good_span s \<longleftrightarrow> es_segment_id s \<noteq> [] \<and>
     (\<exists>f t. es_from s = JNum f \<and> es_to s = JNum t \<and> 0 \<le> f \<and> f \<le> t \<and> t \<le> 1)"

definition directions_stated :: "routing_evidence \<Rightarrow> bool" where
  "directions_stated ev \<longleftrightarrow> (let mode = rv_direction_mode ev; directions = set (map es_direction (rv_segments ev)) in
     mode \<noteq> ''unknown'' \<and> (mode = ''forward'' \<longrightarrow> directions = {''forward''})
     \<and> (mode = ''reverse'' \<longrightarrow> directions = {''reverse''})
     \<and> (mode = ''both'' \<longrightarrow> {''forward'', ''reverse''} \<subseteq> directions))"

definition before_deadline :: "int \<Rightarrow> stamp option \<Rightarrow> bool" where
  "before_deadline now deadline \<longleftrightarrow> (\<exists>d. finiteInstant deadline = Some d \<and> now < d)"

definition granted_rights :: "routing_rights \<Rightarrow> bool" where
  "granted_rights r \<longleftrightarrow> rr_source_redistribution r = ''yes'' \<and> rr_derived_redistribution r = ''yes''
     \<and> rr_commercial_use r = ''yes'' \<and> rr_retention r = ''yes''"

text \<open>Evidence that is vouched for at an instant: one revision of a record, bound by a resolver to a graph,
  checked, fresh, not expired, and under rights that grant everything.\<close>

definition vouched :: "routing_evidence \<Rightarrow> int \<Rightarrow> bool" where
  "vouched ev now \<longleftrightarrow>
     rv_schema_version ev = 2
     \<and> list_all (\<lambda>v. \<not> blank v) [rv_record_id ev, rv_effect_id ev, rv_effect_kind ev, rv_graph_generation ev,
         rv_resolver_version ev, rv_source_id ev, rv_source_license ev]
     \<and> whole_revision (rv_record_revision ev) \<and> rv_binding_revision ev = rv_record_revision ev
     \<and> rv_binding_status ev \<in> {''exact'', ''likely''}
     \<and> finiteInstant (Some (rv_source_checked_at ev)) \<noteq> None \<and> finiteInstant (Some (rv_evaluated_at ev)) \<noteq> None
     \<and> before_deadline now (Some (rv_fresh_until ev))
     \<and> (rv_expires_at ev = None \<or> before_deadline now (rv_expires_at ev))
     \<and> list_all (\<lambda>v. v = None \<or> finiteInstant v \<noteq> None)
         [rv_valid_from ev, rv_valid_to ev, rv_next_transition_at ev, rr_reviewed_at (rv_rights ev)]
     \<and> granted_rights (rv_rights ev)"

text \<open>Evidence that says where and for whom: vehicles that are known, spans that cover a part of each segment
  in the stated directions, and no reason of its own not to apply.\<close>

definition placed :: "routing_evidence \<Rightarrow> bool" where
  "placed ev \<longleftrightarrow>
     rv_applicability ev \<noteq> ''unknown'' \<and> (rv_applicability ev = ''classes'' \<longrightarrow> rv_include ev \<notin> {None, Some []})
     \<and> rv_segments ev \<noteq> [] \<and> list_all good_span (rv_segments ev) \<and> directions_stated ev
     \<and> rv_reason_codes ev = []"

lemma bad_span_iff: "bad_span s \<longleftrightarrow> \<not> good_span s"
  by (cases "es_from s"; cases "es_to s") (auto simp: bad_span_def good_span_def)

lemma whole_revision_iff: "bad_revision v \<longleftrightarrow> \<not> whole_revision v"
proof (cases v)
  case (JNum x)
  show ?thesis
  proof
    assume bad: "bad_revision v"
    show "\<not> whole_revision v"
    proof
      assume "whole_revision v"
      then obtain r :: int where "x = of_int r" "1 \<le> r" "r \<le> 2 ^ 53 - 1" by (auto simp: whole_revision_def JNum)
      moreover from this have "\<bar>real_of_int r\<bar> \<le> 2 ^ 53 - 1" by (auto simp: abs_if)
      ultimately show False using bad by (simp add: bad_revision_def isSafeInteger_def JNum)
    qed
  next
    assume "\<not> whole_revision v"
    moreover have "whole_revision v" if "x = of_int \<lfloor>x\<rfloor>" "\<bar>x\<bar> \<le> 2 ^ 53 - 1" "1 \<le> x"
      unfolding whole_revision_def
    proof (intro exI conjI)
      show "v = JNum (of_int \<lfloor>x\<rfloor>)" using that JNum by simp
      show "1 \<le> \<lfloor>x\<rfloor>" using that by linarith
      have "of_int \<lfloor>x\<rfloor> \<le> (of_int (2 ^ 53 - 1) :: real)" using that by simp
      then show "\<lfloor>x\<rfloor> \<le> 2 ^ 53 - 1" by (simp only: of_int_le_iff)
    qed
    ultimately have "\<not> (x = of_int \<lfloor>x\<rfloor> \<and> \<bar>x\<bar> \<le> 2 ^ 53 - 1 \<and> 1 \<le> x)" by blast
    then show "bad_revision v" unfolding bad_revision_def isSafeInteger_def JNum by (simp add: not_le)
  qed
qed (auto simp: bad_revision_def isSafeInteger_def whole_revision_def)

lemma directions_iff:
  "rv_direction_mode ev \<noteq> ''unknown'' \<and>
     \<not> direction_mismatch (rv_direction_mode ev) (set (map es_direction (rv_segments ev))) \<longleftrightarrow> directions_stated ev"
proof -
  have one: "card D = 1 \<and> d \<in> D \<longleftrightarrow> D = {d}" for D :: "string set" and d
    by (auto simp: card_1_singleton_iff)
  show ?thesis
    unfolding direction_mismatch_def directions_stated_def Let_def
    using one [of _ "''forward''"] one [of _ "''reverse''"] by auto
qed

lemma identity_reasons_nil:
  "identity_reasons ev = [] \<longleftrightarrow> rv_schema_version ev = 2
     \<and> list_all (\<lambda>v. \<not> blank v) [rv_record_id ev, rv_effect_id ev, rv_effect_kind ev, rv_graph_generation ev,
         rv_resolver_version ev, rv_source_id ev, rv_source_license ev]
     \<and> whole_revision (rv_record_revision ev) \<and> rv_binding_revision ev = rv_record_revision ev
     \<and> rv_binding_status ev \<in> {''exact'', ''likely''}"
proof -
  have "whole_revision v \<Longrightarrow> v \<noteq> JNaN" for v by (auto simp: whole_revision_def)
  then show ?thesis
    by (auto simp: identity_reasons_def whole_revision_iff js_differs_def filter_empty_conv split: if_splits)
qed

lemma finiteInstant_None [simp]: "finiteInstant None = None"
  by (simp add: finiteInstant_def)

lemma time_reasons_nil:
  "time_reasons ev (Some now) = [] \<longleftrightarrow>
     finiteInstant (Some (rv_source_checked_at ev)) \<noteq> None \<and> finiteInstant (Some (rv_evaluated_at ev)) \<noteq> None
     \<and> before_deadline now (Some (rv_fresh_until ev))
     \<and> (rv_expires_at ev = None \<or> before_deadline now (rv_expires_at ev))
     \<and> list_all (\<lambda>v. v = None \<or> finiteInstant v \<noteq> None) [rv_valid_from ev, rv_valid_to ev, rv_next_transition_at ev]"
  by (cases "rv_expires_at ev") (auto simp: time_reasons_def reached_def before_deadline_def Let_def split: if_splits)

lemma rights_reasons_nil:
  "rights_reasons r = [] \<longleftrightarrow> granted_rights r \<and> (rr_reviewed_at r = None \<or> finiteInstant (rr_reviewed_at r) \<noteq> None)"
  by (auto simp: rights_reasons_def granted_rights_def split: if_splits)

lemma span_reasons_nil: "span_reasons ev = [] \<longleftrightarrow> placed ev"
  unfolding directions_iff [symmetric] placed_def
  by (auto simp: span_reasons_def bad_span_iff list_ex_iff list_all_iff split: if_splits option.splits)

lemma vouched_reasons:
  "vouched ev now \<longleftrightarrow> identity_reasons ev = [] \<and> time_reasons ev (Some now) = [] \<and> rights_reasons (rv_rights ev) = []"
  unfolding identity_reasons_nil time_reasons_nil rights_reasons_nil vouched_def list.pred_inject by blast

lemma no_reasons_iff: "routingEvidenceReasons ev (Some now) = [] \<longleftrightarrow> vouched ev now \<and> placed ev"
  unfolding routingEvidenceReasons_def append_is_Nil_conv vouched_reasons span_reasons_nil by blast

end
