(* ===== verification/Segment_Conditions.thy ===== *)
theory Segment_Conditions
  imports Routing_Evidence
begin

text \<open>
  The routing feed: packages/publishers/src/segment-conditions.ts. A row is what the bound-effects query
  returns; a date column that is a Date is its ISO text with its instant. \<open>zone\<close> is the time zone
  data of theory Schedule.
\<close>

subsection \<open>Rows and conditions\<close>

text \<open>The fields of an effect the routing feeds read beyond those of theory Effect_State.\<close>

record routing_effect = situation_effect +
  rx_include :: "vehicle_selector list option"
  rx_except :: "vehicle_selector list option"
  rx_scope :: string
  rx_vehicleImpact :: string
  rx_advisory :: bool
  rx_limit :: real

record row_span =
  sp_segmentId :: string
  sp_wayId :: int
  sp_dir :: string
  sp_startFraction :: jsnum
  sp_endFraction :: jsnum
  sp_geometry :: "geometry option"

record segment_row =
  sr_record_id :: string
  sr_effect_id :: string
  sr_source_id :: string
  sr_kind :: string
  sr_type :: string
  sr_subtype :: "string option"
  sr_severity :: string
  sr_validity :: validity
  sr_effect :: routing_effect
  sr_origin :: string
  sr_evidence_state :: "string option"
  sr_routing_eligible :: "bool option"
  sr_record_revision :: jsnum
  sr_expires_at :: "stamp option"
  sr_license :: "string option"
  sr_source_uri :: "string option"
  sr_source_checked_at :: "stamp option"
  sr_fresh_until :: "stamp option"
  sr_binding_status :: string
  sr_binding_confidence :: "real option"
  sr_resolver_version :: string
  sr_binding_direction_mode :: string
  sr_binding_revision :: jsnum
  sr_graph_generation :: string
  sr_segments :: "row_span list"
  sr_routing_source_id :: "string option"
  sr_child_source_id :: "string option"
  sr_license_url :: "string option"
  sr_attribution :: "string option"
  sr_rights :: "routing_rights option"

record condition_span =
  cs_way_id :: int
  cs_dir :: string
  cs_start_fraction :: jsnum
  cs_end_fraction :: jsnum
  cs_geometry :: "geometry option"

record segment_condition =
  jc_id :: string
  jc_record_id :: string
  jc_effect_id :: string
  jc_source :: string
  jc_kind :: string
  jc_type :: string
  jc_subtype :: "string option"
  jc_severity :: string
  jc_effect :: routing_effect
  jc_origin :: string
  jc_evidence_state :: "string option"
  jc_routing_eligible :: bool
  jc_binding :: "string \<times> real option \<times> string"
  jc_evidence :: routing_evidence
  jc_segments :: "condition_span list"

definition EVIDENCE_ONLY :: string where
  "EVIDENCE_ONLY = ''evidence_reported_unapplied''"

fun blocker_code :: "routing_blocker \<Rightarrow> string" where
  "blocker_code ApplicabilityUnknown = ''applicability_unknown''"
| "blocker_code NotNormalized = ''not_normalized''"
| "blocker_code ActionNotRoutable = ''action_not_routable''"

text \<open>\<open>toISOString\<close> throws on an invalid date. (A year beyond 9999 has a longer form, which no other part
  of the model reads.)\<close>

definition toISOString :: "instant \<Rightarrow> js_error + stamp" where
  "toISOString t = (case t of None \<Rightarrow> Inl (RangeError ''Invalid time value'') | Some n \<Rightarrow> Inr (Stamp (iso_string n) (Some n)))"

definition missing_stamp :: "stamp option \<Rightarrow> bool" where
  "missing_stamp s \<longleftrightarrow> (case s of None \<Rightarrow> True | Some v \<Rightarrow> stamp_text v = [])"

definition condition_direction :: "string set \<Rightarrow> string" where
  "condition_direction dirs = (if card dirs > 1 then ''both'' else if ''f'' \<in> dirs then ''forward''
     else if ''b'' \<in> dirs then ''reverse'' else ''unknown'')"

text \<open>What leaves a row out before its evidence is drawn up.\<close>

definition unbound :: "string \<Rightarrow> segment_row \<Rightarrow> bool" where
  "unbound resolverVersion r \<longleftrightarrow>
     missing_stamp (sr_source_checked_at r) \<or> missing_stamp (sr_fresh_until r)
     \<or> sr_license r \<in> {None, Some []} \<or> sr_rights r = None
     \<or> sr_resolver_version r \<noteq> resolverVersion \<or> sr_segments r = []
     \<or> list_ex (\<lambda>span. sp_segmentId span = [] \<or> sp_geometry span = None) (sr_segments r)"

definition evidence_of :: "segment_row \<Rightarrow> stamp option \<Rightarrow> stamp \<Rightarrow> routing_evidence" where
  "evidence_of r nextTransitionAt evaluated =
     (let validity = effectValidity (situation_effect.truncate (sr_effect r)) (sr_validity r) in
     \<lparr>rv_schema_version = 2, rv_record_id = sr_record_id r, rv_effect_id = sr_effect_id r,
      rv_record_revision = sr_record_revision r, rv_binding_revision = sr_binding_revision r,
      rv_effect_kind = ef_kind (sr_effect r), rv_graph_generation = sr_graph_generation r,
      rv_resolver_version = sr_resolver_version r,
      rv_source_id = nullish (sr_routing_source_id r) (sr_source_id r), rv_child_source_id = sr_child_source_id r,
      rv_source_license = the (sr_license r), rv_license_url = sr_license_url r, rv_attribution = sr_attribution r,
      rv_record_url = sr_source_uri r,
      rv_source_checked_at = the (sr_source_checked_at r), rv_fresh_until = the (sr_fresh_until r),
      rv_expires_at = sr_expires_at r, rv_valid_from = va_start validity, rv_valid_to = va_end validity,
      rv_next_transition_at = nextTransitionAt,
      rv_direction_mode = condition_direction (set (map sp_dir (sr_segments r))),
      rv_applicability = ef_applicability (sr_effect r), rv_include = rx_include (sr_effect r),
      rv_rights = the (sr_rights r),
      rv_segments = map (\<lambda>span. \<lparr>es_segment_id = sp_segmentId span,
        es_direction = (if sp_dir span = ''f'' then ''forward'' else ''reverse''),
        es_from = sp_startFraction span, es_to = sp_endFraction span\<rparr>) (sr_segments r),
      rv_binding_status = sr_binding_status r,
      rv_reason_codes = map blocker_code (routingBlockers (situation_effect.truncate (sr_effect r))),
      rv_evaluated_at = evaluated\<rparr>)"

definition listable :: "routing_evidence \<Rightarrow> instant \<Rightarrow> bool" where
  "listable ev now \<longleftrightarrow> (let reasons = routingEvidenceReasons ev now in
     if rv_reason_codes ev = [] then reasons = []
     else list_all (\<lambda>reason. reason = EVIDENCE_ONLY \<or> reason \<in> set (rv_reason_codes ev)) reasons)"

definition condition_of :: "segment_row \<Rightarrow> routing_evidence \<Rightarrow> segment_condition" where
  "condition_of r ev =
     \<lparr>jc_id = sr_record_id r @ ''#'' @ sr_effect_id r, jc_record_id = sr_record_id r, jc_effect_id = sr_effect_id r,
      jc_source = sr_source_id r, jc_kind = sr_kind r, jc_type = sr_type r, jc_subtype = sr_subtype r,
      jc_severity = sr_severity r, jc_effect = sr_effect r, jc_origin = sr_origin r,
      jc_evidence_state = sr_evidence_state r,
      jc_routing_eligible = (if sr_origin r = ''crowd'' then sr_routing_eligible r = Some True else True),
      jc_binding = (sr_binding_status r, sr_binding_confidence r, sr_binding_direction_mode r),
      jc_evidence = ev,
      jc_segments = map (\<lambda>s. \<lparr>cs_way_id = sp_wayId s, cs_dir = sp_dir s, cs_start_fraction = sp_startFraction s,
        cs_end_fraction = sp_endFraction s, cs_geometry = sp_geometry s\<rparr>) (sr_segments r)\<rparr>"

text \<open>The body of the loop: \<open>None\<close> is a \<open>continue\<close>.\<close>

definition project_row ::
  "zone_data \<Rightarrow> instant \<Rightarrow> string \<Rightarrow> instant \<Rightarrow> segment_row \<Rightarrow> js_error + segment_condition option" where
  "project_row zone now resolverVersion evaluatedAt r =
     (let effect = situation_effect.truncate (sr_effect r) in
      if \<not> lifecycleInForce (effectValidity effect (sr_validity r)) then Inr None
      else case effectStateAt zone effect (sr_validity r) now of (state, nextTransitionAt) \<Rightarrow>
        if state \<noteq> Active then Inr None
        else if sr_origin r = ''crowd'' \<and> sr_routing_eligible r \<noteq> Some True then Inr None
        else if unbound resolverVersion r then Inr None
        else bindE (toISOString evaluatedAt) (\<lambda>evaluated.
          let ev = evidence_of r nextTransitionAt evaluated
          in if listable ev evaluatedAt then Inr (Some (condition_of r ev)) else Inr None))"

definition segmentConditionsToJson ::
  "zone_data \<Rightarrow> segment_row list \<Rightarrow> instant \<Rightarrow> string \<Rightarrow> instant option \<Rightarrow> js_error + segment_condition list" where
  "segmentConditionsToJson zone rows now resolverVersion evaluated =
     (let evaluatedAt = nullish evaluated now
      in bindE (mapE (project_row zone now resolverVersion evaluatedAt) rows) (\<lambda>conditions.
         bindE (toISOString now) (\<lambda>_. Inr (List.map_filter id conditions))))"

subsection \<open>What is listed\<close>

text \<open>The reasons that vouch for evidence and the codes of a blocker begin differently.\<close>

definition vouching_prefixes :: "string set" where
  "vouching_prefixes = {''sch'', ''rec'', ''eff'', ''gra'', ''res'', ''sou'', ''bin'', ''eva'', ''fre'', ''exp'', ''val'', ''nex'', ''rig''}"

lemma identity_prefix: "reason \<in> set (identity_reasons ev) \<Longrightarrow> take 3 reason \<in> vouching_prefixes"
  unfolding identity_reasons_def set_append Un_iff set_map set_filter
  by (elim disjE; auto simp: vouching_prefixes_def split: if_splits)

lemma time_prefix: "reason \<in> set (time_reasons ev now) \<Longrightarrow> take 3 reason \<in> vouching_prefixes"
  unfolding time_reasons_def Let_def set_append Un_iff set_map set_filter
  by (elim disjE; auto simp: vouching_prefixes_def split: if_splits)

lemma rights_prefix: "reason \<in> set (rights_reasons r) \<Longrightarrow> take 3 reason \<in> vouching_prefixes"
  unfolding rights_reasons_def set_append Un_iff set_map set_filter
  by (elim disjE; auto simp: vouching_prefixes_def split: if_splits)

lemma code_prefix: "take 3 EVIDENCE_ONLY \<notin> vouching_prefixes" "take 3 (blocker_code b) \<notin> vouching_prefixes"
  by (simp_all add: EVIDENCE_ONLY_def vouching_prefixes_def) (cases b; simp)

lemma reason_words:
  assumes "reason \<in> set (identity_reasons ev) \<union> set (time_reasons ev now) \<union> set (rights_reasons r)"
  shows "reason \<noteq> EVIDENCE_ONLY \<and> reason \<noteq> blocker_code b"
  using assms identity_prefix time_prefix rights_prefix code_prefix by fastforce

lemma listable_vouched:
  assumes "listable ev (Some now)" and "rv_reason_codes ev = map blocker_code bs"
  shows "vouched ev now"
proof -
  let ?early = "set (identity_reasons ev) \<union> set (time_reasons ev (Some now)) \<union> set (rights_reasons (rv_rights ev))"
  have "?early = {}"
  proof (rule ccontr)
    assume "?early \<noteq> {}"
    then obtain reason where reason: "reason \<in> ?early" using ex_in_conv by metis
    then have "reason \<in> set (routingEvidenceReasons ev (Some now))" by (auto simp: routingEvidenceReasons_def)
    then have "reason = EVIDENCE_ONLY \<or> reason \<in> set (rv_reason_codes ev)"
      using assms(1) by (auto simp: listable_def Let_def list_all_iff split: if_splits)
    then show False using reason_words [OF reason] assms(2) by auto
  qed
  then show ?thesis by (simp add: vouched_reasons)
qed

lemma mapE_source: "mapE f xs = Inr ys \<Longrightarrow> y \<in> set ys \<Longrightarrow> \<exists>x \<in> set xs. f x = Inr y"
  unfolding mapE_Inr_iff by (induction xs ys rule: list_all2_induct) auto

text \<open>C28. What the routing feed lists: an effect in force at the asked instant, under an active lifecycle and,
  when the crowd reported it, only once evidence made it eligible; bound by the asked resolver with
  a geometry for every span; and vouched for when it is evaluated: fresh, not expired, of one
  revision, under rights that grant everything. A listed effect without a blocker of its own is
  also placed, so a consumer may apply it; one with a blocker says so in its reason codes.\<close>

theorem listed_condition:
  assumes "segmentConditionsToJson zone rows now resolverVersion evaluated = Inr conditions" and "c \<in> set conditions"
  shows "\<exists>r \<in> set rows. \<exists>t nextAt. nullish evaluated now = Some t
    \<and> jc_effect c = sr_effect r \<and> jc_record_id c = sr_record_id r
    \<and> lifecycleInForce (effectValidity (situation_effect.truncate (sr_effect r)) (sr_validity r))
    \<and> effectStateAt zone (situation_effect.truncate (sr_effect r)) (sr_validity r) now = (Active, nextAt)
    \<and> (sr_origin r = ''crowd'' \<longrightarrow> sr_routing_eligible r = Some True)
    \<and> rv_resolver_version (jc_evidence c) = resolverVersion
    \<and> jc_segments c \<noteq> [] \<and> list_all (\<lambda>s. cs_geometry s \<noteq> None) (jc_segments c)
    \<and> vouched (jc_evidence c) t
    \<and> (if routingBlockers (situation_effect.truncate (sr_effect r)) = [] then placed (jc_evidence c)
       else rv_reason_codes (jc_evidence c) \<noteq> [])"
proof -
  from assms(1) obtain found where found: "mapE (project_row zone now resolverVersion (nullish evaluated now)) rows = Inr found"
    and "conditions = List.map_filter id found"
    by (auto simp: segmentConditionsToJson_def Let_def)
  with assms(2) have "Some c \<in> set found" by (auto simp: List.map_filter_def)
  then obtain r where r: "r \<in> set rows" "project_row zone now resolverVersion (nullish evaluated now) r = Inr (Some c)"
    using mapE_source [OF found] by blast
  let ?e = "situation_effect.truncate (sr_effect r)"
  obtain state nextAt where state: "effectStateAt zone ?e (sr_validity r) now = (state, nextAt)" by force
  from r(2) state obtain evaluated_at where
      lifecycle: "lifecycleInForce (effectValidity ?e (sr_validity r))" and active: "state = Active"
    and crowd: "sr_origin r = ''crowd'' \<longrightarrow> sr_routing_eligible r = Some True"
    and bound: "\<not> unbound resolverVersion r" and iso: "toISOString (nullish evaluated now) = Inr evaluated_at"
    and ok: "listable (evidence_of r nextAt evaluated_at) (nullish evaluated now)"
    and c: "c = condition_of r (evidence_of r nextAt evaluated_at)"
    by (auto simp: project_row_def Let_def split: if_splits)
  from iso obtain t where t: "nullish evaluated now = Some t" by (auto simp: toISOString_def split: option.splits)
  let ?ev = "evidence_of r nextAt evaluated_at"
  have codes: "rv_reason_codes ?ev = map blocker_code (routingBlockers ?e)" by (simp add: evidence_of_def Let_def)
  have "vouched ?ev t" by (rule listable_vouched [OF _ codes]) (use ok t in simp)
  moreover have "placed ?ev" if "routingBlockers ?e = []"
    using ok that no_reasons_iff [of ?ev t] by (simp add: listable_def codes t)
  moreover have "jc_segments c \<noteq> []" "list_all (\<lambda>s. cs_geometry s \<noteq> None) (jc_segments c)"
    using bound by (auto simp: c condition_of_def unbound_def list_ex_iff list_all_iff)
  moreover have "rv_resolver_version ?ev = resolverVersion" using bound by (simp add: unbound_def evidence_of_def Let_def)
  ultimately show ?thesis
    using r(1) t state active lifecycle crowd codes
    by (intro bexI [of _ r] exI [of _ t] exI [of _ nextAt]) (simp_all add: c condition_of_def)
qed


definition sample_effect :: routing_effect where
  "sample_effect = \<lparr>ef_kind = ''closure'', ef_validity = None, ef_issues = None, ef_applicability = ''all'',
     ef_normalization = ''complete'', ef_actionStatus = None, rx_include = None, rx_except = None,
     rx_scope = ''road'', rx_vehicleImpact = [], rx_advisory = False, rx_limit = 0\<rparr>"

definition sample_deadline :: stamp where
  "sample_deadline = Stamp ''2026-01-02T00:00:00Z'' (Some 1767312000000)"

definition sample_row :: segment_row where
  "sample_row = \<lparr>sr_record_id = ''a/1'', sr_effect_id = ''e'', sr_source_id = ''s'', sr_kind = ''closure'', sr_type = ''t'',
     sr_subtype = None, sr_severity = ''high'',
     sr_validity = \<lparr>va_status = ''active'', va_start = None, va_end = None, va_periods = None, va_exceptions = None\<rparr>,
     sr_effect = sample_effect, sr_origin = ''feed'', sr_evidence_state = None, sr_routing_eligible = None,
     sr_record_revision = JNum 1, sr_expires_at = None, sr_license = Some ''CC0-1.0'', sr_source_uri = None,
     sr_source_checked_at = Some sample_deadline, sr_fresh_until = Some sample_deadline, sr_binding_status = ''exact'',
     sr_binding_confidence = None, sr_resolver_version = ''r1'', sr_binding_direction_mode = ''both'',
     sr_binding_revision = JNum 1, sr_graph_generation = ''g'',
     sr_segments = [\<lparr>sp_segmentId = ''1f'', sp_wayId = 1, sp_dir = ''f'', sp_startFraction = JNum 0, sp_endFraction = JNum 1,
       sp_geometry = Some (LineString [Position 7 50, Position 7 51])\<rparr>,
       \<lparr>sp_segmentId = ''1b'', sp_wayId = 1, sp_dir = ''b'', sp_startFraction = JNum 0, sp_endFraction = JNum 1,
       sp_geometry = Some (LineString [Position 7 51, Position 7 50])\<rparr>],
     sr_routing_source_id = None, sr_child_source_id = None, sr_license_url = None, sr_attribution = None,
     sr_rights = Some \<lparr>rr_source_redistribution = ''yes'', rr_derived_redistribution = ''yes'', rr_commercial_use = ''yes'',
       rr_retention = ''yes'', rr_reviewed_at = None\<rparr>\<rparr>"

definition sample_condition :: segment_condition where
  "sample_condition = condition_of sample_row (evidence_of sample_row None (Stamp (iso_string 1000) (Some 1000)))"

lemma sample_texts:
  "trim ''2026-01-02T00:00:00Z'' = ''2026-01-02T00:00:00Z''" "zoned ''2026-01-02T00:00:00Z''"
  "iso_string 1000 = ''1970-01-01T00:00:01.000Z''"
  "trim ''1970-01-01T00:00:01.000Z'' = ''1970-01-01T00:00:01.000Z''" "zoned ''1970-01-01T00:00:01.000Z''"
  by code_simp+

lemma sample_instants:
  "finiteInstant (Some sample_deadline) = Some 1767312000000"
  "finiteInstant (Some (Stamp (iso_string 1000) (Some 1000))) = Some 1000"
  by (simp_all add: finiteInstant_def sample_deadline_def sample_texts)

lemma sample_state:
  "effectStateAt zone (situation_effect.truncate (sr_effect sample_row)) (sr_validity sample_row) (Some 1000) = (Active, None)"
  "lifecycleInForce (effectValidity (situation_effect.truncate (sr_effect sample_row)) (sr_validity sample_row))"
  "routingBlockers (situation_effect.truncate (sr_effect sample_row)) = []"
  by (simp_all add: sample_row_def sample_effect_def situation_effect.truncate_def effectStateAt_def effectValidity_def
      stamp_instant_def isValidityInEffectAt_def isInEffectAt_def truthy_stamp_def listed_def transition_stamp_def
      nextScheduleTransition_def earliest_def earlier_of_def lifecycleInForce_def routingBlockers_def actionInPlace_def)

lemma sample_vouched:
  "vouched (jc_evidence sample_condition) 1000" "placed (jc_evidence sample_condition)"
proof -
  let ?ev = "evidence_of sample_row None (Stamp (iso_string 1000) (Some 1000))"
  have one: "whole_revision (JNum 1)" unfolding whole_revision_def by (intro exI [of _ 1]) simp
  show "vouched (jc_evidence sample_condition) 1000"
    using one sample_instants
    by (simp add: sample_condition_def condition_of_def vouched_def evidence_of_def Let_def sample_row_def sample_effect_def
        effectValidity_def situation_effect.truncate_def before_deadline_def granted_rights_def blank_def trim_def js_space_def)
  have "condition_direction {''f'', ''b''} = ''both''" by (simp add: condition_direction_def)
  then show "placed (jc_evidence sample_condition)"
    using sample_state(3)
    by (simp add: sample_condition_def condition_of_def placed_def evidence_of_def Let_def sample_row_def sample_effect_def
        good_span_def directions_stated_def)
qed

lemma sample_listed:
  "segmentConditionsToJson zone [sample_row] (Some 1000) ''r1'' None = Inr [sample_condition]"
proof -
  let ?ev = "evidence_of sample_row None (Stamp (iso_string 1000) (Some 1000))"
  have "jc_evidence sample_condition = ?ev" by (simp add: sample_condition_def condition_of_def)
  then have "listable ?ev (Some 1000)"
    using sample_vouched no_reasons_iff [of ?ev 1000] by (simp add: listable_def placed_def)
  moreover have "\<not> unbound ''r1'' sample_row" "sr_origin sample_row \<noteq> ''crowd''"
    by (simp_all add: unbound_def sample_row_def missing_stamp_def sample_deadline_def)
  ultimately show ?thesis
    using sample_state
    by (simp add: segmentConditionsToJson_def project_row_def toISOString_def sample_condition_def List.map_filter_def)
qed

theorem listed_condition_witness:
  "vouched (jc_evidence sample_condition) 1000 \<and> placed (jc_evidence sample_condition)"
  using listed_condition [OF sample_listed [of "\<lambda>_ _. None"], of sample_condition] sample_state by simp

end
