(* ===== verification/Valhalla.thy ===== *)
theory Valhalla
  imports Segment_Conditions
begin

text \<open>
  Routing exclusions for Valhalla: packages/publishers/src/valhalla.ts. Caps and totals are natural
  numbers, a spacing is positive; distances are reals. The clock is an argument, \<open>activeAt\<close> and \<open>evaluatedAt\<close> its readings
  unless the options state them.
\<close>

subsection \<open>Sampling a line\<close>

definition haversineMeters :: "position \<Rightarrow> position \<Rightarrow> real" where
  "haversineMeters a b =
     (let R = 6371000; toRad = (\<lambda>d. d * pi / 180);
          dLat = toRad (pos_y b - pos_y a);
          dLon = toRad (pos_x b - pos_x a);
          lat1 = toRad (pos_y a);
          lat2 = toRad (pos_y b);
          h = sin (dLat / 2) ^ 2 + cos lat1 * cos lat2 * sin (dLon / 2) ^ 2
      in 2 * R * arcsin (sqrt h))"

definition steps_of :: "real \<Rightarrow> position \<Rightarrow> position \<Rightarrow> nat" where
  "steps_of maxSpacing a b = nat (max 1 \<lceil>haversineMeters a b / maxSpacing\<rceil>)"

definition along :: "position \<Rightarrow> position \<Rightarrow> real \<Rightarrow> position" where
  "along a b t = Position (pos_x a + (pos_x b - pos_x a) * t) (pos_y a + (pos_y b - pos_y a) * t)"

fun densified :: "real \<Rightarrow> position list \<Rightarrow> position list" where
  "densified maxSpacing (a # b # rest) =
     (let steps = steps_of maxSpacing a b
      in map (\<lambda>s. along a b (real s / real steps)) [1..<steps + 1] @ densified maxSpacing (b # rest))"
| "densified maxSpacing _ = []"

text \<open>Every \<open>stride\<close>-th point; an index is the floor of a product, below the length.\<close>

definition sampled :: "'a list \<Rightarrow> nat \<Rightarrow> 'a list" where
  "sampled out cap = map (\<lambda>i. out ! nat \<lfloor>real i * (real (length out) / real cap)\<rfloor>) [0..<cap]"

definition densify :: "position list \<Rightarrow> real \<Rightarrow> nat \<Rightarrow> position list" where
  "densify coords maxSpacing cap =
     (if length coords \<le> 1 then coords
      else let out = hd coords # densified maxSpacing coords
           in if length out \<le> cap then out else list_update (sampled out cap) (cap - 1) (last out))"

definition subsampleEvenly :: "'a list \<Rightarrow> nat \<Rightarrow> 'a list" where
  "subsampleEvenly points max_points =
     (if length points \<le> max_points then points else sampled points max_points)"

subsection \<open>Footprints\<close>

record exclusions =
  ex_locations :: "position list"
  ex_polygons :: "position list list"

definition pushLine :: "real \<Rightarrow> nat \<Rightarrow> position list \<Rightarrow> exclusions \<Rightarrow> exclusions" where
  "pushLine maxSpacing cap coords ex = ex\<lparr>ex_locations := ex_locations ex @ densify coords maxSpacing cap\<rparr>"

definition pushRing :: "position list option \<Rightarrow> exclusions \<Rightarrow> exclusions" where
  "pushRing ring ex = (case ring of None \<Rightarrow> ex
     | Some ps \<Rightarrow> if length ps \<ge> 3 then ex\<lparr>ex_polygons := ex_polygons ex @ [ps]\<rparr> else ex)"

definition first_ring :: "position list list \<Rightarrow> position list option" where
  "first_ring rings = (case rings of [] \<Rightarrow> None | r # _ \<Rightarrow> Some r)"

fun addGeometry :: "real \<Rightarrow> nat \<Rightarrow> bool \<Rightarrow> geometry \<Rightarrow> exclusions \<Rightarrow> exclusions" where
  "addGeometry maxSpacing cap isClosure (Point p) ex = ex\<lparr>ex_locations := ex_locations ex @ [p]\<rparr>"
| "addGeometry maxSpacing cap isClosure (MultiPoint ps) ex = ex\<lparr>ex_locations := ex_locations ex @ ps\<rparr>"
| "addGeometry maxSpacing cap isClosure (LineString ps) ex = pushLine maxSpacing cap ps ex"
| "addGeometry maxSpacing cap isClosure (MultiLineString lines) ex = fold (pushLine maxSpacing cap) lines ex"
| "addGeometry maxSpacing cap isClosure (Polygon rings) ex = (if isClosure then pushRing (first_ring rings) ex else ex)"
| "addGeometry maxSpacing cap isClosure (MultiPolygon polys) ex =
     (if isClosure then fold (\<lambda>poly. pushRing (first_ring poly)) polys ex else ex)"
| "addGeometry maxSpacing cap isClosure (GeometryCollection gs) ex = fold (addGeometry maxSpacing cap isClosure) gs ex"

subsection \<open>Which effects apply to cars\<close>

definition CAR_CLASSES :: "string list" where
  "CAR_CLASSES = [''car'', ''motor_vehicle'']"

definition sparesCars :: "vehicle_selector \<Rightarrow> bool" where
  "sparesCars s = (case vs_class s of Some c \<Rightarrow> c \<in> set CAR_CLASSES
     | None \<Rightarrow> list_ex (\<lambda>key. key \<noteq> ''usage'' \<and> key \<noteq> ''raw'') (vs_keys s))"

definition plainCar :: "vehicle_selector \<Rightarrow> bool" where
  "plainCar s = (case vs_class s of None \<Rightarrow> False
     | Some c \<Rightarrow> c \<in> set CAR_CLASSES \<and> list_all (\<lambda>key. key = ''class'' \<or> key = ''raw'') (vs_keys s))"

definition appliesToCars :: "routing_effect \<Rightarrow> bool" where
  "appliesToCars e =
     (if list_ex sparesCars (or_empty (rx_except e)) then False
      else if ef_applicability e = ''all'' then True
      else ef_applicability e = ''classes'' \<and> list_ex plainCar (or_empty (rx_include e)))"

definition OFF_CARRIAGEWAY :: "string list" where
  "OFF_CARRIAGEWAY = [''sidewalk'', ''cycleway'', ''rest_area'', ''facility'']"

definition closesRoad :: "routing_effect \<Rightarrow> bool" where
  "closesRoad e =
     (if ef_kind e = ''closure'' then rx_scope e \<notin> set OFF_CARRIAGEWAY
      else ef_kind e = ''lane_restriction'' \<and> rx_vehicleImpact e = ''all_lanes_closed'')"

subsection \<open>Exclusions and speed caps\<close>

record speed_cap =
  cp_way_id :: int
  cp_dir :: string
  cp_start_fraction :: jsnum
  cp_end_fraction :: jsnum
  cp_limit_kph :: real

record exclusion_options =
  xo_maxSpacingMeters :: "real option"
  xo_maxPointsPerClosure :: "nat option"
  xo_maxTotalPoints :: "nat option"
  xo_activeAt :: "instant option"
  xo_evaluatedAt :: "instant option"

definition DEFAULT_MAX_SPACING_M :: real where "DEFAULT_MAX_SPACING_M = 45"

definition DEFAULT_MAX_POINTS :: nat where "DEFAULT_MAX_POINTS = 200"

definition DEFAULT_MAX_TOTAL_POINTS :: nat where "DEFAULT_MAX_TOTAL_POINTS = 45"

definition whole_way :: "jsnum \<Rightarrow> jsnum \<Rightarrow> bool" where
  "whole_way from till \<longleftrightarrow> from = JNum 0 \<and> till = JNum 1"

text \<open>The two gates of the loop, and the conditions it takes speed caps and exclusions from.\<close>

definition applies_now :: "zone_data \<Rightarrow> instant \<Rightarrow> instant \<Rightarrow> segment_condition \<Rightarrow> bool" where
  "applies_now zone activeAt evaluatedAt c \<longleftrightarrow>
     routingEvidenceReasons (jc_evidence c) evaluatedAt = [] \<and> appliesToCars (jc_effect c)
     \<and> isInEffectAt zone \<lparr>ow_validFrom = rv_valid_from (jc_evidence c), ow_validTo = rv_valid_to (jc_evidence c),
          ow_schedule = None\<rparr> activeAt"

definition limits_speed :: "segment_condition \<Rightarrow> bool" where
  "limits_speed c \<longleftrightarrow> ef_kind (jc_effect c) = ''speed_limit'' \<and> \<not> rx_advisory (jc_effect c)"

definition closes_whole_way :: "segment_condition \<Rightarrow> bool" where
  "closes_whole_way c \<longleftrightarrow> closesRoad (jc_effect c) \<and> rv_direction_mode (jc_evidence c) = ''both''
     \<and> list_all (\<lambda>span. whole_way (es_from span) (es_to span)) (rv_segments (jc_evidence c))"

definition caps_of :: "segment_condition \<Rightarrow> speed_cap list" where
  "caps_of c = map (\<lambda>span. \<lparr>cp_way_id = cs_way_id span, cp_dir = cs_dir span, cp_start_fraction = cs_start_fraction span,
     cp_end_fraction = cs_end_fraction span, cp_limit_kph = rx_limit (jc_effect c)\<rparr>) (jc_segments c)"

definition exclude_span :: "real \<Rightarrow> nat \<Rightarrow> condition_span \<Rightarrow> exclusions \<Rightarrow> exclusions" where
  "exclude_span maxSpacing cap sp ex = (case cs_geometry sp of None \<Rightarrow> ex
     | Some g \<Rightarrow> if whole_way (cs_start_fraction sp) (cs_end_fraction sp)
         then addGeometry maxSpacing cap True g ex else ex)"

definition exclude_condition ::
  "zone_data \<Rightarrow> instant \<Rightarrow> instant \<Rightarrow> real \<Rightarrow> nat \<Rightarrow> segment_condition \<Rightarrow> exclusions \<times> speed_cap list
    \<Rightarrow> exclusions \<times> speed_cap list" where
  "exclude_condition zone activeAt evaluatedAt maxSpacing cap c s = (case s of (ex, caps) \<Rightarrow>
     if \<not> applies_now zone activeAt evaluatedAt c then s
     else if limits_speed c then (ex, caps @ caps_of c)
     else if \<not> closes_whole_way c then s
     else (fold (exclude_span maxSpacing cap) (jc_segments c) ex, caps))"

definition segmentConditionsToExclusions ::
  "zone_data \<Rightarrow> instant \<Rightarrow> segment_condition list \<Rightarrow> exclusion_options \<Rightarrow> exclusions \<times> speed_cap list" where
  "segmentConditionsToExclusions zone clock conditions opts =
     (let maxSpacing = nullish (xo_maxSpacingMeters opts) DEFAULT_MAX_SPACING_M;
          cap = nullish (xo_maxPointsPerClosure opts) DEFAULT_MAX_POINTS;
          maxTotal = nullish (xo_maxTotalPoints opts) DEFAULT_MAX_TOTAL_POINTS;
          activeAt = nullish (xo_activeAt opts) clock;
          evaluatedAt = nullish (xo_evaluatedAt opts) activeAt
      in case fold (exclude_condition zone activeAt evaluatedAt maxSpacing cap) conditions
             (\<lparr>ex_locations = [], ex_polygons = []\<rparr>, []) of (ex, caps) \<Rightarrow>
           (if length (ex_locations ex) > maxTotal
            then ex\<lparr>ex_locations := subsampleEvenly (ex_locations ex) maxTotal\<rparr> else ex, caps))"

subsection \<open>The speed feed\<close>

record speed_row =
  sw_wayId :: string
  sw_dir :: string
  sw_currentKph :: "string option"
  sw_freeFlowKph :: "string option"
  sw_los :: string

text \<open>Numbers arrive as the text \<open>String\<close> makes of them.\<close>

definition speed_line :: "speed_row \<Rightarrow> string" where
  "speed_line row = sw_wayId row @ '','' @ sw_dir row @ '','' @ nullish (sw_currentKph row) [] @ '',''
     @ nullish (sw_freeFlowKph row) [] @ '','' @ sw_los row"

fun join_lines :: "string list \<Rightarrow> string" where
  "join_lines [] = []"
| "join_lines [l] = l"
| "join_lines (l # ls) = l @ CHR 0x0A # join_lines ls"

definition flowToSegmentSpeedCsv :: "speed_row list \<Rightarrow> string" where
  "flowToSegmentSpeedCsv rows = join_lines (''way_id,dir,current_kph,free_flow_kph,los'' # map speed_line rows)"

subsection \<open>Samples stay on what they sample\<close>

lemma sampled_index:
  assumes "i < cap" and "out \<noteq> []"
  shows "nat \<lfloor>real i * (real (length out) / real cap)\<rfloor> < length out"
proof -
  have "real i * (real (length out) / real cap) < real (length out)"
    using assms by (simp add: divide_less_eq)
  then show ?thesis using assms by (simp add: nat_less_iff floor_less_iff)
qed

lemma sampled_subset: "out \<noteq> [] \<or> cap = 0 \<Longrightarrow> set (sampled out cap) \<subseteq> set out"
  using sampled_index [of _ cap out] by (auto simp: sampled_def)

lemma length_sampled [simp]: "length (sampled out cap) = cap"
  by (simp add: sampled_def)

lemma subsampleEvenly_bound: "length (subsampleEvenly points m) \<le> m" "set (subsampleEvenly points m) \<subseteq> set points"
  using sampled_subset [of points m] by (cases "points = []"; auto simp: subsampleEvenly_def)+

lemma densified_last: "densified d (a # b # rest) \<noteq> [] \<and> last (densified d (a # b # rest)) = last (b # rest)"
proof (induction rest arbitrary: a b)
  case Nil
  have "1 \<le> steps_of d a b" by (simp add: steps_of_def)
  then show ?case by (simp add: Let_def along_def)
next
  case (Cons c rest)
  have "densified d (a # b # c # rest) = map (\<lambda>s. along a b (real s / real (steps_of d a b))) [1..<steps_of d a b + 1]
      @ densified d (b # c # rest)"
    by (simp only: densified.simps(1) Let_def)
  then show ?case using Cons.IH [of b c] by (simp del: densified.simps upt_Suc)
qed

text \<open>A line keeps its ends and stays within the cap.\<close>

lemma densify_ends:
  assumes "coords \<noteq> []" and "2 \<le> cap"
  shows "densify coords d cap \<noteq> [] \<and> hd (densify coords d cap) = hd coords \<and> last (densify coords d cap) = last coords"
proof (cases "length coords \<le> 1")
  case True
  then show ?thesis using assms by (cases coords) (auto simp: densify_def)
next
  case False
  then obtain a b rest where coords: "coords = a # b # rest" by (cases coords; cases "tl coords") auto
  define out where "out = a # densified d coords"
  have last: "last out = last coords" using densified_last [of d a b rest] by (simp add: out_def coords del: densified.simps)
  have ne: "out \<noteq> []" by (simp add: out_def)
  show ?thesis
  proof (cases "length out \<le> cap")
    case True
    have "densify coords d cap = out" using True by (simp add: densify_def out_def coords Let_def del: densified.simps)
    then show ?thesis using last ne by (simp add: out_def coords del: densified.simps)
  next
    case long: False
    have d: "densify coords d cap = list_update (sampled out cap) (cap - 1) (last out)"
      using long False by (simp add: densify_def out_def coords Let_def del: densified.simps)
    have len: "length (densify coords d cap) = cap" by (simp add: d)
    then have "densify coords d cap \<noteq> []" using assms(2) by auto
    moreover from this have "hd (densify coords d cap) = densify coords d cap ! 0"
      "last (densify coords d cap) = densify coords d cap ! (cap - 1)" using len by (simp_all add: hd_conv_nth last_conv_nth)
    moreover have "densify coords d cap ! 0 = a" "densify coords d cap ! (cap - 1) = last out"
      using assms(2) by (simp_all add: d sampled_def out_def del: densified.simps)
    ultimately show ?thesis using last by (simp add: coords del: densified.simps)
  qed
qed

lemma densify_cap: "2 \<le> cap \<Longrightarrow> length (densify coords d cap) \<le> max cap 1"
  by (auto simp: densify_def Let_def)

subsection \<open>Where an exclusion comes from\<close>

text \<open>What a condition may put on the map: the points and rings of its own spans, as they are sampled.\<close>

definition footprint :: "real \<Rightarrow> nat \<Rightarrow> geometry \<Rightarrow> exclusions" where
  "footprint maxSpacing cap g = addGeometry maxSpacing cap True g \<lparr>ex_locations = [], ex_polygons = []\<rparr>"

definition covered_by :: "(position \<Rightarrow> bool) \<Rightarrow> (position list \<Rightarrow> bool) \<Rightarrow> exclusions \<Rightarrow> bool" where
  "covered_by P Q ex \<longleftrightarrow> (\<forall>p \<in> set (ex_locations ex). P p) \<and> (\<forall>r \<in> set (ex_polygons ex). Q r)"

definition joined :: "exclusions \<Rightarrow> exclusions \<Rightarrow> exclusions" where
  "joined a b = \<lparr>ex_locations = ex_locations a @ ex_locations b, ex_polygons = ex_polygons a @ ex_polygons b\<rparr>"

abbreviation nothing :: exclusions where
  "nothing \<equiv> \<lparr>ex_locations = [], ex_polygons = []\<rparr>"

definition appends :: "(exclusions \<Rightarrow> exclusions) \<Rightarrow> bool" where
  "appends f \<longleftrightarrow> (\<forall>ex. f ex = joined ex (f nothing))"

lemma joined_assoc: "joined (joined a b) c = joined a (joined b c)"
  by (simp add: joined_def)

lemma appends_fold:
  assumes "\<And>x. x \<in> set xs \<Longrightarrow> appends (f x)"
  shows "appends (fold f xs)"
  unfolding appends_def
proof
  fix ex
  show "fold f xs ex = joined ex (fold f xs nothing)"
    using assms
  proof (induction xs arbitrary: ex)
    case (Cons x xs)
    have "appends (f x)" using Cons.prems [of x] by simp
    then have x: "f x ex = joined ex (f x nothing)" for ex unfolding appends_def by (rule spec)
    have IH: "fold f xs ex = joined ex (fold f xs nothing)" for ex
      by (rule Cons.IH) (use Cons.prems in simp)
    show ?case
      by (simp only: fold.simps o_apply IH [of "f x ex"] IH [of "f x nothing"]) (simp only: x [of ex] joined_assoc)
  qed (simp add: joined_def)
qed

lemma appends_pushLine: "appends (pushLine d cap ps)"
  by (simp add: appends_def pushLine_def joined_def)

lemma appends_pushRing: "appends (pushRing r)"
  by (auto simp: appends_def pushRing_def joined_def split: option.splits)

lemma addGeometry_many:
  "addGeometry d cap closure (LineString ps) = pushLine d cap ps"
  "addGeometry d cap closure (MultiLineString ls) = fold (pushLine d cap) ls"
  "addGeometry d cap True (Polygon rings) = pushRing (first_ring rings)"
  "addGeometry d cap True (MultiPolygon polys) = fold (\<lambda>poly. pushRing (first_ring poly)) polys"
  "addGeometry d cap closure (GeometryCollection gs) = fold (addGeometry d cap closure) gs"
  by (rule ext; simp)+

lemma appends_addGeometry: "appends (addGeometry d cap True g)"
proof (induction g)
  case (Point p)
  show ?case by (simp add: appends_def joined_def)
next
  case (MultiPoint ps)
  show ?case by (simp add: appends_def joined_def)
next
  case (GeometryCollection gs)
  then show ?case unfolding addGeometry_many by (rule appends_fold)
qed (simp_all only: addGeometry_many appends_pushLine appends_pushRing appends_fold)

lemma covered_joined [simp]: "covered_by P Q (joined a b) \<longleftrightarrow> covered_by P Q a \<and> covered_by P Q b"
  by (auto simp: covered_by_def joined_def)

definition whole_span :: "condition_span \<Rightarrow> bool" where
  "whole_span s \<longleftrightarrow> whole_way (cs_start_fraction s) (cs_end_fraction s)"

lemma exclude_spans_covered:
  assumes "covered_by P Q ex"
    and "\<And>s g p. s \<in> set spans \<Longrightarrow> whole_span s \<Longrightarrow> cs_geometry s = Some g \<Longrightarrow> p \<in> set (ex_locations (footprint d cap g)) \<Longrightarrow> P p"
    and "\<And>s g r. s \<in> set spans \<Longrightarrow> whole_span s \<Longrightarrow> cs_geometry s = Some g \<Longrightarrow> r \<in> set (ex_polygons (footprint d cap g)) \<Longrightarrow> Q r"
  shows "covered_by P Q (fold (exclude_span d cap) spans ex)"
  using assms
proof (induction spans arbitrary: ex)
  case (Cons s spans)
  have "covered_by P Q (exclude_span d cap s ex)"
  proof (cases "cs_geometry s")
    case (Some g)
    have "addGeometry d cap True g ex = joined ex (footprint d cap g)"
      unfolding footprint_def using appends_addGeometry [of d cap g] unfolding appends_def by (rule spec)
    moreover have "covered_by P Q (footprint d cap g)" if "whole_span s"
      using Cons.prems(2,3) [of s g] that Some by (auto simp: covered_by_def)
    ultimately show ?thesis using Cons.prems(1) Some by (simp add: exclude_span_def whole_span_def)
  qed (use Cons.prems(1) in \<open>simp add: exclude_span_def\<close>)
  then have "covered_by P Q (fold (exclude_span d cap) spans (exclude_span d cap s ex))"
  proof (rule Cons.IH)
    show "P p" if "sa \<in> set spans" "whole_span sa" "cs_geometry sa = Some g" "p \<in> set (ex_locations (footprint d cap g))" for sa g p
      using that by (intro Cons.prems(2) [of sa g p]) simp_all
    show "Q r" if "sa \<in> set spans" "whole_span sa" "cs_geometry sa = Some g" "r \<in> set (ex_polygons (footprint d cap g))" for sa g r
      using that by (intro Cons.prems(3) [of sa g r]) simp_all
  qed
  then show ?case by simp
qed simp

text \<open>What a condition must be to reach a router: vouched for and placed when it is evaluated, binding on every
  car, and inside its window when it is asked for.\<close>

definition binding_on_cars :: "zone_data \<Rightarrow> instant \<Rightarrow> instant \<Rightarrow> segment_condition \<Rightarrow> bool" where
  "binding_on_cars zone activeAt evaluatedAt c \<longleftrightarrow>
     (\<forall>t. evaluatedAt = Some t \<longrightarrow> vouched (jc_evidence c) t \<and> placed (jc_evidence c))
     \<and> appliesToCars (jc_effect c)
     \<and> isInEffectAt zone \<lparr>ow_validFrom = rv_valid_from (jc_evidence c), ow_validTo = rv_valid_to (jc_evidence c),
          ow_schedule = None\<rparr> activeAt"

definition caps_ok :: "zone_data \<Rightarrow> instant \<Rightarrow> instant \<Rightarrow> segment_condition list \<Rightarrow> speed_cap \<Rightarrow> bool" where
  "caps_ok zone activeAt evaluatedAt conditions k \<longleftrightarrow>
     (\<exists>c \<in> set conditions. binding_on_cars zone activeAt evaluatedAt c
        \<and> ef_kind (jc_effect c) = ''speed_limit'' \<and> \<not> rx_advisory (jc_effect c)
        \<and> cp_limit_kph k = rx_limit (jc_effect c)
        \<and> (\<exists>s \<in> set (jc_segments c). cp_way_id k = cs_way_id s \<and> cp_dir k = cs_dir s
             \<and> cp_start_fraction k = cs_start_fraction s \<and> cp_end_fraction k = cs_end_fraction s))"

definition excludable :: "zone_data \<Rightarrow> instant \<Rightarrow> instant \<Rightarrow> segment_condition list \<Rightarrow> geometry \<Rightarrow> bool" where
  "excludable zone activeAt evaluatedAt conditions g \<longleftrightarrow>
     (\<exists>c \<in> set conditions. binding_on_cars zone activeAt evaluatedAt c \<and> closesRoad (jc_effect c)
        \<and> rv_direction_mode (jc_evidence c) = ''both''
        \<and> (\<forall>s \<in> set (rv_segments (jc_evidence c)). es_from s = JNum 0 \<and> es_to s = JNum 1)
        \<and> (\<exists>s \<in> set (jc_segments c). cs_start_fraction s = JNum 0 \<and> cs_end_fraction s = JNum 1 \<and> cs_geometry s = Some g))"

lemma applies_binding: "applies_now zone act eval c \<Longrightarrow> binding_on_cars zone act eval c"
  by (cases eval) (auto simp: applies_now_def binding_on_cars_def no_reasons_iff)

abbreviation active_of :: "instant \<Rightarrow> exclusion_options \<Rightarrow> instant" where
  "active_of clock opts \<equiv> nullish (xo_activeAt opts) clock"

abbreviation evaluated_of :: "instant \<Rightarrow> exclusion_options \<Rightarrow> instant" where
  "evaluated_of clock opts \<equiv> nullish (xo_evaluatedAt opts) (active_of clock opts)"

abbreviation sampled_footprint :: "exclusion_options \<Rightarrow> geometry \<Rightarrow> exclusions" where
  "sampled_footprint opts \<equiv> footprint (nullish (xo_maxSpacingMeters opts) DEFAULT_MAX_SPACING_M)
     (nullish (xo_maxPointsPerClosure opts) DEFAULT_MAX_POINTS)"

lemma caps_sound:
  assumes "c \<in> set conditions" and "applies_now zone act eval c" and "limits_speed c" and "k \<in> set (caps_of c)"
  shows "caps_ok zone act eval conditions k"
  unfolding caps_ok_def
  using assms applies_binding by (intro bexI [of _ c]) (auto simp: limits_speed_def caps_of_def)

lemma exclude_fold:
  assumes "set cs \<subseteq> set conditions"
    and "\<And>g p. excludable zone act eval conditions g \<Longrightarrow> p \<in> set (ex_locations (footprint d cap g)) \<Longrightarrow> P p"
    and "\<And>g r. excludable zone act eval conditions g \<Longrightarrow> r \<in> set (ex_polygons (footprint d cap g)) \<Longrightarrow> Q r"
    and "covered_by P Q ex" and "\<forall>k \<in> set caps. caps_ok zone act eval conditions k"
    and "fold (exclude_condition zone act eval d cap) cs (ex, caps) = (ex', caps')"
  shows "covered_by P Q ex' \<and> (\<forall>k \<in> set caps'. caps_ok zone act eval conditions k)"
  using assms(1,4-6)
proof (induction cs arbitrary: ex caps)
  case (Cons c cs)
  have c: "c \<in> set conditions" "set cs \<subseteq> set conditions" using Cons.prems(1) by auto
  obtain ex1 caps1 where step: "exclude_condition zone act eval d cap c (ex, caps) = (ex1, caps1)" by force
  have "covered_by P Q ex1"
  proof (cases "applies_now zone act eval c \<and> \<not> limits_speed c \<and> closes_whole_way c")
    case True
    then have "excludable zone act eval conditions g" if "s \<in> set (jc_segments c)" "whole_span s" "cs_geometry s = Some g" for s g
      unfolding excludable_def
      using c that True applies_binding
      by (intro bexI [of _ c]) (auto simp: closes_whole_way_def whole_way_def whole_span_def list_all_iff)
    then have "covered_by P Q (fold (exclude_span d cap) (jc_segments c) ex)"
      using assms(2,3) by (intro exclude_spans_covered [OF Cons.prems(2)]) blast+
    then show ?thesis using step True by (simp add: exclude_condition_def)
  next
    case False
    then show ?thesis using step Cons.prems(2) by (auto simp: exclude_condition_def split: if_splits)
  qed
  moreover have "\<forall>k \<in> set caps1. caps_ok zone act eval conditions k"
    using step Cons.prems(3) caps_sound [OF c(1), of zone act eval] by (auto simp: exclude_condition_def split: if_splits)
  ultimately show ?case using Cons.IH [OF c(2)] Cons.prems(4) step by simp
qed simp

text \<open>C27. What a router is told to avoid: every point and every ring of the answer is one of the footprint of
  a span that covers a whole segment, of a condition that closes the road to every car in both
  directions of whole segments, whose evidence gives no reason against it and is in its window; and
  every speed cap is a span of a mandatory limit that passes the same gates. The points are never
  more than the total the options allow, above which a router would refuse the request.\<close>

theorem exclusions_sound:
  assumes "segmentConditionsToExclusions zone clock conditions opts = (ex, caps)"
  shows "(\<forall>p \<in> set (ex_locations ex). \<exists>g. excludable zone (active_of clock opts) (evaluated_of clock opts) conditions g
        \<and> p \<in> set (ex_locations (sampled_footprint opts g)))
    \<and> (\<forall>r \<in> set (ex_polygons ex). \<exists>g. excludable zone (active_of clock opts) (evaluated_of clock opts) conditions g
        \<and> r \<in> set (ex_polygons (sampled_footprint opts g)))
    \<and> list_all (caps_ok zone (active_of clock opts) (evaluated_of clock opts) conditions) caps
    \<and> length (ex_locations ex) \<le> nullish (xo_maxTotalPoints opts) DEFAULT_MAX_TOTAL_POINTS"
proof -
  let ?d = "nullish (xo_maxSpacingMeters opts) DEFAULT_MAX_SPACING_M"
  let ?cap = "nullish (xo_maxPointsPerClosure opts) DEFAULT_MAX_POINTS"
  let ?m = "nullish (xo_maxTotalPoints opts) DEFAULT_MAX_TOTAL_POINTS"
  let ?ok = "excludable zone (active_of clock opts) (evaluated_of clock opts) conditions"
  let ?P = "\<lambda>p. \<exists>g. ?ok g \<and> p \<in> set (ex_locations (footprint ?d ?cap g))"
  let ?Q = "\<lambda>r. \<exists>g. ?ok g \<and> r \<in> set (ex_polygons (footprint ?d ?cap g))"
  obtain ex0 where run: "fold (exclude_condition zone (active_of clock opts) (evaluated_of clock opts) ?d ?cap) conditions (nothing, [])
      = (ex0, caps)"
    and ex: "ex = (if length (ex_locations ex0) > ?m then ex0\<lparr>ex_locations := subsampleEvenly (ex_locations ex0) ?m\<rparr> else ex0)"
    using assms by (auto simp: segmentConditionsToExclusions_def Let_def split: prod.splits)
  have "covered_by ?P ?Q nothing" by (simp add: covered_by_def)
  with run have "covered_by ?P ?Q ex0 \<and> (\<forall>k \<in> set caps. caps_ok zone (active_of clock opts) (evaluated_of clock opts) conditions k)"
    by (intro exclude_fold [where cs = conditions]) auto
  moreover from this have "covered_by ?P ?Q ex"
    using subsampleEvenly_bound(2) [of "ex_locations ex0" ?m] by (auto simp: ex covered_by_def)
  moreover have "length (ex_locations ex) \<le> ?m" by (simp add: ex subsampleEvenly_bound(1))
  ultimately show ?thesis unfolding covered_by_def list_all_iff by blast
qed

definition sample_options :: exclusion_options where
  "sample_options = \<lparr>xo_maxSpacingMeters = None, xo_maxPointsPerClosure = None, xo_maxTotalPoints = None,
     xo_activeAt = None, xo_evaluatedAt = None\<rparr>"

theorem exclusions_sound_witness:
  "\<exists>ex caps. segmentConditionsToExclusions (\<lambda>_ _. None) (Some 1000) [sample_condition] sample_options = (ex, caps)
     \<and> length (ex_locations ex) \<le> 45 \<and> caps = []"
proof -
  obtain ex caps where r: "segmentConditionsToExclusions (\<lambda>_ _. None) (Some 1000) [sample_condition] sample_options = (ex, caps)"
    by force
  have "ef_kind (jc_effect sample_condition) = ''closure''"
    by (simp add: sample_condition_def condition_of_def sample_row_def sample_effect_def)
  then have "\<not> caps_ok zone act eval [sample_condition] k" for zone act eval k by (simp add: caps_ok_def)
  then have "caps = []" using exclusions_sound [OF r] by (cases caps) auto
  moreover have "length (ex_locations ex) \<le> 45"
    using exclusions_sound [OF r] by (simp add: sample_options_def DEFAULT_MAX_TOTAL_POINTS_def)
  ultimately show ?thesis using r by blast
qed

end
