(* ===== verification/Federation_Admit.thy ===== *)
theory Federation_Admit
  imports Geometry_Screen
begin

text \<open>
  Receiving a peer's records: packages/model/src/registry/versions.ts, which schemas two instances share
  and whether a record may be kept.

  \<^item> What a peer sends is a wire value (theory Wire_Values). What the registry says of a value is
    the parameter \<open>registry\<close>: the versions it registers, its validation, and the unrecognized keys its
    schemas find. \<open>show_wire\<close> is what a template makes of a value that is no string, \<open>parse_date\<close> is
    \<open>Date.parse\<close>. An issue is its code; the text of a reason is kept in short form.
  \<^item> Version numbers are natural numbers, as long as the doubles of the code hold them exactly.
\<close>

subsection \<open>Reading a value\<close>

definition lookup_key :: "text16 \<Rightarrow> (text16 \<times> wire) list \<Rightarrow> wire" where
  "lookup_key k ms = (case map_of (rev ms) k of None \<Rightarrow> WUndefined | Some v \<Rightarrow> v)"

text \<open>\<open>v?.name\<close>, and \<open>v[name]\<close> of a value that is neither null nor undefined.\<close>

definition get :: "string \<Rightarrow> wire \<Rightarrow> wire" where
  "get name v = (case v of WObject ms \<Rightarrow> lookup_key (u16 name) ms | _ \<Rightarrow> WUndefined)"

definition nonempty_text :: "wire \<Rightarrow> text16 option" where
  "nonempty_text v = (case v of WString (c # cs) \<Rightarrow> Some (c # cs) | _ \<Rightarrow> None)"

definition texts :: "(wire \<Rightarrow> text16) \<Rightarrow> wire \<Rightarrow> text16" where
  "texts show_wire v = (case v of WString t \<Rightarrow> t | _ \<Rightarrow> show_wire v)"

fun nat_text :: "nat \<Rightarrow> text16" where
  "nat_text n = (if n < 10 then [of_nat (48 + n)] else nat_text (n div 10) @ [of_nat (48 + n mod 10)])"

declare nat_text.simps [simp del]

subsection \<open>Schema versions\<close>

record schema_entry =
  se_class :: text16
  se_code :: text16
  se_version :: text16

record registry_schemas =
  rg_kernelVersion :: text16
  rg_kinds :: "schema_entry list"
  rg_properties :: "(text16 \<times> text16) list"
  rg_effects :: "(text16 \<times> text16) list"
  rg_selectors :: "(text16 \<times> text16) list"
  rg_results :: "(text16 \<times> text16) list"

definition schemaKey :: "schema_entry \<Rightarrow> text16" where
  "schemaKey e = (if se_class e = u16 ''kernel'' then u16 ''kernel'' else se_class e @ u16 ''/'' @ se_code e)"

definition entries_of :: "string \<Rightarrow> (text16 \<times> text16) list \<Rightarrow> schema_entry list" where
  "entries_of cls = map (\<lambda>(code, version). \<lparr>se_class = u16 cls, se_code = code, se_version = version\<rparr>)"

definition schemaEntries :: "(text16 \<Rightarrow> text16 \<Rightarrow> real) \<Rightarrow> registry_schemas \<Rightarrow> schema_entry list" where
  "schemaEntries locale_cmp reg = js_sort (\<lambda>a b. locale_cmp (schemaKey a) (schemaKey b))
     (\<lparr>se_class = u16 ''kernel'', se_code = u16 ''kernel'', se_version = rg_kernelVersion reg\<rparr>
      # filter (\<lambda>k. se_class k \<noteq> u16 ''component'') (rg_kinds reg)
      @ entries_of ''observation'' (rg_properties reg) @ entries_of ''effect'' (rg_effects reg)
      @ entries_of ''selector'' (rg_selectors reg) @ entries_of ''result'' (rg_results reg))"

definition schemaVersions :: "(text16 \<Rightarrow> text16 \<Rightarrow> real) \<Rightarrow> registry_schemas \<Rightarrow> text16 list" where
  "schemaVersions locale_cmp reg = map (\<lambda>e. schemaKey e @ u16 ''@'' @ se_version e) (schemaEntries locale_cmp reg)"

text \<open>\<open>/^(.+)@([1-9]\d*)\.(\d+)$/\<close>: no digit or dot is an \<open>@\<close>, so the key ends at the last one.\<close>

definition line_end :: "16 word \<Rightarrow> bool" where
  "line_end c \<longleftrightarrow> c \<in> {10, 13, 0x2028, 0x2029}"

definition parseSchemaVersion :: "text16 \<Rightarrow> (text16 \<times> nat \<times> nat) option" where
  "parseSchemaVersion v =
     (let tail = rev (takeWhile (\<lambda>c. c \<noteq> 64) (rev v));
          key = butlast (rev (dropWhile (\<lambda>c. c \<noteq> 64) (rev v)));
          major = takeWhile digit_unit tail;
          minor = drop 1 (dropWhile digit_unit tail)
      in if 64 \<in> set v \<and> key \<noteq> [] \<and> \<not> list_ex line_end key \<and> major \<noteq> [] \<and> hd major \<noteq> 48
           \<and> take 1 (dropWhile digit_unit tail) = [46] \<and> minor \<noteq> [] \<and> list_all digit_unit minor
         then Some (key, number16 major, number16 minor) else None)"

text \<open>A Map of versions: the last of equal keys wins.\<close>

type_synonym version_map = "text16 \<rightharpoonup> nat \<times> nat"

definition versionMap :: "text16 list \<Rightarrow> version_map" where
  "versionMap advertised = map_of (rev (List.map_filter parseSchemaVersion advertised))"

definition major_of :: "version_map \<Rightarrow> text16 \<Rightarrow> nat option" where
  "major_of m k = map_option fst (m k)"

text \<open>The result is sorted by code units; a Map's keys are each there once.\<close>

definition unit_cmp :: "text16 \<Rightarrow> text16 \<Rightarrow> real" where
  "unit_cmp a b = (if a = b then 0 else if (a, b) \<in> lexord {(x, y). x < y} then -1 else 1)"

definition map_keys :: "text16 list \<Rightarrow> text16 list" where
  "map_keys advertised = remdups (map fst (List.map_filter parseSchemaVersion advertised))"

definition sharedSchemaMajors :: "text16 list \<Rightarrow> text16 list \<Rightarrow> text16 list" where
  "sharedSchemaMajors local_versions peer_versions =
     (let mine = versionMap local_versions; theirs = versionMap peer_versions
      in if major_of mine (u16 ''kernel'') \<noteq> major_of theirs (u16 ''kernel'') \<or> mine (u16 ''kernel'') = None then []
         else js_sort unit_cmp (map (\<lambda>k. k @ u16 ''@'' @ nat_text (fst (the (mine k))))
           (filter (\<lambda>k. major_of theirs k = major_of mine k) (map_keys local_versions))))"

subsection \<open>Whether a record may be kept\<close>

datatype path_key = PKey text16 | PIndex nat

record unknown_keys =
  uk_path :: "path_key list"
  uk_keys :: "text16 list"

record registry =
  ry_versions :: "text16 list"
  ry_validate :: "wire \<Rightarrow> string list + wire"
  ry_unknown :: "text16 \<Rightarrow> text16 \<Rightarrow> wire \<Rightarrow> unknown_keys list"

datatype admission = Admitted wire "text16 list" | SkippedRecord string | Rejected "string list"

definition RECORD_CLASSES :: "string list" where
  "RECORD_CLASSES = [''feature'', ''situation'', ''observation'', ''offer'']"

definition one_of :: "string list \<Rightarrow> wire \<Rightarrow> string option" where
  "one_of names v = (case v of WString t \<Rightarrow> find (\<lambda>name. u16 name = t) names | _ \<Rightarrow> None)"

definition effect_keys :: "wire \<Rightarrow> js_error + text16 list" where
  "effect_keys effects = (case effects of
     WUndefined \<Rightarrow> Inr [] | WNull \<Rightarrow> Inr [] | WString _ \<Rightarrow> Inr []
   | WArray es \<Rightarrow> Inr (List.map_filter (\<lambda>e. case get ''kind'' e of WString t \<Rightarrow> Some (u16 ''effect/'' @ t) | _ \<Rightarrow> None) es)
   | _ \<Rightarrow> Inl (TypeError ''not iterable''))"

definition own_keys :: "wire \<Rightarrow> text16 list" where
  "own_keys v = (case v of WObject ms \<Rightarrow> remdups (map fst ms) | WArray xs \<Rightarrow> map nat_text [0..<length xs]
     | WString t \<Rightarrow> map nat_text [0..<length t] | _ \<Rightarrow> [])"

definition schemasOf :: "wire \<Rightarrow> text16 \<Rightarrow> js_error + text16 list" where
  "schemasOf rec key = bindE (effect_keys (get ''effects'' rec)) (\<lambda>effects.
     Inr ([u16 ''kernel'', key] @ effects @ map (\<lambda>s. u16 ''selector/'' @ s) (own_keys (get ''affects'' rec)) @
       (case (get ''type'' (get ''result'' rec), get ''schema'' (get ''result'' rec)) of
          (WString t, WString schema) \<Rightarrow> if t = u16 ''structured'' then [u16 ''result/'' @ schema] else []
        | _ \<Rightarrow> [])))"

definition path_text :: "path_key \<Rightarrow> text16" where
  "path_text p = (case p of PKey k \<Rightarrow> k | PIndex n \<Rightarrow> nat_text n)"

definition set_key :: "text16 \<Rightarrow> wire \<Rightarrow> (text16 \<times> wire) list \<Rightarrow> (text16 \<times> wire) list" where
  "set_key k v ms = (if k \<in> fst ` set ms then map (\<lambda>m. if fst m = k then (k, v) else m) ms else ms @ [(k, v)])"

fun without :: "path_key list \<Rightarrow> text16 list \<Rightarrow> wire \<Rightarrow> wire" where
  "without [] keys (WObject ms) = WObject (filter (\<lambda>m. fst m \<notin> set keys) ms)"
| "without (p # rest) keys (WArray xs) =
     WArray (map (\<lambda>(i, v). if p = PIndex i then without rest keys v else v) (zip [0..<length xs] xs))"
| "without (p # rest) keys (WObject ms) =
     WObject (set_key (path_text p) (without rest keys (lookup_key (path_text p) ms)) ms)"
| "without _ keys v = v"

definition join_dots :: "text16 list \<Rightarrow> text16" where
  "join_dots ts = (case ts of [] \<Rightarrow> [] | t # rest \<Rightarrow> t @ concat (map (\<lambda>r. 46 # r) rest))"

definition strip_unknown :: "unknown_keys list \<Rightarrow> wire \<times> text16 list \<Rightarrow> wire \<times> text16 list" where
  "strip_unknown issues s = fold (\<lambda>issue (candidate, stripped).
     (without (uk_path issue) (uk_keys issue) candidate,
      stripped @ map (\<lambda>k. join_dots (map path_text (uk_path issue) @ [k])) (uk_keys issue))) issues s"

fun admit_loop :: "registry \<Rightarrow> text16 \<Rightarrow> text16 \<Rightarrow> bool \<Rightarrow> nat \<Rightarrow> wire \<times> text16 list \<Rightarrow> admission" where
  "admit_loop reg cls code newer 0 s = Rejected [''too_deep'']"
| "admit_loop reg cls code newer (Suc n) (candidate, stripped) = (case ry_validate reg candidate of
     Inr v \<Rightarrow> Admitted v (js_sort unit_cmp stripped)
   | Inl issues \<Rightarrow>
       (let unknown = ry_unknown reg cls code candidate;
            selector = list_ex (\<lambda>i. uk_path i = [PKey (u16 ''affects'')]) unknown
        in if \<not> newer \<or> unknown = [] \<or> selector then Rejected issues
           else admit_loop reg cls code newer n (strip_unknown unknown (candidate, stripped))))"

text \<open>The keys of the two sides that are at different majors, and those the peer has a newer minor of.\<close>

definition other_major :: "version_map \<Rightarrow> version_map \<Rightarrow> text16 \<Rightarrow> bool" where
  "other_major mine theirs k = (case (mine k, theirs k) of (Some l, Some p) \<Rightarrow> fst p \<noteq> fst l | _ \<Rightarrow> False)"

definition newer_minor :: "version_map \<Rightarrow> version_map \<Rightarrow> text16 \<Rightarrow> bool" where
  "newer_minor mine theirs k = (case (mine k, theirs k) of (Some l, Some p) \<Rightarrow> fst p = fst l \<and> snd p > snd l | _ \<Rightarrow> False)"

definition admitRecord ::
  "(wire \<Rightarrow> text16) \<Rightarrow> registry \<Rightarrow> text16 list \<Rightarrow> wire \<Rightarrow> js_error + admission" where
  "admitRecord show_wire reg peerVersions rec = (case rec of
     WObject _ \<Rightarrow>
       (case one_of RECORD_CLASSES (get ''class'' rec) of
          None \<Rightarrow> Inr (SkippedRecord ''unknown class'')
        | Some cls \<Rightarrow>
          (let code = texts show_wire (if cls = ''observation'' then get ''property'' rec else get ''kind'' rec);
               key = u16 cls @ u16 ''/'' @ code;
               mine = versionMap (ry_versions reg);
               theirs = versionMap peerVersions
           in if major_of mine (u16 ''kernel'') \<noteq> major_of theirs (u16 ''kernel'')
              then Inr (SkippedRecord ''the peer runs another kernel major'')
              else if mine key = None then Inr (SkippedRecord ''not registered here'')
              else if major_of theirs key \<noteq> major_of mine key then Inr (SkippedRecord ''the peer does not run it'')
              else bindE (schemasOf rec key) (\<lambda>schemas.
                if list_ex (other_major mine theirs) schemas then Inr (SkippedRecord ''the peer does not run a part'')
                else Inr (admit_loop reg (u16 cls) code (list_ex (newer_minor mine theirs) schemas) 8 (rec, [])))))
   | _ \<Rightarrow> Inr (Rejected [''invalid_type'']))"


subsection \<open>What admission and sharing mean\<close>

lemma map_keys_dom: "set (map_keys vs) = dom (versionMap vs)"
  by (simp add: map_keys_def versionMap_def dom_map_of_conv_image_fst)

text \<open>Whatever order the versions are advertised in, and whichever side asks, the shared schemas are the
  same: every key both register at one major, or none on different kernel majors.\<close>

lemma shared_iff:
  "x \<in> set (sharedSchemaMajors mine theirs) \<longleftrightarrow>
     (\<exists>m. major_of (versionMap mine) (u16 ''kernel'') = Some m \<and> major_of (versionMap theirs) (u16 ''kernel'') = Some m)
     \<and> (\<exists>k m. major_of (versionMap mine) k = Some m \<and> major_of (versionMap theirs) k = Some m \<and> x = k @ u16 ''@'' @ nat_text m)"
proof (cases "\<exists>m. major_of (versionMap mine) (u16 ''kernel'') = Some m \<and> major_of (versionMap theirs) (u16 ''kernel'') = Some m")
  case True
  then have "sharedSchemaMajors mine theirs
      = js_sort unit_cmp (map (\<lambda>k. k @ u16 ''@'' @ nat_text (fst (the (versionMap mine k))))
          (filter (\<lambda>k. major_of (versionMap theirs) k = major_of (versionMap mine) k) (map_keys mine)))"
    by (auto simp: sharedSchemaMajors_def Let_def major_of_def)
  then show ?thesis using True by (force simp: set_js_sort map_keys_dom major_of_def)
next
  case False
  then have "sharedSchemaMajors mine theirs = []"
    by (cases "versionMap mine (u16 ''kernel'')"; cases "versionMap theirs (u16 ''kernel'')")
      (auto simp: sharedSchemaMajors_def Let_def major_of_def)
  with False show ?thesis by auto
qed

lemma shared_symmetric: "set (sharedSchemaMajors mine theirs) = set (sharedSchemaMajors theirs mine)"
  unfolding set_eq_iff shared_iff by blast

text \<open>A candidate is the record less some fields.\<close>

definition cut :: "(path_key list \<times> text16 list) list \<Rightarrow> wire \<Rightarrow> wire" where
  "cut cuts v = fold (\<lambda>(p, keys) c. without p keys c) cuts v"

lemma strip_unknown_cut: "fst (strip_unknown issues (c, st)) = cut (map (\<lambda>i. (uk_path i, uk_keys i)) issues) c"
proof (induction issues arbitrary: c st)
  case (Cons i issues)
  then show ?case by (simp add: strip_unknown_def cut_def)
qed (simp add: strip_unknown_def cut_def)

text \<open>\<open>n\<close> rounds of cutting: in each the registry refuses the candidate and its schemas name keys they do not know, none of
  them a selector; just those keys go.\<close>

inductive cut_unknown :: "registry \<Rightarrow> text16 \<Rightarrow> text16 \<Rightarrow> nat \<Rightarrow> wire \<Rightarrow> wire \<Rightarrow> bool" for reg cls code where
  as_is: "cut_unknown reg cls code 0 c c"
| round: "ry_validate reg c = Inl issues \<Longrightarrow> unknown = ry_unknown reg cls code c \<Longrightarrow> unknown \<noteq> [] \<Longrightarrow>
    list_all (\<lambda>i. uk_path i \<noteq> [PKey (u16 ''affects'')]) unknown \<Longrightarrow>
    cut_unknown reg cls code n (cut (map (\<lambda>i. (uk_path i, uk_keys i)) unknown) c) c' \<Longrightarrow>
    cut_unknown reg cls code (Suc n) c c'"

lemma admit_loop_admitted:
  "admit_loop reg cls code newer n (c, st) = Admitted v stripped
    \<Longrightarrow> \<exists>k c'. cut_unknown reg cls code k c c' \<and> k < n \<and> ry_validate reg c' = Inr v \<and> (0 < k \<longrightarrow> newer)"
proof (induction n arbitrary: c st)
  case (Suc n)
  show ?case
  proof (cases "ry_validate reg c")
    case (Inr w)
    then show ?thesis using Suc.prems by (intro exI [of _ 0] exI [of _ c]) (simp add: as_is)
  next
    case (Inl issues)
    let ?unknown = "ry_unknown reg cls code c"
    obtain c' st' where strip: "strip_unknown ?unknown (c, st) = (c', st')" by force
    from Suc.prems Inl have newer: newer and next_step: "admit_loop reg cls code newer n (c', st') = Admitted v stripped"
      and unknown: "?unknown \<noteq> []" "list_all (\<lambda>i. uk_path i \<noteq> [PKey (u16 ''affects'')]) ?unknown"
      by (auto simp: Let_def strip list_ex_iff list_all_iff split: if_splits)
    from Suc.IH [OF next_step] obtain k c2 where rest: "cut_unknown reg cls code k c' c2" "k < n" "ry_validate reg c2 = Inr v" by blast
    have "c' = cut (map (\<lambda>i. (uk_path i, uk_keys i)) ?unknown) c"
      using strip_unknown_cut [of ?unknown c st] strip by simp
    with rest(1) have "cut_unknown reg cls code (Suc k) c c2" by (intro round [OF Inl refl unknown]) simp
    with rest newer show ?thesis by (intro exI [of _ "Suc k"] exI [of _ c2]) simp
  qed
qed simp

text \<open>What an admitted record is: of a class and kind registered here at the peer's major, on the peer's kernel
  major, and, once fields the peer's newer minors may add are cut, what this registry validates.\<close>

lemma admitRecord_admitted:
  assumes "admitRecord show_wire reg peerVersions rec = Inr (Admitted v stripped)"
  shows "\<exists>cls code key schemas n candidate. one_of RECORD_CLASSES (get ''class'' rec) = Some cls
    \<and> code = texts show_wire (if cls = ''observation'' then get ''property'' rec else get ''kind'' rec)
    \<and> key = u16 cls @ u16 ''/'' @ code
    \<and> versionMap (ry_versions reg) key \<noteq> None
    \<and> major_of (versionMap peerVersions) key = major_of (versionMap (ry_versions reg)) key
    \<and> major_of (versionMap peerVersions) (u16 ''kernel'') = major_of (versionMap (ry_versions reg)) (u16 ''kernel'')
    \<and> schemasOf rec key = Inr schemas \<and> \<not> list_ex (other_major (versionMap (ry_versions reg)) (versionMap peerVersions)) schemas
    \<and> cut_unknown reg (u16 cls) code n rec candidate \<and> n < 8 \<and> ry_validate reg candidate = Inr v
    \<and> (0 < n \<longrightarrow> list_ex (newer_minor (versionMap (ry_versions reg)) (versionMap peerVersions)) schemas)"
proof -
  let ?mine = "versionMap (ry_versions reg)" and ?theirs = "versionMap peerVersions"
  obtain ms where rec: "rec = WObject ms" using assms by (cases rec) (auto simp: admitRecord_def)
  then obtain cls where cls: "one_of RECORD_CLASSES (get ''class'' rec) = Some cls"
    using assms by (auto simp: admitRecord_def split: option.splits)
  define code where "code = texts show_wire (if cls = ''observation'' then get ''property'' rec else get ''kind'' rec)"
  define key where "key = u16 cls @ u16 ''/'' @ code"
  obtain schemas where majors: "major_of ?theirs (u16 ''kernel'') = major_of ?mine (u16 ''kernel'')" "?mine key \<noteq> None"
      "major_of ?theirs key = major_of ?mine key"
    and schemas: "schemasOf rec key = Inr schemas" "\<not> list_ex (other_major ?mine ?theirs) schemas"
    and loop: "admit_loop reg (u16 cls) code (list_ex (newer_minor ?mine ?theirs) schemas) 8 (rec, []) = Admitted v stripped"
    using assms by (auto simp: admitRecord_def rec cls [unfolded rec] code_def key_def Let_def split: if_splits)
  from admit_loop_admitted [OF loop] obtain n candidate where "cut_unknown reg (u16 cls) code n rec candidate" "n < 8"
    "ry_validate reg candidate = Inr v" "0 < n \<longrightarrow> list_ex (newer_minor ?mine ?theirs) schemas" by blast
  then show ?thesis using cls majors schemas
    by (intro exI [of _ cls] exI [of _ code] exI [of _ key] exI [of _ schemas] exI [of _ n] exI [of _ candidate])
      (simp add: key_def code_def)
qed

end
