(* ===== verification/Federation_Inbox.thy ===== *)
theory Federation_Inbox
  imports Federation_Admit "HOL-Library.Sublist"
begin

text \<open>
  One page of a peer's outbox: packages/federation/src/admit.ts and the page loop of
  services/contributions-api/src/federation/inbox.ts.

  \<^item> Instants are milliseconds, as the code compares them; \<open>parse_date\<close> is \<open>Date.parse\<close>.
  \<^item> What a retraction and the write of an admitted record do to the database are the parameters
    \<open>retract\<close> and \<open>store\<close>, functions of the database 'db and the entry that answer an outcome.
\<close>

subsection \<open>Reading an entry\<close>

record entry_head =
  eh_seq :: jsnum
  eh_txid :: text16
  eh_recordClass :: string
  eh_recordId :: text16
  eh_canonicalId :: "text16 option"

datatype inbound_entry =
    Change entry_head string wire
  | Retraction entry_head string "int option"
  | Liveness jsnum text16 text16 int "int option"

definition TOMBSTONE_REASONS :: "string list" where
  "TOMBSTONE_REASONS = [''expired'', ''withdrawn'', ''superseded'', ''cancelled'', ''rights_revoked'', ''rejected'']"

definition MAX_STATED_CADENCE_SEC :: int where
  "MAX_STATED_CADENCE_SEC = 7 * 86400"

definition safe_integer :: "wire \<Rightarrow> int option" where
  "safe_integer v = (case v of WNumber n \<Rightarrow> if isSafeInteger n then Some \<lfloor>num n\<rfloor> else None | _ \<Rightarrow> None)"

definition number_of :: "wire \<Rightarrow> jsnum option" where
  "number_of v = (case v of WNumber n \<Rightarrow> Some n | _ \<Rightarrow> None)"

definition read_liveness :: "(text16 \<Rightarrow> instant) \<Rightarrow> wire \<Rightarrow> (string \<times> text16 option) + inbound_entry" where
  "read_liveness parse_date e =
     (case (nonempty_text (get ''sourceId'' e), Option.bind (nonempty_text (get ''polledAt'' e)) parse_date,
            nonempty_text (get ''txid'' e), number_of (get ''seq'' e)) of
        (Some sourceId, Some polledAt, Some txid, Some seq) \<Rightarrow>
          Inr (Liveness seq txid sourceId polledAt
            (case safe_integer (get ''cadenceSec'' e) of
               Some c \<Rightarrow> if c > 0 \<and> c \<le> MAX_STATED_CADENCE_SEC then Some c else None | None \<Rightarrow> None))
      | _ \<Rightarrow> Inl (''malformed liveness entry'', None))"

definition read_retraction :: "wire \<Rightarrow> entry_head \<Rightarrow> (string \<times> text16 option) + inbound_entry" where
  "read_retraction e head =
     (if get ''record'' e \<noteq> WUndefined then Inl (''a delete carries no record'', Some (eh_recordId head))
      else let reason = nullish (one_of TOMBSTONE_REASONS (get ''reason'' e)) ''withdrawn'';
               ordered = (case safe_integer (get ''revision'' e) of Some r \<Rightarrow> if r \<ge> 1 then Some r else None | None \<Rightarrow> None)
        in if ordered = None \<and> reason \<noteq> ''rights_revoked''
           then Inl (''a delete carries the revision the record ended at'', Some (eh_recordId head))
           else Inr (Retraction head reason ordered))"

definition readInboundEntry :: "(text16 \<Rightarrow> instant) \<Rightarrow> wire \<Rightarrow> (string \<times> text16 option) + inbound_entry" where
  "readInboundEntry parse_date e = (case e of
     WObject _ \<Rightarrow>
       if get ''operation'' e = WString (u16 ''liveness'') then read_liveness parse_date e
       else (case (nonempty_text (get ''recordId'' e), one_of RECORD_CLASSES (get ''recordClass'' e),
                   nonempty_text (get ''txid'' e), number_of (get ''seq'' e)) of
          (Some recordId, Some cls, Some txid, Some seq) \<Rightarrow>
            (let head = \<lparr>eh_seq = seq, eh_txid = txid, eh_recordClass = cls, eh_recordId = recordId,
                   eh_canonicalId = nonempty_text (get ''canonicalId'' e)\<rparr>
             in case one_of [''delete'', ''create'', ''update''] (get ''operation'' e) of
                  None \<Rightarrow> Inl (''malformed entry'', Some recordId)
                | Some operation \<Rightarrow>
                    if operation = ''delete'' then read_retraction e head
                    else if get ''record'' e = WUndefined then Inl (''it carries its record'', Some recordId)
                    else Inr (Change head operation (get ''record'' e)))
        | (recordId, _) \<Rightarrow> Inl (''malformed entry'', recordId))
   | _ \<Rightarrow> Inl (''malformed entry'', None))"

subsection \<open>Admitting a record\<close>

record peer_receipt =
  pe_peerInstanceId :: text16
  pe_peerVersions :: "text16 list"
  pe_receivedAt :: text16

definition isHop :: "wire \<Rightarrow> bool" where
  "isHop v = (case (get ''instanceId'' v, get ''receivedAt'' v) of (WString _, WString _) \<Rightarrow> True | _ \<Rightarrow> False)"

definition hop_key :: "(wire \<Rightarrow> text16) \<Rightarrow> wire \<Rightarrow> text16" where
  "hop_key show_wire hop = texts show_wire (get ''instanceId'' hop) @ [0] @
     (case get ''viaPeer'' hop of WUndefined \<Rightarrow> [] | WNull \<Rightarrow> [] | v \<Rightarrow> texts show_wire v)"

fun unseen :: "('a \<Rightarrow> 'k) \<Rightarrow> 'k set \<Rightarrow> 'a list \<Rightarrow> 'a list" where
  "unseen key seen [] = []"
| "unseen key seen (x # xs) = (if key x \<in> seen then unseen key seen xs else x # unseen key (insert (key x) seen) xs)"

definition withReceipt :: "(wire \<Rightarrow> text16) \<Rightarrow> wire \<Rightarrow> wire \<Rightarrow> wire list" where
  "withReceipt show_wire chain receipt =
     unseen (hop_key show_wire) {} ((case chain of WArray hops \<Rightarrow> filter isHop hops | _ \<Rightarrow> []) @ [receipt])"

definition receipt_of :: "peer_receipt \<Rightarrow> wire" where
  "receipt_of peer = WObject [(u16 ''instanceId'', WString (pe_peerInstanceId peer)),
     (u16 ''viaPeer'', WString (pe_peerInstanceId peer)), (u16 ''receivedAt'', WString (pe_receivedAt peer))]"

text \<open>\<open>federationEligible\<close> of what the peer states.\<close>

definition stated_eligible :: "wire \<Rightarrow> bool" where
  "stated_eligible provenance \<longleftrightarrow> get ''accessMode'' provenance \<noteq> WString (u16 ''on_demand'')
     \<and> one_of [''@fused'', ''@fused-public''] (get ''sourceId'' provenance) = None"

definition received_provenance :: "(wire \<Rightarrow> text16) \<Rightarrow> peer_receipt \<Rightarrow> (text16 \<times> wire) list \<Rightarrow> (text16 \<times> wire) list" where
  "received_provenance show_wire peer ps =
     set_key (u16 ''originChain'') (WArray (withReceipt show_wire (lookup_key (u16 ''originChain'') ps) (receipt_of peer)))
       (filter (\<lambda>m. fst m \<noteq> u16 ''reporter'') ps)"

definition admitFederatedRecord ::
  "(wire \<Rightarrow> text16) \<Rightarrow> registry \<Rightarrow> peer_receipt \<Rightarrow> wire \<Rightarrow> js_error + admission" where
  "admitFederatedRecord show_wire reg peer v = (case v of
     WObject ms \<Rightarrow>
       (case get ''provenance'' v of
          WNull \<Rightarrow> Inl (TypeError ''Cannot read properties of null'')
        | WArray _ \<Rightarrow> Inr (Rejected [''relayed''])
        | WObject ps \<Rightarrow>
            if get ''instanceId'' (WObject ps) \<noteq> WString (pe_peerInstanceId peer) then Inr (Rejected [''relayed''])
            else if \<not> stated_eligible (WObject ps) then Inr (Rejected [''never_federated''])
            else admitRecord show_wire reg (pe_peerVersions peer)
              (WObject (set_key (u16 ''provenance'') (WObject (received_provenance show_wire peer ps)) ms))
        | _ \<Rightarrow> Inr (Rejected [''invalid_type'']))
   | _ \<Rightarrow> Inr (Rejected [''invalid_type'']))"

subsection \<open>The page\<close>

datatype outcome = OutAccepted | OutStale | OutTombstoned | OutSkipped string

record inbox_result =
  ib_accepted :: nat
  ib_stale :: nat
  ib_tombstoned :: nat
  ib_liveness :: nat
  ib_skipped :: "(text16 option \<times> string) list"

record inbox_state =
  is_result :: inbox_result
  is_max :: "(nat \<times> int) option"
  is_received :: "text16 \<rightharpoonup> int"
  is_alive :: "text16 \<rightharpoonup> int option"

record inbox_context =
  ic_registry :: registry
  ic_peer :: peer_receipt
  ic_now :: int

definition geometry_of :: "wire \<Rightarrow> wire" where
  "geometry_of rec = get ''geometry'' (get ''location'' rec)"

definition landRecord ::
  "(wire \<Rightarrow> text16) \<Rightarrow> inbox_context \<Rightarrow> ('db \<Rightarrow> wire \<Rightarrow> outcome \<times> 'db) \<Rightarrow> 'db \<Rightarrow> wire \<Rightarrow> js_error + outcome \<times> 'db" where
  "landRecord show_wire ctx store db v =
     bindE (admitFederatedRecord show_wire (ic_registry ctx) (ic_peer ctx) v) (\<lambda>admission. case admission of
       SkippedRecord why \<Rightarrow> Inr (OutSkipped why, db)
     | Rejected issues \<Rightarrow> Inr (OutSkipped (concat issues), db)
     | Admitted rec _ \<Rightarrow>
         bindE (if geometry_of rec \<in> {WNull, WUndefined} then Inr []
                else checkGeometryPlausibility (geometry_of rec) None) (\<lambda>reasons.
           if reasons \<noteq> [] then Inr (OutSkipped ''implausible geometry'', db) else Inr (store db rec)))"

text \<open>The cursor of an item: digits for the transaction, and its sequence number when it is a safe integer.\<close>

definition cursor_of :: "wire \<Rightarrow> (nat \<times> int) option" where
  "cursor_of item = (case item of
     WObject _ \<Rightarrow> (case nonempty_text (get ''txid'' item) of
         Some t \<Rightarrow> if list_all digit_unit t then Some (number16 t, nullish (safe_integer (get ''seq'' item)) 0) else None
       | None \<Rightarrow> None)
   | _ \<Rightarrow> None)"

definition cursor_less :: "nat \<times> int \<Rightarrow> nat \<times> int \<Rightarrow> bool" where
  "cursor_less a b \<longleftrightarrow> fst a < fst b \<or> (fst a = fst b \<and> snd a < snd b)"

definition advance :: "wire \<Rightarrow> (nat \<times> int) option \<Rightarrow> (nat \<times> int) option" where
  "advance item m = (case cursor_of item of None \<Rightarrow> m
     | Some c \<Rightarrow> (case m of None \<Rightarrow> Some c | Some held \<Rightarrow> if cursor_less held c then Some c else m))"

definition receive :: "text16 \<Rightarrow> int \<Rightarrow> (text16 \<rightharpoonup> int) \<Rightarrow> (text16 \<rightharpoonup> int)" where
  "receive sourceId at_ms m = (case m sourceId of None \<Rightarrow> m(sourceId \<mapsto> at_ms)
     | Some held \<Rightarrow> if at_ms > held then m(sourceId \<mapsto> at_ms) else m)"

definition skip_entry :: "text16 option \<Rightarrow> string \<Rightarrow> inbox_result \<Rightarrow> inbox_result" where
  "skip_entry recordId why r = r\<lparr>ib_skipped := ib_skipped r @ [(recordId, why)]\<rparr>"

text \<open>A record that lands is accepted or stale, a retraction that applies tombstones or is stale; whatever else
  comes back is the reason it was skipped.\<close>

fun tally_landed :: "text16 \<Rightarrow> outcome \<Rightarrow> inbox_result \<Rightarrow> inbox_result" where
  "tally_landed recordId OutAccepted r = r\<lparr>ib_accepted := ib_accepted r + 1\<rparr>"
| "tally_landed recordId OutStale r = r\<lparr>ib_stale := ib_stale r + 1\<rparr>"
| "tally_landed recordId OutTombstoned r = skip_entry (Some recordId) ''tombstoned'' r"
| "tally_landed recordId (OutSkipped why) r = skip_entry (Some recordId) why r"

fun tally_retracted :: "text16 \<Rightarrow> outcome \<Rightarrow> inbox_result \<Rightarrow> inbox_result" where
  "tally_retracted recordId OutTombstoned r = r\<lparr>ib_tombstoned := ib_tombstoned r + 1\<rparr>"
| "tally_retracted recordId OutStale r = r\<lparr>ib_stale := ib_stale r + 1\<rparr>"
| "tally_retracted recordId OutAccepted r = skip_entry (Some recordId) ''accepted'' r"
| "tally_retracted recordId (OutSkipped why) r = skip_entry (Some recordId) why r"

definition process_item ::
  "(wire \<Rightarrow> text16) \<Rightarrow> (text16 \<Rightarrow> instant) \<Rightarrow> inbox_context \<Rightarrow> ('db \<Rightarrow> wire \<Rightarrow> outcome \<times> 'db)
    \<Rightarrow> ('db \<Rightarrow> inbound_entry \<Rightarrow> outcome \<times> 'db) \<Rightarrow> wire \<Rightarrow> inbox_state \<times> 'db \<Rightarrow> js_error + inbox_state \<times> 'db" where
  "process_item show_wire parse_date ctx store retract item sd = (case sd of (s0, db) \<Rightarrow>
     (let s = s0\<lparr>is_max := advance item (is_max s0)\<rparr> in
      case readInboundEntry parse_date item of
        Inl (why, recordId) \<Rightarrow> Inr (s\<lparr>is_result := skip_entry recordId why (is_result s)\<rparr>, db)
      | Inr (Liveness seq txid sourceId polledAt cadence) \<Rightarrow>
          Inr (s\<lparr>is_received := receive sourceId (min polledAt (ic_now ctx)) (is_received s),
            is_alive := (is_alive s)(sourceId \<mapsto>
              (case cadence of Some c \<Rightarrow> Some c | None \<Rightarrow> nullish (is_alive s sourceId) None)),
            is_result := (is_result s)\<lparr>ib_liveness := ib_liveness (is_result s) + 1\<rparr>\<rparr>, db)
      | Inr (Retraction head reason revision) \<Rightarrow>
          (case retract db (Retraction head reason revision) of (out, db') \<Rightarrow>
             Inr (s\<lparr>is_result := tally_retracted (eh_recordId head) out (is_result s)\<rparr>, db'))
      | Inr (Change head operation rec) \<Rightarrow>
          bindE (landRecord show_wire ctx store db rec) (\<lambda>(out, db').
            Inr (s\<lparr>is_result := tally_landed (eh_recordId head) out (is_result s),
              is_received := (case (out \<in> {OutAccepted, OutStale}, get ''sourceId'' (get ''provenance'' rec)) of
                 (True, WString sourceId) \<Rightarrow> receive sourceId (ic_now ctx) (is_received s)
               | _ \<Rightarrow> is_received s)\<rparr>, db'))))"

fun process_items ::
  "(wire \<Rightarrow> text16) \<Rightarrow> (text16 \<Rightarrow> instant) \<Rightarrow> inbox_context \<Rightarrow> ('db \<Rightarrow> wire \<Rightarrow> outcome \<times> 'db)
    \<Rightarrow> ('db \<Rightarrow> inbound_entry \<Rightarrow> outcome \<times> 'db) \<Rightarrow> wire list \<Rightarrow> inbox_state \<times> 'db \<Rightarrow> js_error + inbox_state \<times> 'db" where
  "process_items show_wire parse_date ctx store retract [] sd = Inr sd"
| "process_items show_wire parse_date ctx store retract (item # items) sd =
     bindE (process_item show_wire parse_date ctx store retract item sd)
       (process_items show_wire parse_date ctx store retract items)"

definition ingestFederatedPage ::
  "(wire \<Rightarrow> text16) \<Rightarrow> (text16 \<Rightarrow> instant) \<Rightarrow> inbox_context \<Rightarrow> ('db \<Rightarrow> wire \<Rightarrow> outcome \<times> 'db)
    \<Rightarrow> ('db \<Rightarrow> inbound_entry \<Rightarrow> outcome \<times> 'db) \<Rightarrow> wire \<Rightarrow> 'db \<Rightarrow> js_error + inbox_state \<times> 'db" where
  "ingestFederatedPage show_wire parse_date ctx store retract page db = (case (page, get ''orderedItems'' page) of
     (WObject _, WArray items) \<Rightarrow> process_items show_wire parse_date ctx store retract items
       (\<lparr>is_result = \<lparr>ib_accepted = 0, ib_stale = 0, ib_tombstoned = 0, ib_liveness = 0, ib_skipped = []\<rparr>,
         is_max = None, is_received = Map.empty, is_alive = Map.empty\<rparr>, db)
   | _ \<Rightarrow> Inl (JsError ''federated page must be an object with an orderedItems array''))"


subsection \<open>Well-formed entries\<close>

definition wf_head :: "entry_head \<Rightarrow> bool" where
  "wf_head h \<longleftrightarrow> eh_txid h \<noteq> [] \<and> eh_recordId h \<noteq> [] \<and> eh_recordClass h \<in> set RECORD_CLASSES \<and> eh_canonicalId h \<noteq> Some []"

fun wf_inbound :: "inbound_entry \<Rightarrow> bool" where
  "wf_inbound (Change h operation rec) = (wf_head h \<and> operation \<in> {''create'', ''update''} \<and> rec \<noteq> WUndefined)"
| "wf_inbound (Retraction h reason revision) = (wf_head h \<and> reason \<in> set TOMBSTONE_REASONS
     \<and> (revision = None \<longrightarrow> reason = ''rights_revoked'') \<and> (\<forall>r. revision = Some r \<longrightarrow> 1 \<le> r))"
| "wf_inbound (Liveness seq txid sourceId polledAt cadence) = (txid \<noteq> [] \<and> sourceId \<noteq> []
     \<and> (\<forall>c. cadence = Some c \<longrightarrow> 0 < c \<and> c \<le> MAX_STATED_CADENCE_SEC))"

lemma nonempty_text_Some: "nonempty_text v = Some t \<Longrightarrow> v = WString t \<and> t \<noteq> []"
  by (auto simp: nonempty_text_def split: wire.splits list.splits)

lemma one_of_Some: "one_of names v = Some n \<Longrightarrow> n \<in> set names \<and> v = WString (u16 n)"
  by (auto simp: one_of_def dest!: find_in split: wire.splits)

lemma read_liveness_wf: "read_liveness parse_date e = Inr entry \<Longrightarrow> wf_inbound entry"
  by (auto simp: read_liveness_def dest!: nonempty_text_Some split: option.splits if_splits)

lemma read_retraction_wf:
  assumes "read_retraction e h = Inr entry" and "wf_head h"
  shows "wf_inbound entry"
proof -
  have "nullish (one_of TOMBSTONE_REASONS v) ''withdrawn'' \<in> set TOMBSTONE_REASONS" for v
    by (cases "one_of TOMBSTONE_REASONS v") (auto dest: one_of_Some simp: TOMBSTONE_REASONS_def)
  with assms show ?thesis
    by (auto simp: read_retraction_def Let_def TOMBSTONE_REASONS_def split: if_splits option.splits)
qed

text \<open>C21. What an entry that is read says: a change is a creation or an update of a record it carries; a
  retraction carries none, has a reason of the vocabulary, and orders itself by a revision unless it
  is an erasure; a liveness entry names its source, with a cadence only within a week. Every head
  has a class of the model and texts that are not empty.\<close>

theorem inbound_wf:
  assumes "readInboundEntry parse_date e = Inr entry"
  shows "wf_inbound entry \<and> (\<forall>h reason r. entry = Retraction h reason r \<longrightarrow> get ''record'' e = WUndefined)"
proof (cases "get ''operation'' e = WString (u16 ''liveness'')")
  case True
  then have "read_liveness parse_date e = Inr entry"
    using assms by (auto simp: readInboundEntry_def split: wire.splits)
  then show ?thesis using read_liveness_wf by (auto simp: read_liveness_def split: option.splits)
next
  case False
  then obtain recordId cls txid seq operation where fields: "nonempty_text (get ''recordId'' e) = Some recordId"
      "one_of RECORD_CLASSES (get ''recordClass'' e) = Some cls" "nonempty_text (get ''txid'' e) = Some txid"
      "number_of (get ''seq'' e) = Some seq" "one_of [''delete'', ''create'', ''update''] (get ''operation'' e) = Some operation"
    using assms by (auto simp: readInboundEntry_def Let_def split: wire.splits option.splits if_splits)
  define h where "h = \<lparr>eh_seq = seq, eh_txid = txid, eh_recordClass = cls, eh_recordId = recordId,
    eh_canonicalId = nonempty_text (get ''canonicalId'' e)\<rparr>"
  have wf: "wf_head h"
    using fields nonempty_text_Some one_of_Some by (force simp: wf_head_def h_def)
  have op: "operation \<in> {''delete'', ''create'', ''update''}" using one_of_Some [OF fields(5)] by simp
  have step: "(if operation = ''delete'' then read_retraction e h
      else if get ''record'' e = WUndefined then Inl (''it carries its record'', Some recordId)
      else Inr (Change h operation (get ''record'' e))) = readInboundEntry parse_date e"
    using False fields by (cases e) (simp_all add: readInboundEntry_def Let_def h_def get_def nonempty_text_def)
  show ?thesis
  proof (cases "operation = ''delete''")
    case True
    then show ?thesis
      using step assms read_retraction_wf [OF _ wf] by (auto simp: read_retraction_def split: if_splits)
  next
    case False
    then show ?thesis using step assms op wf by (auto split: if_splits)
  qed
qed

lemma inbound_wf_witness:
  "\<exists>e. readInboundEntry (\<lambda>_. Some 5) e = Inr (Liveness (JNum 1) (u16 ''7'') (u16 ''feed'') 5 None)
    \<and> wf_inbound (Liveness (JNum 1) (u16 ''7'') (u16 ''feed'') 5 None)"
proof -
  define e where "e = WObject [(u16 ''operation'', WString (u16 ''liveness'')), (u16 ''sourceId'', WString (u16 ''feed'')),
    (u16 ''polledAt'', WString (u16 ''now'')), (u16 ''txid'', WString (u16 ''7'')), (u16 ''seq'', WNumber (JNum 1))]"
  have "readInboundEntry (\<lambda>_. Some 5) e = Inr (Liveness (JNum 1) (u16 ''7'') (u16 ''feed'') 5 None)"
    by (simp add: e_def readInboundEntry_def read_liveness_def get_def lookup_key_def u16_def
      nonempty_text_def number_of_def safe_integer_def)
  then show ?thesis using inbound_wf [of "\<lambda>_. Some 5" e] by blast
qed

subsection \<open>What a received record keeps\<close>

lemma lookup_filter:
  "lookup_key k (filter (\<lambda>m. fst m \<notin> K) ms) = (if k \<in> K then WUndefined else lookup_key k ms)"
proof -
  have "map_of (filter (\<lambda>m. fst m \<notin> K) xs) k = (if k \<in> K then None else map_of xs k)" for xs :: "(text16 \<times> wire) list"
    by (induction xs) auto
  then show ?thesis by (simp add: lookup_key_def rev_filter)
qed

lemma lookup_set: "lookup_key k (set_key k' v ms) = (if k = k' then v else lookup_key k ms)"
proof -
  have "map_of (map (\<lambda>m. if fst m = k' then (k', v) else m) xs) k
      = (if k = k' then (if k' \<in> fst ` set xs then Some v else None) else map_of xs k)" for xs :: "(text16 \<times> wire) list"
  proof (induction xs)
    case (Cons a xs)
    then show ?case by (cases a; cases "k = k'"; cases "fst a = k'") simp_all
  qed simp
  note mapped = this [of "rev ms"]
  show ?thesis
    by (cases "k' \<in> fst ` set ms") (use mapped in \<open>simp_all add: lookup_key_def set_key_def rev_map\<close>)
qed

lemma get_without: "get k v = WUndefined \<Longrightarrow> get k (without p keys v) = WUndefined"
proof (induction p keys v rule: without.induct)
  case (1 keys ms)
  then show ?case using lookup_filter [of "u16 k" "set keys" ms] by (simp add: get_def)
next
  case (3 p rest keys ms)
  have "without q ks WUndefined = WUndefined" for q ks by (cases q) auto
  with 3 show ?case by (auto simp: get_def lookup_set)
qed (simp_all add: get_def)

definition hides :: "string \<Rightarrow> string \<Rightarrow> wire \<Rightarrow> bool" where
  "hides outer inner v \<longleftrightarrow> get inner (get outer v) = WUndefined"

lemma hides_without: "hides outer inner v \<Longrightarrow> hides outer inner (without p keys v)"
proof (induction p keys v rule: without.induct)
  case (1 keys ms)
  then show ?case using lookup_filter [of "u16 outer" "set keys" ms] by (auto simp: hides_def get_def)
next
  case (3 p rest keys ms)
  then show ?case using get_without [of inner "lookup_key (u16 outer) ms" rest keys]
    by (auto simp: hides_def get_def lookup_set)
qed (simp_all add: hides_def get_def)

lemma hides_cut: "hides outer inner v \<Longrightarrow> hides outer inner (cut cuts v)"
  unfolding cut_def by (induction cuts arbitrary: v) (auto intro: hides_without)

lemma hides_cut_unknown: "cut_unknown reg cls code n v v' \<Longrightarrow> hides outer inner v \<Longrightarrow> hides outer inner v'"
  by (induction rule: cut_unknown.induct) (auto intro: hides_cut)

lemma unseen_set: "key ` set (unseen key seen xs) = key ` set xs - seen"
  by (induction xs arbitrary: seen) auto

lemma unseen_distinct: "distinct (map key (unseen key seen xs))"
proof (induction xs arbitrary: seen)
  case (Cons x xs)
  have "key x \<notin> key ` set (unseen key (insert (key x) seen) xs)" by (simp add: unseen_set)
  then show ?case using Cons by simp
qed simp

lemma unseen_subseq: "subseq (unseen key seen xs) xs"
  by (induction xs arbitrary: seen) auto

text \<open>What a chain of custody says after a record arrived, given the chain it stated: hops it stated, in their order, and the
  receipt; no two of one instance by one peer, none forgotten, and the receipt there, unless the record already stated a hop
  that reads the same.\<close>

definition stated_hop :: "wire \<Rightarrow> bool" where
  "stated_hop h \<longleftrightarrow> (\<exists>i r. get ''instanceId'' h = WString i \<and> get ''receivedAt'' h = WString r)"

definition via_text :: "(wire \<Rightarrow> text16) \<Rightarrow> wire \<Rightarrow> text16" where
  "via_text show_wire h =
     (if get ''viaPeer'' h \<in> {WUndefined, WNull} then [] else texts show_wire (get ''viaPeer'' h))"

definition custody :: "(wire \<Rightarrow> text16) \<Rightarrow> peer_receipt \<Rightarrow> wire list \<Rightarrow> wire list \<Rightarrow> bool" where
  "custody show_wire peer stated hops \<longleftrightarrow>
     (let receipt = WObject [(u16 ''instanceId'', WString (pe_peerInstanceId peer)),
            (u16 ''viaPeer'', WString (pe_peerInstanceId peer)), (u16 ''receivedAt'', WString (pe_receivedAt peer))];
          reads = (\<lambda>h. (texts show_wire (get ''instanceId'' h) @ [0] @ via_text show_wire h))
      in subseq hops (filter stated_hop stated @ [receipt])
       \<and> (receipt \<in> set hops \<or> (\<exists>h \<in> set hops. reads h = pe_peerInstanceId peer @ [0] @ pe_peerInstanceId peer))
       \<and> (\<forall>h \<in> set stated. stated_hop h \<longrightarrow> (\<exists>h' \<in> set hops. reads h' = reads h))
       \<and> (\<forall>i j. i < j \<and> j < length hops \<longrightarrow>
            (get ''instanceId'' (hops ! i), get ''viaPeer'' (hops ! i)) \<noteq> (get ''instanceId'' (hops ! j), get ''viaPeer'' (hops ! j))))"

lemma hop_key_reads: "hop_key show_wire h = texts show_wire (get ''instanceId'' h) @ [0] @ via_text show_wire h"
  by (auto simp: hop_key_def via_text_def split: wire.split)

lemma receipt_reads: "hop_key show_wire (receipt_of peer) = pe_peerInstanceId peer @ [0] @ pe_peerInstanceId peer"
proof -
  have "u16 ''viaPeer'' \<noteq> u16 ''instanceId''" "u16 ''receivedAt'' \<noteq> u16 ''instanceId''" "u16 ''receivedAt'' \<noteq> u16 ''viaPeer''"
    by (simp_all add: u16_def)
  then show ?thesis by (auto simp: hop_key_def receipt_of_def get_def lookup_key_def texts_def)
qed

lemma isHop_stated: "isHop h \<longleftrightarrow> stated_hop h"
  by (auto simp: isHop_def stated_hop_def split: wire.splits)

lemma withReceipt_custody:
  "custody show_wire peer (case chain of WArray hops \<Rightarrow> hops | _ \<Rightarrow> []) (withReceipt show_wire chain (receipt_of peer))"
proof -
  let ?stated = "case chain of WArray hops \<Rightarrow> hops | _ \<Rightarrow> []"
  let ?key = "hop_key show_wire"
  let ?hops = "withReceipt show_wire chain (receipt_of peer)"
  have hops: "?hops = unseen ?key {} (filter stated_hop ?stated @ [receipt_of peer])"
    by (simp add: withReceipt_def isHop_stated [abs_def] split: wire.split)
  have keys: "?key ` set ?hops = ?key ` set (filter stated_hop ?stated @ [receipt_of peer])"
    unfolding hops by (simp only: unseen_set Diff_empty)
  have distinct: "distinct (map ?key ?hops)" unfolding hops by (rule unseen_distinct)
  have seen: "\<exists>h' \<in> set ?hops. ?key h' = ?key h" if "h \<in> set (filter stated_hop ?stated @ [receipt_of peer])" for h
    using keys that by (metis (no_types, lifting) image_iff)
  then have receipt: "\<exists>h \<in> set ?hops. ?key h = pe_peerInstanceId peer @ [0] @ pe_peerInstanceId peer"
    using receipt_reads [of show_wire peer] by (metis UnCI list.set_intros(1) set_append)
  have every: "\<forall>h \<in> set ?stated. stated_hop h \<longrightarrow> (\<exists>h' \<in> set ?hops. ?key h' = ?key h)" using seen by simp
  have apart: "(get ''instanceId'' (?hops ! i), get ''viaPeer'' (?hops ! i)) \<noteq> (get ''instanceId'' (?hops ! j), get ''viaPeer'' (?hops ! j))"
    if "i < j" "j < length ?hops" for i j
  proof -
    have "?key (?hops ! i) \<noteq> ?key (?hops ! j)"
      using that distinct nth_eq_iff_index_eq [of "map ?key ?hops" i j] by simp
    then show ?thesis by (auto simp: hop_key_def)
  qed
  have "subseq ?hops (filter stated_hop ?stated @ [receipt_of peer])" unfolding hops by (rule unseen_subseq)
  with receipt every apart show ?thesis
    unfolding custody_def Let_def hop_key_reads [symmetric] receipt_of_def [symmetric] by blast
qed

text \<open>What the record is once the receipt is added and the reporter taken away.\<close>

definition received_record :: "(wire \<Rightarrow> text16) \<Rightarrow> peer_receipt \<Rightarrow> (text16 \<times> wire) list \<Rightarrow> (text16 \<times> wire) list \<Rightarrow> wire" where
  "received_record show_wire peer ps ms =
     WObject (set_key (u16 ''provenance'') (WObject (received_provenance show_wire peer ps)) ms)"

lemma received_provenance_of:
  "get ''provenance'' (received_record show_wire peer ps ms) = WObject (received_provenance show_wire peer ps)"
  by (simp add: received_record_def get_def lookup_set)

lemma received_hides: "hides ''provenance'' ''reporter'' (received_record show_wire peer ps ms)"
proof -
  have "u16 ''reporter'' \<noteq> u16 ''originChain''" by (simp add: u16_def)
  moreover have "lookup_key (u16 ''reporter'') (filter (\<lambda>m. fst m \<noteq> u16 ''reporter'') ps) = WUndefined"
    using lookup_filter [of "u16 ''reporter''" "{u16 ''reporter''}" ps] by simp
  ultimately show ?thesis
    by (simp add: hides_def received_provenance_of) (simp add: get_def received_provenance_def lookup_set)
qed

lemma received_chain:
  "get ''originChain'' (get ''provenance'' (received_record show_wire peer ps ms))
    = WArray (withReceipt show_wire (lookup_key (u16 ''originChain'') ps) (receipt_of peer))"
  by (simp add: received_provenance_of) (simp add: get_def received_provenance_def lookup_set)

lemma admitFederatedRecord_admitted:
  assumes "admitFederatedRecord show_wire reg peer v = Inr (Admitted rec stripped)"
  shows "\<exists>ms ps. v = WObject ms \<and> get ''provenance'' v = WObject ps
    \<and> get ''instanceId'' (WObject ps) = WString (pe_peerInstanceId peer) \<and> stated_eligible (WObject ps)
    \<and> admitRecord show_wire reg (pe_peerVersions peer) (received_record show_wire peer ps ms) = Inr (Admitted rec stripped)"
proof -
  obtain ms where v: "v = WObject ms" using assms by (cases v) (auto simp: admitFederatedRecord_def)
  obtain ps where ps: "get ''provenance'' v = WObject ps"
    using assms by (cases "get ''provenance'' v") (auto simp: admitFederatedRecord_def v)
  then show ?thesis
    using assms by (auto simp: admitFederatedRecord_def v received_record_def split: if_splits)
qed

lemma newer_minor_iff:
  "newer_minor mine theirs k \<longleftrightarrow>
     (\<exists>major minor newer. mine k = Some (major, minor) \<and> theirs k = Some (major, newer) \<and> minor < newer)"
  by (auto simp: newer_minor_def split: option.split)

text \<open>What the record received is, of the one sent: nothing but its provenance differs, and of that only the reporter, who is
  gone, and the chain of custody.\<close>

definition received_from :: "(wire \<Rightarrow> text16) \<Rightarrow> peer_receipt \<Rightarrow> wire \<Rightarrow> wire \<Rightarrow> bool" where
  "received_from show_wire peer sent received \<longleftrightarrow>
     (\<exists>ms ms' ps ps' hops. sent = WObject ms \<and> received = WObject ms'
       \<and> (\<forall>k. k \<noteq> u16 ''provenance'' \<longrightarrow> lookup_key k ms' = lookup_key k ms)
       \<and> get ''provenance'' sent = WObject ps \<and> get ''provenance'' received = WObject ps'
       \<and> (\<forall>k. k \<noteq> u16 ''reporter'' \<and> k \<noteq> u16 ''originChain'' \<longrightarrow> lookup_key k ps' = lookup_key k ps)
       \<and> get ''reporter'' (WObject ps') = WUndefined \<and> get ''originChain'' (WObject ps') = WArray hops
       \<and> custody show_wire peer (case get ''originChain'' (WObject ps) of WArray stated \<Rightarrow> stated | _ \<Rightarrow> []) hops)"

lemma received_record_from:
  assumes "get ''provenance'' (WObject ms) = WObject ps"
  shows "received_from show_wire peer (WObject ms) (received_record show_wire peer ps ms)"
proof -
  have names: "u16 ''reporter'' \<noteq> u16 ''originChain''" by (simp add: u16_def)
  let ?ps' = "received_provenance show_wire peer ps"
  have kept: "lookup_key k ?ps' = lookup_key k ps" if "k \<noteq> u16 ''reporter''" "k \<noteq> u16 ''originChain''" for k
    using that lookup_filter [of k "{u16 ''reporter''}" ps] by (simp add: received_provenance_def lookup_set)
  have chain: "get ''originChain'' (WObject ?ps')
      = WArray (withReceipt show_wire (get ''originChain'' (WObject ps)) (receipt_of peer))"
    using received_chain [of show_wire peer ps ms, unfolded received_provenance_of] by (simp add: get_def)
  have reporter: "get ''reporter'' (WObject ?ps') = WUndefined"
    using received_hides [of show_wire peer ps ms] by (simp add: hides_def received_provenance_of)
  have others: "\<forall>k. k \<noteq> u16 ''provenance'' \<longrightarrow>
      lookup_key k (set_key (u16 ''provenance'') (WObject ?ps') ms) = lookup_key k ms" by (simp add: lookup_set)
  show ?thesis
    unfolding received_from_def received_record_def
    by (intro exI conjI, rule refl, rule refl, rule others, rule assms,
        rule received_provenance_of [unfolded received_record_def], use kept in blast, rule reporter, rule chain, rule withReceipt_custody)
qed

text \<open>C19. What a peer can change here: the database changes only for a record of the peer's own, neither an
  on-demand answer nor a fused row, whose class and kind are registered here at the peer's major and the kernel's. What is
  stored is what this registry validated of the record received, which is the record sent, its reporter gone and its
  chain of custody ending up with the receipt, every hop it stated and no instance twice by one peer; less, in
  at most seven rounds and only if the peer runs a newer minor of some schema of the record, the keys the schemas here name
  as unknown, of which no selector is one. The geometry of it, if it has one, passes the screen.\<close>

theorem landed_from_peer:
  assumes "landRecord show_wire ctx store db v = Inr (out, db')" and "db' \<noteq> db"
  shows "\<exists>received candidate rec cls code schemas n.
      get ''instanceId'' (get ''provenance'' v) = WString (pe_peerInstanceId (ic_peer ctx))
    \<and> get ''accessMode'' (get ''provenance'' v) \<noteq> WString (u16 ''on_demand'')
    \<and> get ''sourceId'' (get ''provenance'' v) \<notin> {WString (u16 ''@fused''), WString (u16 ''@fused-public'')}
    \<and> received_from show_wire (ic_peer ctx) v received
    \<and> one_of RECORD_CLASSES (get ''class'' received) = Some cls
    \<and> code = texts show_wire (if cls = ''observation'' then get ''property'' received else get ''kind'' received)
    \<and> versionMap (ry_versions (ic_registry ctx)) (u16 cls @ u16 ''/'' @ code) \<noteq> None
    \<and> (\<forall>key \<in> {u16 ''kernel'', u16 cls @ u16 ''/'' @ code}. major_of (versionMap (pe_peerVersions (ic_peer ctx))) key
        = major_of (versionMap (ry_versions (ic_registry ctx))) key)
    \<and> schemasOf received (u16 cls @ u16 ''/'' @ code) = Inr schemas
    \<and> cut_unknown (ic_registry ctx) (u16 cls) code n received candidate \<and> n \<le> 7
    \<and> (0 < n \<longrightarrow> (\<exists>key \<in> set schemas. \<exists>major minor newer.
         versionMap (ry_versions (ic_registry ctx)) key = Some (major, minor)
         \<and> versionMap (pe_peerVersions (ic_peer ctx)) key = Some (major, newer) \<and> minor < newer))
    \<and> get ''reporter'' (get ''provenance'' candidate) = WUndefined
    \<and> ry_validate (ic_registry ctx) candidate = Inr rec
    \<and> (geometry_of rec \<in> {WNull, WUndefined} \<or> checkGeometryPlausibility (geometry_of rec) None = Inr [])
    \<and> store db rec = (out, db')"
proof -
  from assms obtain rec stripped where adm: "admitFederatedRecord show_wire (ic_registry ctx) (ic_peer ctx) v = Inr (Admitted rec stripped)"
    and plausible: "geometry_of rec \<in> {WNull, WUndefined} \<or> checkGeometryPlausibility (geometry_of rec) None = Inr []"
    and stored: "store db rec = (out, db')"
    by (auto simp: landRecord_def split: admission.splits if_splits)
  from admitFederatedRecord_admitted [OF adm] obtain ms ps where v: "v = WObject ms" "get ''provenance'' v = WObject ps"
      "get ''instanceId'' (WObject ps) = WString (pe_peerInstanceId (ic_peer ctx))" "stated_eligible (WObject ps)"
    and adm': "admitRecord show_wire (ic_registry ctx) (pe_peerVersions (ic_peer ctx)) (received_record show_wire (ic_peer ctx) ps ms)
      = Inr (Admitted rec stripped)" by blast
  let ?received = "received_record show_wire (ic_peer ctx) ps ms"
  have from_peer: "received_from show_wire (ic_peer ctx) v ?received" using received_record_from v(1,2) by blast
  have eligible: "get ''accessMode'' (get ''provenance'' v) \<noteq> WString (u16 ''on_demand'')"
      "get ''sourceId'' (get ''provenance'' v) \<notin> {WString (u16 ''@fused''), WString (u16 ''@fused-public'')}"
    using v(2,4) by (auto simp: stated_eligible_def one_of_def split: if_splits)
  from admitRecord_admitted [OF adm'] obtain cls code key schemas n candidate where
      class_of: "one_of RECORD_CLASSES (get ''class'' ?received) = Some cls"
        "code = texts show_wire (if cls = ''observation'' then get ''property'' ?received else get ''kind'' ?received)"
        "key = u16 cls @ u16 ''/'' @ code"
    and majors: "versionMap (ry_versions (ic_registry ctx)) key \<noteq> None"
        "major_of (versionMap (pe_peerVersions (ic_peer ctx))) key = major_of (versionMap (ry_versions (ic_registry ctx))) key"
        "major_of (versionMap (pe_peerVersions (ic_peer ctx))) (u16 ''kernel'')
          = major_of (versionMap (ry_versions (ic_registry ctx))) (u16 ''kernel'')"
    and schemas: "schemasOf ?received key = Inr schemas"
    and cuts: "cut_unknown (ic_registry ctx) (u16 cls) code n ?received candidate" "n < 8" "ry_validate (ic_registry ctx) candidate = Inr rec"
    and newer: "0 < n \<longrightarrow> list_ex (newer_minor (versionMap (ry_versions (ic_registry ctx))) (versionMap (pe_peerVersions (ic_peer ctx)))) schemas"
    by blast
  have reporter: "get ''reporter'' (get ''provenance'' candidate) = WUndefined"
    using hides_cut_unknown [OF cuts(1) received_hides] by (simp add: hides_def)
  have newer': "0 < n \<longrightarrow> (\<exists>key \<in> set schemas. \<exists>major minor newer.
         versionMap (ry_versions (ic_registry ctx)) key = Some (major, minor)
         \<and> versionMap (pe_peerVersions (ic_peer ctx)) key = Some (major, newer) \<and> minor < newer)"
    using newer unfolding list_ex_iff newer_minor_iff by blast
  have own: "get ''instanceId'' (get ''provenance'' v) = WString (pe_peerInstanceId (ic_peer ctx))" using v(2,3) by simp
  have shared: "\<forall>key \<in> {u16 ''kernel'', u16 cls @ u16 ''/'' @ code}. major_of (versionMap (pe_peerVersions (ic_peer ctx))) key
        = major_of (versionMap (ry_versions (ic_registry ctx))) key" using majors class_of(3) by simp
  have seven: "n \<le> 7" using cuts(2) by simp
  show ?thesis
    by (rule exI [where x = ?received], rule exI [where x = candidate], rule exI [where x = rec], rule exI [where x = cls],
        rule exI [where x = code], rule exI [where x = schemas], rule exI [where x = n])
      (intro conjI, (rule own eligible from_peer class_of majors(1) [unfolded class_of(3)] shared schemas [unfolded class_of(3)]
        cuts(1) seven newer' reporter cuts(3) plausible stored)+)
qed

lemma landed_from_peer_witness:
  "\<exists>rec out. landRecord (\<lambda>_. [])
      \<lparr>ic_registry = \<lparr>ry_versions = [u16 ''kernel@1.0'', u16 ''feature/x@1.0''], ry_validate = Inr, ry_unknown = \<lambda>_ _ _. []\<rparr>,
        ic_peer = \<lparr>pe_peerInstanceId = u16 ''p'', pe_peerVersions = [u16 ''kernel@1.0'', u16 ''feature/x@1.0''],
          pe_receivedAt = u16 ''now''\<rparr>, ic_now = 0\<rparr>
      (\<lambda>db _. (OutAccepted, db + 1)) (0 :: nat) rec = Inr (out, 1)
    \<and> (\<exists>received. received_from (\<lambda>_. []) \<lparr>pe_peerInstanceId = u16 ''p'',
          pe_peerVersions = [u16 ''kernel@1.0'', u16 ''feature/x@1.0''], pe_receivedAt = u16 ''now''\<rparr> rec received)"
proof -
  define versions where "versions = [u16 ''kernel@1.0'', u16 ''feature/x@1.0'']"
  define ctx where "ctx = \<lparr>ic_registry = \<lparr>ry_versions = versions, ry_validate = Inr, ry_unknown = \<lambda>_ _ _. []\<rparr>,
    ic_peer = \<lparr>pe_peerInstanceId = u16 ''p'', pe_peerVersions = versions, pe_receivedAt = u16 ''now''\<rparr>, ic_now = 0\<rparr>"
  define prov where "prov = WObject [(u16 ''instanceId'', WString (u16 ''p''))]"
  define rec where "rec = WObject [(u16 ''class'', WString (u16 ''feature'')), (u16 ''kind'', WString (u16 ''x'')), (u16 ''provenance'', prov)]"
  have major: "major_of (versionMap versions) (u16 ''kernel'') = Some 1"
    by (simp add: versions_def versionMap_def major_of_def parseSchemaVersion_def map_filter_simps u16_def Let_def
      line_end_def digit_unit_def number16_def)
  have key: "versionMap versions (u16 ''feature/x'') \<noteq> None"
    by (simp add: versions_def versionMap_def parseSchemaVersion_def map_filter_simps u16_def Let_def
      line_end_def digit_unit_def number16_def)
  have "landRecord (\<lambda>_. []) ctx (\<lambda>db _. (OutAccepted, db + 1)) (0 :: nat) rec = Inr (OutAccepted, 1)"
  proof -
    define record' where "record' = received_record (\<lambda>_. []) (ic_peer ctx) [(u16 ''instanceId'', WString (u16 ''p''))]
      [(u16 ''class'', WString (u16 ''feature'')), (u16 ''kind'', WString (u16 ''x'')), (u16 ''provenance'', prov)]"
    have record': "\<exists>ms. record' = WObject ms" "get ''class'' record' = WString (u16 ''feature'')" "get ''kind'' record' = WString (u16 ''x'')"
      "get ''effects'' record' = WUndefined" "get ''affects'' record' = WUndefined" "get ''result'' record' = WUndefined"
      "get ''location'' record' = WUndefined"
      by (simp_all add: record'_def received_record_def get_def lookup_set) (simp_all add: lookup_key_def u16_def)
    have class_of: "one_of RECORD_CLASSES (WString (u16 ''feature'')) = Some ''feature''"
      by (simp add: one_of_def RECORD_CLASSES_def)
    have key': "u16 ''feature'' @ u16 ''/'' @ u16 ''x'' = u16 ''feature/x''" by (simp add: u16_def)
    have admitted: "admitRecord (\<lambda>_. []) (ic_registry ctx) versions record' = Inr (Admitted record' [])"
      using record' key major class_of key' 
      by (auto simp: admitRecord_def ctx_def schemasOf_def effect_keys_def own_keys_def texts_def Let_def other_major_def
        get_def [of _ WUndefined] eval_nat_numeral split: option.splits)
    have "admitFederatedRecord (\<lambda>_. []) (ic_registry ctx) (ic_peer ctx) rec = admitRecord (\<lambda>_. []) (ic_registry ctx) versions record'"
    proof -
      have "get ''provenance'' rec = prov" by (simp add: rec_def get_def lookup_key_def u16_def)
      moreover have "get ''instanceId'' prov = WString (u16 ''p'')" "get ''accessMode'' prov = WUndefined"
        "get ''sourceId'' prov = WUndefined"
        by (simp_all add: prov_def get_def lookup_key_def u16_def)
      moreover from this have "stated_eligible prov" by (simp add: stated_eligible_def one_of_def)
      ultimately show ?thesis
        by (simp add: admitFederatedRecord_def rec_def record'_def received_record_def ctx_def prov_def)
    qed
    then show ?thesis using admitted record' by (simp add: landRecord_def geometry_of_def get_def)
  qed
  moreover from landed_from_peer [OF this] have "\<exists>received. received_from (\<lambda>_. []) (ic_peer ctx) rec received" by blast
  ultimately show ?thesis unfolding ctx_def versions_def by (simp only: inbox_context.simps) blast
qed

subsection \<open>The page's accounts\<close>

definition accounted :: "inbox_result \<Rightarrow> nat" where
  "accounted r = ib_accepted r + ib_stale r + ib_tombstoned r + ib_liveness r + length (ib_skipped r)"

lemma accounted_skip [simp]: "accounted (skip_entry i why r) = Suc (accounted r)"
  by (simp add: accounted_def skip_entry_def)

lemma accounted_landed [simp]: "accounted (tally_landed i out r) = Suc (accounted r)"
  by (cases out) (simp_all, simp_all add: accounted_def)

lemma accounted_retracted [simp]: "accounted (tally_retracted i out r) = Suc (accounted r)"
  by (cases out) (simp_all, simp_all add: accounted_def)

lemma process_item_step:
  assumes "process_item show_wire parse_date ctx store retract item (s, db) = Inr (s', db')"
  shows "accounted (is_result s') = Suc (accounted (is_result s)) \<and> is_max s' = advance item (is_max s)"
proof (cases "readInboundEntry parse_date item")
  case (Inl e)
  then show ?thesis using assms by (cases e) (auto simp: process_item_def Let_def)
next
  case (Inr entry)
  show ?thesis
  proof (cases entry)
    case (Liveness a b c d e)
    then show ?thesis using assms Inr by (auto simp: process_item_def Let_def accounted_def)
  qed (use assms Inr in \<open>auto simp: process_item_def Let_def split: prod.splits\<close>)
qed

lemma process_items_accounts:
  assumes "process_items show_wire parse_date ctx store retract items (s, db) = Inr (s', db')"
  shows "accounted (is_result s') = accounted (is_result s) + length items \<and> is_max s' = fold advance items (is_max s)"
  using assms
proof (induction items arbitrary: s db)
  case (Cons item items)
  then obtain s1 db1 where step: "process_item show_wire parse_date ctx store retract item (s, db) = Inr (s1, db1)"
    and rest: "process_items show_wire parse_date ctx store retract items (s1, db1) = Inr (s', db')" by force
  from process_item_step [OF step] Cons.IH [OF rest] show ?case by simp
qed simp

definition at_most :: "nat \<times> int \<Rightarrow> (nat \<times> int) option \<Rightarrow> bool" where
  "at_most c m \<longleftrightarrow> (\<exists>held. m = Some held \<and> \<not> cursor_less held c)"

lemma advance_keeps: "at_most c m \<Longrightarrow> at_most c (advance item m)"
  by (auto simp: at_most_def advance_def cursor_less_def split: option.splits)

lemma advance_reaches: "cursor_of item = Some c \<Longrightarrow> at_most c (advance item m)"
  by (cases c; cases m) (auto simp: at_most_def advance_def cursor_less_def split: option.splits)

lemma fold_advance_keeps: "at_most c m \<Longrightarrow> at_most c (fold advance items m)"
  by (induction items arbitrary: m) (auto intro: advance_keeps)

lemma fold_advance_reaches: "item \<in> set items \<Longrightarrow> cursor_of item = Some c \<Longrightarrow> at_most c (fold advance items m)"
  by (induction items arbitrary: m) (auto intro: fold_advance_keeps advance_reaches)

lemma fold_advance_source:
  "fold advance items m = Some c \<Longrightarrow> m = Some c \<or> (\<exists>item \<in> set items. cursor_of item = Some c)"
proof (induction items arbitrary: m)
  case (Cons item items)
  then have "advance item m = Some c \<or> (\<exists>i \<in> set items. cursor_of i = Some c)" by simp
  then show ?case by (auto simp: advance_def split: option.splits if_splits)
qed simp

text \<open>C20. What a page that is taken reports: every entry of it is counted once, as accepted, stale, tombstoned,
  alive or skipped; and the cursor it acknowledges is that of one of its entries and no entry of it
  lies beyond, whether it was skipped or not.\<close>

theorem page_accounts:
  assumes "ingestFederatedPage show_wire parse_date ctx store retract page db = Inr (s, db')"
  shows "\<exists>items. get ''orderedItems'' page = WArray items \<and> accounted (is_result s) = length items
    \<and> (\<forall>item c. item \<in> set items \<and> cursor_of item = Some c \<longrightarrow> at_most c (is_max s))
    \<and> (\<forall>c. is_max s = Some c \<longrightarrow> (\<exists>item \<in> set items. cursor_of item = Some c))"
proof -
  obtain items where items: "get ''orderedItems'' page = WArray items"
    using assms by (auto simp: ingestFederatedPage_def split: wire.splits)
  let ?s0 = "\<lparr>is_result = \<lparr>ib_accepted = 0, ib_stale = 0, ib_tombstoned = 0, ib_liveness = 0, ib_skipped = []\<rparr>,
         is_max = None, is_received = Map.empty, is_alive = Map.empty\<rparr>"
  from assms have "process_items show_wire parse_date ctx store retract items (?s0, db) = Inr (s, db')"
    by (auto simp: ingestFederatedPage_def items split: wire.splits)
  from process_items_accounts [OF this] have "accounted (is_result s) = length items" "is_max s = fold advance items None"
    by (simp_all add: accounted_def)
  with items show ?thesis using fold_advance_reaches fold_advance_source by (metis option.distinct(1))
qed

lemma page_accounts_witness:
  "\<exists>page (ctx :: inbox_context) s. ingestFederatedPage (\<lambda>_. []) (\<lambda>_. None) ctx (\<lambda>db _. (OutStale, db)) (\<lambda>db _. (OutTombstoned, db)) page (0 :: nat)
      = Inr (s, 0) \<and> accounted (is_result s) = 2 \<and> at_most (7, 3) (is_max s)"
proof -
  define item where "item = WObject [(u16 ''txid'', WString (u16 ''7'')), (u16 ''seq'', WNumber (JNum 3))]"
  have fields: "get ''txid'' item = WString (u16 ''7'')" "get ''seq'' item = WNumber (JNum 3)"
      "get ''operation'' item = WUndefined" "get ''recordId'' item = WUndefined"
    by (simp_all add: item_def get_def lookup_key_def u16_def)
  have cursor: "cursor_of item = Some (7, 3)"
    using fields by (simp add: cursor_of_def item_def nonempty_text_def safe_integer_def isSafeInteger_def u16_def
      digit_unit_def number16_def)
  have read: "readInboundEntry (\<lambda>_. None) item = Inl (''malformed entry'', None)"
    using fields by (simp add: readInboundEntry_def item_def nonempty_text_def)
  have read_null: "readInboundEntry (\<lambda>_. None) WNull = Inl (''malformed entry'', None)" by (simp add: readInboundEntry_def)
  fix ctx :: inbox_context
  define page where "page = WObject [(u16 ''orderedItems'', WArray [item, WNull])]"
  have items: "get ''orderedItems'' page = WArray [item, WNull]"
    by (simp add: page_def get_def lookup_key_def u16_def)
  obtain s where s: "ingestFederatedPage (\<lambda>_. []) (\<lambda>_. None) ctx (\<lambda>db _. (OutStale, db)) (\<lambda>db _. (OutTombstoned, db)) page (0 :: nat)
      = Inr (s, 0)"
    using items by (simp add: ingestFederatedPage_def page_def process_item_def read read_null Let_def)
  from page_accounts [OF this] items cursor have "accounted (is_result s) = 2" "at_most (7, 3) (is_max s)" by auto
  with s show ?thesis by blast
qed

text \<open>One entry can stop a page: a record whose provenance is \<open>null\<close> passes the test that it is an object,
  and reading its instance throws, where every other malformed record is skipped.\<close>

lemma null_provenance_throws:
  assumes "get ''provenance'' (WObject ms) = WNull"
  shows "admitFederatedRecord show_wire reg peer (WObject ms) = Inl (TypeError ''Cannot read properties of null'')"
  using assms by (simp add: admitFederatedRecord_def)

end
