(* ===== verification/Situation_Overlap.thy ===== *)
theory Situation_Overlap
  imports Federation_Admit Geometry
begin

text \<open>
  One measure published by two sources, packages/core/src/situation-overlap.ts: the shape of a record, how much of
  one shape lies along another, and which of two records of one measure survives.

  \<^item> A record is a wire value, as the code reads it; \<open>parse_date\<close> is \<open>Date.parse\<close>, \<open>uc\<close> what the Unicode tables
    say, \<open>show_wire\<close> what \<open>String\<close> makes of a value that is no string.
  \<^item> Distances and cosines are those of the reals; the distance to a shape of no vertex is \<open>None\<close>, for Infinity.
\<close>

subsection \<open>Shapes\<close>

definition COVER_M :: real where "COVER_M = 15"
definition SAME_DAY_H :: real where "SAME_DAY_H = 25"
definition SAME_MONTH_H :: real where "SAME_MONTH_H = 31 * 24"
definition SAMPLES :: nat where "SAMPLES = 64"
definition MAX_VERTICES :: nat where "MAX_VERTICES = 512"
definition POINT_M :: real where "POINT_M = 20"
definition M_PER_DEG :: real where "M_PER_DEG = 111320"

record shape =
  sh_parts :: "position list list"
  sh_bbox :: "real \<times> real \<times> real \<times> real"

text \<open>\<open>([x, y]) => [x, y]\<close>: the first two elements of whatever is iterable, as numbers; \<open>None\<close> is anything else.\<close>

definition number_at :: "wire list \<Rightarrow> nat \<Rightarrow> jsnum option" where
  "number_at xs i = (if i < length xs then (case xs ! i of WNumber n \<Rightarrow> Some n | _ \<Rightarrow> None) else None)"

definition pair_of :: "wire \<Rightarrow> js_error + jsnum option \<times> jsnum option" where
  "pair_of v = (case v of WArray xs \<Rightarrow> Inr (number_at xs 0, number_at xs 1) | WString _ \<Rightarrow> Inr (None, None)
     | _ \<Rightarrow> Inl (TypeError ''not iterable''))"

fun walk_shape :: "wire \<Rightarrow> js_error + (jsnum option \<times> jsnum option) list list" where
  "walk_shape (WArray []) = Inr []"
| "walk_shape (WArray (c # cs)) =
     (if number_at (c # cs) 0 \<noteq> None \<and> number_at (c # cs) 1 \<noteq> None
      then Inr [[(number_at (c # cs) 0, number_at (c # cs) 1)]]
      else if (case c of WArray xs \<Rightarrow> number_at xs 0 \<noteq> None | _ \<Rightarrow> False)
      then bindE (mapE pair_of (c # cs)) (\<lambda>part. Inr [part])
      else bindE (mapE walk_shape (c # cs)) (\<lambda>found. Inr (concat found)))"
| "walk_shape _ = Inr []"

text \<open>A pair that is a longitude and a latitude.\<close>

definition valid_pair :: "jsnum option \<times> jsnum option \<Rightarrow> position option" where
  "valid_pair p = (case p of
     (Some (JNum x), Some (JNum y)) \<Rightarrow> if \<bar>x\<bar> \<le> 180 \<and> \<bar>y\<bar> \<le> 90 then Some (Position x y) else None
   | _ \<Rightarrow> None)"

definition thin :: "nat \<Rightarrow> position list \<Rightarrow> position list" where
  "thin stride part = map (\<lambda>k. part ! k) (filter (\<lambda>k. k mod stride = 0 \<or> k = length part - 1) [0..<length part])"

definition vertices :: "'a list list \<Rightarrow> nat" where
  "vertices parts = sum_list (map length parts)"

definition thinned :: "position list list \<Rightarrow> position list list" where
  "thinned parts = (let total = vertices parts in
     if total > MAX_VERTICES then map (thin (nat \<lceil>real total / real MAX_VERTICES\<rceil>)) parts else parts)"

definition shape_parts :: "wire \<Rightarrow> js_error + (jsnum option \<times> jsnum option) list list" where
  "shape_parts geometry = (case get ''geometries'' geometry of
     WArray gs \<Rightarrow> bindE (mapE (\<lambda>g. walk_shape (get ''coordinates'' g)) gs) (\<lambda>found. Inr (concat found))
   | _ \<Rightarrow> walk_shape (get ''coordinates'' geometry))"

definition shapeOf :: "wire \<Rightarrow> js_error + shape option" where
  "shapeOf rec = (case get ''geometry'' (get ''location'' rec) of
     WObject ms \<Rightarrow> bindE (shape_parts (WObject ms)) (\<lambda>pairs.
       if pairs = [] then Inr None
       else if \<not> list_all (list_all (\<lambda>p. valid_pair p \<noteq> None)) pairs then Inr None
       else if length pairs > MAX_VERTICES then Inr None
       else (let parts = thinned (map (map (\<lambda>p. the (valid_pair p))) pairs) in
         case foldl (\<lambda>acc part. bboxOfPositions part acc) None parts of
           None \<Rightarrow> Inr None
         | Some bbox \<Rightarrow> Inr (Some \<lparr>sh_parts = parts, sh_bbox = bbox\<rparr>)))
   | _ \<Rightarrow> Inr None)"

subsection \<open>How much of one shape lies along another\<close>

definition local :: "position \<Rightarrow> real \<Rightarrow> position" where
  "local p c = Position (pos_x p * M_PER_DEG * c) (pos_y p * M_PER_DEG)"

definition toSegmentM :: "position \<Rightarrow> position \<Rightarrow> position \<Rightarrow> real \<Rightarrow> real" where
  "toSegmentM p a b c =
     (let px = pos_x (local p c); py = pos_y (local p c);
          ax = pos_x (local a c); ay = pos_y (local a c);
          dx = pos_x (local b c) - ax; dy = pos_y (local b c) - ay;
          len2 = dx * dx + dy * dy;
          t = (if len2 = 0 then 0 else max 0 (min 1 (((px - ax) * dx + (py - ay) * dy) / len2)))
      in hypot (px - (ax + t * dx)) (py - (ay + t * dy)))"

definition segments :: "position list \<Rightarrow> (position \<times> position) list" where
  "segments part = (case part of [p] \<Rightarrow> [(p, p)] | _ \<Rightarrow> segments_of part)"

definition toPartM :: "position \<Rightarrow> position list \<Rightarrow> real \<Rightarrow> real option" where
  "toPartM p part c = foldl (\<lambda>best (a, b). closer best (toSegmentM p a b c)) None (segments part)"

definition segment_length :: "real \<Rightarrow> position \<times> position \<Rightarrow> real" where
  "segment_length c e = (case e of (a, b) \<Rightarrow>
     hypot (pos_x (local b c) - pos_x (local a c)) (pos_y (local b c) - pos_y (local a c)))"

definition lengthM :: "position list list \<Rightarrow> real \<Rightarrow> real" where
  "lengthM parts c = sum_list (map (segment_length c) (concat (map segments parts)))"

definition on_segment :: "position \<times> position \<Rightarrow> real \<Rightarrow> position" where
  "on_segment e t = (case e of (a, b) \<Rightarrow>
     Position (pos_x a + (pos_x b - pos_x a) * t) (pos_y a + (pos_y b - pos_y a) * t))"

definition segment_samples :: "real \<Rightarrow> real \<Rightarrow> position \<times> position \<Rightarrow> position list" where
  "segment_samples step c e =
     (let n = (if step > 0 then max 1 (nat \<lceil>segment_length c e / step\<rceil>) else 1)
      in map (\<lambda>k. on_segment e (real k / real n)) [0..<n])"

definition samplesAlong :: "position list list \<Rightarrow> real \<Rightarrow> position list" where
  "samplesAlong parts c =
     (let step = lengthM parts c / real SAMPLES
      in concat (map (\<lambda>part. concat (map (segment_samples step c) (segments part))
           @ (if length part > 1 then [last part] else [])) parts))"

definition near_part :: "real \<Rightarrow> position \<Rightarrow> position list \<Rightarrow> bool" where
  "near_part c p part \<longleftrightarrow> (case toPartM p part c of None \<Rightarrow> False | Some d \<Rightarrow> d \<le> COVER_M)"

definition coverage :: "position list list \<Rightarrow> position list list \<Rightarrow> real \<Rightarrow> real" where
  "coverage a b c =
     (let samples = samplesAlong a c
      in if samples = [] then 0
         else real (length (filter (\<lambda>p. list_ex (near_part c p) b) samples)) / real (length samples))"

definition mid_cos :: "shape \<Rightarrow> real" where
  "mid_cos s = (case sh_bbox s of (_, y0, _, y1) \<Rightarrow> cos ((y0 + y1) / 2 * pi / 180))"

definition shapesNear :: "shape \<Rightarrow> shape \<Rightarrow> bool" where
  "shapesNear a b =
     (let dLat = COVER_M / M_PER_DEG;
          dLon = dLat / max (1 / 10) (mid_cos a)
      in case (sh_bbox a, sh_bbox b) of ((ax0, ay0, ax1, ay1), (bx0, by0, bx1, by1)) \<Rightarrow>
         ax0 - dLon \<le> bx1 \<and> bx0 - dLon \<le> ax1 \<and> ay0 - dLat \<le> by1 \<and> by0 - dLat \<le> ay1)"

subsection \<open>What the records say\<close>

text \<open>\<open>===\<close> of two values of different records: no object is the other's.\<close>

fun strict_eq :: "wire \<Rightarrow> wire \<Rightarrow> bool" where
  "strict_eq (WNumber JNaN) _ = False"
| "strict_eq (WArray _) _ = False"
| "strict_eq (WObject _) _ = False"
| "strict_eq v w = (v = w)"

definition hours :: "(text16 \<Rightarrow> instant) \<Rightarrow> wire \<Rightarrow> real option" where
  "hours parse_date v = (case v of WString t \<Rightarrow> map_option (\<lambda>ms. real_of_int ms / 3600000) (parse_date t) | _ \<Rightarrow> None)"

definition WORKS_OR_CLOSURE :: "string list" where
  "WORKS_OR_CLOSURE = [''roadworks'', ''closure'']"

definition kindsAgree :: "wire \<Rightarrow> wire \<Rightarrow> bool" where
  "kindsAgree a b \<longleftrightarrow> strict_eq a b
     \<or> (one_of WORKS_OR_CLOSURE a \<noteq> None \<and> one_of WORKS_OR_CLOSURE b \<noteq> None)"

definition list_of :: "wire \<Rightarrow> wire list" where
  "list_of v = (case v of WArray xs \<Rightarrow> xs | _ \<Rightarrow> [])"

definition is_object :: "wire \<Rightarrow> bool" where
  "is_object v = (case v of WObject _ \<Rightarrow> True | _ \<Rightarrow> False)"

definition restrictionEvidence :: "wire \<Rightarrow> bool" where
  "restrictionEvidence rec = list_ex (\<lambda>effect. is_object effect
     \<and> (get ''kind'' (get ''applicability'' effect) = WString (u16 ''unknown'')
        \<or> get ''normalization'' effect \<noteq> WString (u16 ''complete''))) (list_of (get ''effects'' rec))"

text \<open>Everything but letters, digits and white space is a space, and the text is split at white space.\<close>

definition words :: "unicode \<Rightarrow> text16 \<Rightarrow> text16 set" where
  "words uc t = set (filter (\<lambda>w. length w > 2) (map units_of (runs (un_word uc) [] (points_of (un_lower uc t)))))"

definition headline_texts :: "wire \<Rightarrow> text16 list" where
  "headline_texts rec = List.map_filter (\<lambda>t. case get ''text'' t of WString s \<Rightarrow> Some s | _ \<Rightarrow> None)
     (list_of (get ''headline'' rec))"

definition texts_agree :: "unicode \<Rightarrow> text16 \<Rightarrow> text16 \<Rightarrow> bool" where
  "texts_agree uc ta tb =
     (let wa = words uc ta; wb = words uc tb
      in if wa = {} \<or> wb = {} then False
         else real (card (wa \<inter> wb)) / (real (card wa) + real (card wb) - real (card (wa \<inter> wb))) \<ge> 1 / 2)"

definition headlinesAgree :: "unicode \<Rightarrow> wire \<Rightarrow> wire \<Rightarrow> bool" where
  "headlinesAgree uc a b = list_ex (\<lambda>ta. list_ex (texts_agree uc ta) (headline_texts b)) (headline_texts a)"

definition road_name_key :: "unicode \<Rightarrow> wire \<Rightarrow> text16 option" where
  "road_name_key uc name = (case (case name of WString t \<Rightarrow> WString t | v \<Rightarrow> get ''text'' v) of
     WString t \<Rightarrow> if trim16 t = [] then None else Some (un_lower uc (strip_spaces t)) | _ \<Rightarrow> None)"

definition road_keys_of :: "unicode \<Rightarrow> wire \<Rightarrow> text16 list" where
  "road_keys_of uc road =
     (case get ''ref'' road of WString t \<Rightarrow> [un_lower uc (strip_spaces t)] | _ \<Rightarrow> []) @
     List.map_filter (road_name_key uc) (case get ''name'' road of WArray ns \<Rightarrow> ns | v \<Rightarrow> [v])"

definition roadKeys :: "unicode \<Rightarrow> wire \<Rightarrow> text16 set" where
  "roadKeys uc rec = set (concat (map (road_keys_of uc) (list_of (get ''roads'' (get ''location'' rec)))))"

definition roadsConflict :: "unicode \<Rightarrow> wire \<Rightarrow> wire \<Rightarrow> bool" where
  "roadsConflict uc a b \<longleftrightarrow> roadKeys uc a \<noteq> {} \<and> roadKeys uc b \<noteq> {} \<and> roadKeys uc a \<inter> roadKeys uc b = {}"

definition sourceOf :: "wire \<Rightarrow> wire" where
  "sourceOf rec = get ''sourceId'' (get ''provenance'' rec)"

definition stated :: "wire \<Rightarrow> bool" where
  "stated effects \<longleftrightarrow> list_of effects \<noteq> []"

text \<open>A Set keeps every object apart, and one of each other value.\<close>

fun set_values :: "wire list \<Rightarrow> wire list \<Rightarrow> wire list" where
  "set_values seen [] = []"
| "set_values seen (v # vs) =
     (if \<not> is_object v \<and> (case v of WArray _ \<Rightarrow> False | _ \<Rightarrow> v \<in> set seen) then set_values seen vs
      else v # set_values (v # seen) vs)"

definition string_of :: "(wire \<Rightarrow> text16) \<Rightarrow> wire \<Rightarrow> text16" where
  "string_of show_wire v = (case v of WUndefined \<Rightarrow> u16 ''undefined'' | WNull \<Rightarrow> u16 ''null'' | _ \<Rightarrow> texts show_wire v)"

definition join_commas :: "text16 list \<Rightarrow> text16" where
  "join_commas ts = (case ts of [] \<Rightarrow> [] | t # rest \<Rightarrow> t @ concat (map (\<lambda>r. 44 # r) rest))"

definition effectKinds :: "(wire \<Rightarrow> text16) \<Rightarrow> wire \<Rightarrow> text16" where
  "effectKinds show_wire rec = join_commas (js_sort unit_cmp (map (string_of show_wire)
     (set_values [] (map (get ''kind'') (list_of (get ''effects'' rec))))))"

subsection \<open>One measure\<close>

text \<open>The dates of two records: on the same days, or one of them on the same day and the other in the same month.\<close>

definition same_days :: "real \<Rightarrow> real \<Rightarrow> real \<Rightarrow> real \<Rightarrow> bool \<times> bool" where
  "same_days startA endA startB endB =
     (let dStart = \<bar>startA - startB\<bar>; dEnd = \<bar>endA - endB\<bar>;
          day = min SAME_DAY_H (min (endA - startA) (endB - startB) / 2)
      in (dStart \<le> day \<and> dEnd \<le> day,
          (dStart \<le> day \<and> dEnd \<le> SAME_MONTH_H) \<or> (dEnd \<le> day \<and> dStart \<le> SAME_MONTH_H)))"

definition survivor :: "wire \<Rightarrow> wire \<Rightarrow> real \<Rightarrow> real \<Rightarrow> wire" where
  "survivor a b aInB bInA =
     (if restrictionEvidence a then a else if restrictionEvidence b then b
      else if stated (get ''effects'' a) then a else if stated (get ''effects'' b) then b
      else if aInB > bInA then b else a)"

definition places_agree :: "unicode \<Rightarrow> bool \<Rightarrow> wire \<Rightarrow> shape \<Rightarrow> wire \<Rightarrow> shape \<Rightarrow> bool" where
  "places_agree uc sameDays a sa b sb =
     (let c = mid_cos sa;
          aInB = coverage (sh_parts sa) (sh_parts sb) c;
          bInA = coverage (sh_parts sb) (sh_parts sa) c;
          point = lengthM (sh_parts sa) c < POINT_M \<or> lengthM (sh_parts sb) c < POINT_M
      in \<not> max aInB bInA < (if sameDays then 8 / 10 else 6 / 10)
         \<and> \<not> (\<not> point \<and> min aInB bInA < 3 / 10)
         \<and> \<not> (point \<and> (\<not> headlinesAgree uc a b \<or> roadsConflict uc a b)))"

definition sameMeasureAcrossSources ::
  "unicode \<Rightarrow> (text16 \<Rightarrow> instant) \<Rightarrow> (wire \<Rightarrow> text16) \<Rightarrow> wire \<Rightarrow> shape \<Rightarrow> wire \<Rightarrow> shape \<Rightarrow> wire option" where
  "sameMeasureAcrossSources uc parse_date show_wire a sa b sb =
     (if strict_eq (sourceOf a) (sourceOf b) \<or> \<not> kindsAgree (get ''kind'' a) (get ''kind'' b) then None
      else if stated (get ''effects'' a) \<and> stated (get ''effects'' b)
        \<and> effectKinds show_wire a \<noteq> effectKinds show_wire b then None
      else if restrictionEvidence a \<and> restrictionEvidence b then None
      else let va = get ''validity'' a; vb = get ''validity'' b in
        case (hours parse_date (get ''start'' va), hours parse_date (get ''end'' va),
              hours parse_date (get ''start'' vb), hours parse_date (get ''end'' vb)) of
          (Some startA, Some endA, Some startB, Some endB) \<Rightarrow>
            (case same_days startA endA startB endB of (sameDays, oneDay) \<Rightarrow>
              if \<not> sameDays \<and> \<not> (oneDay \<and> headlinesAgree uc a b) then None
              else if \<not> shapesNear sa sb then None
              else if \<not> places_agree uc sameDays a sa b sb then None
              else Some (survivor a b (coverage (sh_parts sa) (sh_parts sb) (mid_cos sa))
                     (coverage (sh_parts sb) (sh_parts sa) (mid_cos sa))))
        | _ \<Rightarrow> None)"

subsection \<open>What a shape is\<close>

lemma mapE_concat_all:
  assumes "mapE f xs = Inr yss" and "\<And>x ys. x \<in> set xs \<Longrightarrow> f x = Inr ys \<Longrightarrow> \<forall>y \<in> set ys. P y"
  shows "\<forall>y \<in> set (concat yss). P y"
  using assms by (induction xs arbitrary: yss) fastforce+

lemma walk_shape_parts: "walk_shape v = Inr parts \<Longrightarrow> \<forall>part \<in> set parts. part \<noteq> []"
proof (induction v arbitrary: parts rule: walk_shape.induct)
  case (2 c cs)
  consider (point) "parts = [[(number_at (c # cs) 0, number_at (c # cs) 1)]]"
    | (line) part where "mapE pair_of (c # cs) = Inr part" "parts = [part]"
    | (nested) found where "mapE walk_shape (c # cs) = Inr found" "parts = concat found"
        "\<not> (number_at (c # cs) 0 \<noteq> None \<and> number_at (c # cs) 1 \<noteq> None)"
        "\<not> (case c of WArray xs \<Rightarrow> number_at xs 0 \<noteq> None | _ \<Rightarrow> False)"
    using "2.prems" by (auto simp: bindE_eq_Inr split: if_splits)
  then show ?case
  proof cases
    case line
    then show ?thesis by (auto dest: mapE_length)
  next
    case nested
    have "\<forall>part \<in> set ps. part \<noteq> []" if "x \<in> set (c # cs)" "walk_shape x = Inr ps" for x ps
      using "2.IH" [OF _ _ that] nested(3,4) by blast
    then show ?thesis using mapE_concat_all [OF nested(1)] nested(2) by blast
  qed simp
qed simp_all

lemma shape_parts_nonempty: "shape_parts g = Inr parts \<Longrightarrow> \<forall>part \<in> set parts. part \<noteq> []"
proof (cases "get ''geometries'' g")
  case (WArray gs)
  assume "shape_parts g = Inr parts"
  then obtain found where found: "mapE (\<lambda>g. walk_shape (get ''coordinates'' g)) gs = Inr found" and parts: "parts = concat found"
    by (auto simp: shape_parts_def WArray)
  from mapE_concat_all [OF found, of "\<lambda>part. part \<noteq> []"] walk_shape_parts show ?thesis unfolding parts by blast
qed (simp_all add: shape_parts_def walk_shape_parts)

lemma multiples_below:
  assumes "0 < s"
  shows "s * length (filter (\<lambda>k. k mod s = 0) [0..<n]) \<le> n + s - 1"
proof (induction n)
  case (Suc n)
  let ?c = "length (filter (\<lambda>k. k mod s = 0) [0..<n])"
  show ?case
  proof (cases "n mod s = 0")
    case True
    then obtain q where q: "n = s * q" by auto
    have "?c \<le> q"
    proof (rule ccontr)
      assume "\<not> ?c \<le> q"
      then have "s * Suc q \<le> s * ?c" by (intro mult_le_mono2) simp
      with Suc.IH assms show False by (simp add: q)
    qed
    then have "s * ?c \<le> n" by (simp add: q)
    with True show ?thesis by simp
  next
    case False
    with Suc.IH show ?thesis by simp
  qed
qed simp

lemma filter_disj_length: "length (filter (\<lambda>x. P x \<or> Q x) xs) \<le> length (filter P xs) + length (filter Q xs)"
  by (induction xs) auto

lemma filter_one_length: "distinct xs \<Longrightarrow> length (filter (\<lambda>x. x = m) xs) \<le> 1"
  by (induction xs) (auto simp: filter_empty_conv)

lemma thin_length:
  assumes "0 < s"
  shows "real (length (thin s part)) \<le> real (length part) / real s + 2"
proof -
  let ?n = "length part"
  let ?c = "length (filter (\<lambda>k. k mod s = 0) [0..<?n])"
  have "length (thin s part) \<le> ?c + length (filter (\<lambda>k. k = ?n - 1) [0..<?n])"
    unfolding thin_def length_map by (rule filter_disj_length)
  also have "\<dots> \<le> ?c + 1" using filter_one_length [of "[0..<?n]" "?n - 1"] by simp
  finally have le: "real (length (thin s part)) \<le> real ?c + 1" by linarith
  have "real s * real ?c \<le> real (?n + s - 1)"
    using multiples_below [OF assms, of ?n] by (metis of_nat_le_iff of_nat_mult)
  also have "\<dots> \<le> real ?n + real s" by simp
  finally have "real ?c \<le> real ?n / real s + 1" using assms by (simp add: field_simps)
  with le show ?thesis by simp
qed

lemma thin_nonempty: "part \<noteq> [] \<Longrightarrow> thin s part \<noteq> []"
  by (auto simp: thin_def filter_empty_conv)

lemma thin_subset: "set (thin s part) \<subseteq> set part"
  by (auto simp: thin_def)

lemma thinned_parts:
  assumes "length parts \<le> MAX_VERTICES"
  shows "length (thinned parts) = length parts" "\<forall>part \<in> set parts. part \<noteq> [] \<Longrightarrow> \<forall>part \<in> set (thinned parts). part \<noteq> []"
    "vertices (thinned parts) \<le> 3 * MAX_VERTICES" "set (concat (thinned parts)) \<subseteq> set (concat parts)"
proof -
  show "length (thinned parts) = length parts" by (simp add: thinned_def Let_def)
  show "\<forall>part \<in> set (thinned parts). part \<noteq> []" if "\<forall>part \<in> set parts. part \<noteq> []"
    using that thin_nonempty by (auto simp: thinned_def Let_def)
  show "set (concat (thinned parts)) \<subseteq> set (concat parts)"
    using thin_subset by (cases "vertices parts > MAX_VERTICES") (auto simp: thinned_def Let_def)
  show "vertices (thinned parts) \<le> 3 * MAX_VERTICES"
  proof (cases "vertices parts > MAX_VERTICES")
    case True
    let ?s = "nat \<lceil>real (vertices parts) / real MAX_VERTICES\<rceil>"
    define s where "s = ?s"
    have s: "0 < ?s" using True by (simp add: MAX_VERTICES_def)
    have "real (vertices parts) / real MAX_VERTICES \<le> real s" unfolding s_def by linarith
    then have share: "real (vertices parts) / real ?s \<le> real MAX_VERTICES"
      using s unfolding s_def [symmetric] by (simp add: field_simps MAX_VERTICES_def)
    have "real (vertices (map (thin ?s) ps)) \<le> real (vertices ps) / real ?s + 2 * real (length ps)" for ps
    proof (induction ps)
      case (Cons p ps)
      then show ?case using thin_length [OF s, of p] by (simp add: vertices_def add_divide_distrib)
    qed (simp add: vertices_def)
    from this [of parts] share assms have "real (vertices (thinned parts)) \<le> 3 * real MAX_VERTICES"
      using True by (simp add: thinned_def Let_def)
    then show ?thesis by simp
  qed (simp add: thinned_def Let_def)
qed

text \<open>A shape of many short parts keeps every vertex, twice the number the constant names.\<close>

lemma short_parts_kept: "vertices (thinned (replicate 512 [p, q])) = 1024"
proof -
  have "vertices (replicate 512 [p, q]) = 1024" by (simp add: vertices_def sum_list_replicate)
  moreover have "thin 2 [p, q] = [p, q]" by (simp add: thin_def upt_rec)
  ultimately show ?thesis by (simp add: thinned_def Let_def MAX_VERTICES_def vertices_def sum_list_replicate)
qed

definition inside_box :: "real \<times> real \<times> real \<times> real \<Rightarrow> position \<Rightarrow> bool" where
  "inside_box box p = (case box of (x0, y0, x1, y1) \<Rightarrow> x0 \<le> pos_x p \<and> pos_x p \<le> x1 \<and> y0 \<le> pos_y p \<and> pos_y p \<le> y1)"

lemma grow_bbox_grows:
  obtains box where "grow_bbox acc p = Some box" "inside_box box p" "\<And>b q. acc = Some b \<Longrightarrow> inside_box b q \<Longrightarrow> inside_box box q"
proof (cases acc)
  case None
  then show thesis by (intro that [of "(pos_x p, pos_y p, pos_x p, pos_y p)"]) (simp_all add: grow_bbox_def inside_box_def)
next
  case (Some b)
  obtain x0 y0 x1 y1 where "b = (x0, y0, x1, y1)" by (cases b)
  with Some show thesis
    by (intro that [of "(min (pos_x p) x0, min (pos_y p) y0, max (pos_x p) x1, max (pos_y p) y1)"])
      (auto simp: grow_bbox_def inside_box_def)
qed

lemma bboxOfPositions_Cons: "bboxOfPositions (p # ps) acc = bboxOfPositions ps (grow_bbox acc p)"
  by (simp add: bboxOfPositions_def)

lemma bboxOfPositions_grows:
  "bboxOfPositions ps acc = Some box \<Longrightarrow>
     (\<forall>p \<in> set ps. inside_box box p) \<and> (\<forall>b. acc = Some b \<longrightarrow> (\<forall>p. inside_box b p \<longrightarrow> inside_box box p))"
proof (induction ps arbitrary: acc)
  case (Cons p ps)
  obtain b where b: "grow_bbox acc p = Some b" "inside_box b p" "\<And>b' q. acc = Some b' \<Longrightarrow> inside_box b' q \<Longrightarrow> inside_box b q"
    by (rule grow_bbox_grows [of acc p]) blast
  from Cons.prems Cons.IH [of "grow_bbox acc p"] b show ?case by (simp add: bboxOfPositions_Cons)
qed (simp add: bboxOfPositions_def)

lemma bboxOfPositions_None: "bboxOfPositions ps acc = None \<Longrightarrow> ps = [] \<and> acc = None"
proof (induction ps arbitrary: acc)
  case (Cons p ps)
  obtain b where "grow_bbox acc p = Some b" by (rule grow_bbox_grows [of acc p])
  with Cons show ?case by (auto simp: bboxOfPositions_Cons)
qed (simp add: bboxOfPositions_def)

lemma fold_bbox:
  "foldl (\<lambda>acc part. bboxOfPositions part acc) acc parts = Some box \<Longrightarrow>
     (\<forall>p \<in> set (concat parts). inside_box box p) \<and> (\<forall>b. acc = Some b \<longrightarrow> (\<forall>p. inside_box b p \<longrightarrow> inside_box box p))"
proof (induction parts arbitrary: acc)
  case (Cons part parts)
  show ?case
  proof (cases "bboxOfPositions part acc")
    case None
    then have "part = [] \<and> acc = None" by (rule bboxOfPositions_None)
    then show ?thesis using Cons None by simp
  next
    case (Some b)
    from bboxOfPositions_grows [OF this] Cons.IH [of "Some b"] Cons.prems Some show ?thesis by auto
  qed
qed simp

text \<open>A shape is what the comparison needs: lines, rings and points that each have a vertex, all of them longitudes
  and latitudes, inside the box the shape carries; and however large the record, the comparison costs
  a bounded number of vertices, three times the number the constant names.\<close>

theorem shape_wf:
  assumes "shapeOf rec = Inr (Some sh)"
  shows "sh_parts sh \<noteq> [] \<and> length (sh_parts sh) \<le> MAX_VERTICES \<and> vertices (sh_parts sh) \<le> 3 * MAX_VERTICES
    \<and> (\<forall>part \<in> set (sh_parts sh). part \<noteq> []
        \<and> (\<forall>p \<in> set part. \<bar>pos_x p\<bar> \<le> 180 \<and> \<bar>pos_y p\<bar> \<le> 90 \<and> inside_box (sh_bbox sh) p))"
proof -
  obtain ms pairs where pairs: "shape_parts (WObject ms) = Inr pairs" and some: "pairs \<noteq> []"
      and valid: "list_all (list_all (\<lambda>p. valid_pair p \<noteq> None)) pairs" and few: "length pairs \<le> MAX_VERTICES"
      and parts: "sh_parts sh = thinned (map (map (\<lambda>p. the (valid_pair p))) pairs)"
      and box: "foldl (\<lambda>acc part. bboxOfPositions part acc) None (sh_parts sh) = Some (sh_bbox sh)"
    using assms by (auto simp: shapeOf_def bindE_eq_Inr Let_def split: wire.splits if_splits option.splits)
  let ?all = "map (map (\<lambda>p. the (valid_pair p))) pairs"
  have nonempty: "\<forall>part \<in> set ?all. part \<noteq> []" using shape_parts_nonempty [OF pairs] by auto
  have range: "\<bar>pos_x p\<bar> \<le> 180 \<and> \<bar>pos_y p\<bar> \<le> 90" if p: "p \<in> set (concat ?all)" for p
  proof -
    from p obtain part q where "part \<in> set pairs" "q \<in> set part" and p': "p = the (valid_pair q)" by auto
    then have "valid_pair q \<noteq> None" using valid by (auto simp: list_all_iff)
    then show ?thesis
      unfolding p' by (auto simp: valid_pair_def split: prod.splits option.splits jsnum.splits if_splits)
  qed
  have few': "length ?all \<le> MAX_VERTICES" using few by simp
  note th = thinned_parts [OF few']
  have inside: "inside_box (sh_bbox sh) p" if "p \<in> set (concat (sh_parts sh))" for p
    using fold_bbox [OF box] that by blast
  have "\<bar>pos_x p\<bar> \<le> 180 \<and> \<bar>pos_y p\<bar> \<le> 90 \<and> inside_box (sh_bbox sh) p" if "part \<in> set (sh_parts sh)" "p \<in> set part" for part p
  proof -
    have p: "p \<in> set (concat (sh_parts sh))" using that by auto
    then have "p \<in> set (concat ?all)" using th(4) unfolding parts by blast
    then show ?thesis using range inside [OF p] by blast
  qed
  moreover have "sh_parts sh \<noteq> []" "length (sh_parts sh) \<le> MAX_VERTICES"
    using th(1) some few unfolding parts by auto
  ultimately show ?thesis using th(3) th(2) [OF nonempty] unfolding parts by blast
qed

lemma shape_wf_witness:
  "\<exists>rec sh. shapeOf rec = Inr (Some sh) \<and> sh_parts sh = [[Position 7 50]] \<and> vertices (sh_parts sh) \<le> 3 * MAX_VERTICES"
proof -
  define coords where "coords = WArray [WNumber (JNum 7), WNumber (JNum 50)]"
  define geometry where "geometry = WObject [(u16 ''coordinates'', coords)]"
  define rec where "rec = WObject [(u16 ''location'', WObject [(u16 ''geometry'', geometry)])]"
  have fields: "get ''geometry'' (get ''location'' rec) = geometry" "get ''geometries'' geometry = WUndefined"
      "get ''coordinates'' geometry = coords"
    by (simp_all add: rec_def geometry_def get_def lookup_key_def u16_def)
  have pairs: "shape_parts geometry = Inr [[(Some (JNum 7), Some (JNum 50))]]"
    by (simp add: shape_parts_def fields coords_def number_at_def)
  define sh where "sh = \<lparr>sh_parts = [[Position 7 50]], sh_bbox = (7, 50, 7, 50)\<rparr>"
  have shape: "shapeOf rec = Inr (Some sh)"
    using pairs fields(1) unfolding geometry_def
    by (simp add: shapeOf_def valid_pair_def MAX_VERTICES_def thinned_def vertices_def bboxOfPositions_def grow_bbox_def sh_def)
  from shape_wf [OF this] show ?thesis using shape by (intro exI [of _ rec] exI [of _ sh]) (simp add: sh_def)
qed

subsection \<open>What lies along what\<close>

text \<open>The metres between two positions, and the positions of a shape's lines and points.\<close>

definition metres :: "real \<Rightarrow> position \<Rightarrow> position \<Rightarrow> real" where
  "metres c p q = hypot (pos_x (local p c) - pos_x (local q c)) (pos_y (local p c) - pos_y (local q c))"

definition on_shape :: "position list list \<Rightarrow> position \<Rightarrow> bool" where
  "on_shape parts q \<longleftrightarrow> (\<exists>part \<in> set parts. \<exists>e \<in> set (segments part). \<exists>t. 0 \<le> t \<and> t \<le> 1 \<and> q = on_segment e t)"

definition shifted :: "position \<Rightarrow> real \<Rightarrow> position \<Rightarrow> position" where
  "shifted p c a = Position (pos_x (local a c) - pos_x (local p c)) (pos_y (local a c) - pos_y (local p c))"

lemma hypot_minus: "hypot (- x) (- y) = hypot x y"
  by (simp add: hypot_def)

lemma toSegmentM_shifted: "toSegmentM p a b c = toSegment (shifted p c a) (shifted p c b)"
proof -
  let ?ax = "pos_x (local a c) - pos_x (local p c)" and ?ay = "pos_y (local a c) - pos_y (local p c)"
  let ?dx = "pos_x (local b c) - pos_x (local a c)" and ?dy = "pos_y (local b c) - pos_y (local a c)"
  have foot: "((pos_x (local p c) - pos_x (local a c)) * ?dx + (pos_y (local p c) - pos_y (local a c)) * ?dy)
      = - (?ax * ?dx + ?ay * ?dy)" by (simp add: algebra_simps)
  define t where "t = (if ?dx * ?dx + ?dy * ?dy = 0 then 0
    else max 0 (min 1 (- (?ax * ?dx + ?ay * ?dy) / (?dx * ?dx + ?dy * ?dy))))"
  have "toSegmentM p a b c = hypot (pos_x (local p c) - (pos_x (local a c) + t * ?dx)) (pos_y (local p c) - (pos_y (local a c) + t * ?dy))"
    unfolding toSegmentM_def Let_def foot t_def ..
  also have "\<dots> = hypot (?ax + t * ?dx) (?ay + t * ?dy)"
    by (subst hypot_minus [symmetric]) (simp add: algebra_simps)
  also have "\<dots> = toSegment (shifted p c a) (shifted p c b)"
    by (simp add: toSegment_def shifted_def Let_def t_def)
  finally show ?thesis .
qed

lemma edge_point_metres: "edge_point (shifted p c a, shifted p c b) t = metres c (on_segment (a, b) t) p"
  by (simp add: edge_point_def shifted_def metres_def on_segment_def local_def algebra_simps)

lemma metres_commute: "metres c p q = metres c q p"
  unfolding metres_def by (subst hypot_minus [symmetric]) simp

lemma toPartM_least:
  "least_of (toPartM p part c) {metres c p (on_segment e t) | e t. e \<in> set (segments part) \<and> 0 \<le> t \<and> t \<le> 1}"
proof -
  have fn: "(\<lambda>best (a, b). closer best (toSegmentM p a b c)) = (\<lambda>best e. closer best (toSegmentM p (fst e) (snd e) c))"
    by (simp add: fun_eq_iff split: prod.split)
  have "toSegmentM p (fst e) (snd e) c \<in> {metres c p (on_segment e t) | t. 0 \<le> t \<and> t \<le> 1}
      \<and> (\<forall>y \<in> {metres c p (on_segment e t) | t. 0 \<le> t \<and> t \<le> 1}. toSegmentM p (fst e) (snd e) c \<le> y)" for e
    using toSegment_least [where p = "shifted p c (fst e)" and q = "shifted p c (snd e)"]
    unfolding toSegmentM_shifted by (cases e) (auto simp: edge_point_metres metres_commute [of c p])
  from least_of_fold [of None "{}" "segments part", OF _ this]
  have "least_of (toPartM p part c) ({} \<union> (\<Union>e \<in> set (segments part). {metres c p (on_segment e t) | t. 0 \<le> t \<and> t \<le> 1}))"
    unfolding toPartM_def fn by (simp add: least_of_def)
  moreover have "{} \<union> (\<Union>e \<in> set (segments part). {metres c p (on_segment e t) | t. 0 \<le> t \<and> t \<le> 1})
      = {metres c p (on_segment e t) | e t. e \<in> set (segments part) \<and> 0 \<le> t \<and> t \<le> 1}" by auto
  ultimately show ?thesis by simp
qed

lemma near_part_iff:
  "near_part c p part \<longleftrightarrow> (\<exists>e \<in> set (segments part). \<exists>t. 0 \<le> t \<and> t \<le> 1 \<and> metres c p (on_segment e t) \<le> COVER_M)"
  using toPartM_least [of p part c] by (fastforce simp: near_part_def least_of_def split: option.splits)

lemma near_shape_iff: "list_ex (near_part c p) parts \<longleftrightarrow> (\<exists>q. on_shape parts q \<and> metres c p q \<le> COVER_M)"
  unfolding list_ex_iff near_part_iff on_shape_def by blast

lemma last_on_segment:
  assumes "length part > 1"
  shows "\<exists>e \<in> set (segments part). last part = on_segment e 1"
proof -
  obtain as a b where part: "part = as @ [a, b]"
    using assms by (metis append_butlast_last_id append_assoc append_Cons append_Nil butlast.simps(1) length_0_conv
      length_butlast less_numeral_extra(3) list.size(3) zero_less_diff)
  have "(a, b) \<in> set (segments_of (as @ [a, b]))"
  proof (induction as)
    case (Cons x as)
    then show ?case by (cases as) (simp_all add: segments_of_def)
  qed (simp add: segments_of_def)
  moreover have "segments part = segments_of part"
    using assms by (auto simp: segments_def split: list.splits)
  ultimately show ?thesis unfolding part by (intro bexI [of _ "(a, b)"]) (simp_all add: on_segment_def)
qed

lemma samples_on_shape: "p \<in> set (samplesAlong parts c) \<Longrightarrow> on_shape parts p"
proof -
  assume "p \<in> set (samplesAlong parts c)"
  then obtain part where part: "part \<in> set parts" and p: "(\<exists>e \<in> set (segments part). p \<in> set (segment_samples (lengthM parts c / real SAMPLES) c e))
      \<or> (length part > 1 \<and> p = last part)"
    by (auto simp: samplesAlong_def Let_def split: if_splits)
  from p show "on_shape parts p"
  proof
    assume "\<exists>e \<in> set (segments part). p \<in> set (segment_samples (lengthM parts c / real SAMPLES) c e)"
    then obtain e k n where "e \<in> set (segments part)" "k < n" "p = on_segment e (real k / real n)"
      by (auto simp: segment_samples_def Let_def)
    then show ?thesis using part unfolding on_shape_def
      by (intro bexI [of _ part] bexI [of _ e] exI [of _ "real k / real n"]) simp_all
  next
    assume "length part > 1 \<and> p = last part"
    then show ?thesis using last_on_segment [of part] part unfolding on_shape_def
      by (auto intro!: bexI [of _ part] exI [of _ "1 :: real"])
  qed
qed

text \<open>Positions spread over the whole of a shape: every segment in the fewest equal pieces of which none is longer than a 64th of
  the whole length, each taken at its start, and the end of every part that is a line.\<close>

definition pieces :: "real \<Rightarrow> real \<Rightarrow> nat" where
  "pieces len step = (LEAST n. 1 \<le> n \<and> (0 < step \<longrightarrow> len \<le> real n * step))"

definition spread_over :: "real \<Rightarrow> position list list \<Rightarrow> position list" where
  "spread_over c parts =
     (let total = (\<Sum>part \<leftarrow> parts. \<Sum>e \<leftarrow> segments part. segment_length c e);
          along = (\<lambda>e. let n = pieces (segment_length c e) (total / 64) in map (\<lambda>k. on_segment e (real k / real n)) [0..<n])
      in concat (map (\<lambda>part. concat (map along (segments part)) @ (if 1 < length part then [last part] else [])) parts))"

text \<open>At least a share of the positions spread over the one shape lie within 15 m of some position of the other.\<close>

definition lies_along :: "real \<Rightarrow> real \<Rightarrow> position list list \<Rightarrow> position list list \<Rightarrow> bool" where
  "lies_along share c a b \<longleftrightarrow> spread_over c a \<noteq> []
     \<and> share * real (length (spread_over c a)) \<le> real (length (filter (\<lambda>p. \<exists>q. on_shape b q \<and> metres c p q \<le> 15) (spread_over c a)))"

lemma pieces_eq: "pieces len step = (if step > 0 then max 1 (nat \<lceil>len / step\<rceil>) else 1)"
proof (cases "0 < step")
  case True
  then have "len \<le> real n * step \<longleftrightarrow> len / step \<le> real n" for n by (simp add: pos_divide_le_eq)
  then have "1 \<le> n \<and> (0 < step \<longrightarrow> len \<le> real n * step) \<longleftrightarrow> max 1 (nat \<lceil>len / step\<rceil>) \<le> n" for n
    using True by (auto simp: ceiling_le_iff nat_le_iff)
  then have "pieces len step = (LEAST n. max 1 (nat \<lceil>len / step\<rceil>) \<le> n)" unfolding pieces_def by simp
  also have "\<dots> = max 1 (nat \<lceil>len / step\<rceil>)" by (rule Least_equality) simp_all
  finally show ?thesis using True by simp
next
  case False
  then show ?thesis unfolding pieces_def by (simp, intro Least_equality) simp_all
qed

lemma samples_spread: "samplesAlong parts c = spread_over c parts"
proof -
  have "lengthM parts c = (\<Sum>part \<leftarrow> parts. \<Sum>e \<leftarrow> segments part. segment_length c e)"
    unfolding lengthM_def by (induction parts) simp_all
  moreover have "segment_samples step c = (\<lambda>e. let n = pieces (segment_length c e) step in map (\<lambda>k. on_segment e (real k / real n)) [0..<n])" for step
    by (simp add: fun_eq_iff segment_samples_def pieces_eq)
  ultimately show ?thesis by (simp add: samplesAlong_def spread_over_def SAMPLES_def Let_def)
qed

lemma coverage_along:
  assumes "share \<le> coverage a b c" and "0 < share"
  shows "lies_along share c a b"
proof -
  let ?s = "samplesAlong a c"
  have some: "?s \<noteq> []" using assms by (auto simp: coverage_def)
  then have "share * real (length ?s) \<le> real (length (filter (\<lambda>p. list_ex (near_part c p) b) ?s))"
    using assms(1) by (simp add: coverage_def Let_def field_simps)
  then show ?thesis
    using some unfolding lies_along_def near_shape_iff COVER_M_def samples_spread by blast
qed

lemma metres_same [simp]: "metres c p p = 0"
  by (simp add: metres_def)

lemma coverage_self:
  assumes "samplesAlong a c \<noteq> []"
  shows "coverage a a c = 1"
proof -
  have "list_ex (near_part c p) a" if "p \<in> set (samplesAlong a c)" for p
    unfolding near_shape_iff using samples_on_shape [OF that] by (intro exI [of _ p]) (simp add: COVER_M_def)
  then show ?thesis using assms by (simp add: coverage_def Let_def cong: filter_cong)
qed

definition stated_hours :: "(text16 \<Rightarrow> instant) \<Rightarrow> wire \<Rightarrow> real \<Rightarrow> real \<Rightarrow> bool" where
  "stated_hours parse_date rec from till \<longleftrightarrow>
     hours parse_date (get ''start'' (get ''validity'' rec)) = Some from
     \<and> hours parse_date (get ''end'' (get ''validity'' rec)) = Some till"

lemma restriction_stated: "restrictionEvidence rec \<Longrightarrow> stated (get ''effects'' rec)"
  by (auto simp: restrictionEvidence_def stated_def)

text \<open>C35. When a record is folded into another source's, what is dropped is not what routing needs: it carries no
  restriction evidence, and it states effects only when the survivor does, of the same kinds. Both
  state their dates, one of them within a day and at most half the shorter record of the other's, the
  other within a month; and one of the two lies along the other: of the positions spread evenly over the segments of its
  whole line, a 64th of its length apart at most, at least 60 % are within 15 m of a position of the other. Records whose
  headlines disagree are on the same days, one lies along the other for 80 %, and neither is a point.\<close>

theorem folded_measure:
  assumes "sameMeasureAcrossSources uc parse_date show_wire a sa b sb = Some kept"
  shows "\<exists>dropped. ((kept = a \<and> dropped = b) \<or> (kept = b \<and> dropped = a))
    \<and> \<not> strict_eq (sourceOf a) (sourceOf b) \<and> kindsAgree (get ''kind'' a) (get ''kind'' b)
    \<and> \<not> restrictionEvidence dropped
    \<and> (stated (get ''effects'' dropped) \<longrightarrow> stated (get ''effects'' kept) \<and> effectKinds show_wire a = effectKinds show_wire b)
    \<and> (\<exists>startA endA startB endB. stated_hours parse_date a startA endA \<and> stated_hours parse_date b startB endB
        \<and> \<bar>startA - startB\<bar> \<le> SAME_MONTH_H \<and> \<bar>endA - endB\<bar> \<le> SAME_MONTH_H
        \<and> min \<bar>startA - startB\<bar> \<bar>endA - endB\<bar> \<le> min SAME_DAY_H (min (endA - startA) (endB - startB) / 2)
        \<and> (\<not> headlinesAgree uc a b \<longrightarrow> max \<bar>startA - startB\<bar> \<bar>endA - endB\<bar> \<le> min SAME_DAY_H (min (endA - startA) (endB - startB) / 2)))
    \<and> (lies_along (6 / 10) (mid_cos sa) (sh_parts sa) (sh_parts sb) \<or> lies_along (6 / 10) (mid_cos sa) (sh_parts sb) (sh_parts sa))
    \<and> (\<not> headlinesAgree uc a b \<longrightarrow> POINT_M \<le> lengthM (sh_parts sa) (mid_cos sa) \<and> POINT_M \<le> lengthM (sh_parts sb) (mid_cos sa)
        \<and> (lies_along (8 / 10) (mid_cos sa) (sh_parts sa) (sh_parts sb) \<or> lies_along (8 / 10) (mid_cos sa) (sh_parts sb) (sh_parts sa)))"
proof -
  let ?c = "mid_cos sa"
  obtain startA endA startB endB sameDays oneDay where hrs: "stated_hours parse_date a startA endA" "stated_hours parse_date b startB endB"
    and days: "same_days startA endA startB endB = (sameDays, oneDay)"
      "sameDays \<or> (oneDay \<and> headlinesAgree uc a b)"
    and places: "places_agree uc sameDays a sa b sb"
    and gates: "\<not> strict_eq (sourceOf a) (sourceOf b)" "kindsAgree (get ''kind'' a) (get ''kind'' b)"
      "\<not> (restrictionEvidence a \<and> restrictionEvidence b)"
      "stated (get ''effects'' a) \<and> stated (get ''effects'' b) \<longrightarrow> effectKinds show_wire a = effectKinds show_wire b"
    and kept: "kept = survivor a b (coverage (sh_parts sa) (sh_parts sb) ?c) (coverage (sh_parts sb) (sh_parts sa) ?c)"
    using assms by (auto simp: sameMeasureAcrossSources_def stated_hours_def Let_def split: if_splits option.splits prod.splits)
  have dropped: "\<exists>dropped. ((kept = a \<and> dropped = b) \<or> (kept = b \<and> dropped = a)) \<and> \<not> restrictionEvidence dropped
    \<and> (stated (get ''effects'' dropped) \<longrightarrow> stated (get ''effects'' kept) \<and> effectKinds show_wire a = effectKinds show_wire b)"
    unfolding kept survivor_def using gates(3,4) restriction_stated by auto
  have dates: "\<bar>startA - startB\<bar> \<le> SAME_MONTH_H \<and> \<bar>endA - endB\<bar> \<le> SAME_MONTH_H
      \<and> min \<bar>startA - startB\<bar> \<bar>endA - endB\<bar> \<le> min SAME_DAY_H (min (endA - startA) (endB - startB) / 2)
      \<and> (sameDays \<longrightarrow> max \<bar>startA - startB\<bar> \<bar>endA - endB\<bar> \<le> min SAME_DAY_H (min (endA - startA) (endB - startB) / 2))"
  proof -
    define day where "day = min SAME_DAY_H (min (endA - startA) (endB - startB) / 2)"
    have "day \<le> SAME_MONTH_H" by (simp add: day_def SAME_MONTH_H_def SAME_DAY_H_def)
    then show ?thesis
      using days unfolding same_days_def Let_def day_def [symmetric] prod.inject
      by (auto simp: min_le_iff_disj)
  qed
  have along: "lies_along share ?c (sh_parts sa) (sh_parts sb) \<or> lies_along share ?c (sh_parts sb) (sh_parts sa)"
    if "0 < share" "share \<le> (if sameDays then 8 / 10 else 6 / 10)" for share
    using places coverage_along [OF _ that(1)] that(2) by (auto simp: places_agree_def Let_def max_def split: if_splits)
  have point: "POINT_M \<le> lengthM (sh_parts sa) ?c \<and> POINT_M \<le> lengthM (sh_parts sb) ?c \<and> sameDays" if "\<not> headlinesAgree uc a b"
    using places that days(2) by (auto simp: places_agree_def Let_def not_less)
  have "lies_along (6 / 10) ?c (sh_parts sa) (sh_parts sb) \<or> lies_along (6 / 10) ?c (sh_parts sb) (sh_parts sa)"
    by (rule along) simp_all
  moreover have "\<not> headlinesAgree uc a b \<longrightarrow> POINT_M \<le> lengthM (sh_parts sa) ?c \<and> POINT_M \<le> lengthM (sh_parts sb) ?c
      \<and> (lies_along (8 / 10) ?c (sh_parts sa) (sh_parts sb) \<or> lies_along (8 / 10) ?c (sh_parts sb) (sh_parts sa))"
    using point along [of "8 / 10"] by simp
  moreover have "\<exists>startA endA startB endB. stated_hours parse_date a startA endA \<and> stated_hours parse_date b startB endB
        \<and> \<bar>startA - startB\<bar> \<le> SAME_MONTH_H \<and> \<bar>endA - endB\<bar> \<le> SAME_MONTH_H
        \<and> min \<bar>startA - startB\<bar> \<bar>endA - endB\<bar> \<le> min SAME_DAY_H (min (endA - startA) (endB - startB) / 2)
        \<and> (\<not> headlinesAgree uc a b \<longrightarrow> max \<bar>startA - startB\<bar> \<bar>endA - endB\<bar> \<le> min SAME_DAY_H (min (endA - startA) (endB - startB) / 2))"
    using hrs dates point by blast
  moreover obtain dropped where "(kept = a \<and> dropped = b) \<or> (kept = b \<and> dropped = a)" "\<not> restrictionEvidence dropped"
    "stated (get ''effects'' dropped) \<longrightarrow> stated (get ''effects'' kept) \<and> effectKinds show_wire a = effectKinds show_wire b"
    using dropped by blast
  ultimately show ?thesis using gates(1,2) by (intro exI [of _ dropped] conjI)
qed

lemma folded_measure_witness:
  "\<exists>uc parse_date show_wire a b sh. sameMeasureAcrossSources uc parse_date show_wire a sh b sh = Some a
    \<and> \<not> restrictionEvidence b \<and> lies_along (6 / 10) (mid_cos sh) (sh_parts sh) (sh_parts sh)"
proof -
  define rec where "rec source = WObject [(u16 ''provenance'', WObject [(u16 ''sourceId'', WString (u16 source))]),
    (u16 ''validity'', WObject [(u16 ''start'', WString []), (u16 ''end'', WString [])])]" for source
  define uc where "uc = \<lparr>un_lower = id, un_nfc = id, un_word = \<lambda>_. True\<rparr>"
  define parts where "parts = [[Position 0 0, Position 0 1]]"
  define sh where "sh = \<lparr>sh_parts = parts, sh_bbox = (0, 0, 0, 1)\<rparr>"
  have parts_sh: "sh_parts sh = parts" by (simp add: sh_def)
  have fields: "get ''kind'' (rec s) = WUndefined" "get ''effects'' (rec s) = WUndefined" "sourceOf (rec s) = WString (u16 s)"
      "get ''start'' (get ''validity'' (rec s)) = WString []" "get ''end'' (get ''validity'' (rec s)) = WString []" for s
    by (simp_all add: rec_def get_def lookup_key_def sourceOf_def) (simp_all add: u16_def)
  have evidence: "\<not> restrictionEvidence (rec s)" for s by (simp add: restrictionEvidence_def fields list_of_def)
  have len: "lengthM parts c = 111320" for c
    by (simp add: lengthM_def parts_def segments_def segments_of_def segment_length_def local_def M_PER_DEG_def hypot_def)
  have "samplesAlong parts c \<noteq> []" for c
    by (simp add: samplesAlong_def parts_def Let_def)
  then have cover: "coverage parts parts c = 1" for c by (rule coverage_self)
  have near: "shapesNear sh sh"
    by (simp add: shapesNear_def sh_def COVER_M_def M_PER_DEG_def Let_def)
  have same: "sameMeasureAcrossSources uc (\<lambda>_. Some 0) (\<lambda>_. []) (rec ''a'') sh (rec ''b'') sh = Some (rec ''a'')"
    by (simp add: sameMeasureAcrossSources_def fields evidence kindsAgree_def stated_def list_of_def hours_def
      same_days_def SAME_DAY_H_def near places_agree_def survivor_def parts_sh cover len POINT_M_def u16_def Let_def)
  from folded_measure [OF this] have "lies_along (6 / 10) (mid_cos sh) (sh_parts sh) (sh_parts sh)" by blast
  with same evidence show ?thesis by blast
qed

end
