(* ===== verification/Latest_Cache.thy ===== *)
theory Latest_Cache
  imports OC_Prelude "HOL-Library.AList"
begin

text \<open>
  The cache of latest rows, packages/storage/src/latest-cache.ts: what each source's last committed poll left, taken
  whole or not at all within a budget.

  \<^item> A JavaScript Map is its list of entries in insertion order; \<open>AList.update\<close> and \<open>AList.delete\<close> are its
    \<open>set\<close> and \<open>delete\<close>.
  \<^item> A write keeps the Map of entries it began with and may delete from it later, while the cache holds the same
    object or another one: entries live in an explicit store, and a source and a write hold an address.
  \<^item> The clock is an argument of the operations that read it; what is logged is kept in the state.
\<close>

subsection \<open>State\<close>

record latest_entry =
  le_seriesId :: int
  le_contentHash :: string
  le_restates :: "string option"
  le_effectiveFrom :: int
  le_expiresAt :: "int option"
  le_ended :: bool

definition LATEST_ENTRY_BYTES :: real where "LATEST_ENTRY_BYTES = 500"
definition LATEST_CACHE_HEAP_SHARE :: real where "LATEST_CACHE_HEAP_SHARE = 8 / 100"
definition LATEST_CACHE_IDLE_MS :: int where "LATEST_CACHE_IDLE_MS = 2 * 3600000"

definition latestCacheBudget :: "real \<Rightarrow> int" where
  "latestCacheBudget heapLimit = \<lfloor>heapLimit * LATEST_CACHE_HEAP_SHARE / LATEST_ENTRY_BYTES\<rfloor>"

text \<open>\<open>Number.isInteger\<close> of what \<open>Number\<close> makes of the variable, the parameter \<open>to_number\<close>.\<close>

definition whole_number :: "jsnum \<Rightarrow> int option" where
  "whole_number n = (case n of JNum x \<Rightarrow> if x = of_int \<lfloor>x\<rfloor> then Some \<lfloor>x\<rfloor> else None | _ \<Rightarrow> None)"

definition latestCacheBudgetFromEnv :: "(string \<Rightarrow> jsnum) \<Rightarrow> string option \<Rightarrow> real \<Rightarrow> int" where
  "latestCacheBudgetFromEnv to_number raw heapLimit =
     (let mb = (case raw of None \<Rightarrow> None | Some r \<Rightarrow> if r = '''' then None else whole_number (to_number r))
      in case mb of Some n \<Rightarrow> if n \<ge> 0 then \<lfloor>real_of_int n * 1000000 / LATEST_ENTRY_BYTES\<rfloor> else latestCacheBudget heapLimit
         | None \<Rightarrow> latestCacheBudget heapLimit)"

type_synonym entries = "(string \<times> latest_entry) list"

record cached_source =
  cd_entries :: nat
  cd_at :: int

record latest_cache =
  lc_store :: "nat \<Rightarrow> entries"
  lc_next :: nat
  lc_sources :: "(string \<times> cached_source) list"
  lc_refused :: "(string \<times> nat) list"
  lc_log :: "(string \<times> nat \<times> int) list"

definition empty_cache :: latest_cache where
  "empty_cache = \<lparr>lc_store = \<lambda>_. [], lc_next = 0, lc_sources = [], lc_refused = [], lc_log = []\<rparr>"

definition held_entries :: "latest_cache \<Rightarrow> cached_source \<Rightarrow> entries" where
  "held_entries c src = lc_store c (cd_entries src)"

definition cache_size :: "latest_cache \<Rightarrow> nat" where
  "cache_size c = sum_list (map (\<lambda>(_, src). length (held_entries c src)) (lc_sources c))"

definition sizeOf :: "latest_cache \<Rightarrow> string \<Rightarrow> nat" where
  "sizeOf c sourceId = (case map_of (lc_sources c) sourceId of None \<Rightarrow> 0 | Some src \<Rightarrow> length (held_entries c src))"

definition free :: "int \<Rightarrow> latest_cache \<Rightarrow> string \<Rightarrow> int" where
  "free budget c sourceId = max 0 (budget -
     int (sum_list (map (\<lambda>(_, src). length (held_entries c src)) (filter (\<lambda>(i, _). i \<noteq> sourceId) (lc_sources c)))))"

subsection \<open>A write\<close>

record cache_write =
  cw_source :: string
  cw_held :: nat
  cw_staged :: "(string \<times> latest_entry option) list"
  cw_seen :: "string list"

definition release_idle :: "int \<Rightarrow> latest_cache \<Rightarrow> latest_cache" where
  "release_idle now c = c\<lparr>lc_sources := filter (\<lambda>(_, src). \<not> now - cd_at src \<ge> LATEST_CACHE_IDLE_MS) (lc_sources c)\<rparr>"

text \<open>\<open>begin\<close>: \<open>None\<close> is the view \<open>UNCACHED\<close>. A source that is not held gets a Map of its own.\<close>

definition begin_write :: "int \<Rightarrow> int \<Rightarrow> string \<Rightarrow> latest_cache \<Rightarrow> cache_write option \<times> latest_cache" where
  "begin_write budget now sourceId c0 =
     (let c = release_idle now c0;
          held = (case map_of (lc_sources c) sourceId of Some src \<Rightarrow> cd_entries src | None \<Rightarrow> lc_next c);
          c1 = (case map_of (lc_sources c) sourceId of Some _ \<Rightarrow> c
            | None \<Rightarrow> c\<lparr>lc_store := (lc_store c)(lc_next c := []), lc_next := lc_next c + 1\<rparr>)
      in case map_of (lc_refused c1) sourceId of
           Some needed \<Rightarrow> if int needed > free budget c1 sourceId then (None, c1)
             else (Some \<lparr>cw_source = sourceId, cw_held = held, cw_staged = [], cw_seen = []\<rparr>, c1)
         | None \<Rightarrow> (Some \<lparr>cw_source = sourceId, cw_held = held, cw_staged = [], cw_seen = []\<rparr>, c1))"

definition cw_get :: "latest_cache \<Rightarrow> cache_write \<Rightarrow> string \<Rightarrow> latest_entry option" where
  "cw_get c w key = map_of (lc_store c (cw_held w)) key"

definition cw_set :: "string \<Rightarrow> latest_entry \<Rightarrow> cache_write \<Rightarrow> cache_write" where
  "cw_set key e w = w\<lparr>cw_staged := AList.update key (Some e) (cw_staged w)\<rparr>"

definition cw_delete :: "string \<Rightarrow> cache_write \<Rightarrow> cache_write" where
  "cw_delete key w = w\<lparr>cw_staged := AList.update key None (cw_staged w)\<rparr>"

definition cw_see :: "string \<Rightarrow> cache_write \<Rightarrow> cache_write" where
  "cw_see key w = w\<lparr>cw_seen := (if key \<in> set (cw_seen w) then cw_seen w else cw_seen w @ [key])\<rparr>"

text \<open>What the poll leaves: what it saw unchanged and what it wrote.\<close>

definition poll_entries :: "latest_cache \<Rightarrow> cache_write \<Rightarrow> entries" where
  "poll_entries c w =
     fold (\<lambda>(key, e) es. case e of None \<Rightarrow> es | Some entry \<Rightarrow> AList.update key entry es) (cw_staged w)
       (fold (\<lambda>key es. case cw_get c w key of None \<Rightarrow> es
          | Some entry \<Rightarrow> if key \<in> fst ` set (cw_staged w) then es else AList.update key entry es) (cw_seen w) [])"

definition commit :: "int \<Rightarrow> int \<Rightarrow> cache_write \<Rightarrow> latest_cache \<Rightarrow> latest_cache" where
  "commit budget now w c =
     (let es = poll_entries c w;
          c1 = c\<lparr>lc_sources := AList.delete (cw_source w) (lc_sources c)\<rparr>;
          left = free budget c1 (cw_source w)
      in if int (length es) > left
         then c1\<lparr>lc_log := (if map_of (lc_refused c) (cw_source w) = None
                 then lc_log c @ [(cw_source w, length es, left)] else lc_log c),
               lc_refused := AList.update (cw_source w) (length es) (lc_refused c)\<rparr>
         else let c2 = c1\<lparr>lc_refused := AList.delete (cw_source w) (lc_refused c)\<rparr>
              in if length es > 0
                 then c2\<lparr>lc_store := (lc_store c)(lc_next c := es), lc_next := lc_next c + 1,
                     lc_sources := AList.update (cw_source w) \<lparr>cd_entries = lc_next c, cd_at = now\<rparr> (lc_sources c2)\<rparr>
                 else c2)"

definition discard :: "cache_write \<Rightarrow> latest_cache \<Rightarrow> latest_cache" where
  "discard w c = c\<lparr>lc_store := (lc_store c)(cw_held w :=
     fold (\<lambda>(key, _) es. AList.delete key es) (cw_staged w) (lc_store c (cw_held w)))\<rparr>"

subsection \<open>Runs\<close>

text \<open>Writes of one source or several may overlap: a writer begins, stages, and commits or rolls back once.\<close>

datatype cache_event =
    Begin nat string int
  | SetEntry nat string latest_entry
  | DeleteEntry nat string
  | SeeEntry nat string
  | Commit nat int
  | Discard nat

type_synonym cache_system = "latest_cache \<times> (nat \<rightharpoonup> cache_write)"

fun cache_step :: "int \<Rightarrow> cache_event \<Rightarrow> cache_system \<Rightarrow> cache_system" where
  "cache_step budget (Begin i sourceId now) (c, ws) =
     (case begin_write budget now sourceId c of (w, c') \<Rightarrow> (c', ws(i := w)))"
| "cache_step budget (SetEntry i key e) (c, ws) = (c, ws(i := map_option (cw_set key e) (ws i)))"
| "cache_step budget (DeleteEntry i key) (c, ws) = (c, ws(i := map_option (cw_delete key) (ws i)))"
| "cache_step budget (SeeEntry i key) (c, ws) = (c, ws(i := map_option (cw_see key) (ws i)))"
| "cache_step budget (Commit i now) (c, ws) =
     (case ws i of None \<Rightarrow> (c, ws) | Some w \<Rightarrow> (commit budget now w c, ws(i := None)))"
| "cache_step budget (Discard i) (c, ws) =
     (case ws i of None \<Rightarrow> (c, ws) | Some w \<Rightarrow> (discard w c, ws(i := None)))"

inductive reachable :: "int \<Rightarrow> cache_system \<Rightarrow> bool" for budget :: int where
  init: "reachable budget (empty_cache, Map.empty)"
| step: "reachable budget s \<Longrightarrow> reachable budget (cache_step budget ev s)"

subsection \<open>The budget\<close>

text \<open>What every operation keeps: addresses in use, each held by one source, and the total within the budget.\<close>

definition source_names :: "latest_cache \<Rightarrow> string list" where
  "source_names c = map fst (lc_sources c)"

definition cache_ok :: "int \<Rightarrow> latest_cache \<Rightarrow> bool" where
  "cache_ok budget c \<longleftrightarrow> distinct (source_names c) \<and> distinct (map (cd_entries \<circ> snd) (lc_sources c))
     \<and> (\<forall>x \<in> set (lc_sources c). cd_entries (snd x) < lc_next c) \<and> int (cache_size c) \<le> max 0 budget"

definition writes_ok :: "latest_cache \<Rightarrow> (nat \<rightharpoonup> cache_write) \<Rightarrow> bool" where
  "writes_ok c ws \<longleftrightarrow> (\<forall>i w. ws i = Some w \<longrightarrow> cw_held w < lc_next c \<and> distinct (map fst (cw_staged w))
     \<and> (\<forall>x \<in> set (lc_sources c). cd_entries (snd x) = cw_held w \<longrightarrow> fst x = cw_source w))"

definition sizes :: "latest_cache \<Rightarrow> (string \<times> cached_source) list \<Rightarrow> nat" where
  "sizes c sources = sum_list (map (\<lambda>x. length (held_entries c (snd x))) sources)"

lemma cache_size_sizes: "cache_size c = sizes c (lc_sources c)"
  by (simp add: cache_size_def sizes_def case_prod_beta')

lemma free_sizes: "free budget c i = max 0 (budget - int (sizes c (filter (\<lambda>x. fst x \<noteq> i) (lc_sources c))))"
  by (simp add: free_def sizes_def case_prod_beta')

lemma sizes_filter: "sizes c (filter P sources) \<le> sizes c sources"
  unfolding sizes_def by (induction sources) auto

lemma sizes_store:
  assumes "\<And>x. x \<in> set sources \<Longrightarrow> length (held_entries c' (snd x)) \<le> length (held_entries c (snd x))"
  shows "sizes c' sources \<le> sizes c sources"
  unfolding sizes_def using assms by (intro sum_list_mono) auto

lemma sizes_same:
  assumes "\<And>x. x \<in> set sources \<Longrightarrow> held_entries c' (snd x) = held_entries c (snd x)"
  shows "sizes c' sources = sizes c sources"
  unfolding sizes_def using assms by (intro arg_cong [of _ _ sum_list]) auto

lemma delete_filter: "AList.delete k xs = filter (\<lambda>x. fst x \<noteq> k) xs"
  by (auto simp: AList.delete_eq case_prod_beta' intro: filter_cong)

lemma update_fresh: "k \<notin> fst ` set xs \<Longrightarrow> AList.update k v xs = xs @ [(k, v)]"
  by (induction xs) auto

lemma distinct_map_filter: "distinct (map f xs) \<Longrightarrow> distinct (map f (filter P xs))"
  by (induction xs) auto

lemma release_idle_fields [simp]:
  "lc_sources (release_idle now c) = filter (\<lambda>x. \<not> now - cd_at (snd x) \<ge> LATEST_CACHE_IDLE_MS) (lc_sources c)"
  "lc_store (release_idle now c) = lc_store c" "lc_next (release_idle now c) = lc_next c"
  "held_entries (release_idle now c) src = held_entries c src"
  by (simp_all add: release_idle_def case_prod_beta' held_entries_def)

lemma release_idle_ok: "cache_ok budget c \<Longrightarrow> cache_ok budget (release_idle now c)"
proof -
  assume ok: "cache_ok budget c"
  have "cache_size (release_idle now c) \<le> cache_size c"
    unfolding cache_size_sizes release_idle_fields
    using sizes_filter [of c _ "lc_sources c"] by (simp add: sizes_same [of _ "release_idle now c" c])
  then show ?thesis using ok by (auto simp: cache_ok_def source_names_def distinct_map_filter)
qed

lemma begin_write_state:
  obtains "snd (begin_write budget now i c) = release_idle now c"
    "map_of (lc_sources (release_idle now c)) i \<noteq> None"
    "\<And>w. fst (begin_write budget now i c) = Some w \<Longrightarrow>
       \<exists>src. map_of (lc_sources (release_idle now c)) i = Some src \<and> w = \<lparr>cw_source = i, cw_held = cd_entries src, cw_staged = [], cw_seen = []\<rparr>"
  | "snd (begin_write budget now i c) = (release_idle now c)\<lparr>lc_store := (lc_store c)(lc_next c := []), lc_next := lc_next c + 1\<rparr>"
    "\<And>w. fst (begin_write budget now i c) = Some w \<Longrightarrow> w = \<lparr>cw_source = i, cw_held = lc_next c, cw_staged = [], cw_seen = []\<rparr>"
proof (cases "map_of (lc_sources (release_idle now c)) i")
  case None
  then show thesis
    by (intro that(2)) (auto simp: begin_write_def Let_def release_idle_def split: option.splits if_splits)
next
  case (Some src)
  then show thesis
    by (intro that(1)) (auto simp: begin_write_def Let_def split: option.splits if_splits)
qed

lemma begin_write_ok:
  assumes "cache_ok budget c" and "writes_ok c ws" and "begin_write budget now i c = (w, c')"
  shows "cache_ok budget c' \<and> writes_ok c' (ws(n := w))"
proof -
  let ?r = "release_idle now c"
  note r = release_idle_ok [OF assms(1), of now]
  have ws: "writes_ok ?r ws" using assms(2) by (auto simp: writes_ok_def)
  from assms(3) have c': "snd (begin_write budget now i c) = c'" and w: "fst (begin_write budget now i c) = w" by simp_all
  show ?thesis
  proof (rule begin_write_state [of budget now i c])
    assume state: "snd (begin_write budget now i c) = ?r" and "map_of (lc_sources ?r) i \<noteq> None"
      and began: "\<And>w. fst (begin_write budget now i c) = Some w \<Longrightarrow>
       \<exists>src. map_of (lc_sources ?r) i = Some src \<and> w = \<lparr>cw_source = i, cw_held = cd_entries src, cw_staged = [], cw_seen = []\<rparr>"
    have "cw_held v < lc_next ?r \<and> distinct (map fst (cw_staged v))
        \<and> (\<forall>x \<in> set (lc_sources ?r). cd_entries (snd x) = cw_held v \<longrightarrow> fst x = cw_source v)" if "w = Some v" for v
    proof -
      from began that w obtain src where src: "map_of (lc_sources ?r) i = Some src"
        and v: "v = \<lparr>cw_source = i, cw_held = cd_entries src, cw_staged = [], cw_seen = []\<rparr>" by auto
      have held: "(i, src) \<in> set (lc_sources ?r)" using src by (rule map_of_SomeD)
      have same: "fst x = i" if "x \<in> set (lc_sources ?r)" "cd_entries (snd x) = cd_entries src" for x
      proof -
        have "inj_on (cd_entries \<circ> snd) (set (lc_sources ?r))" using r by (simp add: cache_ok_def distinct_map)
        then have "x = (i, src)" by (rule inj_onD) (use that held in simp_all)
        then show ?thesis by simp
      qed
      have "\<forall>x \<in> set (lc_sources ?r). cd_entries (snd x) < lc_next ?r" using r unfolding cache_ok_def by blast
      with held have "cd_entries src < lc_next ?r" by (metis snd_conv)
      then show ?thesis using same by (simp add: v)
    qed
    with r ws state c' show ?thesis by (auto simp: writes_ok_def)
  next
    assume state: "snd (begin_write budget now i c) = ?r\<lparr>lc_store := (lc_store c)(lc_next c := []), lc_next := lc_next c + 1\<rparr>"
      and began: "\<And>w. fst (begin_write budget now i c) = Some w \<Longrightarrow> w = \<lparr>cw_source = i, cw_held = lc_next c, cw_staged = [], cw_seen = []\<rparr>"
    have "sizes c' (lc_sources ?r) = sizes ?r (lc_sources ?r)"
    proof (rule sizes_same)
      fix x assume "x \<in> set (lc_sources ?r)"
      then have "cd_entries (snd x) < lc_next ?r" using r unfolding cache_ok_def by blast
      then show "held_entries c' (snd x) = held_entries ?r (snd x)" using state c' by (auto simp: held_entries_def)
    qed
    moreover have fields: "lc_sources c' = lc_sources ?r" "lc_next c' = Suc (lc_next c)" using state c' by auto
    moreover have below: "cd_entries (snd x) < lc_next c" if "x \<in> set (lc_sources c')" for x
      using r that unfolding cache_ok_def fields release_idle_fields(3) by blast
    ultimately have ok: "cache_ok budget c'"
      using r less_SucI [OF below] by (simp add: cache_ok_def source_names_def cache_size_sizes)
    have "cw_held v < lc_next c' \<and> distinct (map fst (cw_staged v))
        \<and> (\<forall>x \<in> set (lc_sources c'). cd_entries (snd x) = cw_held v \<longrightarrow> fst x = cw_source v)" if "w = Some v" for v
      using began that w fields below less_irrefl by fastforce
    moreover have "writes_ok c' ws"
      using ws unfolding writes_ok_def fields release_idle_fields(3) by (blast intro: less_SucI)
    ultimately have "writes_ok c' (ws(n := w))" unfolding writes_ok_def by simp
    with ok show ?thesis by blast
  qed
qed

lemma commit_cases:
  obtains (left_out) log refused where "commit budget now w c = c\<lparr>lc_sources := AList.delete (cw_source w) (lc_sources c),
      lc_log := log, lc_refused := refused\<rparr>"
    "poll_entries c w = [] \<or> int (length (poll_entries c w)) > free budget c (cw_source w)"
  | (taken) refused where "commit budget now w c = c\<lparr>lc_store := (lc_store c)(lc_next c := poll_entries c w),
      lc_next := lc_next c + 1,
      lc_sources := AList.delete (cw_source w) (lc_sources c) @ [(cw_source w, \<lparr>cd_entries = lc_next c, cd_at = now\<rparr>)],
      lc_refused := refused\<rparr>"
    "poll_entries c w \<noteq> []" "int (length (poll_entries c w)) \<le> free budget c (cw_source w)"
proof -
  have free: "free budget (c\<lparr>lc_sources := AList.delete (cw_source w) (lc_sources c)\<rparr>) (cw_source w) = free budget c (cw_source w)"
    by (simp add: free_def delete_filter held_entries_def conj_ac case_prod_beta')
  have fresh: "AList.update (cw_source w) v (AList.delete (cw_source w) (lc_sources c))
      = AList.delete (cw_source w) (lc_sources c) @ [(cw_source w, v)]" for v
    by (rule update_fresh) (auto simp: delete_filter)
  show thesis
  proof (cases "poll_entries c w = [] \<or> int (length (poll_entries c w)) > free budget c (cw_source w)")
    case True
    then show thesis
    proof (cases "int (length (poll_entries c w)) > free budget c (cw_source w)")
      case True
      then show thesis by (intro left_out) (simp_all add: commit_def Let_def free)
    next
      case False
      then have "commit budget now w c = c\<lparr>lc_sources := AList.delete (cw_source w) (lc_sources c), lc_log := lc_log c,
          lc_refused := AList.delete (cw_source w) (lc_refused c)\<rparr>"
        using \<open>_ \<or> _\<close> by (intro latest_cache.equality) (simp_all add: commit_def Let_def free)
      then show thesis using \<open>_ \<or> _\<close> by (rule left_out)
    qed
  next
    case False
    then show thesis
      by (intro taken [of "AList.delete (cw_source w) (lc_refused c)"]) (simp_all add: commit_def Let_def free fresh)
  qed
qed

lemma commit_ok:
  assumes "cache_ok budget c" and "writes_ok c ws"
  shows "cache_ok budget (commit budget now w c) \<and> writes_ok (commit budget now w c) ws"
proof -
  let ?rest = "AList.delete (cw_source w) (lc_sources c)"
  have rest: "set ?rest \<subseteq> set (lc_sources c)" "distinct (map fst ?rest)" "distinct (map (cd_entries \<circ> snd) ?rest)"
    "cw_source w \<notin> fst ` set ?rest" "sizes c ?rest \<le> sizes c (lc_sources c)"
    using assms(1) by (auto simp: cache_ok_def source_names_def delete_filter distinct_map_filter sizes_filter)
  show ?thesis
  proof (cases rule: commit_cases [of budget now w c])
    case (left_out log refused)
    define c' where "c' = commit budget now w c"
    have state: "lc_sources c' = ?rest" "lc_store c' = lc_store c" "lc_next c' = lc_next c"
      by (simp_all add: c'_def left_out(1))
    have "sizes c' ?rest = sizes c ?rest" by (rule sizes_same) (simp add: held_entries_def state)
    then have "cache_size c' \<le> cache_size c" using rest(5) by (simp add: cache_size_sizes state)
    with assms rest show ?thesis
      unfolding c'_def [symmetric] by (auto simp: cache_ok_def writes_ok_def source_names_def state)
  next
    case (taken refused)
    define c' where "c' = commit budget now w c"
    have state: "lc_sources c' = ?rest @ [(cw_source w, \<lparr>cd_entries = lc_next c, cd_at = now\<rparr>)]"
      "lc_store c' = (lc_store c)(lc_next c := poll_entries c w)" "lc_next c' = lc_next c + 1"
      by (simp_all add: c'_def taken(1))
    have below: "cd_entries (snd x) < lc_next c" if "x \<in> set ?rest" for x
      using assms(1) rest(1) that by (auto simp: cache_ok_def)
    have "sizes c' ?rest = sizes c ?rest"
      using below less_irrefl by (intro sizes_same) (force simp: held_entries_def state)
    then have "cache_size c' = sizes c ?rest + length (poll_entries c w)"
      by (simp add: cache_size_sizes state) (simp add: sizes_def held_entries_def state)
    moreover have "int (length (poll_entries c w)) \<le> max 0 (budget - int (sizes c ?rest))"
      using taken(3) by (simp add: free_sizes delete_filter)
    moreover have "poll_entries c w \<noteq> []" by (rule taken(2))
    ultimately have "int (cache_size c') \<le> max 0 budget" by (auto simp: max_def split: if_splits)
    moreover have "distinct (map (cd_entries \<circ> snd) (lc_sources c'))" using rest(3) below by (force simp: state)
    moreover have "distinct (source_names c')" using rest(2,4) by (force simp: state source_names_def)
    moreover have "\<forall>x \<in> set (lc_sources c'). cd_entries (snd x) < lc_next c'" using below by (force simp: state)
    moreover have "writes_ok c' ws"
      using assms(2) rest(1) by (force simp: writes_ok_def state)
    ultimately show ?thesis unfolding c'_def [symmetric] by (simp add: cache_ok_def)
  qed
qed

lemma discard_store: "lc_store (discard w c) = (lc_store c)(cw_held w :=
    filter (\<lambda>x. fst x \<notin> fst ` set (cw_staged w)) (lc_store c (cw_held w)))"
proof -
  have "fold (\<lambda>(key, _). AList.delete key) st es = filter (\<lambda>x. fst x \<notin> fst ` set st) es" for st :: "(string \<times> 'a) list" and es :: entries
    by (induction st arbitrary: es) (auto simp: delete_filter intro: filter_cong)
  from this [of "cw_staged w"] show ?thesis by (simp add: discard_def)
qed

lemma discard_fields [simp]: "lc_sources (discard w c) = lc_sources c" "lc_next (discard w c) = lc_next c"
  by (simp_all add: discard_def)

lemma discard_ok:
  assumes "cache_ok budget c" and "writes_ok c ws"
  shows "cache_ok budget (discard w c) \<and> writes_ok (discard w c) ws"
proof -
  have "sizes (discard w c) (lc_sources c) \<le> sizes c (lc_sources c)"
    by (rule sizes_store) (simp add: held_entries_def discard_store)
  with assms show ?thesis by (auto simp: cache_ok_def writes_ok_def source_names_def cache_size_sizes)
qed

lemma staged_ok: "writes_ok c ws \<Longrightarrow> (\<And>w. cw_held (f w) = cw_held w \<and> cw_source (f w) = cw_source w
    \<and> (distinct (map fst (cw_staged w)) \<longrightarrow> distinct (map fst (cw_staged (f w)))))
    \<Longrightarrow> writes_ok c (ws(i := map_option f (ws i)))"
  by (cases "ws i") (simp_all add: writes_ok_def)

lemma drop_write_ok: "writes_ok c ws \<Longrightarrow> writes_ok c (ws(i := None))"
  by (auto simp: writes_ok_def)

lemma cache_step_ok:
  assumes "cache_ok budget c" and "writes_ok c ws" and "cache_step budget ev (c, ws) = (c', ws')"
  shows "cache_ok budget c' \<and> writes_ok c' ws'"
proof (cases ev)
  case (Begin i sourceId now)
  then show ?thesis using assms(3) begin_write_ok [OF assms(1,2)] by (auto split: prod.splits)
next
  case (SetEntry i key e)
  then show ?thesis using assms staged_ok [OF assms(2), of "cw_set key e" i]
    by (auto simp: cw_set_def distinct_update)
next
  case (DeleteEntry i key)
  then show ?thesis using assms staged_ok [OF assms(2), of "cw_delete key" i]
    by (auto simp: cw_delete_def distinct_update)
next
  case (SeeEntry i key)
  then show ?thesis using assms staged_ok [OF assms(2), of "cw_see key" i] by (auto simp: cw_see_def)
next
  case (Commit i now)
  then show ?thesis using assms commit_ok [OF assms(1,2)] drop_write_ok by (auto split: option.splits)
next
  case (Discard i)
  then show ?thesis using assms discard_ok [OF assms(1,2)] drop_write_ok by (auto split: option.splits)
qed

lemma reachable_ok: "reachable budget s \<Longrightarrow> cache_ok budget (fst s) \<and> writes_ok (fst s) (snd s)"
proof (induction rule: reachable.induct)
  case init
  show ?case by (simp add: cache_ok_def writes_ok_def empty_cache_def source_names_def cache_size_def)
next
  case (step s ev)
  then show ?case using cache_step_ok [of budget "fst s" "snd s" ev] by (cases "cache_step budget ev s") simp
qed

text \<open>C34. However writes of however many sources overlap, commit and roll back, the cache never holds more than its
  budget, and holds a source once.\<close>

theorem cache_within_budget:
  assumes "reachable budget (c, ws)"
  shows "int (cache_size c) \<le> max 0 budget \<and> distinct (map fst (lc_sources c))"
  using reachable_ok [OF assms] by (simp add: cache_ok_def source_names_def)

subsection \<open>Whole or not at all\<close>

text \<open>What a poll leaves of a series: what it wrote, else what it found unchanged.\<close>

definition poll_leaves :: "latest_cache \<Rightarrow> cache_write \<Rightarrow> string \<rightharpoonup> latest_entry" where
  "poll_leaves c w key = (case map_of (cw_staged w) key of Some e \<Rightarrow> e
     | None \<Rightarrow> if key \<in> set (cw_seen w) then cw_get c w key else None)"

lemma map_of_update: "map_of (AList.update k v xs) = (map_of xs)(k \<mapsto> v)"
  by (rule update_conv')

lemma seen_entries:
  "map_of (fold (\<lambda>key es. case g key of None \<Rightarrow> es | Some e \<Rightarrow> if P key then es else AList.update key e es) ks es) k
    = (if k \<in> set ks \<and> \<not> P k \<and> g k \<noteq> None then g k else map_of es k)"
proof (induction ks arbitrary: es)
  case (Cons key ks)
  show ?case by (cases "g key") (auto simp: Cons.IH map_of_update)
qed simp

lemma seen_distinct:
  "distinct (map fst es) \<Longrightarrow>
    distinct (map fst (fold (\<lambda>key es. case g key of None \<Rightarrow> es | Some e \<Rightarrow> if P key then es else AList.update key e es) ks es))"
proof (induction ks arbitrary: es)
  case (Cons key ks)
  then show ?case by (auto simp: distinct_update split: option.splits)
qed simp

lemma staged_entries:
  "distinct (map fst st) \<Longrightarrow>
    map_of (fold (\<lambda>(key, e) es. case e of None \<Rightarrow> es | Some entry \<Rightarrow> AList.update key entry es) st es) k
    = (case map_of st k of Some (Some e) \<Rightarrow> Some e | _ \<Rightarrow> map_of es k)"
proof (induction st arbitrary: es)
  case (Cons x st)
  obtain key e where x: "x = (key, e)" by force
  have "map_of st key = None" using Cons.prems by (simp add: x map_of_eq_None_iff)
  then show ?case
    using Cons.prems Cons.IH by (cases e) (auto simp: x map_of_update split: option.splits)
qed simp

lemma staged_distinct:
  "distinct (map fst es) \<Longrightarrow>
    distinct (map fst (fold (\<lambda>(key, e) es. case e of None \<Rightarrow> es | Some entry \<Rightarrow> AList.update key entry es) st es))"
proof (induction st arbitrary: es)
  case (Cons x st)
  then show ?case by (cases x) (auto simp: distinct_update split: option.splits)
qed simp

lemma poll_entries_map:
  assumes "distinct (map fst (cw_staged w))"
  shows "map_of (poll_entries c w) = poll_leaves c w"
proof
  fix k
  have "k \<in> fst ` set (cw_staged w) \<longleftrightarrow> map_of (cw_staged w) k \<noteq> None" by (simp add: map_of_eq_None_iff)
  then show "map_of (poll_entries c w) k = poll_leaves c w k"
    unfolding poll_entries_def staged_entries [OF assms] poll_leaves_def seen_entries
    by (auto split: option.splits)
qed

lemma poll_entries_length:
  assumes "distinct (map fst (cw_staged w))"
  shows "length (poll_entries c w) = card (dom (poll_leaves c w))"
proof -
  have "distinct (map fst (poll_entries c w))"
    unfolding poll_entries_def by (intro staged_distinct seen_distinct) simp
  then have "length (poll_entries c w) = card (fst ` set (poll_entries c w))"
    by (metis distinct_card length_map list.set_map)
  also have "fst ` set (poll_entries c w) = dom (map_of (poll_entries c w))" by (simp add: dom_map_of_conv_image_fst)
  finally show ?thesis by (simp add: poll_entries_map [OF assms])
qed

lemma map_of_delete_other: "i \<noteq> k \<Longrightarrow> map_of (AList.delete k xs) i = map_of xs i"
  by (simp add: delete_conv')

text \<open>A source is cached as its last committed poll left it, whole or not at all: after a commit it holds exactly
  what the poll wrote and what it found unchanged, dated now, when that fits the budget the other
  sources leave; else nothing of it. No other source changes.\<close>

theorem commit_whole_or_nothing:
  assumes "reachable budget (c, ws)" and "ws i = Some w"
  shows "(case map_of (lc_sources (commit budget now w c)) (cw_source w) of
        None \<Rightarrow> poll_leaves c w = Map.empty \<or> int (card (dom (poll_leaves c w))) > free budget c (cw_source w)
      | Some src \<Rightarrow> cd_at src = now \<and> map_of (held_entries (commit budget now w c) src) = poll_leaves c w
          \<and> int (card (dom (poll_leaves c w))) \<le> free budget c (cw_source w))
    \<and> (\<forall>j. j \<noteq> cw_source w \<longrightarrow> map_of (lc_sources (commit budget now w c)) j = map_of (lc_sources c) j
        \<and> (\<forall>src. map_of (lc_sources c) j = Some src \<longrightarrow> held_entries (commit budget now w c) src = held_entries c src))"
proof -
  have ok: "cache_ok budget c" and st: "distinct (map fst (cw_staged w))"
    using reachable_ok [OF assms(1)] assms(2) by (auto simp: writes_ok_def)
  note left = poll_entries_map [OF st, of c] poll_entries_length [OF st, of c]
  have gone: "map_of (AList.delete (cw_source w) (lc_sources c)) (cw_source w) = None"
    by (simp add: delete_conv')
  show ?thesis
  proof (cases rule: commit_cases [of budget now w c])
    case (left_out log refused)
    define c' where "c' = commit budget now w c"
    have state: "lc_sources c' = AList.delete (cw_source w) (lc_sources c)" "lc_store c' = lc_store c"
      by (simp_all add: c'_def left_out(1))
    have "poll_leaves c w = Map.empty \<or> int (card (dom (poll_leaves c w))) > free budget c (cw_source w)"
      using left_out(2) left by (auto simp del: map_of_eq_empty_iff)
    then show ?thesis
      unfolding c'_def [symmetric] by (simp add: state gone map_of_delete_other held_entries_def)
  next
    case (taken refused)
    define c' where "c' = commit budget now w c"
    let ?src = "\<lparr>cd_entries = lc_next c, cd_at = now\<rparr>"
    have state: "lc_sources c' = AList.delete (cw_source w) (lc_sources c) @ [(cw_source w, ?src)]"
      "lc_store c' = (lc_store c)(lc_next c := poll_entries c w)"
      by (simp_all add: c'_def taken(1))
    have here: "map_of (lc_sources c') (cw_source w) = Some ?src" by (simp add: state gone map_add_Some_iff)
    have there: "map_of (lc_sources c') j = map_of (lc_sources c) j" if "j \<noteq> cw_source w" for j
      using that by (simp add: state map_add_def map_of_delete_other split: option.splits)
    have same: "held_entries c' src = held_entries c src" if "map_of (lc_sources c) j = Some src" for j src
    proof -
      have "cd_entries src < lc_next c" using ok map_of_SomeD [OF that] unfolding cache_ok_def by (metis snd_conv)
      then show ?thesis by (simp add: held_entries_def state)
    qed
    show ?thesis
      unfolding c'_def [symmetric] here using there same taken(3) left by (auto simp: held_entries_def state)
  qed
qed

text \<open>A write that rolls back leaves nothing of what it touched in the Map it read from, whether the cache still
  holds that Map or another write's commit has replaced it; what it did not touch, and every other
  source, stays.\<close>

theorem discard_forgets:
  assumes "reachable budget (c, ws)" and "ws i = Some w"
  shows "(\<forall>key. map_of (cw_staged w) key \<noteq> None \<longrightarrow> cw_get (discard w c) w key = None)
    \<and> lc_sources (discard w c) = lc_sources c
    \<and> (\<forall>j src. (j, src) \<in> set (lc_sources c) \<longrightarrow> map_of (held_entries (discard w c) src)
        = (if cd_entries src = cw_held w then map_of (held_entries c src) |` (- dom (map_of (cw_staged w)))
           else map_of (held_entries c src)) \<and> (cd_entries src = cw_held w \<longrightarrow> j = cw_source w))"
proof -
  have keys: "dom (map_of (cw_staged w)) = fst ` set (cw_staged w)" by (simp add: dom_map_of_conv_image_fst)
  have filtered: "map_of (filter (\<lambda>x. fst x \<notin> K) es) = map_of es |` (- K)" for K and es :: entries
    by (induction es) (auto simp: restrict_map_def fun_eq_iff)
  have "\<forall>x \<in> set (lc_sources c). cd_entries (snd x) = cw_held w \<longrightarrow> fst x = cw_source w"
    using reachable_ok [OF assms(1)] assms(2) by (auto simp: writes_ok_def)
  moreover have "map_of (cw_staged w) key \<noteq> None \<Longrightarrow> key \<in> fst ` set (cw_staged w)" for key
    by (simp add: map_of_eq_None_iff)
  ultimately show ?thesis
    unfolding held_entries_def cw_get_def discard_store keys by (force simp: filtered restrict_map_def)
qed

definition sample_entry :: latest_entry where
  "sample_entry = \<lparr>le_seriesId = 1, le_contentHash = ''h'', le_restates = None, le_effectiveFrom = 0,
     le_expiresAt = None, le_ended = False\<rparr>"

definition sample_run :: "cache_event list" where
  "sample_run = [Begin 0 ''s'' 0, SetEntry 0 ''k'' sample_entry, Commit 0 0, Begin 1 ''s'' 5, SetEntry 1 ''k'' sample_entry]"

lemma reachable_run: "reachable budget s \<Longrightarrow> reachable budget (fold (cache_step budget) evs s)"
proof (induction evs arbitrary: s)
  case (Cons ev evs)
  from Cons.IH [OF reachable.step [OF Cons.prems]] show ?case by simp
qed simp

lemma sample_run_state:
  "fold (cache_step 10) sample_run (empty_cache, Map.empty) = s \<Longrightarrow>
     cache_size (fst s) = 1 \<and> lc_sources (fst s) = [(''s'', \<lparr>cd_entries = 1, cd_at = 0\<rparr>)]
     \<and> lc_store (fst s) 1 = [(''k'', sample_entry)]
     \<and> snd s 1 = Some \<lparr>cw_source = ''s'', cw_held = 1, cw_staged = [(''k'', Some sample_entry)], cw_seen = []\<rparr>"
  by (simp add: sample_run_def begin_write_def release_idle_def empty_cache_def commit_def poll_entries_def cw_set_def
    free_def cache_size_def held_entries_def Let_def LATEST_CACHE_IDLE_MS_def) (auto simp: held_entries_def)

lemma cache_within_budget_witness:
  "\<exists>c ws. reachable 10 (c, ws) \<and> cache_size c = 1 \<and> int (cache_size c) \<le> max 0 10"
proof -
  obtain c ws where run: "fold (cache_step 10) sample_run (empty_cache, Map.empty) = (c, ws)" by force
  then have "reachable 10 (c, ws)" by (metis reachable_run reachable.init)
  with cache_within_budget [OF this] sample_run_state [OF run] show ?thesis by auto
qed

lemma commit_whole_or_nothing_witness:
  "\<exists>c ws w src. reachable 10 (c, ws) \<and> ws 1 = Some w
    \<and> map_of (lc_sources (commit 10 7 w c)) ''s'' = Some src \<and> cd_at src = 7
    \<and> map_of (held_entries (commit 10 7 w c) src) = [''k'' \<mapsto> sample_entry]"
proof -
  obtain c ws where run: "fold (cache_step 10) sample_run (empty_cache, Map.empty) = (c, ws)" by force
  then have reach: "reachable 10 (c, ws)" by (metis reachable_run reachable.init)
  define w where "w = \<lparr>cw_source = ''s'', cw_held = 1, cw_staged = [(''k'', Some sample_entry)], cw_seen = []\<rparr>"
  have w: "ws 1 = Some w" and sources: "lc_sources c = [(''s'', \<lparr>cd_entries = 1, cd_at = 0\<rparr>)]"
    using sample_run_state [OF run] by (simp_all add: w_def)
  have leaves: "poll_leaves c w = [''k'' \<mapsto> sample_entry]" by (auto simp: poll_leaves_def w_def fun_eq_iff)
  have free: "free 10 c ''s'' = 10" by (simp add: free_def sources)
  have "cw_source w = ''s''" by (simp add: w_def)
  with commit_whole_or_nothing [OF reach w, of 7] w reach show ?thesis
    by (cases "map_of (lc_sources (commit 10 7 w c)) ''s''") (auto simp: leaves free)
qed

lemma discard_forgets_witness:
  "\<exists>c ws w. reachable 10 (c, ws) \<and> ws 1 = Some w \<and> cw_get c w ''k'' = Some sample_entry \<and> cw_get (discard w c) w ''k'' = None"
proof -
  obtain c ws where run: "fold (cache_step 10) sample_run (empty_cache, Map.empty) = (c, ws)" by force
  then have reach: "reachable 10 (c, ws)" by (metis reachable_run reachable.init)
  have w: "ws 1 = Some \<lparr>cw_source = ''s'', cw_held = 1, cw_staged = [(''k'', Some sample_entry)], cw_seen = []\<rparr>"
    using sample_run_state [OF run] by simp
  have "lc_store c 1 = [(''k'', sample_entry)]" using sample_run_state [OF run] by simp
  then show ?thesis using discard_forgets [OF reach w] reach w by (force simp: cw_get_def)
qed

end
