(* ===== verification/Spatial_Cluster.thy ===== *)
theory Spatial_Cluster
  imports Geometry
begin

text \<open>
  The clustering under the duplicate fold of road events, packages/roads/src/spatial-cluster.ts: the grid of
  buckets, the union-find over indices with path compression and union by rank, and \<open>clusterIndices\<close>, which
  merges two clusters only when every pair across them may merge.

  \<^item> A bucket key is the pair of numbers its text holds. A point with no position (the mean of no
    coordinates, NaN) is \<open>None\<close>: its key is a bucket of its own, and no key is its neighbour.
  \<^item> \<open>find\<close> is a partial function: \<open>None\<close> is a chain of parents that never ends, or an index that is none
    of the items. The theorems show neither happens.
\<close>

subsection \<open>The grid\<close>

definition BUCKET_DEG :: real where "BUCKET_DEG = 2 / 1000"
definition METERS_PER_DEG_LAT :: real where "METERS_PER_DEG_LAT = 111320"
definition MIN_LAT_COS :: real where "MIN_LAT_COS = 1 / 100"

type_synonym bucket_key = "(int \<times> int) option"

definition bucketKey :: "position option \<Rightarrow> bucket_key" where
  "bucketKey pt = map_option (\<lambda>p. (\<lfloor>pos_x p / BUCKET_DEG\<rfloor>, \<lfloor>pos_y p / BUCKET_DEG\<rfloor>)) pt"

definition lngNeighborRange :: "real \<Rightarrow> real \<Rightarrow> int" where
  "lngNeighborRange lat mergeDistanceM =
     (let cosLat = max (cos (lat * pi / 180)) MIN_LAT_COS;
          maxLngDiffDeg = mergeDistanceM / (METERS_PER_DEG_LAT * cosLat)
      in \<lceil>maxLngDiffDeg / BUCKET_DEG\<rceil> + 1)"

definition neighborKeys :: "int \<times> int \<Rightarrow> real \<Rightarrow> real \<Rightarrow> (int \<times> int) list" where
  "neighborKeys key lat mergeDistanceM =
     (let lngRange = lngNeighborRange lat mergeDistanceM
      in concat (map (\<lambda>dx. map (\<lambda>dy. (fst key + dx, snd key + dy)) [-1..1]) [- lngRange..lngRange]))"

subsection \<open>The union-find\<close>

record index_sets =
  ix_parent :: "nat list"
  ix_rank :: "nat list"

definition new_sets :: "nat \<Rightarrow> index_sets" where
  "new_sets n = \<lparr>ix_parent = [0..<n], ix_rank = replicate n 0\<rparr>"

partial_function (option) find_from :: "nat list \<Rightarrow> nat \<Rightarrow> (nat \<times> nat list) option" where
  "find_from parent x =
     (if x \<ge> length parent then None
      else if parent ! x \<noteq> x
      then Option.bind (find_from parent (parent ! x)) (\<lambda>(r, p). Some (r, p[x := r]))
      else Some (x, parent))"

definition find_set :: "nat \<Rightarrow> index_sets \<Rightarrow> (nat \<times> index_sets) option" where
  "find_set x uf = (case find_from (ix_parent uf) x of None \<Rightarrow> None
     | Some (r, p) \<Rightarrow> Some (r, uf\<lparr>ix_parent := p\<rparr>))"

definition union_sets :: "nat \<Rightarrow> nat \<Rightarrow> index_sets \<Rightarrow> index_sets option" where
  "union_sets a b uf =
     (case find_set a uf of None \<Rightarrow> None | Some (ra, uf1) \<Rightarrow>
      (case find_set b uf1 of None \<Rightarrow> None | Some (rb, uf2) \<Rightarrow>
        if ra = rb then Some uf2
        else if ix_rank uf2 ! ra < ix_rank uf2 ! rb then Some (uf2\<lparr>ix_parent := (ix_parent uf2)[ra := rb]\<rparr>)
        else if ix_rank uf2 ! ra > ix_rank uf2 ! rb then Some (uf2\<lparr>ix_parent := (ix_parent uf2)[rb := ra]\<rparr>)
        else Some (uf2\<lparr>ix_parent := (ix_parent uf2)[rb := ra], ix_rank := (ix_rank uf2)[ra := Suc (ix_rank uf2 ! ra)]\<rparr>)))"

subsection \<open>The clusters\<close>

type_synonym cluster_state = "index_sets \<times> (nat \<rightharpoonup> nat list)"

text \<open>One turn of the inner loop, for the items i and j.\<close>

definition merge_pair :: "(nat \<Rightarrow> nat \<Rightarrow> bool) \<Rightarrow> nat \<Rightarrow> nat \<Rightarrow> cluster_state \<Rightarrow> cluster_state option" where
  "merge_pair shouldMerge i j s = (case s of (uf, members) \<Rightarrow>
     if j \<le> i then Some s
     else if \<not> shouldMerge i j then Some s
     else (case find_set i uf of None \<Rightarrow> None | Some (ri, uf1) \<Rightarrow>
      (case find_set j uf1 of None \<Rightarrow> None | Some (rj, uf2) \<Rightarrow>
        if ri = rj then Some (uf2, members)
        else (case (members ri, members rj) of
          (Some ma, Some mb) \<Rightarrow>
            if \<not> list_all (\<lambda>a. list_all (\<lambda>b. shouldMerge a b) mb) ma then Some (uf2, members)
            else (case union_sets i j uf2 of None \<Rightarrow> None | Some uf3 \<Rightarrow>
              (case find_set i uf3 of None \<Rightarrow> None | Some (newRoot, uf4) \<Rightarrow>
                let m1 = (if newRoot \<noteq> ri then members(ri := None) else members);
                    m2 = (if newRoot \<noteq> rj then m1(rj := None) else m1)
                in Some (uf4, m2(newRoot \<mapsto> ma @ mb))))
        | _ \<Rightarrow> None))))"

definition merge_all :: "nat \<Rightarrow> (nat \<Rightarrow> nat list) \<Rightarrow> (nat \<Rightarrow> nat \<Rightarrow> bool) \<Rightarrow> cluster_state \<Rightarrow> cluster_state option" where
  "merge_all n neighborsOf shouldMerge =
     fold_option (\<lambda>i. fold_option (\<lambda>j. merge_pair shouldMerge i j) (neighborsOf i)) [0..<n]"

definition collect_index :: "nat \<Rightarrow> index_sets \<times> (nat \<times> nat list) list \<Rightarrow> (index_sets \<times> (nat \<times> nat list) list) option" where
  "collect_index i s = (case s of (uf, clusters) \<Rightarrow>
     (case find_set i uf of None \<Rightarrow> None | Some (r, uf') \<Rightarrow>
       Some (uf', map_set r (case map_of clusters r of None \<Rightarrow> [i] | Some existing \<Rightarrow> existing @ [i]) clusters)))"

definition clusterIndices :: "nat \<Rightarrow> (nat \<Rightarrow> nat list) \<Rightarrow> (nat \<Rightarrow> nat \<Rightarrow> bool) \<Rightarrow> (nat \<times> nat list) list option" where
  "clusterIndices n neighborsOf shouldMerge =
     (case merge_all n neighborsOf shouldMerge (new_sets n, \<lambda>i. if i < n then Some [i] else None) of None \<Rightarrow> None
      | Some (uf, _) \<Rightarrow> map_option snd (fold_option collect_index [0..<n] (uf, [])))"

subsection \<open>The root of an index\<close>

inductive leads :: "nat list \<Rightarrow> nat \<Rightarrow> nat \<Rightarrow> bool" for p where
  here: "p ! x = x \<Longrightarrow> leads p x x"
| up: "p ! x \<noteq> x \<Longrightarrow> leads p (p ! x) r \<Longrightarrow> leads p x r"

inductive_cases leads_cases: "leads p x r"

definition levels :: "(nat \<Rightarrow> nat) \<Rightarrow> nat list \<Rightarrow> bool" where
  "levels h p \<longleftrightarrow> (\<forall>x < length p. p ! x < length p \<and> (p ! x \<noteq> x \<longrightarrow> h (p ! x) < h x))"

lemma leads_unique: "leads p x r \<Longrightarrow> leads p x s \<Longrightarrow> r = s"
  by (induction rule: leads.induct) (auto elim: leads_cases)

lemma leads_exists: "levels h p \<Longrightarrow> x < length p \<Longrightarrow> \<exists>r. leads p x r"
proof (induction "h x" arbitrary: x rule: less_induct)
  case less
  show ?case
  proof (cases "p ! x = x")
    case False
    then have "h (p ! x) < h x" "p ! x < length p" using less.prems by (auto simp: levels_def)
    from less.hyps [OF this(1) less.prems(1) this(2)] False show ?thesis by (blast intro: leads.up)
  qed (blast intro: leads.here)
qed

lemma leads_root: "leads p x r \<Longrightarrow> levels h p \<Longrightarrow> x < length p \<Longrightarrow> r < length p \<and> p ! r = r \<and> h r \<le> h x \<and> (p ! x \<noteq> x \<longrightarrow> h r < h x)"
  by (induction rule: leads.induct) (fastforce simp: levels_def)+

lemma leads_compress:
  assumes lev: "levels h p" and x: "leads p x r" "x < length p" "r \<noteq> x"
  shows "levels h (p[x := r])" and "y < length p \<Longrightarrow> leads (p[x := r]) y s \<longleftrightarrow> leads p y s"
proof -
  have px: "p ! x \<noteq> x" using x leads_cases by metis
  note r = leads_root [OF x(1) lev x(2)]
  show "levels h (p[x := r])" using lev r px x(2) by (auto simp: levels_def nth_list_update)
  have keep: "leads p y s \<Longrightarrow> y < length p \<Longrightarrow> leads (p[x := r]) y s" for y s
  proof (induction rule: leads.induct)
    case (here y)
    then have "y \<noteq> x" using px by auto
    with here show ?case by (auto intro: leads.here)
  next
    case (up y s)
    have below: "p ! y < length p" using lev up.prems by (simp add: levels_def)
    show ?case
    proof (cases "y = x")
      case True
      then have "s = r" using leads_unique [OF x(1)] leads.up [OF up.hyps] by blast
      moreover have "leads (p[x := r]) r r" using r x(3) by (auto intro: leads.here)
      ultimately show ?thesis using True x by (auto intro: leads.up)
    next
      case False
      then show ?thesis using up below by (auto intro: leads.up)
    qed
  qed
  show "leads (p[x := r]) y s \<longleftrightarrow> leads p y s" if "y < length p"
    using keep [OF _ that] leads_exists [OF lev that] leads_unique by metis
qed

lemma find_from_spec:
  assumes "levels h p" and "x < length p"
  shows "\<exists>r p'. find_from p x = Some (r, p') \<and> leads p x r \<and> length p' = length p \<and> levels h p'
    \<and> (\<forall>y < length p. \<forall>s. leads p' y s \<longleftrightarrow> leads p y s)"
  using assms(2)
proof (induction "h x" arbitrary: x rule: less_induct)
  case less
  show ?case
  proof (cases "p ! x = x")
    case True
    with less.prems assms(1) show ?thesis by (subst find_from.simps) (auto intro: leads.here)
  next
    case False
    then have "h (p ! x) < h x" "p ! x < length p" using assms(1) less.prems by (auto simp: levels_def)
    from less.hyps [OF this] obtain r p1 where p1: "find_from p (p ! x) = Some (r, p1)" "leads p (p ! x) r"
      "length p1 = length p" "levels h p1" "\<forall>y < length p. \<forall>s. leads p1 y s \<longleftrightarrow> leads p y s" by blast
    have x: "leads p x r" using leads.up [OF False p1(2)] .
    moreover have "find_from p x = Some (r, p1[x := r])" using False less.prems p1(1) by (subst find_from.simps) simp
    moreover have "r \<noteq> x" using leads_root [OF x assms(1) less.prems] False by auto
    moreover have "leads p1 x r" using x p1(5) less.prems by blast
    ultimately show ?thesis
      using leads_compress [OF p1(4), of x r] p1(3,5) less.prems by (intro exI [of _ r] exI [of _ "p1[x := r]"]) simp
  qed
qed

text \<open>Linking one root under another.\<close>

lemma leads_link:
  assumes lev: "levels h p" and roots: "p ! a = a" "p ! b = b" "a < length p" "b < length p" "a \<noteq> b"
    and y: "y < length p" "leads p y s"
  shows "leads (p[a := b]) y (if s = a then b else s)"
  using y(2,1)
proof (induction rule: leads.induct)
  case (here y)
  have "leads (p[a := b]) b b" using roots by (intro leads.here) simp
  then have "leads (p[a := b]) a b" using roots by - (rule leads.up; simp)
  moreover have "leads (p[a := b]) y y" if "y \<noteq> a" using here(1) that by (intro leads.here) simp
  ultimately show ?case by simp
next
  case (up y s)
  then have "y \<noteq> a" "p ! y < length p" using roots lev by (auto simp: levels_def)
  moreover from this up have "leads (p[a := b]) (p[a := b] ! y) (if s = a then b else s)" by simp
  ultimately show ?case using up.hyps(1) by - (rule leads.up; simp)
qed

lemma levels_link:
  assumes lev: "levels h p" and roots: "p ! a = a" "p ! b = b" "a < length p" "b < length p" "a \<noteq> b"
  shows "\<exists>h. levels h (p[a := b])"
proof -
  let ?h = "\<lambda>y. if leads p y a then h y + h b + 1 else h y"
  have b: "\<not> leads p b a" using roots leads_unique [OF leads.here [of p b]] by auto
  have "p[a := b] ! y < length p \<and> (p[a := b] ! y \<noteq> y \<longrightarrow> ?h (p[a := b] ! y) < ?h y)" if y: "y < length p" for y
  proof (cases "y = a")
    case True
    then show ?thesis using b roots leads.here [of p a] by simp
  next
    case False
    have "leads p (p ! y) a \<longleftrightarrow> leads p y a" if "p ! y \<noteq> y"
      using that leads.up leads_cases by metis
    then show ?thesis using False lev y by (auto simp: levels_def)
  qed
  then show ?thesis by (intro exI [of _ ?h]) (simp add: levels_def)
qed

subsection \<open>What the union-find keeps\<close>

text \<open>\<open>R\<close> is the root of each item.\<close>

definition sets_ok :: "nat \<Rightarrow> (nat \<Rightarrow> nat) \<Rightarrow> index_sets \<Rightarrow> bool" where
  "sets_ok n R uf \<longleftrightarrow> length (ix_parent uf) = n \<and> length (ix_rank uf) = n \<and> (\<exists>h. levels h (ix_parent uf))
     \<and> (\<forall>x < n. leads (ix_parent uf) x (R x))"

lemma new_sets_ok: "sets_ok n id (new_sets n)"
  by (auto simp: sets_ok_def new_sets_def levels_def intro: leads.here)

lemma sets_ok_root:
  assumes "sets_ok n R uf" and "x < n"
  shows "R x < n" "R (R x) = R x" "ix_parent uf ! R x = R x"
proof -
  obtain h where h: "levels h (ix_parent uf)" and len: "length (ix_parent uf) = n" and lead: "leads (ix_parent uf) x (R x)"
    using assms by (auto simp: sets_ok_def)
  note r = leads_root [OF lead h] 
  then show "R x < n" "ix_parent uf ! R x = R x" using assms(2) len by simp_all
  moreover from this have "leads (ix_parent uf) (R x) (R (R x))" using assms(1) by (simp add: sets_ok_def)
  ultimately show "R (R x) = R x" using leads.here [of "ix_parent uf" "R x"] leads_unique by blast
qed

lemma find_set_ok:
  assumes "sets_ok n R uf" and "x < n"
  shows "\<exists>uf'. find_set x uf = Some (R x, uf') \<and> sets_ok n R uf'"
proof -
  obtain h where h: "levels h (ix_parent uf)" using assms(1) by (auto simp: sets_ok_def)
  moreover have "x < length (ix_parent uf)" using assms by (simp add: sets_ok_def)
  ultimately obtain r p where found: "find_from (ix_parent uf) x = Some (r, p)" "leads (ix_parent uf) x r"
    "length p = length (ix_parent uf)" "levels h p" "\<forall>y < length (ix_parent uf). \<forall>s. leads p y s \<longleftrightarrow> leads (ix_parent uf) y s"
    using find_from_spec by blast
  have "r = R x" using found(2) assms leads_unique unfolding sets_ok_def by blast
  then show ?thesis using found assms by (auto simp: find_set_def sets_ok_def)
qed

definition joined_roots :: "(nat \<Rightarrow> nat) \<Rightarrow> nat \<Rightarrow> nat \<Rightarrow> nat \<Rightarrow> nat \<Rightarrow> nat" where
  "joined_roots R ra rb new x = (if R x = ra \<or> R x = rb then new else R x)"

lemma link_ok:
  assumes ok: "sets_ok n R uf" and a: "a < n" "R a = a" and b: "b < n" "R b = b" and ne: "a \<noteq> b"
    and uf': "ix_parent uf' = (ix_parent uf)[a := b]" "length (ix_rank uf') = n"
  shows "sets_ok n (joined_roots R a b b) uf'"
proof -
  obtain h where h: "levels h (ix_parent uf)" and len: "length (ix_parent uf) = n" using ok by (auto simp: sets_ok_def)
  have roots: "ix_parent uf ! a = a" "ix_parent uf ! b = b" using sets_ok_root(3) [OF ok] a b by metis+
  have "leads ((ix_parent uf)[a := b]) x (joined_roots R a b b x)" if x: "x < n" for x
  proof -
    have "leads (ix_parent uf) x (R x)" using ok x by (simp add: sets_ok_def)
    from leads_link [OF h roots _ _ ne _ this] x a(1) b(1) len
    have "leads ((ix_parent uf)[a := b]) x (if R x = a then b else R x)" by simp
    then show ?thesis by (auto simp: joined_roots_def split: if_splits)
  qed
  then show ?thesis using levels_link [OF h roots _ _ ne] a(1) b(1) len uf' by (auto simp: sets_ok_def)
qed

lemma joined_roots_swap: "joined_roots R a b r = joined_roots R b a r"
  by (auto simp: joined_roots_def fun_eq_iff)

lemma union_sets_ok:
  assumes ok: "sets_ok n R uf" and "i < n" "j < n" and ne: "R i \<noteq> R j"
  shows "\<exists>uf' r. union_sets i j uf = Some uf' \<and> r \<in> {R i, R j} \<and> sets_ok n (joined_roots R (R i) (R j) r) uf'"
proof -
  obtain uf1 where uf1: "find_set i uf = Some (R i, uf1)" "sets_ok n R uf1" using find_set_ok [OF ok assms(2)] by blast
  obtain uf2 where uf2: "find_set j uf1 = Some (R j, uf2)" "sets_ok n R uf2" using find_set_ok [OF uf1(2) assms(3)] by blast
  have len: "length (ix_rank uf2) = n" using uf2 by (simp add: sets_ok_def)
  note ri = sets_ok_root [OF uf2(2) assms(2)] and rj = sets_ok_root [OF uf2(2) assms(3)]
  note up = link_ok [OF uf2(2) ri(1,2) rj(1,2) ne] and down = link_ok [OF uf2(2) rj(1,2) ri(1,2) ne [symmetric]]
  show ?thesis
  proof (cases "ix_rank uf2 ! R i < ix_rank uf2 ! R j")
    case True
    then show ?thesis
      using up [of "uf2\<lparr>ix_parent := (ix_parent uf2)[R i := R j]\<rparr>"] uf1 uf2 ne len by (force simp: union_sets_def)
  next
    case low: False
    show ?thesis
    proof (cases "ix_rank uf2 ! R i > ix_rank uf2 ! R j")
      case True
      then show ?thesis
        using down [of "uf2\<lparr>ix_parent := (ix_parent uf2)[R j := R i]\<rparr>"] uf1 uf2 ne len low joined_roots_swap
        by (force simp: union_sets_def)
    next
      case False
      then show ?thesis
        using down [of "uf2\<lparr>ix_parent := (ix_parent uf2)[R j := R i], ix_rank := (ix_rank uf2)[R i := Suc (ix_rank uf2 ! R i)]\<rparr>"]
          uf1 uf2 ne len low joined_roots_swap by (force simp: union_sets_def)
    qed
  qed
qed

subsection \<open>What the loop keeps\<close>

text \<open>Some pair across the clusters of i and j may not merge.\<close>

definition apart :: "nat \<Rightarrow> (nat \<Rightarrow> nat \<Rightarrow> bool) \<Rightarrow> (nat \<Rightarrow> nat) \<Rightarrow> nat \<Rightarrow> nat \<Rightarrow> bool" where
  "apart n sm R i j \<longleftrightarrow> (\<exists>a < n. \<exists>b < n. R a = R i \<and> R b = R j \<and> \<not> sm a b)"

definition members_ok :: "nat \<Rightarrow> (nat \<Rightarrow> nat) \<Rightarrow> (nat \<rightharpoonup> nat list) \<Rightarrow> bool" where
  "members_ok n R members \<longleftrightarrow> (\<forall>r. (\<exists>x < n. R x = r) \<longrightarrow> members r \<noteq> None)
     \<and> (\<forall>r ms. members r = Some ms \<longrightarrow> set ms = {x. x < n \<and> R x = r})"

definition cluster_ok :: "nat \<Rightarrow> (nat \<Rightarrow> nat \<Rightarrow> bool) \<Rightarrow> (nat \<times> nat) set \<Rightarrow> (nat \<Rightarrow> nat) \<Rightarrow> cluster_state \<Rightarrow> bool" where
  "cluster_ok n sm tried R s \<longleftrightarrow> sets_ok n R (fst s) \<and> members_ok n R (snd s)
     \<and> (\<forall>x < n. \<forall>y < n. R x = R y \<longrightarrow> x \<noteq> y \<longrightarrow> sm x y)
     \<and> (\<forall>(i, j) \<in> tried. sm i j \<longrightarrow> R i = R j \<or> apart n sm R i j)"

lemma joined_cong: "R x = R y \<Longrightarrow> joined_roots R ra rb r x = joined_roots R ra rb r y"
  by (simp add: joined_roots_def)

lemma apart_joined: "apart n sm R i j \<Longrightarrow> apart n sm (joined_roots R ra rb r) i j"
  unfolding apart_def using joined_cong by metis

lemma members_joined:
  assumes "members_ok n R members" and "members ra = Some ma" "members rb = Some mb" and "r \<in> {ra, rb}" "ra \<noteq> rb"
  shows "members_ok n (joined_roots R ra rb r)
    ((let m1 = (if r \<noteq> ra then members(ra := None) else members) in if r \<noteq> rb then m1(rb := None) else m1)(r \<mapsto> ma @ mb))"
  using assms unfolding members_ok_def joined_roots_def Let_def by (auto split: if_splits)

lemma cluster_ok_tried:
  "cluster_ok n sm tried R s \<Longrightarrow> (sm i j \<Longrightarrow> R i = R j \<or> apart n sm R i j) \<Longrightarrow> cluster_ok n sm (insert (i, j) tried) R s"
  by (auto simp: cluster_ok_def)

lemma merge_pair_ok:
  assumes ok: "cluster_ok n sm tried R s" and ij: "i < n" "j < n"
    and sym: "\<And>a b. a < n \<Longrightarrow> b < n \<Longrightarrow> sm a b = sm b a"
  shows "\<exists>R' s'. merge_pair sm i j s = Some s' \<and> cluster_ok n sm (if i < j then insert (i, j) tried else tried) R' s'"
proof -
  obtain uf members where s: "s = (uf, members)" by (cases s)
  have parts: "sets_ok n R uf" "members_ok n R members"
      "\<And>x y. x < n \<Longrightarrow> y < n \<Longrightarrow> R x = R y \<Longrightarrow> x \<noteq> y \<Longrightarrow> sm x y"
      "\<And>a b. (a, b) \<in> tried \<Longrightarrow> sm a b \<Longrightarrow> R a = R b \<or> apart n sm R a b"
    using ok by (auto simp: cluster_ok_def s)
  show ?thesis
  proof (cases "j \<le> i \<or> \<not> sm i j")
    case True
    then show ?thesis using ok cluster_ok_tried [OF ok, of i j] by (auto simp: merge_pair_def s)
  next
    case False
    obtain uf1 where uf1: "find_set i uf = Some (R i, uf1)" "sets_ok n R uf1" using find_set_ok [OF parts(1) ij(1)] by blast
    obtain uf2 where uf2: "find_set j uf1 = Some (R j, uf2)" "sets_ok n R uf2" using find_set_ok [OF uf1(2) ij(2)] by blast
    have still: "cluster_ok n sm tried R (uf2, members)" using parts uf2 by (auto simp: cluster_ok_def)
    show ?thesis
    proof (cases "R i = R j")
      case True
      then show ?thesis using cluster_ok_tried [OF still, of i j] False uf1 uf2 by (force simp: merge_pair_def s)
    next
      case apart_roots: False
      obtain ma mb where ma: "members (R i) = Some ma" "set ma = {x. x < n \<and> R x = R i}"
        and mb: "members (R j) = Some mb" "set mb = {x. x < n \<and> R x = R j}"
        using parts(2) ij unfolding members_ok_def by (metis not_None_eq)
      show ?thesis
      proof (cases "list_all (\<lambda>a. list_all (\<lambda>b. sm a b) mb) ma")
        case no: False
        then have "apart n sm R i j" using ma(2) mb(2) by (auto simp: apart_def list_all_iff)
        then show ?thesis
          using cluster_ok_tried [OF still, of i j] False uf1 uf2 apart_roots ma(1) mb(1) no by (force simp: merge_pair_def s)
      next
        case yes: True
        obtain uf3 r where uf3: "union_sets i j uf2 = Some uf3" "r \<in> {R i, R j}" "sets_ok n (joined_roots R (R i) (R j) r) uf3"
          using union_sets_ok [OF uf2(2) ij apart_roots] by blast
        let ?R = "joined_roots R (R i) (R j) r"
        obtain uf4 where uf4: "find_set i uf3 = Some (?R i, uf4)" "sets_ok n ?R uf4" using find_set_ok [OF uf3(3) ij(1)] by blast
        have ri: "?R i = r" "?R j = r" by (simp_all add: joined_roots_def)
        let ?m = "(let m1 = (if r \<noteq> R i then members(R i := None) else members) in if r \<noteq> R j then m1(R j := None) else m1)(r \<mapsto> ma @ mb)"
        have run: "merge_pair sm i j s = Some (uf4, ?m)"
          using False uf1(1) uf2(1) apart_roots ma(1) mb(1) yes uf3(1) uf4(1) ri by (simp add: merge_pair_def s Let_def)
        have across: "sm x y" if "x < n" "y < n" "R x = R i" "R y = R j" for x y
          using yes ma(2) mb(2) that by (auto simp: list_all_iff)
        have clique: "sm x y" if "x < n" "y < n" "?R x = ?R y" "x \<noteq> y" for x y
        proof (cases "R x = R y")
          case False
          then have "(R x = R i \<and> R y = R j) \<or> (R x = R j \<and> R y = R i)"
            using that(3) uf3(2) by (auto simp: joined_roots_def split: if_splits)
          then show ?thesis using across that sym by metis
        qed (use parts(3) that in blast)
        have "members_ok n ?R ?m" by (rule members_joined [OF parts(2) ma(1) mb(1) uf3(2) apart_roots])
        moreover have "?R a = ?R b \<or> apart n sm ?R a b" if "(a, b) \<in> tried" "sm a b" for a b
          using parts(4) [OF that] joined_cong apart_joined by metis
        ultimately have "cluster_ok n sm tried ?R (uf4, ?m)" using uf4(2) clique by (auto simp: cluster_ok_def)
        then have "cluster_ok n sm (insert (i, j) tried) ?R (uf4, ?m)" by (rule cluster_ok_tried) (simp add: ri)
        with run False show ?thesis by force
      qed
    qed
  qed
qed

text \<open>The pairs the loop offers.\<close>

definition offered :: "nat \<Rightarrow> (nat \<Rightarrow> nat list) \<Rightarrow> (nat \<times> nat) set" where
  "offered n nb = {(i, j). i < n \<and> j \<in> set (nb i) \<and> i < j}"

lemma merge_row_ok:
  assumes "cluster_ok n sm tried R s" and "i < n" "set js \<subseteq> {..<n}"
    and sym: "\<And>a b. a < n \<Longrightarrow> b < n \<Longrightarrow> sm a b = sm b a"
  shows "\<exists>R' s'. fold_option (\<lambda>j. merge_pair sm i j) js s = Some s'
    \<and> cluster_ok n sm (tried \<union> {(i, j) | j. j \<in> set js \<and> i < j}) R' s'"
  using assms(1,3)
proof (induction js arbitrary: tried R s)
  case (Cons j js)
  obtain R1 s1 where step: "merge_pair sm i j s = Some s1" "cluster_ok n sm (if i < j then insert (i, j) tried else tried) R1 s1"
    using merge_pair_ok [OF Cons.prems(1) assms(2) _ sym, of j] Cons.prems(2) by auto
  have "(if i < j then insert (i, j) tried else tried) \<union> {(i, j') | j'. j' \<in> set js \<and> i < j'}
      = tried \<union> {(i, j') | j'. j' \<in> set (j # js) \<and> i < j'}" by auto
  with Cons.IH [OF step(2)] Cons.prems(2) step(1) show ?case by auto
qed auto

lemma merge_all_ok:
  assumes sym: "\<And>a b. a < n \<Longrightarrow> b < n \<Longrightarrow> sm a b = sm b a" and nb: "\<And>i. i < n \<Longrightarrow> set (nb i) \<subseteq> {..<n}"
  shows "\<exists>R s. merge_all n nb sm (new_sets n, \<lambda>i. if i < n then Some [i] else None) = Some s
    \<and> cluster_ok n sm (offered n nb) R s"
proof -
  have start: "cluster_ok n sm {} id (new_sets n, \<lambda>i. if i < n then Some [i] else None)"
    by (auto simp: cluster_ok_def new_sets_ok members_ok_def split: if_splits)
  have "\<exists>R s. fold_option (\<lambda>i. fold_option (\<lambda>j. merge_pair sm i j) (nb i)) [0..<m] (new_sets n, \<lambda>i. if i < n then Some [i] else None) = Some s
      \<and> cluster_ok n sm {(i, j). i < m \<and> j \<in> set (nb i) \<and> i < j} R s" if "m \<le> n" for m
    using that
  proof (induction m)
    case 0
    then show ?case using start by auto
  next
    case (Suc m)
    then obtain R s where s: "fold_option (\<lambda>i. fold_option (\<lambda>j. merge_pair sm i j) (nb i)) [0..<m] (new_sets n, \<lambda>i. if i < n then Some [i] else None) = Some s"
      "cluster_ok n sm {(i, j). i < m \<and> j \<in> set (nb i) \<and> i < j} R s" by auto
    have m: "m < n" using Suc.prems by simp
    obtain R' s' where s': "fold_option (\<lambda>j. merge_pair sm m j) (nb m) s = Some s'"
      "cluster_ok n sm ({(i, j). i < m \<and> j \<in> set (nb i) \<and> i < j} \<union> {(m, j) | j. j \<in> set (nb m) \<and> m < j}) R' s'"
      using merge_row_ok [OF s(2) m nb [OF m] sym] by blast
    have "{(i, j). i < m \<and> j \<in> set (nb i) \<and> i < j} \<union> {(m, j) | j. j \<in> set (nb m) \<and> m < j}
        = {(i, j). i < Suc m \<and> j \<in> set (nb i) \<and> i < j}" by (auto simp: less_Suc_eq)
    then show ?case using s(1) s' by (intro exI [of _ R'] exI [of _ s']) (simp add: fold_option_append)
  qed
  from this [of n] show ?thesis by (auto simp: merge_all_def offered_def)
qed

subsection \<open>The clusters that come out\<close>

definition index_group :: "(nat \<Rightarrow> nat) \<Rightarrow> nat \<Rightarrow> nat \<Rightarrow> nat list" where
  "index_group R m r = filter (\<lambda>x. R x = r) [0..<m]"

lemma map_of_map_set: "map_of (map_set k v kvs) = (map_of kvs)(k \<mapsto> v)"
  by (induction k v kvs rule: map_set.induct) (auto simp: fun_eq_iff)

lemma distinct_map_set: "distinct (map fst kvs) \<Longrightarrow> distinct (map fst (map_set k v kvs))"
proof (induction k v kvs rule: map_set.induct)
  case (2 k v k' v' kvs)
  have "fst ` set (map_set k v kvs) \<subseteq> insert k (fst ` set kvs)" for kvs :: "('a \<times> 'b) list"
    by (induction k v kvs rule: map_set.induct) auto
  from this [of kvs] 2 show ?case by auto
qed simp

lemma collect_ok:
  assumes "sets_ok n R uf" and "m \<le> n"
  shows "\<exists>uf' clusters. fold_option collect_index [0..<m] (uf, []) = Some (uf', clusters) \<and> sets_ok n R uf'
    \<and> distinct (map fst clusters) \<and> (\<forall>r. map_of clusters r = (if index_group R m r = [] then None else Some (index_group R m r)))"
  using assms(2)
proof (induction m)
  case 0
  then show ?case using assms(1) by (simp add: index_group_def)
next
  case (Suc m)
  then obtain uf1 clusters where c: "fold_option collect_index [0..<m] (uf, []) = Some (uf1, clusters)" "sets_ok n R uf1"
    "distinct (map fst clusters)" "\<forall>r. map_of clusters r = (if index_group R m r = [] then None else Some (index_group R m r))" by auto
  obtain uf2 where uf2: "find_set m uf1 = Some (R m, uf2)" "sets_ok n R uf2" using find_set_ok [OF c(2), of m] Suc.prems by auto
  let ?new = "map_set (R m) (case map_of clusters (R m) of None \<Rightarrow> [m] | Some existing \<Rightarrow> existing @ [m]) clusters"
  have "collect_index m (uf1, clusters) = Some (uf2, ?new)" using uf2 by (simp add: collect_index_def)
  then have "fold_option collect_index [0..<Suc m] (uf, []) = Some (uf2, ?new)" using c(1) by (simp add: fold_option_append)
  moreover have "map_of ?new r = (if index_group R (Suc m) r = [] then None else Some (index_group R (Suc m) r))" for r
    using c(4) by (auto simp: map_of_map_set index_group_def)
  ultimately show ?case using uf2(2) distinct_map_set [OF c(3)] by blast
qed

text \<open>\<open>clusterIndices\<close> always returns, and its clusters are a partition of the items into cliques that is
  maximal: every item is in one cluster, listed in order; any two of a cluster may merge, so no chain
  of neighbours is folded into one; and two clusters stay apart only if no neighbour pair across them
  may merge or some pair across them may not.\<close>

lemma clusterIndices_maximal_cliques:
  assumes sym: "\<And>a b. a < n \<Longrightarrow> b < n \<Longrightarrow> sm a b = sm b a" and nb: "\<And>i. i < n \<Longrightarrow> set (nb i) \<subseteq> {..<n}"
  shows "\<exists>clusters. clusterIndices n nb sm = Some clusters
    \<and> (\<forall>x < n. \<exists>!ms. ms \<in> set (map snd clusters) \<and> x \<in> set ms)
    \<and> distinct (map snd clusters)
    \<and> (\<forall>ms \<in> set (map snd clusters). ms \<noteq> [] \<and> sorted_wrt (<) ms \<and> set ms \<subseteq> {..<n}
        \<and> (\<forall>x \<in> set ms. \<forall>y \<in> set ms. x \<noteq> y \<longrightarrow> sm x y))
    \<and> (\<forall>ms \<in> set (map snd clusters). \<forall>ms' \<in> set (map snd clusters). ms \<noteq> ms' \<longrightarrow>
        (\<exists>i \<in> set ms. \<exists>j \<in> set ms'. (i, j) \<in> offered n nb \<and> sm i j) \<longrightarrow> (\<exists>a \<in> set ms. \<exists>b \<in> set ms'. \<not> sm a b))"
proof -
  obtain R uf members where run: "merge_all n nb sm (new_sets n, \<lambda>i. if i < n then Some [i] else None) = Some (uf, members)"
    and ok: "cluster_ok n sm (offered n nb) R (uf, members)"
    using merge_all_ok [of n sm nb] sym nb by force
  have clique: "sm x y" if "x < n" "y < n" "R x = R y" "x \<noteq> y" for x y using ok that by (auto simp: cluster_ok_def)
  have far: "R i = R j \<or> apart n sm R i j" if "(i, j) \<in> offered n nb" "sm i j" for i j
    using ok that by (auto simp: cluster_ok_def)
  obtain uf' clusters where c: "fold_option collect_index [0..<n] (uf, []) = Some (uf', clusters)" "distinct (map fst clusters)"
    "\<And>r. map_of clusters r = (if index_group R n r = [] then None else Some (index_group R n r))"
    using collect_ok [of n R uf n] ok by (auto simp: cluster_ok_def)
  have result: "clusterIndices n nb sm = Some clusters" by (simp add: clusterIndices_def run c(1))
  have entry: "(r, ms) \<in> set clusters \<longleftrightarrow> ms = index_group R n r \<and> ms \<noteq> []" for r ms
    using c(3) [of r] map_of_eq_Some_iff [OF c(2), of r ms] by (auto split: if_splits)
  have mem: "ms \<in> set (map snd clusters) \<longleftrightarrow> (\<exists>r. ms = index_group R n r \<and> ms \<noteq> [])" for ms using entry by force
  have in_index_group: "x \<in> set (index_group R n r) \<longleftrightarrow> x < n \<and> R x = r" for x r by (auto simp: index_group_def)
  have "\<exists>!ms. ms \<in> set (map snd clusters) \<and> x \<in> set ms" if "x < n" for x
  proof (rule ex1I [of _ "index_group R n (R x)"])
    have "x \<in> set (index_group R n (R x))" using that by (simp add: in_index_group)
    then show "index_group R n (R x) \<in> set (map snd clusters) \<and> x \<in> set (index_group R n (R x))" by (auto simp: mem simp del: set_map)
    show "ms = index_group R n (R x)" if "ms \<in> set (map snd clusters) \<and> x \<in> set ms" for ms using that by (auto simp: mem in_index_group simp del: set_map)
  qed
  moreover have "distinct (map snd clusters)"
  proof -
    have "inj_on snd (set clusters)"
    proof (rule inj_onI)
      fix a b assume ab: "a \<in> set clusters" "b \<in> set clusters" "snd a = snd b"
      obtain r ms r' where "a = (r, ms)" "b = (r', ms)" using ab(3) by (metis prod.collapse)
      then have "ms = index_group R n r" "ms = index_group R n r'" "ms \<noteq> []" using ab entry by auto
      then obtain x where "x \<in> set (index_group R n r)" "x \<in> set (index_group R n r')" by (metis list.set_intros(1) neq_Nil_conv)
      then show "a = b" using \<open>a = _\<close> \<open>b = _\<close> by (simp add: in_index_group)
    qed
    then show ?thesis using c(2) by (auto simp: distinct_map)
  qed
  moreover have "ms \<noteq> [] \<and> sorted_wrt (<) ms \<and> set ms \<subseteq> {..<n} \<and> (\<forall>x \<in> set ms. \<forall>y \<in> set ms. x \<noteq> y \<longrightarrow> sm x y)"
    if "ms \<in> set (map snd clusters)" for ms
    using that clique by (auto simp: mem in_index_group simp del: set_map) (simp add: index_group_def sorted_wrt_filter)
  moreover have "\<exists>a \<in> set ms. \<exists>b \<in> set ms'. \<not> sm a b"
    if ms: "ms \<in> set (map snd clusters)" "ms' \<in> set (map snd clusters)" "ms \<noteq> ms'"
      and offers: "\<exists>i \<in> set ms. \<exists>j \<in> set ms'. (i, j) \<in> offered n nb \<and> sm i j" for ms ms'
  proof -
    obtain r r' where g: "ms = index_group R n r" "ms' = index_group R n r'" using ms(1,2) mem by blast
    obtain i j where "i \<in> set ms" "j \<in> set ms'" and ij: "(i, j) \<in> offered n nb" "sm i j" using offers by blast
    then have roots: "R i = r" "R j = r'" by (simp_all add: g in_index_group)
    have "r \<noteq> r'" using ms(3) unfolding g by blast
    then have "R i \<noteq> R j" unfolding roots .
    with far [OF ij] have "apart n sm R i j" by blast
    then obtain a b where "a < n" "b < n" "R a = R i" "R b = R j" "\<not> sm a b" unfolding apart_def by blast
    then have "a \<in> set ms" "b \<in> set ms'" by (simp_all add: g in_index_group roots)
    with \<open>\<not> sm a b\<close> show ?thesis by blast
  qed
  ultimately show ?thesis using result by blast
qed

text \<open>A chain of three, of which the ends may not merge, keeps two clusters; which two depends on the order.\<close>

lemma chain_of_three:
  "clusterIndices 3 (\<lambda>_. [0, 1, 2]) (\<lambda>i j. \<bar>int i - int j\<bar> = 1) = Some [(0, [0, 1]), (2, [2])]"
  by (simp add: clusterIndices_def merge_all_def merge_pair_def new_sets_def upt_rec eval_nat_numeral
    find_set_def find_from.simps union_sets_def collect_index_def Let_def)

lemma clusterIndices_maximal_cliques_witness:
  "\<exists>clusters. clusterIndices 3 (\<lambda>_. [0, 1, 2]) (\<lambda>i j. \<bar>int i - int j\<bar> = 1) = Some clusters \<and> distinct (map snd clusters)"
proof -
  have "\<bar>int a - int b\<bar> = 1 \<longleftrightarrow> \<bar>int b - int a\<bar> = 1" for a b by linarith
  from clusterIndices_maximal_cliques [of 3 "\<lambda>i j. \<bar>int i - int j\<bar> = 1" "\<lambda>_. [0, 1, 2]"] this show ?thesis by auto
qed

text \<open>Two points twenty metres apart across the antimeridian are in buckets that are no neighbours.\<close>

lemma antimeridian_no_neighbour:
  "\<exists>key key'. bucketKey (Some (Position 180 0)) = Some key \<and> bucketKey (Some (Position (-179.9998) 0)) = Some key'
    \<and> key' \<notin> set (neighborKeys key 0 60)"
  by (simp add: bucketKey_def BUCKET_DEG_def neighborKeys_def lngNeighborRange_def METERS_PER_DEG_LAT_def MIN_LAT_COS_def Let_def)
    auto

end
