(* ===== verification/Road_Dedupe.thy ===== *)
theory Road_Dedupe
  imports Spatial_Cluster Wire_Values Codec
begin

text \<open>
  The duplicate fold of one feed's road events, packages/roads/src/dedupe.ts, and the great-circle distance
  of packages/core/src/spatial.ts.

  \<^item> A road event is the record of the fields the fold reads. Its type, subtype, road state and speed limit
    are compared only; what is serialised to be compared (schedules, lanes, restrictions) is a JSON value.
  \<^item> The environment \<open>env\<close> holds what the library decides: the Unicode tables, \<open>toUpperCase\<close>,
    \<open>Date.parse\<close> and \<open>JSON.stringify\<close>.
  \<^item> A representative point of no coordinates is \<open>[NaN, NaN]\<close>, here \<open>None\<close>: no distance to it is above or
    below a bound. A polygon with no rings throws.
  \<^item> Two objects are one object (\<open>f === e\<close>) when they are equal: the replacement of an event by an equal
    one is refused by the instants anyway.
\<close>

subsection \<open>Events\<close>

record road_ref =
  rr_name :: "text16 option"
  rr_ref :: "text16 option"
  rr_direction :: "text16 option"

record road_event =
  re_id :: text16
  re_geometry :: geometry
  re_type :: text16
  re_subtype :: "text16 option"
  re_headline :: "text16 option"
  re_label :: "text16 option"
  re_description :: "text16 option"
  re_direction :: "text16 option"
  re_roads :: "road_ref list"
  re_validFrom :: "text16 option"
  re_validTo :: "text16 option"
  re_schedule :: "wire list option"
  re_isForecast :: "bool option"
  re_roadState :: "text16 option"
  re_speedLimitKph :: "real option"
  re_lanesAffected :: "wire option"
  re_vehiclesAffected :: "text16 list option"
  re_restrictions :: "wire option"
  re_restrictionFacts :: "wire option"
  re_dataUpdatedAt :: text16
  re_sourceUpdatedAt :: "text16 option"

record dedupe_env =
  de_unicode :: unicode
  de_upper :: "text16 \<Rightarrow> text16"
  de_parse :: "text16 \<Rightarrow> instant"
  de_json :: "wire \<Rightarrow> text16"

definition MERGE_DISTANCE_M :: real where "MERGE_DISTANCE_M = 60"
definition LABEL_JACCARD_MIN :: real where "LABEL_JACCARD_MIN = 1 / 2"

subsection \<open>Places\<close>

definition haversineMeters :: "position \<Rightarrow> position \<Rightarrow> real" where
  "haversineMeters a b =
     (let dLat = (pos_y b - pos_y a) * pi / 180;
          dLng = (pos_x b - pos_x a) * pi / 180;
          sinDLat = sin (dLat / 2);
          sinDLng = sin (dLng / 2);
          h = sinDLat * sinDLat + cos (pos_y a * pi / 180) * cos (pos_y b * pi / 180) * sinDLng * sinDLng
      in 2 * 6371000 * arcsin (sqrt h))"

definition mean_position :: "position list \<Rightarrow> position option" where
  "mean_position ps = (if ps = [] then None
     else Some (Position (foldl (\<lambda>s p. s + pos_x p) 0 ps / real (length ps))
                         (foldl (\<lambda>s p. s + pos_y p) 0 ps / real (length ps))))"

fun representativePoint :: "geometry \<Rightarrow> js_error + position option" where
  "representativePoint (Point p) = Inr (Some p)"
| "representativePoint (LineString ps) = Inr (mean_position ps)"
| "representativePoint (Polygon rings) = (case rings of
     [] \<Rightarrow> Inl (TypeError ''Cannot read properties of undefined'')
   | ring # _ \<Rightarrow> Inr (mean_position (butlast ring)))"
| "representativePoint (MultiPoint ps) = Inr (mean_position ps)"
| "representativePoint (MultiLineString lines) = Inr (mean_position (concat lines))"
| "representativePoint (MultiPolygon polys) =
     Inr (mean_position (concat (map (\<lambda>poly. case poly of [] \<Rightarrow> [] | ring # _ \<Rightarrow> butlast ring) polys)))"
| "representativePoint (GeometryCollection gs) = (case gs of [] \<Rightarrow> Inr (Some (Position 0 0)) | g # _ \<Rightarrow> representativePoint g)"

definition farther :: "position option \<Rightarrow> position option \<Rightarrow> bool" where
  "farther p q = (case (p, q) of (Some a, Some b) \<Rightarrow> haversineMeters a b > MERGE_DISTANCE_M | _ \<Rightarrow> False)"

definition within_merge :: "position option \<Rightarrow> position option \<Rightarrow> bool" where
  "within_merge p q = (case (p, q) of (Some a, Some b) \<Rightarrow> haversineMeters a b \<le> MERGE_DISTANCE_M | _ \<Rightarrow> False)"

subsection \<open>Texts\<close>

definition tokenize :: "unicode \<Rightarrow> text16 \<Rightarrow> text16 set" where
  "tokenize uc label = set (filter (\<lambda>t. length t \<ge> 2) (map units_of (runs (un_word uc) [] (points_of (un_lower uc label)))))"

definition jaccardOverlap :: "unicode \<Rightarrow> text16 \<Rightarrow> text16 \<Rightarrow> real" where
  "jaccardOverlap uc a b =
     (let ta = tokenize uc a; tb = tokenize uc b
      in if card ta = 0 \<or> card tb = 0 then 0
         else let intersect = card (ta \<inter> tb); union = card ta + card tb - intersect
           in if union = 0 then 0 else real intersect / real union)"

definition shown_text :: "road_event \<Rightarrow> text16" where
  "shown_text e = (case (case re_headline e of None \<Rightarrow> re_label e | t \<Rightarrow> t) of None \<Rightarrow> [] | Some t \<Rightarrow> trim16 t)"

definition textsCompatible :: "unicode \<Rightarrow> road_event \<Rightarrow> road_event \<Rightarrow> bool" where
  "textsCompatible uc a b =
     (let la = shown_text a; lb = shown_text b
      in if la = [] \<or> lb = [] then True else jaccardOverlap uc la lb \<ge> LABEL_JACCARD_MIN)"

definition norm_text :: "unicode \<Rightarrow> text16 option \<Rightarrow> text16 option" where
  "norm_text uc s = (case s of None \<Rightarrow> None
     | Some t \<Rightarrow> let n = un_lower uc (trim16 t) in if n = [] then None else Some n)"

definition descriptionKey :: "unicode \<Rightarrow> text16 option \<Rightarrow> text16 option" where
  "descriptionKey uc s = norm_text uc (map_option squeeze_spaces s)"

fun join_bars :: "text16 list \<Rightarrow> text16" where
  "join_bars [] = []"
| "join_bars [t] = t"
| "join_bars (t # ts) = t @ 124 # join_bars ts"

definition directionOf :: "unicode \<Rightarrow> road_event \<Rightarrow> text16 option" where
  "directionOf uc e = (case norm_text uc (re_direction e) of
     Some own \<Rightarrow> Some own
   | None \<Rightarrow> let onRoads = remdups (List.map_filter (\<lambda>r. norm_text uc (rr_direction r)) (re_roads e))
       in if length onRoads > 0 then Some (join_bars (sort onRoads)) else None)"

text \<open>\<open>String(ms)\<close>.\<close>

definition int_text :: "int \<Rightarrow> text16" where
  "int_text n = (if n < 0 then [45] else []) @
     (if n = 0 then [48] else map (\<lambda>d. 48 + of_nat d) (digits_of 10 (nat \<bar>n\<bar>)))"

definition instantKey :: "dedupe_env \<Rightarrow> text16 option \<Rightarrow> text16 option" where
  "instantKey env s = (case s of None \<Rightarrow> None
     | Some t \<Rightarrow> if t = [] then None
         else (case de_parse env t of Some ms \<Rightarrow> Some (int_text ms) | None \<Rightarrow> Some t))"

definition roadKeys :: "dedupe_env \<Rightarrow> road_event \<Rightarrow> text16 set" where
  "roadKeys env e = set (filter (\<lambda>s. s \<noteq> []) (map (\<lambda>s. de_upper env (strip_spaces s))
     (List.map_filter id (concat (map (\<lambda>r. [rr_name r, rr_ref r]) (re_roads e))))))"

subsection \<open>What tells two events apart\<close>

definition differ :: "'a option \<Rightarrow> 'a option \<Rightarrow> bool" where
  "differ x y = (case (x, y) of (Some a, Some b) \<Rightarrow> a \<noteq> b | _ \<Rightarrow> False)"

definition vehicles_key :: "dedupe_env \<Rightarrow> road_event \<Rightarrow> text16 option" where
  "vehicles_key env e = (case re_vehiclesAffected e of None \<Rightarrow> None
     | Some vs \<Rightarrow> if vs = [] then None else Some (de_json env (WArray (map WString (sort vs)))))"

definition schedule_key :: "dedupe_env \<Rightarrow> road_event \<Rightarrow> text16 option" where
  "schedule_key env e = (case re_schedule e of None \<Rightarrow> None
     | Some s \<Rightarrow> if s = [] then None else Some (de_json env (WArray s)))"

definition distinct_events :: "dedupe_env \<Rightarrow> road_event \<Rightarrow> road_event \<Rightarrow> bool" where
  "distinct_events env a b =
     (let uc = de_unicode env; json = map_option (de_json env) in
      if differ (descriptionKey uc (re_description a)) (descriptionKey uc (re_description b)) then True
      else if differ (directionOf uc a) (directionOf uc b) then True
      else if differ (instantKey env (re_validFrom a)) (instantKey env (re_validFrom b)) then True
      else if differ (instantKey env (re_validTo a)) (instantKey env (re_validTo b)) then True
      else if differ (schedule_key env a) (schedule_key env b) then True
      else if (re_isForecast a = Some True) \<noteq> (re_isForecast b = Some True) then True
      else if differ (re_subtype a) (re_subtype b) then True
      else if differ (re_roadState a) (re_roadState b) then True
      else if differ (re_speedLimitKph a) (re_speedLimitKph b) then True
      else if differ (json (re_lanesAffected a)) (json (re_lanesAffected b)) then True
      else if differ (vehicles_key env a) (vehicles_key env b) then True
      else if differ (json (re_restrictions a)) (json (re_restrictions b)) then True
      else if differ (json (re_restrictionFacts a)) (json (re_restrictionFacts b)) then True
      else let ra = roadKeys env a; rb = roadKeys env b
        in card ra > 0 \<and> card rb > 0 \<and> \<not> (\<exists>r \<in> ra. r \<in> rb))"

subsection \<open>The event updated last\<close>

definition newer :: "dedupe_env \<Rightarrow> road_event \<Rightarrow> road_event \<times> instant \<Rightarrow> road_event \<times> instant" where
  "newer env e best = (case best of (b, bestTime) \<Rightarrow>
     let t = de_parse env (re_dataUpdatedAt e)
     in if inst_less bestTime t \<or> (t \<noteq> None \<and> t = bestTime \<and> re_id e < re_id b) then (e, t) else (b, bestTime))"

definition newestByDataUpdatedAt :: "dedupe_env \<Rightarrow> road_event \<Rightarrow> road_event list \<Rightarrow> road_event" where
  "newestByDataUpdatedAt env first others =
     fst (fold (newer env) others (first, de_parse env (re_dataUpdatedAt first)))"

subsection \<open>Events a follow-up replaces\<close>

definition updatedMs :: "dedupe_env \<Rightarrow> road_event \<Rightarrow> instant" where
  "updatedMs env e = de_parse env (nullish (re_sourceUpdatedAt e) (re_dataUpdatedAt e))"

text \<open>Whether the follow-up \<open>f\<close> replaces \<open>e\<close>, which was updated at \<open>at'\<close> and lies at \<open>pt\<close>.\<close>

definition replaces :: "dedupe_env \<Rightarrow> (road_event \<Rightarrow> bool) \<Rightarrow> road_event \<Rightarrow> int \<Rightarrow> position option \<Rightarrow> road_event \<Rightarrow> js_error + bool" where
  "replaces env isFollowUp e at' pt f =
     (if f = e \<or> re_type f \<noteq> re_type e then Inr False
      else if re_subtype f \<noteq> None \<and> re_subtype e \<noteq> None \<and> re_subtype f \<noteq> re_subtype e then Inr False
      else (case updatedMs env f of None \<Rightarrow> Inr False
       | Some fAt \<Rightarrow> if fAt < at' \<or> (fAt = at' \<and> isFollowUp e) then Inr False
           else bindE (representativePoint (re_geometry f)) (\<lambda>q. Inr (within_merge q pt))))"

fun someE :: "('a \<Rightarrow> 'e + bool) \<Rightarrow> 'a list \<Rightarrow> 'e + bool" where
  "someE f [] = Inr False"
| "someE f (x # xs) = bindE (f x) (\<lambda>b. if b then Inr True else someE f xs)"

fun filterE :: "('a \<Rightarrow> 'e + bool) \<Rightarrow> 'a list \<Rightarrow> 'e + 'a list" where
  "filterE f [] = Inr []"
| "filterE f (x # xs) = bindE (f x) (\<lambda>b. bindE (filterE f xs) (\<lambda>ys. Inr (if b then x # ys else ys)))"

definition replaced :: "dedupe_env \<Rightarrow> (road_event \<Rightarrow> bool) \<Rightarrow> road_event list \<Rightarrow> road_event \<Rightarrow> js_error + bool" where
  "replaced env isFollowUp followUps e = (case updatedMs env e of None \<Rightarrow> Inr False
     | Some at' \<Rightarrow> bindE (representativePoint (re_geometry e)) (\<lambda>pt. someE (replaces env isFollowUp e at' pt) followUps))"

definition dropSupersededRoadEvents :: "dedupe_env \<Rightarrow> road_event list \<Rightarrow> (road_event \<Rightarrow> bool) \<Rightarrow> js_error + road_event list" where
  "dropSupersededRoadEvents env events isFollowUp =
     (let followUps = filter isFollowUp events
      in if followUps = [] then Inr events
         else filterE (\<lambda>e. bindE (replaced env isFollowUp followUps e) (\<lambda>b. Inr (\<not> b))) events)"

subsection \<open>The fold\<close>

definition add_to_bucket :: "position option list \<Rightarrow> nat \<Rightarrow> (bucket_key \<times> nat list) list \<Rightarrow> (bucket_key \<times> nat list) list" where
  "add_to_bucket pts i buckets =
     (let key = bucketKey (pts ! i)
      in map_set key (case map_of buckets key of Some arr \<Rightarrow> arr @ [i] | None \<Rightarrow> [i]) buckets)"

definition shouldMerge :: "dedupe_env \<Rightarrow> road_event list \<Rightarrow> position option list \<Rightarrow> nat \<Rightarrow> nat \<Rightarrow> bool" where
  "shouldMerge env events pts i j =
     (if re_type (events ! i) \<noteq> re_type (events ! j) then False
      else if farther (pts ! i) (pts ! j) then False
      else textsCompatible (de_unicode env) (events ! i) (events ! j) \<and> \<not> distinct_events env (events ! i) (events ! j))"

definition neighborsOf :: "position option list \<Rightarrow> (bucket_key \<times> nat list) list \<Rightarrow> nat \<Rightarrow> nat list" where
  "neighborsOf pts buckets i = (case pts ! i of None \<Rightarrow> []
     | Some p \<Rightarrow> (case bucketKey (Some p) of None \<Rightarrow> [] | Some key \<Rightarrow>
         concat (map (\<lambda>nKey. case map_of buckets (Some nKey) of Some candidates \<Rightarrow> candidates | None \<Rightarrow> [])
           (neighborKeys key (pos_y p) MERGE_DISTANCE_M))))"

definition survivor_of :: "dedupe_env \<Rightarrow> road_event list \<Rightarrow> nat list \<Rightarrow> road_event" where
  "survivor_of env events idxs =
     (if length idxs = 1 then events ! hd idxs
      else newestByDataUpdatedAt env (events ! hd idxs) (map (\<lambda>k. events ! k) (tl idxs)))"

definition dedupeRoadEvents :: "dedupe_env \<Rightarrow> road_event list \<Rightarrow> (js_error + road_event list) option" where
  "dedupeRoadEvents env events =
     (let n = length events in
      if n = 0 then Some (Inr [])
      else (case mapE (\<lambda>event. representativePoint (re_geometry event)) events of
        Inl e \<Rightarrow> Some (Inl e)
      | Inr pts \<Rightarrow> map_option (\<lambda>clusters. Inr (map (\<lambda>(_, idxs). survivor_of env events idxs) clusters))
          (clusterIndices n (neighborsOf pts (fold (add_to_bucket pts) [0..<n] [])) (shouldMerge env events pts))))"

subsection \<open>Every question is symmetric\<close>

lemma haversineMeters_commute: "haversineMeters a b = haversineMeters b a"
proof -
  have "sin ((x - y) * pi / 180 / 2) * sin ((x - y) * pi / 180 / 2) = sin ((y - x) * pi / 180 / 2) * sin ((y - x) * pi / 180 / 2)" for x y :: real
  proof -
    have "(x - y) * pi / 180 / 2 = - ((y - x) * pi / 180 / 2)" by (simp add: field_simps)
    then show ?thesis by (simp only: sin_minus)
  qed
  then have sq: "sin ((pos_y b - pos_y a) * pi / 180 / 2) * sin ((pos_y b - pos_y a) * pi / 180 / 2)
      = sin ((pos_y a - pos_y b) * pi / 180 / 2) * sin ((pos_y a - pos_y b) * pi / 180 / 2)"
    "sin ((pos_x b - pos_x a) * pi / 180 / 2) * sin ((pos_x b - pos_x a) * pi / 180 / 2)
      = sin ((pos_x a - pos_x b) * pi / 180 / 2) * sin ((pos_x a - pos_x b) * pi / 180 / 2)" by blast+
  show ?thesis unfolding haversineMeters_def Let_def
    by (simp only: sq mult.assoc mult.left_commute [of "cos (pos_y a * pi / 180)"])
qed

lemma farther_commute: "farther p q = farther q p"
  by (cases p; cases q) (simp_all add: farther_def haversineMeters_commute)

lemma jaccardOverlap_commute: "jaccardOverlap uc a b = jaccardOverlap uc b a"
  by (simp add: jaccardOverlap_def Let_def Int_commute add.commute conj_commute disj_commute)

lemma textsCompatible_commute: "textsCompatible uc a b = textsCompatible uc b a"
  by (simp add: textsCompatible_def Let_def jaccardOverlap_commute disj_commute)

lemma differ_commute: "differ x y = differ y x"
  by (auto simp: differ_def split: option.splits)

lemma distinct_events_commute: "distinct_events env a b = distinct_events env b a"
proof -
  have keys: "(card ra > 0 \<and> card rb > 0 \<and> \<not> (\<exists>r \<in> ra. r \<in> rb)) = (card rb > 0 \<and> card ra > 0 \<and> \<not> (\<exists>r \<in> rb. r \<in> ra))"
    for ra rb :: "text16 set" by blast
  show ?thesis
    unfolding distinct_events_def Let_def
    by (subst keys) (simp only: differ_commute [of "_ a" "_ b"] differ_commute [of "_ (_ a)" "_ (_ b)"]
        differ_commute [of "_ _ (_ a)" "_ _ (_ b)"] eq_commute [of "_ = Some True" "_ = Some True"])
qed

lemma shouldMerge_commute: "shouldMerge env events pts i j = shouldMerge env events pts j i"
  using textsCompatible_commute [of _ "events ! i" "events ! j"] distinct_events_commute [of env "events ! i" "events ! j"]
    farther_commute [of "pts ! i" "pts ! j"] by (auto simp: shouldMerge_def)

subsection \<open>The buckets\<close>

lemma buckets_lookup:
  "map_of (fold (add_to_bucket pts) [0..<n] []) k =
     (let g = filter (\<lambda>i. bucketKey (pts ! i) = k) [0..<n] in if g = [] then None else Some g)"
proof (induction n arbitrary: k)
  case (Suc n)
  let ?b = "fold (add_to_bucket pts) [0..<n] []"
  have "map_of (fold (add_to_bucket pts) [0..<Suc n] []) k =
      (if k = bucketKey (pts ! n) then Some (case map_of ?b k of Some arr \<Rightarrow> arr @ [n] | None \<Rightarrow> [n]) else map_of ?b k)"
    by (simp add: add_to_bucket_def Let_def map_of_map_set)
  then show ?case by (auto simp: Suc.IH Let_def)
qed simp

lemma bucket_members:
  "set (case map_of (fold (add_to_bucket pts) [0..<n] []) k of Some candidates \<Rightarrow> candidates | None \<Rightarrow> [])
   = {j. j < n \<and> bucketKey (pts ! j) = k}"
  by (auto simp: buckets_lookup Let_def filter_empty_conv)

lemma neighborsOf_set:
  "set (neighborsOf pts (fold (add_to_bucket pts) [0..<n] []) i) =
     (case pts ! i of None \<Rightarrow> {} | Some p \<Rightarrow> (case bucketKey (Some p) of None \<Rightarrow> {} | Some key \<Rightarrow>
        {j. j < n \<and> (\<exists>nKey \<in> set (neighborKeys key (pos_y p) MERGE_DISTANCE_M). bucketKey (pts ! j) = Some nKey)}))"
  by (auto simp: neighborsOf_def bucket_members split: option.splits)

subsection \<open>The event updated last\<close>

definition beats :: "dedupe_env \<Rightarrow> road_event \<Rightarrow> road_event \<Rightarrow> bool" where
  "beats env e b \<longleftrightarrow> (case (de_parse env (re_dataUpdatedAt b), de_parse env (re_dataUpdatedAt e)) of
     (Some tb, Some te) \<Rightarrow> tb < te \<or> (te = tb \<and> re_id e < re_id b) | _ \<Rightarrow> False)"

lemma newer_eq: "newer env e (b, de_parse env (re_dataUpdatedAt b)) =
    (let m = if beats env e b then e else b in (m, de_parse env (re_dataUpdatedAt m)))"
  by (auto simp: newer_def beats_def Let_def split: option.splits)

lemma beats_trans: "\<not> beats env x b \<Longrightarrow> beats env e b \<Longrightarrow> \<not> beats env x e"
  by (auto simp: beats_def split: option.splits)

lemma beats_irrefl: "\<not> beats env e e"
  by (auto simp: beats_def split: option.splits)

lemma newest_invariant:
  "\<forall>x \<in> S. \<not> beats env x b \<Longrightarrow> b \<in> S \<Longrightarrow>
   (let m = fst (fold (newer env) es (b, de_parse env (re_dataUpdatedAt b))) in m \<in> S \<union> set es \<and> (\<forall>x \<in> S \<union> set es. \<not> beats env x m))"
proof (induction es arbitrary: S b)
  case (Cons e es)
  let ?m = "if beats env e b then e else b"
  have "\<forall>x \<in> insert e S. \<not> beats env x ?m" "?m \<in> insert e S"
    using Cons.prems beats_trans [of env _ b e] beats_irrefl by auto
  from Cons.IH [OF this] show ?case by (simp add: newer_eq Let_def)
qed (simp add: Let_def)

lemma newest_best:
  "newestByDataUpdatedAt env e es \<in> set (e # es)" "x \<in> set (e # es) \<Longrightarrow> \<not> beats env x (newestByDataUpdatedAt env e es)"
  using newest_invariant [of "{e}" env e es] by (auto simp: newestByDataUpdatedAt_def Let_def beats_irrefl)

text \<open>The events of a cluster whose update times all parse have one survivor, whatever their order.\<close>

lemma newest_order_insensitive:
  assumes "mset (e # es) = mset (e' # es')" and "\<forall>x \<in> set (e # es). de_parse env (re_dataUpdatedAt x) \<noteq> None"
    and "inj_on re_id (set (e # es))"
  shows "newestByDataUpdatedAt env e es = newestByDataUpdatedAt env e' es'"
proof -
  let ?m = "newestByDataUpdatedAt env e es" and ?m' = "newestByDataUpdatedAt env e' es'"
  have sets: "set (e # es) = set (e' # es')" using assms(1) by (metis set_mset_mset)
  have m: "?m \<in> set (e # es)" "?m' \<in> set (e # es)" using newest_best(1) [of env e es] newest_best(1) [of env e' es'] unfolding sets by blast+
  have "\<not> beats env ?m ?m'" "\<not> beats env ?m' ?m" using newest_best(2) [of _ _ _ env] m sets by blast+
  then have "re_id ?m = re_id ?m'" using assms(2) m by (auto simp: beats_def split: option.splits)
  then show ?thesis using assms(3) m by (metis inj_onD)
qed

lemma survivor_best:
  assumes "idxs \<noteq> []"
  shows "survivor_of env events idxs \<in> (\<lambda>k. events ! k) ` set idxs"
    and "k \<in> set idxs \<Longrightarrow> \<not> beats env (events ! k) (survivor_of env events idxs)"
proof -
  obtain i is' where i: "idxs = i # is'" using assms by (cases idxs) auto
  let ?others = "map (\<lambda>k. events ! k) is'"
  have "survivor_of env events (i # is') = newestByDataUpdatedAt env (events ! i) ?others"
    by (cases is') (simp_all add: survivor_of_def newestByDataUpdatedAt_def)
  then have s: "survivor_of env events idxs = newestByDataUpdatedAt env (events ! i) ?others" unfolding i .
  have image: "set (events ! i # ?others) = (\<lambda>k. events ! k) ` set idxs" by (simp add: i)
  show "survivor_of env events idxs \<in> (\<lambda>k. events ! k) ` set idxs"
    using newest_best(1) [of env "events ! i" ?others] unfolding s image .
  show "\<not> beats env (events ! k) (survivor_of env events idxs)" if "k \<in> set idxs"
    using newest_best(2) [of "events ! k" "events ! i" ?others env] that unfolding s image by blast
qed

subsection \<open>What the fold leaves\<close>

definition same_event :: "dedupe_env \<Rightarrow> road_event \<Rightarrow> road_event \<Rightarrow> bool" where
  "same_event env a b \<longleftrightarrow> re_type a = re_type b
     \<and> (\<exists>p q. representativePoint (re_geometry a) = Inr (Some p) \<and> representativePoint (re_geometry b) = Inr (Some q)
          \<and> haversineMeters p q \<le> MERGE_DISTANCE_M)
     \<and> textsCompatible (de_unicode env) a b \<and> \<not> distinct_events env a b"

lemma shouldMerge_same:
  assumes "mapE (\<lambda>event. representativePoint (re_geometry event)) events = Inr pts"
    and "\<forall>e \<in> set events. \<exists>p. representativePoint (re_geometry e) = Inr (Some p)"
    and "i < length events" "j < length events"
  shows "shouldMerge env events pts i j \<longleftrightarrow> same_event env (events ! i) (events ! j)"
proof -
  have pt: "representativePoint (re_geometry (events ! k)) = Inr (pts ! k)" if "k < length events" for k
    using assms(1) that by (simp add: mapE_Inr_iff list_all2_conv_all_nth)
  obtain p q where "pts ! i = Some p" "pts ! j = Some q" using assms(2-4) pt by (metis nth_mem sum.inject(2))
  with pt [OF assms(3)] pt [OF assms(4)] show ?thesis
    by (auto simp: shouldMerge_def same_event_def farther_def)
qed

text \<open>C32. The duplicate fold of road events: when every event has a place, the fold returns, what it returns are events
  of the feed, each at most once, and an event it drops has a survivor of its type within 60 m, whose text is
  compatible and which contradicts nothing it states, and which was not updated before it (of events updated at
  once, the one of the least id survives).\<close>

theorem dedupe_survivors:
  assumes placed: "\<forall>e \<in> set events. \<exists>p. representativePoint (re_geometry e) = Inr (Some p)"
  shows "\<exists>out. dedupeRoadEvents env events = Some (Inr out) \<and> set out \<subseteq> set events
    \<and> (distinct events \<longrightarrow> distinct out)
    \<and> (\<forall>e \<in> set events. \<exists>b \<in> set out. b = e \<or> (same_event env b e \<and> \<not> beats env e b))"
proof (cases "events = []")
  case False
  let ?n = "length events"
  obtain pts where pts: "mapE (\<lambda>event. representativePoint (re_geometry event)) events = Inr pts"
    using placed mapE_all [of events "\<lambda>event. representativePoint (re_geometry event)"] by (metis isOk_simps(1))
  let ?nb = "neighborsOf pts (fold (add_to_bucket pts) [0..<?n] [])"
  let ?sm = "shouldMerge env events pts"
  have nb: "set (?nb i) \<subseteq> {..<?n}" for i by (auto simp: neighborsOf_set split: option.splits)
  obtain clusters where run: "clusterIndices ?n ?nb ?sm = Some clusters"
    and cover: "\<forall>x < ?n. \<exists>!ms. ms \<in> set (map snd clusters) \<and> x \<in> set ms"
    and once: "distinct (map snd clusters)"
    and clique: "\<forall>ms \<in> set (map snd clusters). ms \<noteq> [] \<and> sorted_wrt (<) ms \<and> set ms \<subseteq> {..<?n}
        \<and> (\<forall>x \<in> set ms. \<forall>y \<in> set ms. x \<noteq> y \<longrightarrow> ?sm x y)"
    using clusterIndices_maximal_cliques [of ?n ?sm ?nb] nb shouldMerge_commute by blast
  define out where "out = map (survivor_of env events) (map snd clusters)"
  have result: "dedupeRoadEvents env events = Some (Inr out)"
    using False by (simp add: dedupeRoadEvents_def Let_def pts run out_def case_prod_unfold)
  have pick: "\<exists>k \<in> set ms. survivor_of env events ms = events ! k" if "ms \<in> set (map snd clusters)" for ms
    using survivor_best(1) [of ms env events] clique that by blast
  have "set out \<subseteq> set events"
    using pick clique unfolding out_def set_map by (smt (verit) image_iff lessThan_iff nth_mem subset_iff)
  moreover have "distinct out" if "distinct events"
  proof -
    have "inj_on (survivor_of env events) (set (map snd clusters))"
    proof (rule inj_onI)
      fix ms ms' assume ms: "ms \<in> set (map snd clusters)" "ms' \<in> set (map snd clusters)"
        and eq: "survivor_of env events ms = survivor_of env events ms'"
      obtain k k' where k: "k \<in> set ms" "k' \<in> set ms'" "events ! k = events ! k'" using pick [OF ms(1)] pick [OF ms(2)] eq by metis
      have bound: "k < ?n" "k' < ?n" using clique ms k by blast+
      then have "k = k'" using k(3) that nth_eq_iff_index_eq by blast
      then show "ms = ms'" using cover bound ms k by blast
    qed
    with once show ?thesis unfolding out_def distinct_map [of "survivor_of env events"] by (rule conjI)
  qed
  moreover have "\<exists>b \<in> set out. b = e \<or> (same_event env b e \<and> \<not> beats env e b)" if "e \<in> set events" for e
  proof -
    have "\<exists>i < ?n. events ! i = e" using that by (simp add: in_set_conv_nth)
    then obtain i where i: "i < ?n" "events ! i = e" by blast
    obtain ms where ms: "ms \<in> set (map snd clusters)" "i \<in> set ms" using cover i(1) by blast
    obtain k where k: "k \<in> set ms" "survivor_of env events ms = events ! k" using pick [OF ms(1)] by blast
    have "ms \<noteq> []" and k': "k < ?n" and merge: "k \<noteq> i \<longrightarrow> ?sm k i" using clique ms k(1) by blast+
    have "k = i \<or> same_event env (events ! k) e" using merge shouldMerge_same [OF pts placed k' i(1)] i(2) by blast
    moreover have "\<not> beats env e (events ! k)" using survivor_best(2) [OF \<open>ms \<noteq> []\<close> ms(2), of env events] i(2) k(2) by simp
    moreover have "events ! k \<in> set out" using ms(1) k(2) by (metis out_def image_eqI set_map)
    ultimately show ?thesis using i(2) by blast
  qed
  ultimately show ?thesis using result by blast
qed (simp add: dedupeRoadEvents_def)

subsection \<open>What a follow-up replaces\<close>

lemma someE_True: "someE f xs = Inr True \<Longrightarrow> \<exists>x \<in> set xs. f x = Inr True"
  by (induction xs) (auto simp: bindE_eq_Inr split: if_splits)

lemma filterE_Inr: "filterE f xs = Inr ys \<Longrightarrow> ys = filter (\<lambda>x. f x = Inr True) xs \<and> (\<forall>x \<in> set xs. \<exists>b. f x = Inr b)"
  by (induction xs arbitrary: ys) (auto simp: bindE_eq_Inr)

text \<open>\<open>f\<close> is a follow-up of the feed that replaces \<open>e\<close>.\<close>

definition follows :: "dedupe_env \<Rightarrow> (road_event \<Rightarrow> bool) \<Rightarrow> road_event list \<Rightarrow> road_event \<Rightarrow> road_event \<Rightarrow> bool" where
  "follows env isFollowUp events e f \<longleftrightarrow> f \<in> set events \<and> isFollowUp f \<and> f \<noteq> e \<and> re_type f = re_type e
     \<and> \<not> differ (re_subtype f) (re_subtype e)
     \<and> (\<exists>at' fAt. updatedMs env e = Some at' \<and> updatedMs env f = Some fAt \<and> (at' < fAt \<or> (at' = fAt \<and> \<not> isFollowUp e)))
     \<and> (\<exists>p q. representativePoint (re_geometry e) = Inr (Some p) \<and> representativePoint (re_geometry f) = Inr (Some q)
          \<and> haversineMeters q p \<le> MERGE_DISTANCE_M)"

lemma replaced_follows:
  assumes "replaced env isFollowUp (filter isFollowUp events) e = Inr True"
  shows "\<exists>f. follows env isFollowUp events e f"
proof -
  obtain at' pt where e: "updatedMs env e = Some at'" "representativePoint (re_geometry e) = Inr pt"
    and "someE (replaces env isFollowUp e at' pt) (filter isFollowUp events) = Inr True"
    using assms by (auto simp: replaced_def bindE_eq_Inr split: option.splits)
  from someE_True [OF this(3)] obtain f where f: "f \<in> set events" "isFollowUp f" "replaces env isFollowUp e at' pt f = Inr True" by auto
  then have "follows env isFollowUp events e f"
    using e by (auto simp: replaces_def follows_def differ_def within_merge_def bindE_eq_Inr split: if_splits option.splits)
  then show ?thesis ..
qed

text \<open>C33. Follow-ups never erase an incident: an event the feed's follow-ups drop leads, through follow-ups each of which
  replaces the one before, to a follow-up that is kept, which says when it was updated and not before the event; what
  is kept is kept in order, and an event that does not say when it was updated is kept.\<close>

theorem follow_up_kept:
  assumes "dropSupersededRoadEvents env events isFollowUp = Inr out"
  shows "(\<exists>keep. out = filter keep events) \<and> (\<forall>e \<in> set events. e \<in> set out
    \<or> (\<exists>f \<in> set out. isFollowUp f \<and> (follows env isFollowUp events)\<^sup>+\<^sup>+ e f \<and> inst_le (updatedMs env e) (updatedMs env f)))
    \<and> (\<forall>e \<in> set events. updatedMs env e = None \<longrightarrow> e \<in> set out)"
proof (cases "filter isFollowUp events = []")
  case True
  then have "out = filter (\<lambda>_. True) events" using assms by (simp add: dropSupersededRoadEvents_def)
  then have "\<exists>keep. out = filter keep events" and "out = events" by (blast, simp)
  then show ?thesis by (intro conjI) (assumption, simp_all)
next
  case False
  let ?r = "follows env isFollowUp events"
  let ?keep = "\<lambda>e. bindE (replaced env isFollowUp (filter isFollowUp events) e) (\<lambda>b. Inr (\<not> b))"
  have "filterE ?keep events = Inr out" using assms False by (simp add: dropSupersededRoadEvents_def Let_def)
  then have out: "out = filter (\<lambda>e. ?keep e = Inr True) events" and all: "\<forall>e \<in> set events. \<exists>b. ?keep e = Inr b"
    using filterE_Inr by blast+
  have drop: "\<exists>f. ?r e f" if "e \<in> set events" "e \<notin> set out" for e
  proof -
    have "?keep e \<noteq> Inr True" using that out by simp
    then have "?keep e = Inr False" using all that(1) by (metis (full_types))
    then show ?thesis by (auto simp: bindE_eq_Inr intro: replaced_follows)
  qed
  have later: "\<exists>g \<in> set out. isFollowUp g \<and> ?r\<^sup>+\<^sup>+ e g \<and> inst_le (updatedMs env e) (updatedMs env g)" if "?r e f" for e f
  proof -
    define later_than where "later_than g = card {h \<in> set events. inst_less (updatedMs env g) (updatedMs env h)}" for g
    have "\<exists>g \<in> set out. isFollowUp g \<and> ?r\<^sup>+\<^sup>+ e g \<and> inst_le (updatedMs env e) (updatedMs env g)"
      if "?r\<^sup>+\<^sup>+ e f" "f \<in> set events" "isFollowUp f" "inst_le (updatedMs env e) (updatedMs env f)" for f
      using that
    proof (induction "later_than f" arbitrary: f rule: less_induct)
      case less
      show ?case
      proof (cases "f \<in> set out")
        case False
        obtain g where g: "?r f g" using drop less.prems(2) False by blast
        obtain s t where st: "updatedMs env f = Some s" "updatedMs env g = Some t" "s < t"
          using g less.prems(3) by (auto simp: follows_def)
        have "{h \<in> set events. inst_less (Some t) (updatedMs env h)} \<subset> {h \<in> set events. inst_less (Some s) (updatedMs env h)}"
          using st g by (auto simp: follows_def inst_less_def split: option.splits)
        then have "later_than g < later_than f" unfolding later_than_def st by (intro psubset_card_mono) simp_all
        moreover have "?r\<^sup>+\<^sup>+ e g" using less.prems(1) g by (rule tranclp.trancl_into_trancl)
        moreover have "g \<in> set events" "isFollowUp g" using g by (auto simp: follows_def)
        moreover have "inst_le (updatedMs env e) (updatedMs env g)" using less.prems(4) st by (auto dest!: inst_le_SomeD)
        ultimately show ?thesis using less.hyps by blast
      qed (use less.prems in blast)
    qed
    moreover have "f \<in> set events" "isFollowUp f" "inst_le (updatedMs env e) (updatedMs env f)" using that by (auto simp: follows_def)
    ultimately show ?thesis using that by blast
  qed
  have "e \<in> set out" if "e \<in> set events" "updatedMs env e = None" for e
    using that out by (simp add: replaced_def bindE_def)
  then show ?thesis using drop later out by blast
qed

subsection \<open>At concrete inputs\<close>

definition sample_env :: dedupe_env where
  "sample_env = \<lparr>de_unicode = \<lparr>un_lower = id, un_nfc = id, un_word = (\<lambda>_. True)\<rparr>, de_upper = id,
     de_parse = (\<lambda>t. Some (int (length t))), de_json = (\<lambda>_. [])\<rparr>"

definition sample_road :: "string \<Rightarrow> string \<Rightarrow> road_event" where
  "sample_road i updated = \<lparr>re_id = u16 i, re_geometry = Point (Position 7 50), re_type = u16 ''accident'', re_subtype = None,
     re_headline = None, re_label = None, re_description = None, re_direction = None, re_roads = [], re_validFrom = None,
     re_validTo = None, re_schedule = None, re_isForecast = None, re_roadState = None, re_speedLimitKph = None,
     re_lanesAffected = None, re_vehiclesAffected = None, re_restrictions = None, re_restrictionFacts = None,
     re_dataUpdatedAt = u16 updated, re_sourceUpdatedAt = None\<rparr>"

lemma dedupe_survivors_witness:
  "\<exists>out. dedupeRoadEvents sample_env [sample_road ''a'' ''1'', sample_road ''b'' ''22''] = Some (Inr out)
     \<and> set out \<subseteq> {sample_road ''a'' ''1'', sample_road ''b'' ''22''}"
proof -
  have "\<forall>e \<in> set [sample_road ''a'' ''1'', sample_road ''b'' ''22'']. \<exists>p. representativePoint (re_geometry e) = Inr (Some p)"
    by (simp add: sample_road_def)
  from dedupe_survivors [OF this, of sample_env] show ?thesis by auto
qed

text \<open>A follow-up of the same place and type, updated later, replaces the original.\<close>

lemma follow_up_kept_witness:
  "\<exists>out. dropSupersededRoadEvents sample_env [sample_road ''a'' ''1'', sample_road ''b'' ''22''] (\<lambda>e. re_id e = u16 ''b'') = Inr out
     \<and> sample_road ''b'' ''22'' \<in> set out \<and> (\<exists>keep. out = filter keep [sample_road ''a'' ''1'', sample_road ''b'' ''22''])"
proof -
  have "dropSupersededRoadEvents sample_env [sample_road ''a'' ''1'', sample_road ''b'' ''22''] (\<lambda>e. re_id e = u16 ''b'')
      = Inr [sample_road ''b'' ''22'']"
    by (simp add: dropSupersededRoadEvents_def replaced_def replaces_def updatedMs_def sample_env_def sample_road_def u16_def
        bindE_def within_merge_def haversineMeters_def MERGE_DISTANCE_M_def Let_def)
  from follow_up_kept [OF this] this show ?thesis by auto
qed

end
