(* ===== verification/Fetch_Guard.thy ===== *)
theory Fetch_Guard
  imports OC_Prelude "HOL-Library.Word"
begin

text \<open>
  The guard in front of every fetch of a feed, packages/ingest-framework/src/egress.ts: which URLs and which
  resolved addresses may be dialled, what a redirect may carry to another host, and how many bytes a body may have.

  \<^item> The platform is a record \<open>net\<close>, a parameter: \<open>new URL\<close>, the resolver, the network and \<open>Number\<close> of a text. The
    resolver and the network are asked anew at every hop, so their answers depend on it.
  \<^item> Hosts, addresses and header names are ASCII texts, as the URL parser and \<open>Headers\<close> leave them.
  \<^item> A run of \<open>guardedFetch\<close> is its result and the requests it made, in order, each with the addresses its
    connection was pinned to and the certificate it presents. An abort (the deadline, the caller) is one more error of the resolver, the network or
    the body. The text of an error leaves out the URL, and with it its redaction.
\<close>

subsection \<open>Texts\<close>

definition ascii_upper :: "string \<Rightarrow> string" where
  "ascii_upper s = map (\<lambda>c. if CHR ''a'' \<le> c \<and> c \<le> CHR ''z'' then char_of (of_char c - 32 :: nat) else c) s"

definition starts_with :: "string \<Rightarrow> string \<Rightarrow> bool" where
  "starts_with p s \<longleftrightarrow> take (length p) s = p"

definition is_digit :: "char \<Rightarrow> bool" where
  "is_digit c \<longleftrightarrow> CHR ''0'' \<le> c \<and> c \<le> CHR ''9''"

text \<open>\<open>split\<close> on one character: one more part than there are separators.\<close>

fun split_on :: "char \<Rightarrow> string \<Rightarrow> string list" where
  "split_on sep [] = [[]]"
| "split_on sep (c # cs) = (if c = sep then [] # split_on sep cs
     else (case split_on sep cs of [] \<Rightarrow> [[c]] | part # parts \<Rightarrow> (c # part) # parts))"

definition ascii_space :: "char \<Rightarrow> bool" where
  "ascii_space c \<longleftrightarrow> c \<in> {CHR 0x20, CHR 0x09, CHR 0x0A, CHR 0x0B, CHR 0x0C, CHR 0x0D}"

definition ascii_trim :: "string \<Rightarrow> string" where
  "ascii_trim s = rev (dropWhile ascii_space (rev (dropWhile ascii_space s)))"

subsection \<open>The platform\<close>

record url_parts =
  ur_protocol :: string
  ur_hostname :: string
  ur_host :: string

type_synonym address = "string \<times> int"

record request_init =
  in_method :: "string option"
  in_headers :: "(string \<times> string) list"
  in_body :: "string option"

text \<open>The client certificate of a publisher that asks for one, with its key and the authority that signed the server's.\<close>

record connect_options =
  cn_cert :: "string option"
  cn_key :: "string option"
  cn_ca :: "string option"

record request =
  rq_url :: string
  rq_init :: request_init
  rq_pinned :: "address list"
  rq_tls :: "connect_options option"

datatype body_event = Chunk "8 word list" | ReadError js_error

record response =
  rs_status :: nat
  rs_location :: "string option"
  rs_contentLength :: "string option"
  rs_body :: "body_event list option"

record net =
  nt_url :: "string \<Rightarrow> url_parts option"
  nt_resolve :: "string \<Rightarrow> string \<Rightarrow> string option"
  nt_lookup :: "nat \<Rightarrow> string \<Rightarrow> js_error + address list"
  nt_fetch :: "nat \<Rightarrow> request \<Rightarrow> js_error + response"
  nt_number :: "string \<Rightarrow> jsnum"

record guard_options =
  go_maxBytes :: int
  go_maxRedirects :: int
  go_allowedHosts :: "string list option"

subsection \<open>Which URLs\<close>

definition octet_172 :: "string \<Rightarrow> bool" where
  "octet_172 r = (case r of c1 # c2 # c3 # _ \<Rightarrow> c3 = CHR ''.''
       \<and> ((c1 = CHR ''1'' \<and> CHR ''6'' \<le> c2 \<and> c2 \<le> CHR ''9'') \<or> (c1 = CHR ''2'' \<and> is_digit c2)
          \<or> (c1 = CHR ''3'' \<and> c2 \<in> {CHR ''0'', CHR ''1''}))
   | _ \<Rightarrow> False)"

definition octet_100 :: "string \<Rightarrow> bool" where
  "octet_100 r \<longleftrightarrow>
     (case r of c1 # c2 # c3 # _ \<Rightarrow> c3 = CHR ''.''
       \<and> ((c1 = CHR ''6'' \<and> CHR ''4'' \<le> c2 \<and> c2 \<le> CHR ''9'') \<or> (CHR ''7'' \<le> c1 \<and> c1 \<le> CHR ''9'' \<and> is_digit c2))
      | _ \<Rightarrow> False)
   \<or> (case r of c1 # c2 # c3 # c4 # _ \<Rightarrow> c1 = CHR ''1'' \<and> c4 = CHR ''.''
       \<and> ((c2 \<in> {CHR ''0'', CHR ''1''} \<and> is_digit c3) \<or> (c2 = CHR ''2'' \<and> CHR ''0'' \<le> c3 \<and> c3 \<le> CHR ''7''))
      | _ \<Rightarrow> False)"

definition link_local6 :: "string \<Rightarrow> bool" where
  "link_local6 s = (case s of c1 # c2 # c3 # _ \<Rightarrow> [c1, c2] = ''fe'' \<and> c3 \<in> set ''89ab'' | _ \<Rightarrow> False)"

definition private_host :: "string \<Rightarrow> bool" where
  "private_host host \<longleftrightarrow> starts_with ''127.'' host \<or> starts_with ''10.'' host
     \<or> (starts_with ''172.'' host \<and> octet_172 (drop 4 host))
     \<or> starts_with ''192.168.'' host \<or> starts_with ''169.254.'' host \<or> starts_with ''0.'' host
     \<or> (starts_with ''100.'' host \<and> octet_100 (drop 4 host))
     \<or> host = ''::1'' \<or> starts_with ''fc'' host \<or> starts_with ''fd'' host
     \<or> link_local6 (ascii_lower host)"

definition strip_brackets :: "string \<Rightarrow> string" where
  "strip_brackets raw = (if raw \<noteq> [] \<and> hd raw = CHR ''['' \<and> List.last raw = CHR '']'' then butlast (tl raw) else raw)"

definition host_allowed :: "string list option \<Rightarrow> string \<Rightarrow> bool" where
  "host_allowed allowed host = (case allowed of None \<Rightarrow> False | Some hs \<Rightarrow> ascii_lower host \<in> set hs)"

definition assertPublicUrl :: "net \<Rightarrow> string \<Rightarrow> string list option \<Rightarrow> js_error + unit" where
  "assertPublicUrl net url allowedHosts = (case nt_url net url of
     None \<Rightarrow> Inl (JsError ''Invalid URL'')
   | Some parsed \<Rightarrow>
      if ur_protocol parsed \<noteq> ''https:'' \<and> ur_protocol parsed \<noteq> ''http:''
      then Inl (JsError ''Only HTTP(S) URLs are allowed'')
      else let host = strip_brackets (ur_hostname parsed)
        in if host_allowed allowedHosts host then Inr ()
           else if host = ''localhost'' \<or> host = [] \<or> private_host host
           then Inl (JsError ''URLs targeting internal/private addresses are not allowed'')
           else Inr ())"

definition isPublicUrl :: "net \<Rightarrow> string \<Rightarrow> bool" where
  "isPublicUrl net url = isOk (assertPublicUrl net url None)"

subsection \<open>Which addresses\<close>

definition PRIVATE_IPV4_RANGES :: "(32 word \<times> 32 word) list" where
  "PRIVATE_IPV4_RANGES = [(0x00000000, 0x00ffffff), (0x0a000000, 0x0affffff), (0x7f000000, 0x7fffffff),
     (0xa9fe0000, 0xa9feffff), (0xac100000, 0xac1fffff), (0xc0a80000, 0xc0a8ffff), (0xe0000000, 0xffffffff),
     (0x64400000, 0x647fffff)]"

definition octet :: "jsnum \<Rightarrow> int option" where
  "octet v = (case v of JNum x \<Rightarrow> if x = of_int \<lfloor>x\<rfloor> \<and> 0 \<le> x \<and> x \<le> 255 then Some \<lfloor>x\<rfloor> else None | _ \<Rightarrow> None)"

fun octets :: "(string \<Rightarrow> jsnum) \<Rightarrow> string list \<Rightarrow> int \<Rightarrow> int option" where
  "octets number [] out = Some out"
| "octets number (part # parts) out = (case octet (number part) of None \<Rightarrow> None
     | Some n \<Rightarrow> octets number parts (out * 256 + n))"

definition ipv4ToInt :: "(string \<Rightarrow> jsnum) \<Rightarrow> string \<Rightarrow> 32 word option" where
  "ipv4ToInt number ip = (let parts = split_on (CHR ''.'') ip
     in if length parts \<noteq> 4 then None else map_option word_of_int (octets number parts 0))"

definition isPrivateIpv4 :: "32 word \<Rightarrow> bool" where
  "isPrivateIpv4 address = list_ex (\<lambda>(lo, hi). lo \<le> address \<and> address \<le> hi) PRIVATE_IPV4_RANGES"

text \<open>\<open>^::ffff:(\d+\.\d+\.\d+\.\d+)$\<close>, what it captures.\<close>

definition mapped_ipv4 :: "string \<Rightarrow> string option" where
  "mapped_ipv4 s = (if starts_with ''::ffff:'' s then
       let ip = drop 7 s; parts = split_on (CHR ''.'') ip
       in if length parts = 4 \<and> list_all (\<lambda>p. p \<noteq> [] \<and> list_all is_digit p) parts then Some ip else None
     else None)"

definition isPrivateIpv6 :: "(string \<Rightarrow> jsnum) \<Rightarrow> string \<Rightarrow> bool" where
  "isPrivateIpv6 number address =
     (let lower = ascii_lower address in
      if lower = ''::1'' \<or> lower = ''::'' then True
      else if link_local6 lower then True
      else if starts_with ''fc'' lower \<or> starts_with ''fd'' lower then True
      else (case mapped_ipv4 lower of None \<Rightarrow> False
       | Some m \<Rightarrow> (case ipv4ToInt number m of None \<Rightarrow> False | Some ip \<Rightarrow> isPrivateIpv4 ip)))"

definition private_address :: "(string \<Rightarrow> jsnum) \<Rightarrow> address \<Rightarrow> bool" where
  "private_address number a = (case a of (address, family) \<Rightarrow>
     if family = 4 then (case ipv4ToInt number address of None \<Rightarrow> True | Some int' \<Rightarrow> isPrivateIpv4 int')
     else if family = 6 then isPrivateIpv6 number address
     else False)"

definition resolvePublicIps :: "net \<Rightarrow> nat \<Rightarrow> string \<Rightarrow> bool \<Rightarrow> js_error + address list" where
  "resolvePublicIps net hop hostname allowPrivate =
     bindE (nt_lookup net hop hostname) (\<lambda>addresses.
       if addresses = [] then Inl (JsError ''No DNS records'')
       else if allowPrivate then Inr addresses
       else if list_ex (private_address (nt_number net)) addresses then Inl (JsError ''Hostname resolves to private IP'')
       else Inr addresses)"

subsection \<open>Bodies\<close>

datatype body_end = Closed | Errored js_error

record capped =
  ca_status :: nat
  ca_delivered :: "8 word list list"
  ca_end :: body_end

text \<open>The stream the caller reads: the chunks enqueued, and how it ends.\<close>

fun pull :: "int \<Rightarrow> int \<Rightarrow> body_event list \<Rightarrow> 8 word list list \<times> body_end" where
  "pull maxBytes seen [] = ([], Closed)"
| "pull maxBytes seen (ReadError e # rest) = ([], Errored e)"
| "pull maxBytes seen (Chunk bytes # rest) =
     (let seen' = seen + int (length bytes)
      in if seen' > maxBytes then ([], Errored (JsError ''response body exceeded max bytes''))
         else (case pull maxBytes seen' rest of (chunks, e) \<Rightarrow> (bytes # chunks, e)))"

definition capBody :: "net \<Rightarrow> int \<Rightarrow> response \<Rightarrow> js_error + capped" where
  "capBody net maxBytes res =
     (let declared = (case rs_contentLength res of None \<Rightarrow> JNum 0 | Some t \<Rightarrow> nt_number net t)
      in if isFinite declared \<and> num declared > of_int maxBytes then Inl (JsError ''Content-Length exceeds max'')
         else (case rs_body res of
           None \<Rightarrow> Inr \<lparr>ca_status = rs_status res, ca_delivered = [], ca_end = Closed\<rparr>
         | Some events \<Rightarrow> (case pull maxBytes 0 events of (chunks, e) \<Rightarrow>
             Inr \<lparr>ca_status = rs_status res, ca_delivered = chunks, ca_end = e\<rparr>)))"

text \<open>\<open>boundedGunzip\<close>, over what the decompressor yields chunk by chunk.\<close>

fun gather :: "nat \<Rightarrow> nat \<Rightarrow> 8 word list list \<Rightarrow> js_error + 8 word list list" where
  "gather maxBytes sofar [] = Inr []"
| "gather maxBytes sofar (chunk # rest) =
     (let sofar' = sofar + length chunk
      in if sofar' > maxBytes then Inl (JsError ''gunzip output exceeded max bytes'')
         else bindE (gather maxBytes sofar' rest) (\<lambda>chunks. Inr (chunk # chunks)))"

definition boundedGunzip :: "('raw \<Rightarrow> 8 word list list) \<Rightarrow> 'raw \<Rightarrow> nat \<Rightarrow> js_error + 8 word list" where
  "boundedGunzip gunzip raw maxBytes = bindE (gather maxBytes 0 (gunzip raw)) (\<lambda>chunks. Inr (concat chunks))"

subsection \<open>Redirects\<close>

definition REDIRECT_STATUSES :: "nat list" where
  "REDIRECT_STATUSES = [301, 302, 303, 307, 308]"

definition CROSS_HOST_HEADERS :: "string list" where
  "CROSS_HOST_HEADERS = [''accept'', ''accept-language'', ''content-type'', ''user-agent'']"

definition BODY_HEADERS :: "string list" where
  "BODY_HEADERS = [''content-encoding'', ''content-language'', ''content-length'', ''content-location'', ''content-type'']"

fun join_values :: "string list \<Rightarrow> string" where
  "join_values [] = []"
| "join_values [v] = v"
| "join_values (v # vs) = v @ '', '' @ join_values vs"

text \<open>What iterating \<open>new Headers(list)\<close> yields: lower-case names in order, the values of one name joined.\<close>

definition make_headers :: "(string \<times> string) list \<Rightarrow> (string \<times> string) list" where
  "make_headers hs = map (\<lambda>k. (k, join_values (map snd (filter (\<lambda>h. ascii_lower (fst h) = k) hs))))
     (sort (remdups (map (\<lambda>h. ascii_lower (fst h)) hs)))"

definition without_body :: "nat \<Rightarrow> request_init \<Rightarrow> request_init" where
  "without_body status init =
     (let meth = ascii_upper (nullish (in_method init) ''GET'')
      in if status = 303 \<or> ((status = 301 \<or> status = 302) \<and> meth = ''POST'')
         then init\<lparr>in_method := Some ''GET'', in_body := None,
                in_headers := filter (\<lambda>h. fst h \<notin> set BODY_HEADERS) (make_headers (in_headers init))\<rparr>
         else init)"

definition host_of :: "net \<Rightarrow> string \<Rightarrow> string option" where
  "host_of net url = map_option ur_host (nt_url net url)"

definition redirected :: "net \<Rightarrow> guard_options \<Rightarrow> string \<Rightarrow> request_init \<Rightarrow> response \<Rightarrow> js_error + string \<times> request_init" where
  "redirected net opts url init res = (case rs_location res of
     None \<Rightarrow> Inl (JsError ''redirect without Location'')
   | Some location \<Rightarrow>
      if location = [] then Inl (JsError ''redirect without Location'')
      else (case nt_resolve net location url of
        None \<Rightarrow> Inl (TypeError ''Invalid URL'')
      | Some next' \<Rightarrow>
         bindE (assertPublicUrl net next' (go_allowedHosts opts)) (\<lambda>_.
         let init1 = without_body (rs_status res) init
         in if host_of net next' \<noteq> host_of net url then
              if in_body init1 \<noteq> None then Inl (JsError ''redirect would send the request body to another host'')
              else Inr (next', init1\<lparr>in_headers := make_headers
                     (filter (\<lambda>h. fst h \<in> set CROSS_HOST_HEADERS) (make_headers (in_headers init1)))\<rparr>)
            else Inr (next', init1))))"

text \<open>What the dispatcher of a hop presents: the certificate, if there is one that is not empty.\<close>

definition presented :: "connect_options \<Rightarrow> connect_options option" where
  "presented connect = (case cn_cert connect of Some (_ # _) \<Rightarrow> Some connect | _ \<Rightarrow> None)"

text \<open>The hops from the \<open>hop\<close>-th on, of which \<open>left\<close> are allowed.\<close>

fun follow :: "net \<Rightarrow> guard_options \<Rightarrow> connect_options \<Rightarrow> nat \<Rightarrow> nat \<Rightarrow> string \<Rightarrow> request_init \<Rightarrow> (js_error + capped) \<times> request list" where
  "follow net opts connect hop 0 url init = (Inl (JsError ''too many redirects''), [])"
| "follow net opts connect hop (Suc left) url init =
     (case assertPublicUrl net url (go_allowedHosts opts) of Inl e \<Rightarrow> (Inl e, [])
      | Inr _ \<Rightarrow> (case nt_url net url of None \<Rightarrow> (Inl (TypeError ''Invalid URL''), [])
        | Some u \<Rightarrow>
          let host = strip_brackets (ur_hostname u);
              allowPrivate = host_allowed (go_allowedHosts opts) host
          in (case resolvePublicIps net hop host allowPrivate of Inl e \<Rightarrow> (Inl e, [])
             | Inr addrs \<Rightarrow>
               let rq = \<lparr>rq_url = url, rq_init = init, rq_pinned = addrs, rq_tls = presented connect\<rparr>
               in (case nt_fetch net hop rq of Inl e \<Rightarrow> (Inl e, [rq])
                  | Inr res \<Rightarrow>
                    if rs_status res \<in> set REDIRECT_STATUSES
                    then (case redirected net opts url init res of Inl e \<Rightarrow> (Inl e, [rq])
                        | Inr (next', init') \<Rightarrow> apsnd (Cons rq) (follow net opts connect (Suc hop) left next' init'))
                    else (capBody net (go_maxBytes opts) res, [rq])))))"

definition guardedFetch :: "net \<Rightarrow> guard_options \<Rightarrow> connect_options \<Rightarrow> string \<Rightarrow> request_init \<Rightarrow> (js_error + capped) \<times> request list" where
  "guardedFetch net opts connect url init = follow net opts connect 0 (nat (go_maxRedirects opts + 1)) url init"

subsection \<open>Settings\<close>

definition envInt :: "(string \<Rightarrow> jsnum) \<Rightarrow> (string \<Rightarrow> string option) \<Rightarrow> string \<Rightarrow> real \<Rightarrow> real" where
  "envInt number env key fallback = (case env key of None \<Rightarrow> fallback
     | Some raw \<Rightarrow> if raw = [] then fallback
         else (let n = number raw in if isFinite n then num n else fallback))"

definition parseAllowedHosts :: "string option \<Rightarrow> string list option" where
  "parseAllowedHosts raw = (case raw of None \<Rightarrow> None
     | Some t \<Rightarrow> if ascii_trim t = [] then None
         else (let hosts = filter (\<lambda>h. h \<noteq> []) (map (\<lambda>h. ascii_lower (ascii_trim h)) (split_on (CHR '','') t))
           in if length hosts > 0 then Some (remdups hosts) else None))"

definition DEFAULT_MAX_FEED_BYTES :: real where
  "DEFAULT_MAX_FEED_BYTES = 512 * 1024 * 1024"

definition maxFeedBytes :: "(string \<Rightarrow> jsnum) \<Rightarrow> (string \<Rightarrow> string option) \<Rightarrow> real" where
  "maxFeedBytes number env = envInt number env ''OPENCONDITIONS_MAX_FEED_BYTES'' DEFAULT_MAX_FEED_BYTES"

text \<open>A cap that is no whole number bounds what its floor bounds.\<close>

definition guardOptionsFromEnv :: "(string \<Rightarrow> jsnum) \<Rightarrow> (string \<Rightarrow> string option) \<Rightarrow> guard_options" where
  "guardOptionsFromEnv number env =
     \<lparr>go_maxBytes = \<lfloor>maxFeedBytes number env\<rfloor>,
      go_maxRedirects = \<lfloor>envInt number env ''OPENCONDITIONS_MAX_REDIRECTS'' 5\<rfloor>,
      go_allowedHosts = parseAllowedHosts (env ''OPENCONDITIONS_EGRESS_ALLOWED_HOSTS'')\<rparr>"

subsection \<open>What is dialled\<close>

definition public_target :: "net \<Rightarrow> guard_options \<Rightarrow> request \<Rightarrow> bool" where
  "public_target net opts rq \<longleftrightarrow> rq_pinned rq \<noteq> [] \<and> (\<exists>u. nt_url net (rq_url rq) = Some u
     \<and> ur_protocol u \<in> {''https:'', ''http:''}
     \<and> (let host = strip_brackets (ur_hostname u) in host_allowed (go_allowedHosts opts) host
          \<or> (host \<notin> {''localhost'', []} \<and> \<not> private_host host
             \<and> (\<forall>a \<in> set (rq_pinned rq). \<not> private_address (nt_number net) a))))"

lemma resolved: "resolvePublicIps net hop host allow = Inr addrs \<Longrightarrow>
   addrs \<noteq> [] \<and> (allow \<or> (\<forall>a \<in> set addrs. \<not> private_address (nt_number net) a))"
  by (auto simp: resolvePublicIps_def bindE_eq_Inr list_ex_iff split: if_splits)

lemma public_url: "assertPublicUrl net url allowed = Inr () \<Longrightarrow> \<exists>u. nt_url net url = Some u \<and> ur_protocol u \<in> {''https:'', ''http:''}
   \<and> (let host = strip_brackets (ur_hostname u) in host_allowed allowed host \<or> (host \<notin> {''localhost'', []} \<and> \<not> private_host host))"
  by (auto simp: assertPublicUrl_def Let_def split: option.splits if_splits)

text \<open>One hop: what is dialled passed the guard, and the rest of the run follows the redirect.\<close>

lemma follow_Suc:
  "snd (follow net opts connect hop (Suc left) url init) = [] \<or>
   (\<exists>rq rest. snd (follow net opts connect hop (Suc left) url init) = rq # rest \<and> rq_url rq = url \<and> rq_init rq = init \<and> rq_tls rq = presented connect
      \<and> public_target net opts rq
      \<and> (rest = [] \<or> (\<exists>res next' init'. redirected net opts url init res = Inr (next', init')
            \<and> rest = snd (follow net opts connect (Suc hop) left next' init'))))"
proof (cases "assertPublicUrl net url (go_allowedHosts opts)")
  case passed: (Inr u0)
  then have passed': "assertPublicUrl net url (go_allowedHosts opts) = Inr ()" by simp
  obtain u where u: "nt_url net url = Some u" using public_url [OF passed'] by blast
  let ?host = "strip_brackets (ur_hostname u)"
  let ?look = "resolvePublicIps net hop ?host (host_allowed (go_allowedHosts opts) ?host)"
  show ?thesis
  proof (cases ?look)
    case (Inr addrs)
    let ?rq = "\<lparr>rq_url = url, rq_init = init, rq_pinned = addrs, rq_tls = presented connect\<rparr>"
    have target: "public_target net opts ?rq"
      using public_url [OF passed'] resolved [OF Inr] u by (auto simp: public_target_def Let_def)
    have "snd (follow net opts connect hop (Suc left) url init) = [?rq] \<or>
      (\<exists>res next' init'. redirected net opts url init res = Inr (next', init')
        \<and> snd (follow net opts connect hop (Suc left) url init) = ?rq # snd (follow net opts connect (Suc hop) left next' init'))"
      by (cases "nt_fetch net hop ?rq") (auto simp: passed' u Inr Let_def split: sum.splits)
    with target show ?thesis by (metis request.select_convs(1) request.select_convs(2) request.select_convs(4))
  qed (simp add: passed' u Let_def)
qed simp

declare follow.simps(2) [simp del]

text \<open>C36. Every connection a guarded fetch opens was vouched for: its URL is http or https, and either the operator allowed its
  host or the host is neither localhost nor in the textual denylist and every address the connection was pinned to passed
  the address check; and there are at most one more requests than redirects allowed.\<close>

theorem guarded_requests:
  "length (snd (guardedFetch net opts connect url init)) \<le> nat (go_maxRedirects opts + 1)
   \<and> list_all (public_target net opts) (snd (guardedFetch net opts connect url init))"
proof -
  have "length (snd (follow net opts connect hop left url init)) \<le> left
     \<and> (\<forall>rq \<in> set (snd (follow net opts connect hop left url init)). public_target net opts rq)" for hop left
  proof (induction left arbitrary: hop url init)
    case (Suc left)
    consider (none) "snd (follow net opts connect hop (Suc left) url init) = []"
      | (sent) rq rest where "snd (follow net opts connect hop (Suc left) url init) = rq # rest" "public_target net opts rq"
          "rest = [] \<or> (\<exists>next' init'. rest = snd (follow net opts connect (Suc hop) left next' init'))"
      using follow_Suc [of net opts connect hop left url init] by blast
    then show ?case by cases (use Suc.IH in auto)
  qed simp
  then show ?thesis by (simp add: guardedFetch_def list_all_iff)
qed

subsection \<open>What a redirect carries\<close>

definition contained :: "request_init \<Rightarrow> bool" where
  "contained init \<longleftrightarrow> in_body init = None \<and> fst ` set (in_headers init) \<subseteq> set CROSS_HOST_HEADERS"

lemma make_headers_names: "fst ` set (make_headers hs) = (\<lambda>h. ascii_lower (fst h)) ` set hs"
  by (force simp: make_headers_def)

lemma cross_lower: "k \<in> set CROSS_HOST_HEADERS \<Longrightarrow> ascii_lower k = k"
  by (auto simp: CROSS_HOST_HEADERS_def ascii_lower_def less_eq_char_def of_char_def)

lemma make_headers_cross: "fst ` set hs \<subseteq> set CROSS_HOST_HEADERS \<Longrightarrow> fst ` set (make_headers hs) \<subseteq> set CROSS_HOST_HEADERS"
  unfolding make_headers_names using cross_lower by (auto simp: image_subset_iff)

lemma without_body_contained: "contained init \<Longrightarrow> contained (without_body status init)"
  using make_headers_cross [of "in_headers init"] by (auto simp: contained_def without_body_def Let_def)

lemma cross_headers: "fst ` set (make_headers (filter (\<lambda>h. fst h \<in> set CROSS_HOST_HEADERS) hs)) \<subseteq> set CROSS_HOST_HEADERS"
  by (rule make_headers_cross) auto

lemma redirected_host:
  assumes "redirected net opts url init res = Inr (next', init')"
  shows "host_of net next' = host_of net url \<or> contained init'"
proof (cases "host_of net next' = host_of net url")
  case False
  let ?init = "without_body (rs_status res) init"
  have "in_body ?init = None"
    "init' = ?init\<lparr>in_headers := make_headers (filter (\<lambda>h. fst h \<in> set CROSS_HOST_HEADERS) (make_headers (in_headers ?init)))\<rparr>"
    using assms False by (simp_all add: redirected_def bindE_eq_Inr Let_def split: option.splits if_splits)
  then show ?thesis using cross_headers [of "make_headers (in_headers ?init)"] unfolding contained_def by simp
qed simp

lemma redirected_contained:
  assumes "redirected net opts url init res = Inr (next', init')" and "contained init"
  shows "contained init'"
proof (cases "host_of net next' = host_of net url")
  case True
  with assms(1) have "init' = without_body (rs_status res) init"
    by (auto simp: redirected_def bindE_eq_Inr Let_def split: option.splits if_splits)
  with assms(2) show ?thesis by (simp add: without_body_contained)
qed (use redirected_host [OF assms(1)] in blast)

lemma follow_contained: "contained init \<Longrightarrow> rq \<in> set (snd (follow net opts connect hop left url init)) \<Longrightarrow> contained (rq_init rq)"
proof (induction left arbitrary: hop url init)
  case (Suc left)
  consider (none) "snd (follow net opts connect hop (Suc left) url init) = []"
    | (sent) rq' rest where "snd (follow net opts connect hop (Suc left) url init) = rq' # rest" "rq_init rq' = init"
        "rest = [] \<or> (\<exists>res next' init'. redirected net opts url init res = Inr (next', init')
          \<and> rest = snd (follow net opts connect (Suc hop) left next' init'))"
    using follow_Suc [of net opts connect hop left url init] by blast
  then show ?case
  proof cases
    case sent
    then show ?thesis using Suc redirected_contained by (metis empty_iff empty_set set_ConsD)
  qed (use Suc.prems in simp)
qed simp

text \<open>C37. Credentials stay with the host they were meant for: once a run has sent a request to another host than the one it
  began with, that request and every later one carry no body and no header but the content-neutral ones.\<close>

theorem credentials_stay:
  assumes "i \<le> j" and "j < length (snd (guardedFetch net opts connect url init))"
    and "host_of net (rq_url (snd (guardedFetch net opts connect url init) ! i)) \<noteq> host_of net url"
  shows "contained (rq_init (snd (guardedFetch net opts connect url init) ! j))"
proof -
  have "contained (rq_init (rqs ! j))"
    if "rqs = snd (follow net opts connect hop left url' init')" "i \<le> j" "j < length rqs"
      "host_of net (rq_url (rqs ! i)) \<noteq> host_of net url" "host_of net url' = host_of net url \<or> contained init'"
    for rqs hop left url' init' i j
    using that
  proof (induction left arbitrary: rqs hop url' init' i j)
    case (Suc left)
    show ?case
    proof (cases "contained init'")
      case True
      then show ?thesis using Suc.prems(1,3) follow_contained nth_mem by blast
    next
      case False
      then have same: "host_of net url' = host_of net url" using Suc.prems(5) by blast
      from follow_Suc [of net opts connect hop left url' init'] Suc.prems(1,3) obtain rq rest where rqs: "rqs = rq # rest" "rq_url rq = url'"
        and rest: "rest = [] \<or> (\<exists>res next' init''. redirected net opts url' init' res = Inr (next', init'')
            \<and> rest = snd (follow net opts connect (Suc hop) left next' init''))" by fastforce
      obtain i' where i': "i = Suc i'" using Suc.prems(4) same rqs by (cases i) auto
      then obtain j' where j': "j = Suc j'" "i' \<le> j'" "j' < length rest" using Suc.prems(2,3) rqs by (cases j) auto
      then obtain res next' init'' where r: "redirected net opts url' init' res = Inr (next', init'')"
        "rest = snd (follow net opts connect (Suc hop) left next' init'')" using rest by fastforce
      have "host_of net next' = host_of net url \<or> contained init''" using redirected_host [OF r(1)] same by simp
      then show ?thesis using Suc.IH [OF r(2) j'(2,3)] Suc.prems(4) by (simp add: rqs(1) i' j'(1))
    qed
  qed simp
  from this [OF refl assms(1)] assms(2,3) show ?thesis by (simp add: guardedFetch_def)
qed

text \<open>A client certificate is not such a credential to the code: it is presented on every hop, whatever its host.\<close>

lemma certificate_on_every_hop:
  "rq \<in> set (snd (guardedFetch net opts connect url init)) \<Longrightarrow> rq_tls rq = presented connect"
proof -
  have "\<forall>rq \<in> set (snd (follow net opts connect hop left url init)). rq_tls rq = presented connect" for hop left
  proof (induction left arbitrary: hop url init)
    case (Suc left)
    consider (none) "snd (follow net opts connect hop (Suc left) url init) = []"
      | (sent) rq rest where "snd (follow net opts connect hop (Suc left) url init) = rq # rest" "rq_tls rq = presented connect"
          "rest = [] \<or> (\<exists>next' init'. rest = snd (follow net opts connect (Suc hop) left next' init'))"
      using follow_Suc [of net opts connect hop left url init] by blast
    then show ?case by cases (use Suc.IH in auto)
  qed simp
  then show "rq \<in> set (snd (guardedFetch net opts connect url init)) \<Longrightarrow> rq_tls rq = presented connect"
    by (simp add: guardedFetch_def)
qed

subsection \<open>How much is read\<close>

lemma pull_bound: "seen \<le> m \<Longrightarrow> seen + int (length (concat (fst (pull m seen events)))) \<le> m"
  by (induction m seen events rule: pull.induct) (auto simp: Let_def split: prod.splits)

lemma pull_delivered: "\<exists>rest. events = map Chunk (fst (pull m seen events)) @ rest \<and> (snd (pull m seen events) = Closed \<longleftrightarrow> rest = [])"
  by (induction m seen events rule: pull.induct) (auto simp: Let_def split: prod.splits)

lemma pull_all: "seen + int (length (concat chunks)) \<le> m \<Longrightarrow> pull m seen (map Chunk chunks) = (chunks, Closed)"
  by (induction chunks arbitrary: seen) (auto simp: Let_def)

text \<open>The cap on a body: what is delivered is a first part of what the server sent, never more than the cap, and the stream
  closes without an error exactly when that is all of it; a body within the cap that does not fail is delivered whole.\<close>

theorem body_capped:
  assumes "capBody net m res = Inr c" and "rs_body res = Some events" and "0 \<le> m"
  shows "int (length (concat (ca_delivered c))) \<le> m
    \<and> (\<exists>rest. events = map Chunk (ca_delivered c) @ rest \<and> (ca_end c = Closed \<longleftrightarrow> rest = []))
    \<and> (\<forall>chunks. events = map Chunk chunks \<and> int (length (concat chunks)) \<le> m \<longrightarrow> ca_delivered c = chunks \<and> ca_end c = Closed)"
proof -
  have c: "ca_delivered c = fst (pull m 0 events)" "ca_end c = snd (pull m 0 events)"
    using assms(1,2) by (auto simp: capBody_def Let_def split: if_splits prod.splits)
  show ?thesis using pull_bound [of 0 m events] assms(3) pull_delivered [of events m 0] pull_all [of 0 _ m] by (auto simp: c)
qed

lemma gather_exact: "sofar \<le> m \<Longrightarrow> gather m sofar chunks = (if sofar + length (concat chunks) \<le> m then Inr chunks
    else Inl (JsError ''gunzip output exceeded max bytes''))"
  by (induction m sofar chunks rule: gather.induct) (auto simp: Let_def bindE_def)

text \<open>The gunzip cap refuses exactly the archives that expand beyond it.\<close>

lemma boundedGunzip_exact:
  "boundedGunzip gunzip raw m = (if length (concat (gunzip raw)) \<le> m then Inr (concat (gunzip raw))
     else Inl (JsError ''gunzip output exceeded max bytes''))"
  by (simp add: boundedGunzip_def gather_exact bindE_def)

subsection \<open>Which addresses are private\<close>

definition digit_char :: "nat \<Rightarrow> char" where
  "digit_char d = ''0123456789'' ! d"

definition octet_text :: "nat \<Rightarrow> string" where
  "octet_text n = (if n < 10 then [digit_char n] else if n < 100 then [digit_char (n div 10), digit_char (n mod 10)]
     else [digit_char (n div 100), digit_char (n div 10 mod 10), digit_char (n mod 10)])"

definition dotted :: "nat \<Rightarrow> nat \<Rightarrow> nat \<Rightarrow> nat \<Rightarrow> string" where
  "dotted a b c d = octet_text a @ ''.'' @ octet_text b @ ''.'' @ octet_text c @ ''.'' @ octet_text d"

lemma split_on_append: "sep \<notin> set p \<Longrightarrow> split_on sep (p @ sep # r) = p # split_on sep r"
  by (induction p) auto

lemma split_on_end: "sep \<notin> set p \<Longrightarrow> split_on sep p = [p]"
  by (induction p) auto

lemma digit_char_in: "d < 10 \<Longrightarrow> digit_char d \<in> set ''0123456789''"
  unfolding digit_char_def by (rule nth_mem) simp

lemma digit_char_inj: "d < 10 \<Longrightarrow> e < 10 \<Longrightarrow> digit_char d = digit_char e \<longleftrightarrow> d = e"
  unfolding digit_char_def by (rule nth_eq_iff_index_eq) simp_all

lemma octet_digits: "n < 256 \<Longrightarrow> n div 100 < 10 \<and> n div 10 mod 10 < 10 \<and> n mod 10 < 10 \<and> (n < 100 \<longrightarrow> n div 10 < (10 :: nat))"
  by auto

lemma digit_char_dot: "d < 10 \<Longrightarrow> CHR ''.'' \<noteq> digit_char d"
  using digit_char_in [of d] by force

lemma octet_text_no_dot: "n < 256 \<Longrightarrow> CHR ''.'' \<notin> set (octet_text n)"
  using octet_digits [of n] by (cases "n < 10"; cases "n < 100") (simp_all add: octet_text_def digit_char_dot)

lemma octet_text_inj:
  assumes "a < 256" "b < 256" "octet_text a = octet_text b"
  shows "a = b"
proof -
  have parts: "n = 100 * (n div 100) + 10 * (n div 10 mod 10) + n mod 10" for n :: nat
  proof -
    have "n div 10 div 10 = n div 100" by (simp add: div_mult2_eq [symmetric])
    then have "10 * (n div 100) + n div 10 mod 10 = n div 10" using mult_div_mod_eq [of 10 "n div 10"] by simp
    moreover have "10 * (n div 10) + n mod 10 = n" by (rule mult_div_mod_eq)
    ultimately show ?thesis by linarith
  qed
  have len: "length (octet_text n) = (if n < 10 then 1 else if n < 100 then 2 else 3)" for n by (simp add: octet_text_def)
  have "length (octet_text a) = length (octet_text b)" using assms(3) by simp
  then consider "a < 10" "b < 10" | "10 \<le> a" "a < 100" "10 \<le> b" "b < 100" | "100 \<le> a" "100 \<le> b"
    unfolding len by (cases "a < 10"; cases "b < 10"; cases "a < 100"; cases "b < 100") simp_all
  then show ?thesis
  proof cases
    case 1
    then show ?thesis using assms(3) by (simp add: octet_text_def digit_char_inj)
  next
    case 2
    then have "a div 10 = b div 10" "a mod 10 = b mod 10" using assms(3) by (simp_all add: octet_text_def digit_char_inj)
    then show ?thesis by (metis div_mult_mod_eq)
  next
    case 3
    then have "a div 100 = b div 100" "a div 10 mod 10 = b div 10 mod 10" "a mod 10 = b mod 10"
      using assms octet_digits [of a] octet_digits [of b] by (simp_all add: octet_text_def digit_char_inj)
    then show ?thesis using parts [of a] parts [of b] by simp
  qed
qed

lemma split_dotted:
  assumes "a < 256" "b < 256" "c < 256" "d < 256"
  shows "split_on (CHR ''.'') (dotted a b c d) = map octet_text [a, b, c, d]"
  using assms by (simp add: dotted_def split_on_append split_on_end octet_text_no_dot)

definition numbers_ok :: "(string \<Rightarrow> jsnum) \<Rightarrow> bool" where
  "numbers_ok number \<longleftrightarrow> (\<forall>n < 256. number (octet_text n) = JNum (real n))"

definition quad_value :: "nat \<Rightarrow> nat \<Rightarrow> nat \<Rightarrow> nat \<Rightarrow> int" where
  "quad_value a b c d = ((int a * 256 + int b) * 256 + int c) * 256 + int d"

lemma ipv4_dotted:
  assumes "numbers_ok number" "a < 256" "b < 256" "c < 256" "d < 256"
  shows "ipv4ToInt number (dotted a b c d) = Some (word_of_int (quad_value a b c d))"
proof -
  have "octet (number (octet_text n)) = Some (int n)" if "n < 256" for n
    using assms(1) that by (simp add: numbers_ok_def octet_def)
  with assms(2-5) show ?thesis by (simp add: ipv4ToInt_def split_dotted quad_value_def Let_def)
qed

lemma word_between:
  assumes "0 \<le> x" "x < 2 ^ 32" "0 \<le> lo" "lo < 2 ^ 32" "0 \<le> hi" "hi < 2 ^ 32"
  shows "(word_of_int lo :: 32 word) \<le> word_of_int x \<and> (word_of_int x :: 32 word) \<le> word_of_int hi \<longleftrightarrow> lo \<le> x \<and> x \<le> hi"
proof -
  have "uint (word_of_int k :: 32 word) = k" if "0 \<le> k" "k < 2 ^ 32" for k
    using that by (simp add: uint_word_of_int)
  then show ?thesis using assms by (simp add: word_le_def)
qed

lemma second_octet:
  assumes "b < 256" and "q < 256"
  shows "(256 * int l + int p \<le> int a * 256 + int b \<and> int a * 256 + int b \<le> 256 * int l + int q) = (a = l \<and> p \<le> b \<and> b \<le> q)"
proof (cases a l rule: linorder_cases)
  case less
  then have "int a * 256 + 256 \<le> 256 * int l" by simp
  with less assms show ?thesis by linarith
next
  case greater
  then have "256 * int l + 256 \<le> int a * 256" by simp
  with greater assms show ?thesis by linarith
qed auto

definition private_quad :: "nat \<Rightarrow> nat \<Rightarrow> bool" where
  "private_quad a b \<longleftrightarrow> a = 0 \<or> a = 10 \<or> a = 127 \<or> (a = 169 \<and> b = 254) \<or> (a = 172 \<and> 16 \<le> b \<and> b \<le> 31)
     \<or> (a = 192 \<and> b = 168) \<or> 224 \<le> a \<or> (a = 100 \<and> 64 \<le> b \<and> b \<le> 127)"

lemma quad_ranges:
  assumes "a < 256" "b < 256" "c < 256" "d < 256"
  shows "isPrivateIpv4 (word_of_int (quad_value a b c d)) \<longleftrightarrow> private_quad a b"
proof -
  let ?x = "quad_value a b c d"
  define r where "r = int c * 256 + int d"
  define h where "h = int a * 256 + int b"
  have x: "?x = h * 65536 + r" and r: "0 \<le> r" "r < 65536" and h: "0 \<le> h" "h < 65536"
    using assms by (simp_all add: quad_value_def r_def h_def)
  have bound: "0 \<le> ?x" "?x < 2 ^ 32" using h r by (simp_all add: x)
  have between: "(word_of_int (l * 65536) :: 32 word) \<le> word_of_int ?x \<and> (word_of_int ?x :: 32 word) \<le> word_of_int (m * 65536 + 65535)
      \<longleftrightarrow> l \<le> h \<and> h \<le> m" if "0 \<le> l" "l < 65536" "0 \<le> m" "m < 65536" for l m
  proof -
    have "(l * 65536 \<le> ?x \<and> ?x \<le> m * 65536 + 65535) = (l \<le> h \<and> h \<le> m)" using r unfolding x by linarith
    then show ?thesis using word_between [OF bound, of "l * 65536" "m * 65536 + 65535"] that by simp
  qed
  have "isPrivateIpv4 (word_of_int ?x) \<longleftrightarrow> (0 \<le> h \<and> h \<le> 255) \<or> (2560 \<le> h \<and> h \<le> 2815) \<or> (32512 \<le> h \<and> h \<le> 32767)
     \<or> (43518 \<le> h \<and> h \<le> 43518) \<or> (44048 \<le> h \<and> h \<le> 44063) \<or> (49320 \<le> h \<and> h \<le> 49320) \<or> (57344 \<le> h \<and> h \<le> 65535)
     \<or> (25664 \<le> h \<and> h \<le> 25727)"
    using between [of 0 255] between [of 2560 2815] between [of 32512 32767] between [of 43518 43518]
      between [of 44048 44063] between [of 49320 49320] between [of 57344 65535] between [of 25664 25727]
    by (simp add: isPrivateIpv4_def PRIVATE_IPV4_RANGES_def)
  also have "\<dots> \<longleftrightarrow> private_quad a b"
  proof -
    have ab: "a \<le> 255" "b \<le> 255" using assms(1,2) by simp_all
    have "(0 \<le> h \<and> h \<le> 255) = (a = 0)" using second_octet [of b 255 0 0 a] ab by (simp add: h_def)
    moreover have "(2560 \<le> h \<and> h \<le> 2815) = (a = 10)" using second_octet [of b 255 10 0 a] ab by (simp add: h_def)
    moreover have "(32512 \<le> h \<and> h \<le> 32767) = (a = 127)" using second_octet [of b 255 127 0 a] ab by (simp add: h_def)
    moreover have "(43518 \<le> h \<and> h \<le> 43518) = (a = 169 \<and> b = 254)"
      using second_octet [of b 254 169 254 a] ab unfolding h_def by (simp, linarith)
    moreover have "(44048 \<le> h \<and> h \<le> 44063) = (a = 172 \<and> 16 \<le> b \<and> b \<le> 31)"
      using second_octet [of b 31 172 16 a] ab by (simp add: h_def)
    moreover have "(49320 \<le> h \<and> h \<le> 49320) = (a = 192 \<and> b = 168)"
      using second_octet [of b 168 192 168 a] ab unfolding h_def by (simp, linarith)
    moreover have "(57344 \<le> h \<and> h \<le> 65535) = (224 \<le> a)"
    proof -
      have "57344 \<le> h \<longleftrightarrow> 224 \<le> a" using ab unfolding h_def by linarith
      then show ?thesis using h by simp
    qed
    moreover have "(25664 \<le> h \<and> h \<le> 25727) = (a = 100 \<and> 64 \<le> b \<and> b \<le> 127)"
      using second_octet [of b 127 100 64 a] ab by (simp add: h_def)
    ultimately have "((0 \<le> h \<and> h \<le> 255) \<or> (2560 \<le> h \<and> h \<le> 2815) \<or> (32512 \<le> h \<and> h \<le> 32767)
       \<or> (43518 \<le> h \<and> h \<le> 43518) \<or> (44048 \<le> h \<and> h \<le> 44063) \<or> (49320 \<le> h \<and> h \<le> 49320) \<or> (57344 \<le> h \<and> h \<le> 65535)
       \<or> (25664 \<le> h \<and> h \<le> 25727)) = private_quad a b" unfolding private_quad_def by (simp only: disj_assoc)
    then show ?thesis .
  qed
  finally show ?thesis .
qed

lemma private_dotted:
  "numbers_ok number \<Longrightarrow> a < 256 \<Longrightarrow> b < 256 \<Longrightarrow> c < 256 \<Longrightarrow> d < 256 \<Longrightarrow>
   private_address number (dotted a b c d, 4) = private_quad a b"
  by (simp add: private_address_def ipv4_dotted quad_ranges)

text \<open>C38. The address check on IPv4: an address in its dotted form is refused exactly when it is in 0/8, 10/8, 127/8, 169.254/16,
  172.16/12, 192.168/16, 100.64/10 or from 224.0.0.0 on, and a resolver's answer of such addresses is kept exactly when none
  of them is.\<close>

theorem private_address_exact:
  assumes "numbers_ok (nt_number net)" and "quads \<noteq> []"
    and "\<forall>(a, b, c, d) \<in> set quads. a < 256 \<and> b < 256 \<and> c < 256 \<and> d < 256"
    and "nt_lookup net hop host = Inr (map (\<lambda>(a, b, c, d). (dotted a b c d, 4)) quads)"
  shows "resolvePublicIps net hop host False =
    (if \<exists>(a, b, c, d) \<in> set quads. private_quad a b then Inl (JsError ''Hostname resolves to private IP'')
     else Inr (map (\<lambda>(a, b, c, d). (dotted a b c d, 4)) quads))"
proof -
  have "private_address (nt_number net) (case q of (a, b, c, d) \<Rightarrow> (dotted a b c d, 4)) = (case q of (a, b, c, d) \<Rightarrow> private_quad a b)"
    if "q \<in> set quads" for q
    using assms(1,3) that by (auto simp: private_dotted)
  then have "list_ex (private_address (nt_number net)) (map (\<lambda>(a, b, c, d). (dotted a b c d, 4)) quads)
      = (\<exists>(a, b, c, d) \<in> set quads. private_quad a b)"
    by (force simp: list_ex_iff)
  then show ?thesis using assms(2,4) by (simp add: resolvePublicIps_def bindE_def)
qed

subsection \<open>What the denylist misses, and what it hits\<close>

text \<open>The URL parser writes \<open>[::ffff:127.0.0.1]\<close> as \<open>[::ffff:7f00:1]\<close>, which neither check knows: the loopback address of
  the host is dialled.\<close>

lemma mapped_loopback_dialled:
  assumes "nt_url net url = Some \<lparr>ur_protocol = ''http:'', ur_hostname = ''[::ffff:7f00:1]'', ur_host = ''[::ffff:7f00:1]''\<rparr>"
    and "nt_lookup net hop ''::ffff:7f00:1'' = Inr [(''::ffff:7f00:1'', 6)]"
  shows "assertPublicUrl net url None = Inr ()" "resolvePublicIps net hop ''::ffff:7f00:1'' False = Inr [(''::ffff:7f00:1'', 6)]"
proof -
  have "\<not> private_host ''::ffff:7f00:1''" by code_simp
  moreover have "strip_brackets ''[::ffff:7f00:1]'' = ''::ffff:7f00:1''" by code_simp
  ultimately show "assertPublicUrl net url None = Inr ()"
    using assms(1) by (simp add: assertPublicUrl_def host_allowed_def)
  have "ascii_lower ''::ffff:7f00:1'' = ''::ffff:7f00:1''" "mapped_ipv4 ''::ffff:7f00:1'' = None" "\<not> link_local6 ''::ffff:7f00:1''"
    by code_simp+
  then have "\<not> isPrivateIpv6 number ''::ffff:7f00:1''" for number by (simp add: isPrivateIpv6_def starts_with_def)
  then show "resolvePublicIps net hop ''::ffff:7f00:1'' False = Inr [(''::ffff:7f00:1'', 6)]"
    using assms(2) by (simp add: resolvePublicIps_def private_address_def bindE_def)
qed

text \<open>The prefixes of IPv6 ranges are tried on every host, so a public name that begins with one is refused.\<close>

lemma public_name_refused: "private_host ''fdic.gov'' \<and> private_host ''feb.example.org''"
  by code_simp

subsection \<open>At concrete inputs\<close>

definition sample_net :: net where
  "sample_net = \<lparr>nt_url = (\<lambda>url. Some \<lparr>ur_protocol = ''https:'', ur_hostname = url, ur_host = url\<rparr>),
     nt_resolve = (\<lambda>location base. Some location),
     nt_lookup = (\<lambda>_ _. Inr (map (\<lambda>(a, b, c, d). (dotted a b c d, 4)) [(8, 8, 8, 8)])),
     nt_fetch = (\<lambda>hop rq. Inr (if hop = 0 then \<lparr>rs_status = 302, rs_location = Some ''b'', rs_contentLength = None, rs_body = None\<rparr>
        else \<lparr>rs_status = 200, rs_location = None, rs_contentLength = None, rs_body = Some [Chunk [1, 2], Chunk [3]]\<rparr>)),
     nt_number = (\<lambda>t. case find (\<lambda>n. octet_text n = t) [0..<256] of Some n \<Rightarrow> JNum (real n) | None \<Rightarrow> JNaN)\<rparr>"

definition sample_options :: guard_options where
  "sample_options = \<lparr>go_maxBytes = 10, go_maxRedirects = 5, go_allowedHosts = None\<rparr>"

definition sample_init :: request_init where
  "sample_init = \<lparr>in_method = None, in_headers = [(''Authorization'', ''secret''), (''Accept'', ''*/*'')], in_body = None\<rparr>"

definition sample_connect :: connect_options where
  "sample_connect = \<lparr>cn_cert = Some ''CERT'', cn_key = Some ''KEY'', cn_ca = None\<rparr>"

lemma sample_numbers: "numbers_ok (nt_number sample_net)"
proof -
  have "find (\<lambda>m. octet_text m = octet_text n) [0..<256] = Some n" if "n < 256" for n
  proof -
    have "find (\<lambda>m. octet_text m = octet_text n) [0..<256] \<noteq> None" using that by (auto simp: find_None_iff)
    then obtain m where m: "find (\<lambda>m. octet_text m = octet_text n) [0..<256] = Some m" by blast
    then have "m < 256" "octet_text m = octet_text n" by (auto dest!: find_in)
    with m octet_text_inj that show ?thesis by blast
  qed
  then show ?thesis by (simp add: numbers_ok_def sample_net_def)
qed

lemma private_address_exact_witness:
  "resolvePublicIps sample_net 0 ''host'' False = Inr [(dotted 8 8 8 8, 4)]"
proof -
  have "resolvePublicIps sample_net 0 ''host'' False =
    (if \<exists>(a, b, c, d) \<in> set [(8 :: nat, 8 :: nat, 8 :: nat, 8 :: nat)]. private_quad a b then Inl (JsError ''Hostname resolves to private IP'')
     else Inr (map (\<lambda>(a, b, c, d). (dotted a b c d, 4)) [(8, 8, 8, 8)]))"
    by (rule private_address_exact [OF sample_numbers]) (simp_all add: sample_net_def)
  then show ?thesis by (simp add: private_quad_def)
qed

lemma body_capped_witness:
  "capBody sample_net 10 \<lparr>rs_status = 200, rs_location = None, rs_contentLength = None, rs_body = Some [Chunk [1, 2], Chunk [3]]\<rparr>
    = Inr \<lparr>ca_status = 200, ca_delivered = [[1, 2], [3]], ca_end = Closed\<rparr>
   \<and> length (concat [[1, 2], [3 :: 8 word]]) \<le> 10"
proof -
  let ?res = "\<lparr>rs_status = 200, rs_location = None, rs_contentLength = None, rs_body = Some [Chunk [1, 2], Chunk [3]]\<rparr>"
  have run: "capBody sample_net 10 ?res = Inr \<lparr>ca_status = 200, ca_delivered = [[1, 2], [3]], ca_end = Closed\<rparr>"
    by (simp add: capBody_def Let_def)
  have "rs_body ?res = Some [Chunk [1, 2], Chunk [3]]" by simp
  from body_capped [OF run this] show ?thesis using run by simp
qed

lemma sample_run: "snd (guardedFetch sample_net sample_options sample_connect ''a'' sample_init) =
   [\<lparr>rq_url = ''a'', rq_init = sample_init, rq_pinned = [(dotted 8 8 8 8, 4)], rq_tls = Some sample_connect\<rparr>,
    \<lparr>rq_url = ''b'', rq_init = \<lparr>in_method = None, in_headers = [(''accept'', ''*/*'')], in_body = None\<rparr>, rq_pinned = [(dotted 8 8 8 8, 4)], rq_tls = Some sample_connect\<rparr>]"
proof -
  have pass: "assertPublicUrl sample_net url None = Inr ()" if "url \<in> {''a'', ''b''}" for url
    using that by (auto simp: assertPublicUrl_def sample_net_def host_allowed_def private_host_def strip_brackets_def
        starts_with_def link_local6_def ascii_lower_def)
  have "\<not> private_address (nt_number sample_net) (dotted 8 8 8 8, 4)"
    using private_dotted [OF sample_numbers, of 8 8 8 8] by (simp add: private_quad_def)
  then have addrs: "resolvePublicIps sample_net hop url False = Inr [(dotted 8 8 8 8, 4)]" for hop url
    by (simp add: resolvePublicIps_def bindE_def) (simp add: sample_net_def)
  have strip: "strip_brackets ''a'' = ''a''" "strip_brackets ''b'' = ''b''" by code_simp+
  have headers: "make_headers (filter (\<lambda>h. fst h \<in> set CROSS_HOST_HEADERS) (make_headers (in_headers sample_init))) = [(''accept'', ''*/*'')]"
    by code_simp
  have "nat (go_maxRedirects sample_options + 1) = Suc (Suc 4)" by (simp add: sample_options_def)
  then obtain left where hops: "nat (go_maxRedirects sample_options + 1) = Suc (Suc left)" by blast
  have tls: "presented sample_connect = Some sample_connect" by (simp add: presented_def sample_connect_def)
  have none: "go_allowedHosts sample_options = None" by (simp add: sample_options_def)
  have net: "nt_url sample_net url = Some \<lparr>ur_protocol = ''https:'', ur_hostname = url, ur_host = url\<rparr>"
    "nt_resolve sample_net location base = Some location" for url location base by (simp_all add: sample_net_def)
  have fetch: "nt_fetch sample_net 0 rq = Inr \<lparr>rs_status = 302, rs_location = Some ''b'', rs_contentLength = None, rs_body = None\<rparr>"
    "nt_fetch sample_net (Suc 0) rq = Inr \<lparr>rs_status = 200, rs_location = None, rs_contentLength = None, rs_body = Some [Chunk [1, 2], Chunk [3]]\<rparr>"
    for rq by (simp_all add: sample_net_def)
  have redirect: "redirected sample_net sample_options ''a'' sample_init \<lparr>rs_status = 302, rs_location = Some ''b'', rs_contentLength = None, rs_body = None\<rparr>
     = Inr (''b'', \<lparr>in_method = None, in_headers = [(''accept'', ''*/*'')], in_body = None\<rparr>)"
  proof -
    have "without_body 302 sample_init = sample_init" by (simp add: without_body_def sample_init_def ascii_upper_def)
    then show ?thesis using headers
      by (simp add: redirected_def net host_of_def none pass bindE_def Let_def) (simp add: sample_init_def)
  qed
  show ?thesis
    unfolding guardedFetch_def hops
    by (simp add: follow.simps(2) pass strip addrs host_allowed_def none net fetch redirect tls REDIRECT_STATUSES_def Let_def)
qed

lemma credentials_stay_witness:
  "contained (rq_init (snd (guardedFetch sample_net sample_options sample_connect ''a'' sample_init) ! 1))"
proof -
  have "host_of sample_net (rq_url (snd (guardedFetch sample_net sample_options sample_connect ''a'' sample_init) ! 1)) \<noteq> host_of sample_net ''a''"
    unfolding sample_run by (simp add: host_of_def sample_net_def)
  from credentials_stay [OF le_refl _ this] show ?thesis by (simp add: sample_run)
qed

text \<open>So a redirect to another host sees the certificate, although it sees none of the headers.\<close>

lemma certificate_crosses_hosts:
  "\<exists>rq \<in> set (snd (guardedFetch sample_net sample_options sample_connect ''a'' sample_init)).
     host_of sample_net (rq_url rq) \<noteq> host_of sample_net ''a'' \<and> rq_tls rq = Some sample_connect"
  unfolding sample_run by (simp add: host_of_def sample_net_def)

end
