(* ===== verification/Observation_Codec.thy ===== *)
theory Observation_Codec
  imports Identity Effect_State "HOL-Library.Finite_Map"
begin

text \<open>
  How an observation is stored: packages/core/src/observation-codec.ts. The latest reading of a series is a template
  every reading shares and what is the reading's own; a history row keeps the reading's times, its result as columns,
  and an \<open>extra\<close> for the rest.

  \<^item> A JSON object is a finite map: spreading two objects is \<open>fmadd\<close>, \<open>delete\<close> is \<open>fmdrop\<close>, and a member that is
    \<open>undefined\<close> is none. Texts are code points (theory Identity).
  \<^item> What the model package hashes is a record \<open>codec\<close>, a parameter: the canonical id of a namespace and a local id, the
    id of an observation and its content hash; \<open>show\<close> is \<open>String\<close> of a value that is neither a boolean nor a text.
  \<^item> An instant of a record is its text. A row is written with those texts; the database hands its timestamps back as
    Dates, milliseconds here, which are read as their ISO texts in UTC. What instant a text is, is the parameter \<open>db\<close>. The
    receipt of a row's credits, which the storage joins to it, is a field of the row.
\<close>

subsection \<open>Objects\<close>

datatype json = JNull | JBool bool | JNumber real | JString code_points | JArray "json list"
  | JObject "(code_points, json) fmap"

type_synonym rec = "(code_points, json) fmap"

lemma u_eq [simp]: "u s = u t \<longleftrightarrow> s = t"
  by (auto simp: u_def inj_def intro: map_injective)

definition field :: "rec \<Rightarrow> string \<Rightarrow> json option" where
  "field r k = fmlookup r (u k)"

definition obj :: "json option \<Rightarrow> rec" where
  "obj v = (case v of Some (JObject m) \<Rightarrow> m | _ \<Rightarrow> fmempty)"

definition put :: "string \<Rightarrow> json option \<Rightarrow> rec \<Rightarrow> rec" where
  "put k v r = (case v of None \<Rightarrow> r | Some x \<Rightarrow> fmupd (u k) x r)"

definition pick :: "string list \<Rightarrow> rec \<Rightarrow> rec" where
  "pick ks r = fmfilter (\<lambda>k. k \<in> u ` set ks) r"

definition without :: "string list \<Rightarrow> rec \<Rightarrow> rec" where
  "without ks r = fmfilter (\<lambda>k. k \<notin> u ` set ks) r"

definition text_of :: "string \<Rightarrow> json" where
  "text_of s = JString (u s)"

record codec =
  co_canonicalIdOf :: "code_points \<Rightarrow> code_points \<Rightarrow> code_points"
  co_observationId :: "code_points \<Rightarrow> rec \<Rightarrow> code_points"
  co_contentHash :: "rec \<Rightarrow> code_points"
  co_show :: "json \<Rightarrow> code_points"

subsection \<open>What varies between the readings of a series\<close>

definition VARYING_PROVENANCE :: "string list" where
  "VARYING_PROVENANCE = [''rawRef'', ''sourceUpdatedAt'', ''recordVersion'']"

definition CROWD_VARYING_PROVENANCE :: "string list" where
  "CROWD_VARYING_PROVENANCE = [''reporter'', ''recordId'']"

definition varyingProvenance :: "rec \<Rightarrow> string list" where
  "varyingProvenance p =
     (if field p ''origin'' = Some (text_of ''crowd'') then VARYING_PROVENANCE @ CROWD_VARYING_PROVENANCE
      else VARYING_PROVENANCE)"

definition isFusedSourceId :: "json option \<Rightarrow> bool" where
  "isFusedSourceId v \<longleftrightarrow> v \<in> {Some (text_of ''@fused''), Some (text_of ''@fused-public'')}"

text \<open>LOCAL_OBSERVATION_ID: \<open>^[0-9a-f]{64}$\<close>\<close>

definition local_hash :: "code_points \<Rightarrow> bool" where
  "local_hash i \<longleftrightarrow> length i = 64 \<and> list_all (\<lambda>c. (0x30 \<le> c \<and> c \<le> 0x39) \<or> (0x61 \<le> c \<and> c \<le> 0x66)) i"

definition parsed_id :: "rec \<Rightarrow> id_parts option" where
  "parsed_id r = (case field r ''id'' of Some (JString i) \<Rightarrow> parseRecordId i | _ \<Rightarrow> None)"

text \<open>The identity of a regular observation: a hash its namespace qualifies, with the canonical id of the two.\<close>

definition regular_id :: "codec \<Rightarrow> rec \<Rightarrow> id_parts option" where
  "regular_id co r = (case parsed_id r of None \<Rightarrow> None
     | Some i \<Rightarrow> if id_class i = u ''observation'' \<and> local_hash (id_local i)
           \<and> field r ''canonicalId'' = Some (JString (co_canonicalIdOf co (id_namespace i) (id_local i)))
         then Some i else None)"

definition same_lineage :: "json \<Rightarrow> json \<Rightarrow> code_points option" where
  "same_lineage source ref = (case (source, ref) of
     (JObject s, JObject f) \<Rightarrow> (case field s ''recordId'' of
        Some (JString i) \<Rightarrow> if field f ''class'' = Some (text_of ''observation'') \<and> field f ''id'' = Some (JString i)
            \<and> fcard (fmdom f) = 2 then Some i else None
      | _ \<Rightarrow> None)
   | _ \<Rightarrow> None)"

fun lineage_ids :: "json list \<Rightarrow> json list \<Rightarrow> code_points list option" where
  "lineage_ids (s # ss) (f # fs) = (case same_lineage s f of None \<Rightarrow> None | Some i \<Rightarrow> map_option (Cons i) (lineage_ids ss fs))"
| "lineage_ids _ _ = Some []"

definition fusionRecordIds :: "codec \<Rightarrow> rec \<Rightarrow> code_points list option" where
  "fusionRecordIds co r =
     (let p = obj (field r ''provenance'') in
      if field p ''origin'' \<noteq> Some (text_of ''derived'') \<or> \<not> isFusedSourceId (field p ''sourceId'') then None
      else (case regular_id co r of None \<Rightarrow> None
       | Some i \<Rightarrow>
          if field p ''recordId'' \<noteq> Some (JString (id_local i)) then None
          else let derivation = obj (field p ''derivedFrom'') in
            (case (field p ''mergedSources'', field derivation ''records'') of
              (Some (JArray merged), Some (JArray refs)) \<Rightarrow>
                if merged = [] \<or> field derivation ''method'' \<noteq> Some (text_of ''fusion'') \<or> length refs \<noteq> length merged
                then None else lineage_ids merged refs
            | _ \<Rightarrow> None)))"

subsection \<open>The template of a series\<close>

definition TEMPLATE_FIELDS :: "string list" where
  "TEMPLATE_FIELDS = [''class'', ''kind'', ''property'', ''domain'', ''revision'', ''temporality'', ''aggregation'',
     ''subject'', ''qualifiers'', ''location'']"

definition strip_credit :: "json \<Rightarrow> json" where
  "strip_credit source = JObject (without [''recordId''] (obj (Some source)))"

definition list_of_json :: "json option \<Rightarrow> json list" where
  "list_of_json v = (case v of Some (JArray xs) \<Rightarrow> xs | _ \<Rightarrow> [])"

definition template_provenance :: "codec \<Rightarrow> rec \<Rightarrow> rec" where
  "template_provenance co r =
     (let p = obj (field r ''provenance''); shared = without (varyingProvenance p) p in
      if fusionRecordIds co r = None then shared
      else put ''derivedFrom'' (Some (JObject (without [''records''] (obj (field shared ''derivedFrom'')))))
          (put ''mergedSources'' (Some (JArray (map strip_credit (list_of_json (field shared ''mergedSources'')))))
            (without [''recordId''] shared)))"

definition templateOf :: "codec \<Rightarrow> rec \<Rightarrow> rec" where
  "templateOf co r =
     put ''provenance'' (Some (JObject (template_provenance co r)))
       (put ''namespace'' (map_option (\<lambda>i. JString (id_namespace i)) (parsed_id r)) (pick TEMPLATE_FIELDS r))"

subsection \<open>The reading\<close>

definition TEMPLATE_KEYS :: "string list" where
  "TEMPLATE_KEYS = [''class'', ''kind'', ''property'', ''domain'', ''subject'', ''qualifiers'', ''location'', ''revision'',
     ''temporality'', ''aggregation'']"

definition readingOf :: "codec \<Rightarrow> rec \<Rightarrow> rec" where
  "readingOf co r =
     (let reading = without TEMPLATE_KEYS r;
          p = obj (field r ''provenance'');
          varying = pick (varyingProvenance p) p;
          r1 = without [''provenance''] reading;
          r2 = (if varying \<noteq> fmempty then put ''provenance'' (Some (JObject varying)) r1 else r1);
          r3 = (case regular_id co r of None \<Rightarrow> r2
                | Some i \<Rightarrow> without [''canonicalId''] (put ''id'' (Some (JString (id_local i))) r2))
      in case fusionRecordIds co r of None \<Rightarrow> r3
         | Some lineage \<Rightarrow> put ''_ocFusionRecordIds'' (Some (JArray (map JString lineage))) r3)"

subsection \<open>The record of a reading\<close>

definition observation_id_text :: "code_points \<Rightarrow> code_points \<Rightarrow> code_points" where
  "observation_id_text ns localId = record_id_text \<lparr>id_class = u ''observation'', id_namespace = ns, id_local = localId\<rparr>"

definition local_id_of :: "rec \<Rightarrow> code_points option" where
  "local_id_of r = (case field r ''id'' of Some (JString i) \<Rightarrow> if local_hash i then Some i else None | _ \<Rightarrow> None)"

definition expand_id :: "codec \<Rightarrow> rec \<Rightarrow> rec \<Rightarrow> js_error + rec" where
  "expand_id co template own = (case local_id_of own of None \<Rightarrow> Inr own
     | Some localId \<Rightarrow> (case field template ''namespace'' of
         Some (JString ns) \<Rightarrow> Inr (put ''canonicalId'' (Some (JString (co_canonicalIdOf co ns localId)))
            (put ''id'' (Some (JString (observation_id_text ns localId))) own))
       | _ \<Rightarrow> Inl (TypeError ''namespace is undefined'')))"

definition is_object :: "json \<Rightarrow> bool" where
  "is_object v = (case v of JObject _ \<Rightarrow> True | _ \<Rightarrow> False)"

definition is_string :: "json \<Rightarrow> bool" where
  "is_string v = (case v of JString _ \<Rightarrow> True | _ \<Rightarrow> False)"

definition with_id :: "json \<Rightarrow> json \<Rightarrow> json" where
  "with_id source i = JObject (put ''recordId'' (Some i) (obj (Some source)))"

definition record_ref :: "json \<Rightarrow> json" where
  "record_ref i = JObject (put ''id'' (Some i) (put ''class'' (Some (text_of ''observation'')) fmempty))"

text \<open>\<open>lineage\<close> is what the reading holds, \<open>localId\<close> its own id as it is stored.\<close>

definition expand_lineage :: "json \<Rightarrow> code_points option \<Rightarrow> rec \<Rightarrow> js_error + rec" where
  "expand_lineage lineage localId credit =
     (let meth = obj (field credit ''derivedFrom'') in
      case (lineage, field credit ''mergedSources'', localId) of
        (JArray ids, Some (JArray merged), Some l) \<Rightarrow>
          if ids = [] \<or> \<not> list_all is_string ids \<or> length merged \<noteq> length ids \<or> \<not> list_all is_object merged
            \<or> field credit ''origin'' \<noteq> Some (text_of ''derived'') \<or> \<not> isFusedSourceId (field credit ''sourceId'')
            \<or> field meth ''method'' \<noteq> Some (text_of ''fusion'')
          then Inl (TypeError ''Invalid compact fused lineage'')
          else Inr (put ''derivedFrom'' (Some (JObject (put ''records'' (Some (JArray (map record_ref ids))) meth)))
                (put ''mergedSources'' (Some (JArray (map2 with_id merged ids)))
                  (put ''recordId'' (Some (JString l)) credit)))
      | _ \<Rightarrow> Inl (TypeError ''Invalid compact fused lineage''))"

definition recordOf :: "codec \<Rightarrow> rec \<Rightarrow> rec \<Rightarrow> js_error + rec" where
  "recordOf co template reading =
     (let shared = without [''namespace'', ''provenance''] template;
          own = without [''provenance'', ''_ocFusionRecordIds''] reading
      in bindE (expand_id co template own) (\<lambda>own'.
         let credit = fmadd (obj (field template ''provenance'')) (obj (field reading ''provenance''))
         in bindE (case field reading ''_ocFusionRecordIds'' of None \<Rightarrow> Inr credit
              | Some lineage \<Rightarrow> expand_lineage lineage (local_id_of own) credit) (\<lambda>credit'.
            Inr (put ''provenance'' (Some (JObject credit')) (fmadd shared own')))))"

subsection \<open>Reading the pieces back\<close>

lemma lookup_put [simp]: "fmlookup (put k v r) x = (if v \<noteq> None \<and> x = u k then v else fmlookup r x)"
  by (cases v) (auto simp: put_def)

lemma lookup_pick [simp]: "fmlookup (pick ks r) x = (if x \<in> u ` set ks then fmlookup r x else None)"
  by (simp add: pick_def)

lemma lookup_without [simp]: "fmlookup (without ks r) x = (if x \<in> u ` set ks then None else fmlookup r x)"
  by (simp add: without_def)

lemma obj_simps [simp]: "obj (Some (JObject m)) = m" "obj None = fmempty"
  by (simp_all add: obj_def)

lemma u_mem [simp]: "u k \<in> u ` set ks \<longleftrightarrow> k \<in> set ks"
  by auto

lemma field_simps' [simp]:
  "field (put k v r) k' = (if v \<noteq> None \<and> k' = k then v else field r k')"
  "field (pick ks r) k' = (if k' \<in> set ks then field r k' else None)"
  "field (without ks r) k' = (if k' \<in> set ks then None else field r k')"
  by (simp_all add: field_def)

lemma without_pick: "fmadd (without ks r) (pick ks r) = r"
  by (rule fmap_ext) auto

lemma template_keys_set: "set TEMPLATE_FIELDS = set TEMPLATE_KEYS"
  by (auto simp: TEMPLATE_FIELDS_def TEMPLATE_KEYS_def)

lemma regular_id_Some:
  assumes "regular_id co r = Some i"
  shows "field r ''id'' = Some (JString (observation_id_text (id_namespace i) (id_local i)))" "local_hash (id_local i)"
    "field r ''canonicalId'' = Some (JString (co_canonicalIdOf co (id_namespace i) (id_local i)))" "parsed_id r = Some i"
proof -
  show i: "parsed_id r = Some i" and "local_hash (id_local i)"
    and "field r ''canonicalId'' = Some (JString (co_canonicalIdOf co (id_namespace i) (id_local i)))"
    and "field r ''id'' = Some (JString (observation_id_text (id_namespace i) (id_local i)))"
    using assms parse_Some(2)
    by (auto simp: regular_id_def parsed_id_def observation_id_text_def split: option.splits json.splits if_splits) (metis id_parts.surjective unit.exhaust)+
qed

lemma parsed_not_local: "parseRecordId i = Some p \<Longrightarrow> \<not> local_hash i"
  by (cases i) (auto simp: parseRecordId_def local_hash_def u_def split: if_splits)

lemma fused_regular: "fusionRecordIds co r = Some ids \<Longrightarrow> regular_id co r \<noteq> None"
  by (auto simp: fusionRecordIds_def Let_def split: if_splits option.splits)

text \<open>What the reading keeps besides its provenance is the record without what the template holds, once its id is
  expanded.\<close>

definition own_part :: "rec \<Rightarrow> rec" where
  "own_part r = without (''provenance'' # TEMPLATE_KEYS) r"

definition stored_record :: "rec \<Rightarrow> rec \<Rightarrow> bool" where
  "stored_record r p \<longleftrightarrow> field r ''provenance'' = Some (JObject p) \<and> field r ''_ocFusionRecordIds'' = None
     \<and> parsed_id r \<noteq> None"

lemma reading_fields:
  assumes "stored_record r p"
  shows "obj (field (readingOf co r) ''provenance'') = pick (varyingProvenance p) p"
    "field (readingOf co r) ''_ocFusionRecordIds'' = map_option (\<lambda>ids. JArray (map JString ids)) (fusionRecordIds co r)"
  using assms
  by (auto simp: readingOf_def stored_record_def Let_def TEMPLATE_KEYS_def split: option.splits)

lemma template_fields:
  "field (templateOf co r) ''provenance'' = Some (JObject (template_provenance co r))"
  "field (templateOf co r) ''namespace'' = map_option (\<lambda>i. JString (id_namespace i)) (parsed_id r)"
  by (simp_all add: templateOf_def TEMPLATE_FIELDS_def)

lemma expand_reading:
  assumes "stored_record r p"
  shows "expand_id co (templateOf co r) (without [''provenance'', ''_ocFusionRecordIds''] (readingOf co r)) = Inr (own_part r)"
    and "regular_id co r = Some i \<Longrightarrow> local_id_of (without [''provenance'', ''_ocFusionRecordIds''] (readingOf co r)) = Some (id_local i)"
proof -
  let ?own = "without [''provenance'', ''_ocFusionRecordIds''] (readingOf co r)"
  have none: "fmlookup r (u ''_ocFusionRecordIds'') = None" using assms by (simp add: stored_record_def field_def)
  have plain: "fmlookup ?own x = (case regular_id co r of None \<Rightarrow> fmlookup (own_part r) x
      | Some i \<Rightarrow> if x = u ''canonicalId'' then None else if x = u ''id'' then Some (JString (id_local i)) else fmlookup (own_part r) x)" for x
    using none by (auto simp: readingOf_def own_part_def Let_def TEMPLATE_KEYS_def split: option.splits)
  show local: "local_id_of ?own = Some (id_local i)" if "regular_id co r = Some i" for i
    using plain [of "u ''id''"] regular_id_Some(2) [OF that] that by (simp add: local_id_of_def field_def)
  show "expand_id co (templateOf co r) ?own = Inr (own_part r)"
  proof (cases "regular_id co r")
    case None
    have "?own = own_part r" by (rule fmap_ext) (simp only: plain None option.case)
    moreover have "local_id_of (own_part r) = None"
      using assms parsed_not_local
      by (auto simp: local_id_of_def own_part_def TEMPLATE_KEYS_def stored_record_def parsed_id_def split: option.splits json.splits)
    ultimately show ?thesis by (simp add: expand_id_def)
  next
    case (Some i)
    note i = regular_id_Some [OF Some]
    have "put ''canonicalId'' (Some (JString (co_canonicalIdOf co (id_namespace i) (id_local i))))
        (put ''id'' (Some (JString (observation_id_text (id_namespace i) (id_local i)))) ?own) = own_part r"
      using i(1,3) by (intro fmap_ext) (simp only: lookup_put plain Some option.case, auto simp: own_part_def field_def TEMPLATE_KEYS_def)
    then show ?thesis using local [OF Some] i(4) by (simp add: expand_id_def template_fields)
  qed
qed

subsection \<open>The lineage of a fused record\<close>

lemma same_lineage_Some:
  assumes "same_lineage s f = Some i"
  shows "with_id (strip_credit s) (JString i) = s" "record_ref (JString i) = f" "is_object (strip_credit s)"
proof -
  obtain ms mf where o: "s = JObject ms" "f = JObject mf" "field ms ''recordId'' = Some (JString i)"
    "field mf ''class'' = Some (text_of ''observation'')" "field mf ''id'' = Some (JString i)" "fcard (fmdom mf) = 2"
    using assms by (auto simp: same_lineage_def split: json.splits option.splits if_splits)
  have "put ''recordId'' (Some (JString i)) (without [''recordId''] ms) = ms"
    using o(3) by (intro fmap_ext) (auto simp: field_def)
  then show "with_id (strip_credit s) (JString i) = s" "is_object (strip_credit s)"
    by (simp_all add: with_id_def strip_credit_def is_object_def o(1))
  have "u ''class'' |\<in>| fmdom mf" "u ''id'' |\<in>| fmdom mf" using o(4,5) by (auto simp: field_def intro: fmdomI)
  then have "{|u ''class'', u ''id''|} |\<subseteq>| fmdom mf" by simp
  moreover have "fcard {|u ''class'', u ''id''|} = 2" by (simp add: fcard_finsert_if)
  ultimately have dom: "fmdom mf = {|u ''class'', u ''id''|}" using o(6) by (metis fcard_seteq order_refl)
  have "put ''id'' (Some (JString i)) (put ''class'' (Some (text_of ''observation'')) fmempty) = mf"
  proof (rule fmap_ext)
    fix x show "fmlookup (put ''id'' (Some (JString i)) (put ''class'' (Some (text_of ''observation'')) fmempty)) x = fmlookup mf x"
    proof (cases "x |\<in>| fmdom mf")
      case True
      then show ?thesis using o(4,5) unfolding dom by (auto simp: field_def)
    next
      case False
      then show ?thesis unfolding dom by (simp add: False fmdom_notD)
    qed
  qed
  then show "record_ref (JString i) = f" by (simp add: record_ref_def o(2))
qed

lemma lineage_ids_Some:
  "lineage_ids ms fs = Some ids \<Longrightarrow> length ms = length fs \<Longrightarrow>
   map2 with_id (map strip_credit ms) (map JString ids) = ms \<and> map record_ref (map JString ids) = fs
   \<and> length ids = length ms \<and> list_all is_object (map strip_credit ms)"
  by (induction ms fs arbitrary: ids rule: lineage_ids.induct) (auto simp: same_lineage_Some split: option.splits)

lemma expand_lineage_template:
  assumes "fusionRecordIds co r = Some ids" and "regular_id co r = Some i" and p: "field r ''provenance'' = Some (JObject p)"
  shows "expand_lineage (JArray (map JString ids)) (Some (id_local i))
    (fmadd (template_provenance co r) (pick (varyingProvenance p) p)) = Inr p"
proof -
  obtain merged refs d where f: "field p ''origin'' = Some (text_of ''derived'')" "isFusedSourceId (field p ''sourceId'')"
    "field p ''recordId'' = Some (JString (id_local i))" "field p ''mergedSources'' = Some (JArray merged)"
    "d = obj (field p ''derivedFrom'')" "field d ''records'' = Some (JArray refs)" "merged \<noteq> []"
    "field d ''method'' = Some (text_of ''fusion'')" "length refs = length merged" "lineage_ids merged refs = Some ids"
    using assms by (auto simp: fusionRecordIds_def Let_def split: if_splits option.splits json.splits)
  have varying: "varyingProvenance p = VARYING_PROVENANCE" using f(1) by (simp add: varyingProvenance_def text_of_def)
  have derived: "field p ''derivedFrom'' = Some (JObject d)"
    using f(5,6) by (auto simp: obj_def field_def split: option.splits json.splits)
  let ?credit = "fmadd (template_provenance co r) (pick (varyingProvenance p) p)"
  have credit: "fmlookup ?credit x = (if x = u ''derivedFrom'' then Some (JObject (without [''records''] d))
      else if x = u ''mergedSources'' then Some (JArray (map strip_credit merged))
      else if x = u ''recordId'' then None else fmlookup p x)" for x
    using assms(1) p f(4) derived
    by (auto simp: template_provenance_def Let_def varying VARYING_PROVENANCE_def list_of_json_def)
  note l = lineage_ids_Some [OF f(10) f(9) [symmetric]]
  have "ids \<noteq> []" using l f(7) by auto
  have meth: "put ''records'' (Some (JArray (map record_ref (map JString ids)))) (without [''records''] d) = d"
    using l f(6) by (intro fmap_ext) (auto simp: field_def)
  have rebuilt: "put ''derivedFrom'' (Some (JObject d)) (put ''mergedSources'' (Some (JArray merged))
      (put ''recordId'' (Some (JString (id_local i))) ?credit)) = p"
    using f(3,4) derived by (intro fmap_ext) (simp only: lookup_put credit, auto simp: field_def)
  have c: "field ?credit ''derivedFrom'' = Some (JObject (without [''records''] d))"
    "field ?credit ''mergedSources'' = Some (JArray (map strip_credit merged))"
    "field ?credit ''origin'' = field p ''origin''" "field ?credit ''sourceId'' = field p ''sourceId''"
    unfolding field_def credit by simp_all
  have "list_all is_string (map JString ids)" by (simp add: list_all_iff is_string_def)
  then show ?thesis
    using l f(1,2,8) \<open>ids \<noteq> []\<close> rebuilt meth by (simp add: expand_lineage_def c)
qed

text \<open>C39. Storing a latest reading loses nothing: a stored observation with a record id, split into its series' template and
  its own reading, is rebuilt from the two exactly, whether its identity is regular or not, from a feed, the crowd or
  fusion.\<close>

theorem reading_roundtrip:
  assumes "stored_record r p"
  shows "recordOf co (templateOf co r) (readingOf co r) = Inr r"
proof -
  let ?reading = "readingOf co r" and ?template = "templateOf co r"
  let ?credit = "fmadd (template_provenance co r) (pick (varyingProvenance p) p)"
  have p: "field r ''provenance'' = Some (JObject p)" using assms by (simp add: stored_record_def)
  have credit: "(case field ?reading ''_ocFusionRecordIds'' of None \<Rightarrow> Inr ?credit
      | Some lineage \<Rightarrow> expand_lineage lineage (local_id_of (without [''provenance'', ''_ocFusionRecordIds''] ?reading)) ?credit) = Inr p"
  proof (cases "fusionRecordIds co r")
    case None
    then show ?thesis using p by (simp add: reading_fields(2) [OF assms] template_provenance_def without_pick Let_def)
  next
    case (Some ids)
    obtain i where i: "regular_id co r = Some i" using fused_regular [OF Some] by blast
    show ?thesis
      using expand_lineage_template [OF Some i p] expand_reading(2) [OF assms i] by (simp add: reading_fields(2) [OF assms] Some)
  qed
  have whole: "put ''provenance'' (Some (JObject p)) (fmadd (without [''namespace'', ''provenance''] ?template) (own_part r)) = r"
    using p by (intro fmap_ext) (auto simp: field_def own_part_def templateOf_def template_keys_set, auto simp: TEMPLATE_KEYS_def)
  show ?thesis
    by (simp add: recordOf_def expand_reading(1) [OF assms] template_fields(1) reading_fields(1) [OF assms] credit whole Let_def)
qed

subsection \<open>A result as columns\<close>

record result_spec =
  sp_type :: string
  sp_unit :: "json option"
  sp_vocabulary :: "json option"

record result_columns =
  rc_num :: json
  rc_money :: json
  rc_text :: json
  rc_json :: "rec option"

definition COLUMN_TYPES :: "string list" where
  "COLUMN_TYPES = [''quantity'', ''count'', ''boolean'', ''category'', ''money'']"

definition string_value :: "codec \<Rightarrow> json \<Rightarrow> code_points" where
  "string_value co v = (case v of JBool True \<Rightarrow> u ''true'' | JBool False \<Rightarrow> u ''false'' | JString t \<Rightarrow> t | _ \<Rightarrow> co_show co v)"

definition value_of_field :: "rec \<Rightarrow> string \<Rightarrow> json" where
  "value_of_field r k = nullish (field r k) JNull"

definition residue_of :: "rec \<Rightarrow> rec option" where
  "residue_of r = (if r = fmempty then None else Some r)"

definition drop_implied :: "string \<Rightarrow> json option \<Rightarrow> rec \<Rightarrow> rec" where
  "drop_implied k implied r = (if field r k = implied then without [k] r else r)"

definition encodeResult :: "codec \<Rightarrow> rec \<Rightarrow> result_spec \<Rightarrow> result_columns" where
  "encodeResult co result spec =
     (let out = \<lparr>rc_num = JNull, rc_money = JNull, rc_text = JNull, rc_json = None\<rparr>;
          type' = field result ''type'';
          rest = without [''type''] result
      in if type' \<noteq> Some (text_of (sp_type spec)) \<or> sp_type spec \<notin> set COLUMN_TYPES then out\<lparr>rc_json := Some result\<rparr>
      else if sp_type spec = ''quantity'' then out\<lparr>rc_num := value_of_field result ''value'',
             rc_json := residue_of (drop_implied ''unit'' (sp_unit spec) (without [''value''] rest))\<rparr>
      else if sp_type spec = ''count'' then out\<lparr>rc_num := value_of_field result ''value'',
             rc_json := residue_of (without [''value''] rest)\<rparr>
      else if sp_type spec = ''boolean'' then out\<lparr>rc_text := JString (string_value co (value_of_field result ''value'')),
             rc_json := residue_of (without [''value''] rest)\<rparr>
      else if sp_type spec = ''category'' then out\<lparr>rc_text := value_of_field result ''value'',
             rc_json := residue_of (drop_implied ''vocabulary'' (sp_vocabulary spec) (without [''value''] rest))\<rparr>
      else out\<lparr>rc_money := value_of_field result ''amount'', rc_json := residue_of (without [''amount''] rest)\<rparr>)"

definition decodeResult :: "result_columns \<Rightarrow> result_spec \<Rightarrow> js_error + rec" where
  "decodeResult columns spec =
     (let json' = nullish (rc_json columns) fmempty;
          typed = (\<lambda>members. fmadd (put ''type'' (Some (text_of (sp_type spec))) members) json')
      in if (\<exists>t. field json' ''type'' = Some (JString t)) then Inr json'
      else if sp_type spec = ''quantity'' then Inr (typed (put ''value'' (Some (rc_num columns)) (put ''unit'' (sp_unit spec) fmempty)))
      else if sp_type spec = ''count'' then Inr (typed (put ''value'' (Some (rc_num columns)) fmempty))
      else if sp_type spec = ''boolean'' then
        Inr (typed (put ''value'' (Some (JBool (rc_text columns = text_of ''true''))) fmempty))
      else if sp_type spec = ''category'' then
        Inr (typed (put ''value'' (Some (rc_text columns)) (put ''vocabulary'' (sp_vocabulary spec) fmempty)))
      else if sp_type spec = ''money'' then Inr (typed (put ''amount'' (Some (rc_money columns)) fmempty))
      else Inl (TypeError ''a result of this type is always stored whole''))"

text \<open>A result as the registry's schemas admit it: it names its type; one of the property's own type has the value of that
  type, and states the unit or the vocabulary the registry implies or another.\<close>

definition fits :: "rec \<Rightarrow> result_spec \<Rightarrow> bool" where
  "fits result spec \<longleftrightarrow> (\<exists>t. field result ''type'' = Some (JString t)) \<and>
     (field result ''type'' = Some (text_of (sp_type spec)) \<longrightarrow>
        (sp_type spec = ''quantity'' \<longrightarrow> field result ''value'' \<noteq> None \<and> field result ''unit'' \<noteq> None)
      \<and> (sp_type spec = ''count'' \<longrightarrow> field result ''value'' \<noteq> None)
      \<and> (sp_type spec = ''boolean'' \<longrightarrow> (\<exists>b. field result ''value'' = Some (JBool b)))
      \<and> (sp_type spec = ''category'' \<longrightarrow> field result ''value'' \<noteq> None \<and> field result ''vocabulary'' \<noteq> None)
      \<and> (sp_type spec = ''money'' \<longrightarrow> field result ''amount'' \<noteq> None))"

lemma residue_nullish [simp]: "nullish (residue_of r) fmempty = r"
  by (simp add: residue_of_def)

lemma lookup_drop_implied: "fmlookup (drop_implied k implied r) x =
   (if field r k = implied \<and> x = u k then None else fmlookup r x)"
  by (simp add: drop_implied_def)

lemma string_bool [simp]: "string_value co (JBool b) = u (if b then ''true'' else ''false'')"
  by (cases b) (simp_all add: string_value_def)

lemma fmadd_rebuild:
  assumes "\<And>x. fmlookup rest x = None \<Longrightarrow> fmlookup members x = fmlookup r x"
    and "\<And>x v. fmlookup rest x = Some v \<Longrightarrow> fmlookup r x = Some v"
  shows "fmadd members rest = r"
proof (rule fmap_ext)
  fix x show "fmlookup (fmadd members rest) x = fmlookup r x"
    using assms [of x] by (cases "fmlookup rest x") (auto simp: fmdomI fmdom_notI)
qed

text \<open>A result survives its columns: what history stores of a result the schemas admit reads back as that result, whatever
  further members it has and whether or not it is of the property's own type.\<close>

lemma result_roundtrip:
  assumes "fits result spec"
  shows "decodeResult (encodeResult co result spec) spec = Inr result"
proof (cases "field result ''type'' = Some (text_of (sp_type spec)) \<and> sp_type spec \<in> set COLUMN_TYPES")
  case False
  then show ?thesis using assms by (auto simp: encodeResult_def decodeResult_def fits_def Let_def)
next
  case True
  then have type: "fmlookup result (u ''type'') = Some (text_of (sp_type spec))" by (simp add: field_def)
  have untyped: "field (drop_implied k implied (without ks (without [''type''] result))) ''type'' = None"
    "field (without ks (without [''type''] result)) ''type'' = None" for k implied ks
    by (simp_all add: field_def lookup_drop_implied)
  have kind: "sp_type spec = ''quantity'' \<or> sp_type spec = ''count'' \<or> sp_type spec = ''boolean'' \<or> sp_type spec = ''category''
      \<or> sp_type spec = ''money''" using True by (simp add: COLUMN_TYPES_def)
  have columns: "sp_type spec \<in> set COLUMN_TYPES" "field result ''type'' = Some (text_of (sp_type spec))" using True by blast+
  from kind show ?thesis
  proof (elim disjE)
    assume k: "sp_type spec = ''quantity''"
    obtain v w where "fmlookup result (u ''value'') = Some v" "fmlookup result (u ''unit'') = Some w"
      using assms columns(2) k by (auto simp: fits_def field_def)
    then have "fmadd (put ''type'' (Some (text_of ''quantity'')) (put ''value'' (Some v) (put ''unit'' (sp_unit spec) fmempty)))
        (drop_implied ''unit'' (sp_unit spec) (without [''value''] (without [''type''] result))) = result"
      using type k by (intro fmadd_rebuild) (auto simp: lookup_drop_implied field_def split: if_splits)
    then show ?thesis using columns k \<open>fmlookup result (u ''value'') = Some v\<close>
      by (simp add: encodeResult_def decodeResult_def Let_def untyped [unfolded field_def] value_of_field_def field_def)
  next
    assume k: "sp_type spec = ''count''"
    obtain v where v: "fmlookup result (u ''value'') = Some v" using assms columns(2) k by (auto simp: fits_def field_def)
    then have "fmadd (put ''type'' (Some (text_of ''count'')) (put ''value'' (Some v) fmempty)) (without [''value''] (without [''type''] result)) = result"
      using type k by (intro fmadd_rebuild) (auto split: if_splits)
    then show ?thesis using columns k v by (simp add: encodeResult_def decodeResult_def Let_def untyped [unfolded field_def] value_of_field_def field_def)
  next
    assume k: "sp_type spec = ''boolean''"
    obtain b where b: "fmlookup result (u ''value'') = Some (JBool b)" using assms columns(2) k by (auto simp: fits_def field_def)
    then have "fmadd (put ''type'' (Some (text_of ''boolean'')) (put ''value'' (Some (JBool b)) fmempty)) (without [''value''] (without [''type''] result)) = result"
      using type k by (intro fmadd_rebuild) (auto split: if_splits)
    moreover have "(JString (u (if b then ''true'' else ''false'')) = text_of ''true'') = b" by (simp add: text_of_def)
    ultimately show ?thesis using columns k b
      by (simp add: encodeResult_def decodeResult_def Let_def untyped [unfolded field_def] value_of_field_def field_def)
  next
    assume k: "sp_type spec = ''category''"
    obtain v w where v: "fmlookup result (u ''value'') = Some v" "fmlookup result (u ''vocabulary'') = Some w"
      using assms columns(2) k by (auto simp: fits_def field_def)
    then have "fmadd (put ''type'' (Some (text_of ''category'')) (put ''value'' (Some v) (put ''vocabulary'' (sp_vocabulary spec) fmempty)))
        (drop_implied ''vocabulary'' (sp_vocabulary spec) (without [''value''] (without [''type''] result))) = result"
      using type k by (intro fmadd_rebuild) (auto simp: lookup_drop_implied field_def split: if_splits)
    then show ?thesis using columns k v(1)
      by (simp add: encodeResult_def decodeResult_def Let_def untyped [unfolded field_def] value_of_field_def field_def)
  next
    assume k: "sp_type spec = ''money''"
    obtain v where v: "fmlookup result (u ''amount'') = Some v" using assms columns(2) k by (auto simp: fits_def field_def)
    then have "fmadd (put ''type'' (Some (text_of ''money'')) (put ''amount'' (Some v) fmempty)) (without [''amount''] (without [''type''] result)) = result"
      using type k by (intro fmadd_rebuild) (auto split: if_splits)
    then show ?thesis using columns k v by (simp add: encodeResult_def decodeResult_def Let_def untyped [unfolded field_def] value_of_field_def field_def)
  qed
qed

subsection \<open>A history row\<close>

record poll =
  po_fetchId :: "json option"
  po_payloadHashes :: "json list option"

text \<open>A timestamp column holds what was written there, or the Date the database hands back. A column that is null is \<open>None\<close>.
  \<open>hr_captured\<close> is the receipt the storage joins to the row.\<close>

datatype cell = Written json | Date int

record history_row =
  hr_phenomenon_start :: "cell option"
  hr_phenomenon_end :: "cell option"
  hr_issued_at :: json
  hr_result_time :: "cell option"
  hr_valid_until :: "cell option"
  hr_fetched_at :: "cell option"
  hr_recorded_at :: "cell option"
  hr_temporality :: "json option"
  hr_aggregation :: "json option"
  hr_columns :: result_columns
  hr_quality :: "json option"
  hr_baseline :: "json option"
  hr_fetch_id :: "json option"
  hr_raw_part :: "nat option"
  hr_extra :: "rec option"
  hr_captured :: "rec option"

definition non_null :: "json option \<Rightarrow> json option" where
  "non_null v = (if v = Some JNull then None else v)"

definition or_else :: "json option \<Rightarrow> json option \<Rightarrow> json option" where
  "or_else a b = (case non_null a of None \<Rightarrow> b | Some x \<Rightarrow> Some x)"

fun indexOf :: "json list \<Rightarrow> json \<Rightarrow> nat option" where
  "indexOf [] v = None"
| "indexOf (x # xs) v = (if x = v then Some 0 else map_option Suc (indexOf xs v))"

definition raw_part_of :: "poll \<Rightarrow> rec \<Rightarrow> nat option" where
  "raw_part_of poll provenance = (case field provenance ''rawRef'' of None \<Rightarrow> None
     | Some rawRef \<Rightarrow> (case (po_payloadHashes poll, field (obj (Some rawRef)) ''hash'') of
         (Some hashes, Some h) \<Rightarrow> indexOf hashes h | _ \<Rightarrow> None))"

definition extra_provenance :: "poll \<Rightarrow> rec \<Rightarrow> rec" where
  "extra_provenance poll provenance =
     (let rawRef = field provenance ''rawRef''; rawPart = raw_part_of poll provenance;
          credits = put ''mergedSources'' (field provenance ''mergedSources'')
            (put ''upstream'' (Some (nullish (non_null (field provenance ''upstream'')) (JArray [])))
              (put ''attribution'' (field provenance ''attribution'') fmempty));
          referred = (if rawRef \<noteq> None \<and> (rawPart = None \<or> field (obj rawRef) ''part'' \<noteq> None \<or> field (obj rawRef) ''pointer'' \<noteq> None)
            then put ''rawRef'' rawRef credits else credits)
      in fold (\<lambda>key r. if key \<noteq> ''rawRef'' then put key (field provenance key) r else r) (varyingProvenance provenance) referred)"

definition extra_of :: "poll \<Rightarrow> rec \<Rightarrow> rec" where
  "extra_of poll r =
     (let provenance = obj (field r ''provenance'');
          own = extra_provenance poll provenance;
          freshness = without [''fetchedAt''] (obj (field r ''freshness''));
          base = put ''freshness'' (if freshness = fmempty then None else Some (JObject freshness))
            (put ''provenance'' (if own = fmempty then None else Some (JObject own))
              (put ''forecast'' (non_null (field r ''forecast'')) fmempty))
      in fold (\<lambda>key e. put key (field r key) e) [''externalIds'', ''relations'', ''extras''] base)"

definition historyRowOf :: "codec \<Rightarrow> rec \<Rightarrow> result_spec \<Rightarrow> poll \<Rightarrow> history_row" where
  "historyRowOf co r spec poll =
     (let time = obj (field r ''phenomenonTime''); forecast = obj (field r ''forecast'');
          rawPart = raw_part_of poll (obj (field r ''provenance'')); extra = extra_of poll r
      in \<lparr>hr_phenomenon_start = map_option Written (or_else (field time ''instant'') (field time ''start'')),
          hr_phenomenon_end = map_option Written (non_null (field time ''end'')),
          hr_issued_at = nullish (non_null (field forecast ''issuedAt'')) (text_of ''-infinity''),
          hr_result_time = map_option Written (non_null (field r ''resultTime'')),
          hr_valid_until = map_option Written (non_null (field r ''validUntil'')),
          hr_fetched_at = map_option Written (field (obj (field r ''freshness'')) ''fetchedAt''),
          hr_recorded_at = map_option Written (field r ''recordedAt''),
          hr_temporality = field r ''temporality'',
          hr_aggregation = field r ''aggregation'',
          hr_columns = encodeResult co (obj (field r ''result'')) spec,
          hr_quality = non_null (field r ''quality''),
          hr_baseline = non_null (field r ''baseline''),
          hr_fetch_id = (if rawPart \<noteq> None then po_fetchId poll else None),
          hr_raw_part = (if po_fetchId poll \<noteq> None then rawPart else None),
          hr_extra = (if extra = fmempty then None else Some extra),
          hr_captured = None\<rparr>)"

text \<open>The storage interns a row's credits: the receipt holds them, the row its id.\<close>

definition receipt_provenance :: "rec \<Rightarrow> rec" where
  "receipt_provenance provenance =
     put ''mergedSources'' (field provenance ''mergedSources'')
       (put ''upstream'' (Some (nullish (non_null (field provenance ''upstream'')) (JArray [])))
         (put ''attribution'' (Some (nullish (non_null (field provenance ''attribution'')) (JObject fmempty)))
           (put ''sourceId'' (field provenance ''sourceId'') fmempty)))"

definition intern_credits :: "json \<Rightarrow> rec \<Rightarrow> history_row \<Rightarrow> history_row" where
  "intern_credits receiptId provenance row =
     (let extra = nullish (hr_extra row) fmempty;
          varying = without [''attribution'', ''upstream'', ''mergedSources''] (obj (field extra ''provenance''))
      in row\<lparr>hr_extra := Some (put ''provenance'' (Some (JObject (put ''creditReceiptId'' (Some receiptId) varying))) extra),
             hr_captured := Some (receipt_provenance provenance)\<rparr>)"

subsection \<open>The record of a history row\<close>

text \<open>\<open>toISOString\<close>: years of four digits as they are, others with a sign and six digits.\<close>

definition iso_date :: "int \<Rightarrow> string" where
  "iso_date t =
     (let y = year_of (t div day_ms) in
      if 0 \<le> y \<and> y \<le> 9999 then iso_string t
      else (if y < 0 then CHR ''-'' else CHR ''+'') # pad 6 (nat \<bar>y\<bar>) @ drop 4 (iso_string t))"

definition iso :: "cell \<Rightarrow> json" where
  "iso c = (case c of Date t \<Rightarrow> JString (u (iso_date t)) | Written v \<Rightarrow> v)"

definition assign :: "string \<Rightarrow> json option \<Rightarrow> rec \<Rightarrow> rec" where
  "assign k v r = (case v of None \<Rightarrow> fmdrop (u k) r | Some x \<Rightarrow> fmupd (u k) x r)"

definition nonempty_array :: "json option \<Rightarrow> bool" where
  "nonempty_array v = (case v of Some (JArray (_ # _)) \<Rightarrow> True | _ \<Rightarrow> False)"

definition unknown_publisher :: json where
  "unknown_publisher = JObject (put ''provider'' (Some (text_of ''Unknown publisher''))
     (put ''license'' (Some (text_of ''NOASSERTION'')) fmempty))"

definition history_provenance :: "rec \<Rightarrow> history_row \<Rightarrow> json list \<Rightarrow> rec" where
  "history_provenance template row payloadHashes =
     (let own = obj (field (nullish (hr_extra row) fmempty) ''provenance'');
          shared = without [''attribution'', ''upstream'', ''mergedSources''] (obj (field template ''provenance''));
          captured = (case hr_captured row of Some receipt \<Rightarrow> Some receipt
                      | None \<Rightarrow> if field own ''attribution'' \<noteq> None then Some own else None);
          credit = nullish captured fmempty;
          p0 = put ''attribution'' (Some (nullish (non_null (field credit ''attribution'')) unknown_publisher)) (fmadd shared own);
          p1 = put ''upstream'' (if nonempty_array (field credit ''upstream'') then field credit ''upstream'' else None) p0;
          p2 = without [''creditReceiptId''] (put ''mergedSources'' (field credit ''mergedSources'') p1);
          p3 = (if field p2 ''upstream'' = Some (JArray []) then without [''upstream''] p2 else p2)
      in case hr_raw_part row of None \<Rightarrow> p3
         | Some n \<Rightarrow> if field p3 ''rawRef'' \<noteq> None then p3
             else put ''rawRef'' (Some (JObject (put ''hash'' (if n < length payloadHashes then Some (payloadHashes ! n) else None) fmempty))) p3)"

definition phenomenon_time :: "history_row \<Rightarrow> rec" where
  "phenomenon_time row = (case hr_phenomenon_end row of
     None \<Rightarrow> put ''instant'' (map_option iso (hr_phenomenon_start row)) fmempty
   | Some e \<Rightarrow> put ''end'' (Some (iso e)) (put ''start'' (map_option iso (hr_phenomenon_start row)) fmempty))"

definition history_content :: "rec \<Rightarrow> history_row \<Rightarrow> rec \<Rightarrow> json list \<Rightarrow> rec" where
  "history_content template row result payloadHashes =
     (let extra = nullish (hr_extra row) fmempty in
      put ''recordedAt'' (map_option iso (hr_recorded_at row))
     (put ''revision'' (Some (JNumber 1))
     (put ''freshness'' (Some (JObject (fmadd (put ''fetchedAt'' (map_option iso (hr_fetched_at row)) fmempty) (obj (field extra ''freshness'')))))
     (put ''provenance'' (Some (JObject (history_provenance template row payloadHashes)))
     (put ''extras'' (field extra ''extras'')
     (put ''relations'' (field extra ''relations'')
     (put ''externalIds'' (field extra ''externalIds'')
     (put ''forecast'' (field extra ''forecast'')
     (put ''baseline'' (hr_baseline row)
     (put ''quality'' (hr_quality row)
     (put ''result'' (Some (JObject result))
     (assign ''aggregation'' (hr_aggregation row)
     (put ''validUntil'' (map_option iso (hr_valid_until row))
     (put ''resultTime'' (map_option iso (hr_result_time row))
     (put ''phenomenonTime'' (Some (JObject (phenomenon_time row)))
     (assign ''temporality'' (hr_temporality row) template))))))))))))))))"

definition seal_history :: "codec \<Rightarrow> code_points \<Rightarrow> rec \<Rightarrow> js_error + rec" where
  "seal_history co ns r =
     (let i = co_observationId co ns r in
      case parseRecordId i of None \<Rightarrow> Inl (TypeError ''Cannot read properties of null'')
      | Some parts \<Rightarrow>
          let r1 = put ''canonicalId'' (Some (JString (co_canonicalIdOf co ns (id_local parts)))) (put ''id'' (Some (JString i)) r)
          in Inr (put ''contentHash'' (Some (JString (co_contentHash co r1))) r1))"

definition recordFromHistory ::
  "codec \<Rightarrow> (json option \<Rightarrow> result_spec option) \<Rightarrow> rec \<Rightarrow> history_row \<Rightarrow> json list \<Rightarrow> js_error + rec" where
  "recordFromHistory co property series row payloadHashes =
     (let template = without [''namespace''] series in
      case property (field template ''property'') of None \<Rightarrow> Inl (TypeError ''unregistered property'')
      | Some spec \<Rightarrow>
         bindE (decodeResult (hr_columns row) spec) (\<lambda>result.
           (case field series ''namespace'' of
              Some (JString ns) \<Rightarrow> seal_history co ns (history_content template row result payloadHashes)
            | _ \<Rightarrow> Inl (TypeError ''namespace is undefined''))))"

subsection \<open>What history keeps\<close>

text \<open>A reading as the schemas admit it into history, written by a poll that has an id when it has payloads.\<close>

definition HISTORY_FIELDS :: "string list" where
  "HISTORY_FIELDS = TEMPLATE_KEYS @ [''id'', ''canonicalId'', ''contentHash'', ''provenance'', ''phenomenonTime'', ''resultTime'',
     ''validUntil'', ''result'', ''quality'', ''baseline'', ''forecast'', ''externalIds'', ''relations'', ''extras'',
     ''freshness'', ''recordedAt'']"

definition raw_ref_ok :: "rec \<Rightarrow> bool" where
  "raw_ref_ok p \<longleftrightarrow> (case field p ''rawRef'' of None \<Rightarrow> True
     | Some ref \<Rightarrow> (\<exists>m h. ref = JObject m \<and> field m ''hash'' = Some h \<and> without [''hash'', ''part'', ''pointer''] m = fmempty))"

definition time_ok :: "json option \<Rightarrow> bool" where
  "time_ok v \<longleftrightarrow> (\<exists>s. s \<noteq> JNull \<and> (v = Some (JObject (put ''instant'' (Some s) fmempty))
     \<or> (\<exists>e. e \<noteq> JNull \<and> v = Some (JObject (put ''end'' (Some e) (put ''start'' (Some s) fmempty))))))"

definition credits_ok :: "rec \<Rightarrow> bool" where
  "credits_ok p \<longleftrightarrow> non_null (field p ''attribution'') \<noteq> None \<and> field p ''creditReceiptId'' = None
     \<and> (field p ''upstream'' = None \<or> nonempty_array (field p ''upstream''))"

definition historic :: "rec \<Rightarrow> rec \<Rightarrow> poll \<Rightarrow> bool" where
  "historic r p poll \<longleftrightarrow> without HISTORY_FIELDS r = fmempty \<and> field r ''provenance'' = Some (JObject p)
     \<and> field r ''revision'' = Some (JNumber 1) \<and> time_ok (field r ''phenomenonTime'')
     \<and> list_all (\<lambda>k. field r k \<noteq> Some JNull) [''resultTime'', ''validUntil'', ''quality'', ''baseline'', ''forecast'']
     \<and> (\<exists>f. field r ''freshness'' = Some (JObject f) \<and> field f ''fetchedAt'' \<noteq> None)
     \<and> credits_ok p \<and> raw_ref_ok p \<and> (po_payloadHashes poll \<noteq> None \<longrightarrow> po_fetchId poll \<noteq> None)"

definition kept_ref :: "poll \<Rightarrow> rec \<Rightarrow> bool" where
  "kept_ref poll p \<longleftrightarrow> field p ''rawRef'' \<noteq> None \<and> (raw_part_of poll p = None
     \<or> field (obj (field p ''rawRef'')) ''part'' \<noteq> None \<or> field (obj (field p ''rawRef'')) ''pointer'' \<noteq> None)"

lemma lookup_fmadd: "fmlookup (fmadd m n) x = (case fmlookup n x of None \<Rightarrow> fmlookup m x | Some v \<Rightarrow> Some v)"
  by (auto simp: fmdom_notI fmdomI split: option.splits)

declare fmlookup_add [simp del] lookup_fmadd [simp]

lemma field_fmadd: "field (fmadd m n) k = (case field n k of None \<Rightarrow> field m k | Some v \<Rightarrow> Some v)"
  by (simp only: field_def lookup_fmadd)

lemma rec_eqI: "(\<And>x. fmlookup m x = fmlookup n x) \<Longrightarrow> m = n"
  by (rule fmap_ext)

lemma fold_put: "fmlookup (fold (\<lambda>key r. if key \<noteq> c then put key (field p key) r else r) ks m) x =
   (if x \<in> u ` (set ks - {c}) \<and> fmlookup p x \<noteq> None then fmlookup p x else fmlookup m x)"
  by (induction ks arbitrary: m) (auto simp: field_def)

lemma varying_names: "k \<in> set (varyingProvenance p) \<Longrightarrow> k \<in> {''rawRef'', ''sourceUpdatedAt'', ''recordVersion'', ''reporter'', ''recordId''}"
  by (auto simp: varyingProvenance_def VARYING_PROVENANCE_def CROWD_VARYING_PROVENANCE_def split: if_splits)

lemma extra_provenance_lookup:
  "fmlookup (extra_provenance poll p) x =
    (if x = u ''attribution'' \<or> x = u ''mergedSources'' then fmlookup p x
     else if x = u ''upstream'' then Some (nullish (non_null (field p ''upstream'')) (JArray []))
     else if x = u ''rawRef'' then (if kept_ref poll p then fmlookup p x else None)
     else if x \<in> u ` set (varyingProvenance p) then fmlookup p x else None)"
proof -
  let ?credits = "put ''mergedSources'' (field p ''mergedSources'') (put ''upstream'' (Some (nullish (non_null (field p ''upstream'')) (JArray [])))
    (put ''attribution'' (field p ''attribution'') fmempty))"
  let ?referred = "if kept_ref poll p then put ''rawRef'' (field p ''rawRef'') ?credits else ?credits"
  have run: "extra_provenance poll p = fold (\<lambda>key r. if key \<noteq> ''rawRef'' then put key (field p key) r else r) (varyingProvenance p) ?referred"
    by (simp add: extra_provenance_def Let_def kept_ref_def)
  have apart: "u ''attribution'' \<notin> u ` set (varyingProvenance p)" "u ''upstream'' \<notin> u ` set (varyingProvenance p)"
    "u ''mergedSources'' \<notin> u ` set (varyingProvenance p)" using varying_names [of _ p] by (simp_all only: u_mem) blast+
  have set: "x \<in> u ` (set (varyingProvenance p) - {''rawRef''}) \<longleftrightarrow> x \<in> u ` set (varyingProvenance p) \<and> x \<noteq> u ''rawRef''" by auto
  show ?thesis unfolding run fold_put set
    using apart by (cases "kept_ref poll p"; cases "fmlookup p x"; cases "x = u ''rawRef''") (auto simp: field_def kept_ref_def)
qed

lemma raw_varying: "''rawRef'' \<in> set (varyingProvenance p)"
  by (simp add: varyingProvenance_def VARYING_PROVENANCE_def)

lemma indexOf_nth: "indexOf xs v = Some n \<Longrightarrow> n < length xs \<and> xs ! n = v"
  by (induction xs arbitrary: n) (auto split: if_splits)

lemma raw_part_hash:
  assumes "raw_part_of poll p = Some n" and "raw_ref_ok p" and "\<not> kept_ref poll p"
  shows "\<exists>hashes. po_payloadHashes poll = Some hashes \<and> n < length hashes
    \<and> field p ''rawRef'' = Some (JObject (put ''hash'' (Some (hashes ! n)) fmempty))"
proof -
  obtain m hashes h where h: "field p ''rawRef'' = Some (JObject m)" "po_payloadHashes poll = Some hashes"
    "field m ''hash'' = Some h" "indexOf hashes h = Some n" "without [''hash'', ''part'', ''pointer''] m = fmempty"
    using assms(1,2) by (auto simp: raw_part_of_def raw_ref_ok_def split: option.splits)
  have bare: "field m ''part'' = None" "field m ''pointer'' = None" using assms(3) h(1) by (auto simp: kept_ref_def)
  have "m = put ''hash'' (Some h) fmempty"
  proof (rule rec_eqI)
    fix x
    have "fmlookup (without [''hash'', ''part'', ''pointer''] m) x = None" unfolding h(5) by simp
    then show "fmlookup m x = fmlookup (put ''hash'' (Some h) fmempty) x"
      using h(3) bare by (auto simp: field_def split: if_splits)
  qed
  then show ?thesis using indexOf_nth [OF h(4)] h(1,2) by simp
qed

text \<open>The provenance is rebuilt from what the row holds and the template shares, whether the credits are in the row or in
  its receipt.\<close>

lemma provenance_rebuilt:
  assumes credits: "credits_ok p" and ref: "raw_ref_ok p"
    and own: "\<And>x. x \<notin> u ` {''attribution'', ''upstream'', ''mergedSources'', ''creditReceiptId''} \<Longrightarrow>
        fmlookup own x = fmlookup (extra_provenance poll p) x"
      "fmlookup own (u ''upstream'') = None \<or> fmlookup own (u ''upstream'') = fmlookup (extra_provenance poll p) (u ''upstream'')"
      "fmlookup own (u ''mergedSources'') = None \<or> fmlookup own (u ''mergedSources'') = fmlookup p (u ''mergedSources'')"
      "(hr_captured row = None \<and> own = extra_provenance poll p) \<or> hr_captured row = Some (receipt_provenance p)"
    and row: "obj (field (nullish (hr_extra row) fmempty) ''provenance'') = own" "hr_raw_part row = raw_part_of poll p"
    and hashes: "\<And>hs. po_payloadHashes poll = Some hs \<Longrightarrow> payloadHashes = hs"
    and template: "obj (field template ''provenance'') = without (varyingProvenance p) p"
  shows "history_provenance template row payloadHashes = p"
proof -
  let ?captured = "case hr_captured row of Some receipt \<Rightarrow> Some receipt
    | None \<Rightarrow> if field own ''attribution'' \<noteq> None then Some own else None"
  define credit where "credit = nullish ?captured fmempty"
  obtain a where a: "fmlookup p (u ''attribution'') = Some a" "a \<noteq> JNull"
    using credits by (auto simp: credits_ok_def non_null_def field_def split: if_splits)
  have up: "fmlookup p (u ''upstream'') = None \<or> nonempty_array (fmlookup p (u ''upstream''))"
    and receipt: "fmlookup p (u ''creditReceiptId'') = None" using credits by (auto simp: credits_ok_def field_def)
  have nn: "non_null (fmlookup p (u ''upstream'')) = fmlookup p (u ''upstream'')"
    using up by (auto simp: non_null_def nonempty_array_def)
  have c: "fmlookup credit (u ''attribution'') = Some a" "fmlookup credit (u ''mergedSources'') = fmlookup p (u ''mergedSources'')"
    "fmlookup credit (u ''upstream'') = Some (nullish (fmlookup p (u ''upstream'')) (JArray []))"
    using own(4) a nn by (auto simp: credit_def extra_provenance_lookup receipt_provenance_def field_def non_null_def)
  let ?p0 = "put ''attribution'' (Some a) (fmadd (without [''attribution'', ''upstream'', ''mergedSources''] (without (varyingProvenance p) p)) own)"
  let ?p1 = "put ''upstream'' (if nonempty_array (fmlookup credit (u ''upstream'')) then fmlookup credit (u ''upstream'') else None) ?p0"
  let ?p2 = "without [''creditReceiptId''] (put ''mergedSources'' (fmlookup p (u ''mergedSources'')) ?p1)"
  define q where "q = ?p2"
  have p2: "fmlookup ?p2 x = (if x = u ''upstream'' then
        (if fmlookup p x = None then (if fmlookup own x = None then None else Some (JArray [])) else fmlookup p x)
      else if x = u ''rawRef'' then (if kept_ref poll p then fmlookup p x else None) else fmlookup p x)" for x
  proof -
    have vary: "u ''attribution'' \<notin> u ` set (varyingProvenance p)" "u ''upstream'' \<notin> u ` set (varyingProvenance p)"
      "u ''mergedSources'' \<notin> u ` set (varyingProvenance p)" "u ''creditReceiptId'' \<notin> u ` set (varyingProvenance p)"
      using varying_names [of _ p] by (simp_all only: u_mem) blast+
    consider "x = u ''attribution''" | "x = u ''upstream''" | "x = u ''mergedSources''" | "x = u ''creditReceiptId''"
      | "x = u ''rawRef''" | "x \<notin> u ` {''attribution'', ''upstream'', ''mergedSources'', ''creditReceiptId''}" "x \<noteq> u ''rawRef''" by blast
    then show ?thesis
    proof cases
      case 1
      then show ?thesis using a by simp
    next
      case 2
      have E: "fmlookup (extra_provenance poll p) (u ''upstream'') = Some (nullish (fmlookup p (u ''upstream'')) (JArray []))"
        by (simp add: extra_provenance_lookup nn field_def)
      show ?thesis
      proof (cases "fmlookup p (u ''upstream'')")
        case None
        then show ?thesis using 2 own(2) E c(3) by (auto simp: lookup_fmadd nonempty_array_def)
      next
        case (Some v)
        then show ?thesis using 2 up c(3) by simp
      qed
    next
      case 3
      then show ?thesis using own(3) vary(3) by (cases "fmlookup p (u ''mergedSources'')") (auto simp: lookup_fmadd)
    next
      case 4
      then show ?thesis using receipt by simp
    next
      case 5
      then show ?thesis using own(1) [of x] raw_varying [of p]
        by (cases "kept_ref poll p"; cases "fmlookup p x") (simp_all add: lookup_fmadd extra_provenance_lookup)
    next
      case 6
      have "fmlookup own x = (if x \<in> u ` set (varyingProvenance p) then fmlookup p x else None)"
        using own(1) [OF 6(1)] 6 by (simp add: extra_provenance_lookup)
      then show ?thesis using 6 by (cases "fmlookup p x"; cases "x \<in> u ` set (varyingProvenance p)") (simp_all add: lookup_fmadd)
    qed
  qed
  note q = p2 [folded q_def]
  let ?p3 = "if field q ''upstream'' = Some (JArray []) then without [''upstream''] q else q"
  have p3: "fmlookup ?p3 x = (if x = u ''rawRef'' then (if kept_ref poll p then fmlookup p x else None) else fmlookup p x)" for x
  proof (cases "fmlookup p (u ''upstream'')")
    case None
    then show ?thesis using q [of x] q [of "u ''upstream''"]
      by (cases "x = u ''upstream''"; cases "x = u ''rawRef''") (simp_all add: field_def)
  next
    case (Some v)
    then have "field q ''upstream'' \<noteq> Some (JArray [])"
      using up q [of "u ''upstream''"] by (auto simp: field_def nonempty_array_def)
    then show ?thesis using Some q [of x] by simp
  qed
  have run: "history_provenance template row payloadHashes = (case hr_raw_part row of None \<Rightarrow> ?p3
      | Some n \<Rightarrow> if field ?p3 ''rawRef'' \<noteq> None then ?p3
         else put ''rawRef'' (Some (JObject (put ''hash'' (if n < length payloadHashes then Some (payloadHashes ! n) else None) fmempty))) ?p3)"
  proof -
    have "nullish (non_null (field credit ''attribution'')) unknown_publisher = a" using c(1) a(2) by (simp add: field_def non_null_def)
    moreover have "field credit ''upstream'' = fmlookup credit (u ''upstream'')" "field credit ''mergedSources'' = fmlookup p (u ''mergedSources'')"
      using c(2) by (simp_all add: field_def)
    ultimately show ?thesis
      unfolding history_provenance_def Let_def row(1) template credit_def [symmetric] q_def by (simp only:)
  qed
  show ?thesis
  proof (cases "fmlookup p (u ''rawRef'') = None \<or> kept_ref poll p")
    case True
    have "?p3 = p" using True by (intro rec_eqI) (auto simp: p3 simp del: lookup_without)
    moreover have "hr_raw_part row = None" if "fmlookup p (u ''rawRef'') = None" using that row(2) by (simp add: raw_part_of_def field_def)
    ultimately show ?thesis using True run by (auto simp: field_def kept_ref_def split: option.splits)
  next
    case False
    then have "raw_part_of poll p \<noteq> None" by (auto simp: kept_ref_def field_def)
    then obtain n where n: "raw_part_of poll p = Some n" by blast
    from raw_part_hash [OF n ref] False obtain hs where hs: "po_payloadHashes poll = Some hs" "n < length hs"
      "fmlookup p (u ''rawRef'') = Some (JObject (put ''hash'' (Some (hs ! n)) fmempty))" by (auto simp: field_def)
    have "field ?p3 ''rawRef'' = None" using p3 [of "u ''rawRef''"] False by (simp add: field_def)
    moreover have "put ''rawRef'' (Some (JObject (put ''hash'' (Some (hs ! n)) fmempty))) ?p3 = p"
      using hs(3) False by (intro rec_eqI) (simp add: p3 del: lookup_without)
    ultimately show ?thesis using run n row(2) hashes [OF hs(1)] hs(2) by simp
  qed
qed

lemma template_plain:
  assumes "fusionRecordIds co r = None" and "field r ''provenance'' = Some (JObject p)"
  shows "obj (field (without [''namespace''] (templateOf co r)) ''provenance'') = without (varyingProvenance p) p"
  using assms by (simp add: template_fields template_provenance_def Let_def)

lemma time_rebuilt:
  assumes "time_ok (field r ''phenomenonTime'')"
  shows "Some (JObject (phenomenon_time (historyRowOf co r spec poll))) = field r ''phenomenonTime''"
proof -
  have columns: "hr_phenomenon_start (historyRowOf co r spec poll)
      = map_option Written (or_else (field (obj (field r ''phenomenonTime'')) ''instant'') (field (obj (field r ''phenomenonTime'')) ''start''))"
    "hr_phenomenon_end (historyRowOf co r spec poll) = map_option Written (non_null (field (obj (field r ''phenomenonTime'')) ''end''))"
    by (simp_all add: historyRowOf_def Let_def)
  have empty: "field fmempty k = None" for k by (simp add: field_def)
  from assms obtain s where s: "s \<noteq> JNull" "field r ''phenomenonTime'' = Some (JObject (put ''instant'' (Some s) fmempty))
     \<or> (\<exists>e. e \<noteq> JNull \<and> field r ''phenomenonTime'' = Some (JObject (put ''end'' (Some e) (put ''start'' (Some s) fmempty))))"
    by (auto simp: time_ok_def)
  from s(2) show ?thesis
  proof (elim disjE exE conjE)
    assume "field r ''phenomenonTime'' = Some (JObject (put ''instant'' (Some s) fmempty))"
    then show ?thesis using s(1) by (simp add: phenomenon_time_def columns or_else_def non_null_def empty iso_def)
  next
    fix e assume "e \<noteq> JNull" "field r ''phenomenonTime'' = Some (JObject (put ''end'' (Some e) (put ''start'' (Some s) fmempty)))"
    then show ?thesis using s(1) by (simp add: phenomenon_time_def columns or_else_def non_null_def empty iso_def)
  qed
qed

lemma field_empty [simp]: "field fmempty k = None"
  by (simp add: field_def)

lemma extra_fields:
  "field (extra_of poll r) ''forecast'' = non_null (field r ''forecast'')"
  "field (extra_of poll r) ''externalIds'' = field r ''externalIds''"
  "field (extra_of poll r) ''relations'' = field r ''relations''"
  "field (extra_of poll r) ''extras'' = field r ''extras''"
  "obj (field (extra_of poll r) ''freshness'') = without [''fetchedAt''] (obj (field r ''freshness''))"
  "field (extra_of poll r) ''provenance'' = Some (JObject (extra_provenance poll (obj (field r ''provenance''))))"
proof -
  have "fmlookup (extra_provenance poll p) (u ''upstream'') \<noteq> None" for p by (simp add: extra_provenance_lookup)
  then have "extra_provenance poll p \<noteq> fmempty" for p by (metis fmempty_lookup)
  then show "field (extra_of poll r) ''provenance'' = Some (JObject (extra_provenance poll (obj (field r ''provenance''))))"
    by (simp add: extra_of_def Let_def)
qed (simp_all add: extra_of_def Let_def)

lemma lookup_assign: "fmlookup (assign k v r) x = (if x = u k then v else fmlookup r x)"
  by (cases v) (auto simp: assign_def)

lemma content_lookup: "fmlookup (history_content template row result hs) x =
  (let extra = nullish (hr_extra row) fmempty;
       over = (\<lambda>k v rest. if v \<noteq> None \<and> x = u k then v else rest) in
   over ''recordedAt'' (map_option iso (hr_recorded_at row)) (over ''revision'' (Some (JNumber 1))
   (over ''freshness'' (Some (JObject (fmadd (put ''fetchedAt'' (map_option iso (hr_fetched_at row)) fmempty) (obj (field extra ''freshness'')))))
   (over ''provenance'' (Some (JObject (history_provenance template row hs))) (over ''extras'' (field extra ''extras'')
   (over ''relations'' (field extra ''relations'') (over ''externalIds'' (field extra ''externalIds'')
   (over ''forecast'' (field extra ''forecast'') (over ''baseline'' (hr_baseline row) (over ''quality'' (hr_quality row)
   (over ''result'' (Some (JObject result)) (if x = u ''aggregation'' then hr_aggregation row else
   (over ''validUntil'' (map_option iso (hr_valid_until row)) (over ''resultTime'' (map_option iso (hr_result_time row))
   (over ''phenomenonTime'' (Some (JObject (phenomenon_time row))) (if x = u ''temporality'' then hr_temporality row else
     fmlookup template x))))))))))))))))"
  by (simp only: history_content_def Let_def lookup_put lookup_assign)

lemma content_field: "field (history_content template row result hs) k =
  (let extra = nullish (hr_extra row) fmempty;
       over = (\<lambda>key v rest. if v \<noteq> None \<and> k = key then v else rest) in
   over ''recordedAt'' (map_option iso (hr_recorded_at row)) (over ''revision'' (Some (JNumber 1))
   (over ''freshness'' (Some (JObject (fmadd (put ''fetchedAt'' (map_option iso (hr_fetched_at row)) fmempty) (obj (field extra ''freshness'')))))
   (over ''provenance'' (Some (JObject (history_provenance template row hs))) (over ''extras'' (field extra ''extras'')
   (over ''relations'' (field extra ''relations'') (over ''externalIds'' (field extra ''externalIds'')
   (over ''forecast'' (field extra ''forecast'') (over ''baseline'' (hr_baseline row) (over ''quality'' (hr_quality row)
   (over ''result'' (Some (JObject result)) (if k = ''aggregation'' then hr_aggregation row else
   (over ''validUntil'' (map_option iso (hr_valid_until row)) (over ''resultTime'' (map_option iso (hr_result_time row))
   (over ''phenomenonTime'' (Some (JObject (phenomenon_time row))) (if k = ''temporality'' then hr_temporality row else
     field template k))))))))))))))))"
  unfolding field_def [of "history_content template row result hs"] field_def [of template] content_lookup Let_def u_eq by (rule refl)

lemma row_extra: "hr_extra (historyRowOf co r spec poll) = Some (extra_of poll r)"
proof -
  have "extra_of poll r \<noteq> fmempty" using extra_fields(6) [of poll r] by auto
  then show ?thesis by (simp add: historyRowOf_def Let_def)
qed

text \<open>Both forms of a row agree on all but the credits.\<close>

definition written_rows :: "codec \<Rightarrow> rec \<Rightarrow> rec \<Rightarrow> result_spec \<Rightarrow> poll \<Rightarrow> history_row set" where
  "written_rows co r p spec poll = insert (historyRowOf co r spec poll) (range (\<lambda>i. intern_credits i p (historyRowOf co r spec poll)))"

lemma written_row:
  assumes "row \<in> written_rows co r p spec poll"
  shows "hr_phenomenon_start row = hr_phenomenon_start (historyRowOf co r spec poll)"
    "hr_phenomenon_end row = hr_phenomenon_end (historyRowOf co r spec poll)"
    "hr_columns row = encodeResult co (obj (field r ''result'')) spec" "hr_raw_part row = (if po_fetchId poll \<noteq> None then raw_part_of poll (obj (field r ''provenance'')) else None)"
    "hr_result_time row = map_option Written (non_null (field r ''resultTime''))"
    "hr_valid_until row = map_option Written (non_null (field r ''validUntil''))"
    "hr_fetched_at row = map_option Written (field (obj (field r ''freshness'')) ''fetchedAt'')"
    "hr_recorded_at row = map_option Written (field r ''recordedAt'')"
    "hr_temporality row = field r ''temporality''" "hr_aggregation row = field r ''aggregation''"
    "hr_quality row = non_null (field r ''quality'')" "hr_baseline row = non_null (field r ''baseline'')"
    "k \<in> {''forecast'', ''externalIds'', ''relations'', ''extras'', ''freshness''} \<Longrightarrow>
      field (nullish (hr_extra row) fmempty) k = field (extra_of poll r) k"
  using assms by (auto simp: written_rows_def intern_credits_def historyRowOf_def Let_def row_extra [unfolded historyRowOf_def Let_def])

lemma written_provenance:
  assumes "row \<in> written_rows co r p spec poll" and "historic r p poll" and "fusionRecordIds co r = None"
    and "\<And>hs. po_payloadHashes poll = Some hs \<Longrightarrow> payloadHashes = hs"
  shows "history_provenance (without [''namespace''] (templateOf co r)) row payloadHashes = p"
proof -
  have p: "field r ''provenance'' = Some (JObject p)" "credits_ok p" "raw_ref_ok p"
    and poll: "po_payloadHashes poll \<noteq> None \<longrightarrow> po_fetchId poll \<noteq> None" using assms(2) by (auto simp: historic_def)
  have part: "hr_raw_part row = raw_part_of poll p"
    using written_row(4) [OF assms(1)] poll p(1) by (auto simp: raw_part_of_def split: option.splits)
  let ?E = "extra_provenance poll p"
  let ?own = "obj (field (nullish (hr_extra row) fmempty) ''provenance'')"
  have extra: "obj (field (extra_of poll r) ''provenance'') = ?E" by (simp add: extra_fields p(1))
  from assms(1) consider "row = historyRowOf co r spec poll" | i where "row = intern_credits i p (historyRowOf co r spec poll)"
    by (auto simp: written_rows_def)
  then show ?thesis
  proof cases
    case 1
    then have own: "?own = ?E" "hr_captured row = None" using extra row_extra [of co r spec poll] by (simp_all add: historyRowOf_def Let_def)
    show ?thesis
      by (rule provenance_rebuilt [where own = "?E", OF p(2,3) _ _ _ _ _ part assms(4) template_plain [OF assms(3) p(1)]])
        (use own in \<open>simp_all add: extra_provenance_lookup\<close>)
  next
    case 2
    then have own: "?own = put ''creditReceiptId'' (Some i) (without [''attribution'', ''upstream'', ''mergedSources''] ?E)"
      "hr_captured row = Some (receipt_provenance p)" using extra by (simp_all add: intern_credits_def Let_def row_extra)
    show ?thesis
      by (rule provenance_rebuilt [where own = "?own", OF p(2,3) _ _ _ _ _ part assms(4) template_plain [OF assms(3) p(1)]])
        (use own in auto)
  qed
qed

text \<open>As written, a row reads back as the reading, text for text.\<close>

lemma iso_Written [simp]: "iso (Written v) = v"
  by (simp add: iso_def)

lemma map_iso_Written [simp]: "map_option iso (map_option Written v) = v"
  by (cases v) simp_all

lemma written_rebuilt:
  assumes "row \<in> written_rows co r p spec poll" and "historic r p poll" and "fusionRecordIds co r = None"
    and "parsed_id r = Some i" and "property (field r ''property'') = Some spec"
    and "field r ''result'' = Some (JObject result)" and "fits result spec"
    and "\<And>hs. po_payloadHashes poll = Some hs \<Longrightarrow> payloadHashes = hs"
  shows "recordFromHistory co property (templateOf co r) row payloadHashes
    = seal_history co (id_namespace i) (without [''id'', ''canonicalId'', ''contentHash''] r)"
proof -
  let ?template = "without [''namespace''] (templateOf co r)"
  note row = written_row [OF assms(1)]
  have h: "without HISTORY_FIELDS r = fmempty" "field r ''provenance'' = Some (JObject p)" "field r ''revision'' = Some (JNumber 1)"
    "time_ok (field r ''phenomenonTime'')"
    "list_all (\<lambda>k. field r k \<noteq> Some JNull) [''resultTime'', ''validUntil'', ''quality'', ''baseline'', ''forecast'']"
    using assms(2) by (simp_all add: historic_def)
  obtain f t where f: "field r ''freshness'' = Some (JObject f)" "field f ''fetchedAt'' = Some t" using assms(2) by (auto simp: historic_def)
  have time: "Some (JObject (phenomenon_time row)) = field r ''phenomenonTime''"
    using time_rebuilt [OF h(4), of co spec poll] unfolding phenomenon_time_def row(1,2) .
  have fresh: "fmadd (put ''fetchedAt'' (map_option iso (hr_fetched_at row)) fmempty) (obj (field (nullish (hr_extra row) fmempty) ''freshness'')) = f"
  proof -
    have "obj (field (nullish (hr_extra row) fmempty) ''freshness'') = without [''fetchedAt''] f"
      using f(1) by (simp add: row(13) extra_fields)
    moreover have "map_option iso (hr_fetched_at row) = Some t" using f by (simp add: row(7))
    ultimately show ?thesis using f(2) by (intro rec_eqI) (auto simp: field_def split: option.splits)
  qed
  have result: "decodeResult (hr_columns row) spec = Inr result"
    using result_roundtrip [OF assms(7)] assms(6) by (simp add: row(3))
  have known: "fmlookup r x = None" if "x \<notin> u ` set HISTORY_FIELDS" for x
    using h(1) that by (metis fmempty_lookup lookup_without)
  have "history_content ?template row result payloadHashes = without [''id'', ''canonicalId'', ''contentHash''] r"
  proof (rule rec_eqI)
    fix x
    have nn: "non_null (field r k) = field r k" if "k \<in> {''resultTime'', ''validUntil'', ''quality'', ''baseline'', ''forecast''}" for k
      using h(5) that by (auto simp: non_null_def)
    have tmpl: "field (templateOf co r) k = field r k" if "k \<in> set TEMPLATE_KEYS" for k
    proof -
      have "k \<noteq> ''namespace'' \<and> k \<noteq> ''provenance''" using that by (auto simp: TEMPLATE_KEYS_def)
      then show ?thesis using that by (simp add: templateOf_def template_keys_set)
    qed
    have untemplated: "field (templateOf co r) k = None" if "k \<notin> set (''namespace'' # ''provenance'' # TEMPLATE_KEYS)" for k
      using that by (simp add: templateOf_def template_keys_set)
    have prov: "history_provenance ?template row payloadHashes = p"
      by (rule written_provenance [OF assms(1,2,3)]) (rule assms(8))
    let ?C = "history_content ?template row result payloadHashes"
    have every:
      "field ?C ''class'' = field r ''class''" "field ?C ''kind'' = field r ''kind''" "field ?C ''property'' = field r ''property''"
      "field ?C ''domain'' = field r ''domain''" "field ?C ''subject'' = field r ''subject''" "field ?C ''qualifiers'' = field r ''qualifiers''"
      "field ?C ''location'' = field r ''location''" "field ?C ''revision'' = field r ''revision''" "field ?C ''temporality'' = field r ''temporality''"
      "field ?C ''aggregation'' = field r ''aggregation''" "field ?C ''provenance'' = field r ''provenance''" "field ?C ''phenomenonTime'' = field r ''phenomenonTime''"
      "field ?C ''resultTime'' = field r ''resultTime''" "field ?C ''validUntil'' = field r ''validUntil''" "field ?C ''result'' = field r ''result''"
      "field ?C ''quality'' = field r ''quality''" "field ?C ''baseline'' = field r ''baseline''" "field ?C ''forecast'' = field r ''forecast''"
      "field ?C ''externalIds'' = field r ''externalIds''" "field ?C ''relations'' = field r ''relations''" "field ?C ''extras'' = field r ''extras''"
      "field ?C ''freshness'' = field r ''freshness''" "field ?C ''recordedAt'' = field r ''recordedAt''"
      unfolding content_field Let_def fresh prov time
      by (simp_all add: TEMPLATE_KEYS_def tmpl untemplated row(5-13) nn extra_fields(1-4) f(1) assms(6) h(2,3))
    have all: "\<forall>k \<in> set HISTORY_FIELDS. k \<in> {''id'', ''canonicalId'', ''contentHash''} \<or> field ?C k = field r k"
      by (simp add: HISTORY_FIELDS_def TEMPLATE_KEYS_def every)
    have absent: "list_all (\<lambda>k. field (history_content ?template row result payloadHashes) k = None) [''id'', ''canonicalId'', ''contentHash'']"
      unfolding content_field Let_def by (simp add: untemplated TEMPLATE_KEYS_def)
    show "fmlookup (history_content ?template row result payloadHashes) x = fmlookup (without [''id'', ''canonicalId'', ''contentHash''] r) x"
    proof (cases "x \<in> u ` set HISTORY_FIELDS")
      case True
      then obtain k where k: "x = u k" "k \<in> set HISTORY_FIELDS" by blast
      show ?thesis
      proof (cases "k \<in> {''id'', ''canonicalId'', ''contentHash''}")
        case True
        then show ?thesis using absent k(1) by (auto simp: field_def)
      next
        case False
        then have "field (history_content ?template row result payloadHashes) k = field r k"
          using all k(2) by blast
        then show ?thesis using False k(1) by (simp add: field_def)
      qed
    next
      case False
      then show ?thesis
        using known [OF False]
        unfolding content_lookup Let_def
        by (auto simp: HISTORY_FIELDS_def templateOf_def template_keys_set TEMPLATE_KEYS_def row extra_fields field_def)
    qed
  qed
  then show ?thesis using assms(4,5) result
    by (simp add: recordFromHistory_def template_fields Let_def templateOf_def TEMPLATE_FIELDS_def bindE_def)
qed

text \<open>The database keeps the instant of a timestamp's text.\<close>

definition dated :: "(code_points \<Rightarrow> int) \<Rightarrow> cell \<Rightarrow> cell" where
  "dated db c = (case c of Written (JString t) \<Rightarrow> Date (db t) | _ \<Rightarrow> c)"

definition read_back :: "(code_points \<Rightarrow> int) \<Rightarrow> history_row \<Rightarrow> history_row" where
  "read_back db row = row\<lparr>hr_phenomenon_start := map_option (dated db) (hr_phenomenon_start row),
     hr_phenomenon_end := map_option (dated db) (hr_phenomenon_end row), hr_result_time := map_option (dated db) (hr_result_time row),
     hr_valid_until := map_option (dated db) (hr_valid_until row), hr_fetched_at := map_option (dated db) (hr_fetched_at row),
     hr_recorded_at := map_option (dated db) (hr_recorded_at row)\<rparr>"

text \<open>The record with those of its instants spelled anew: in UTC, with milliseconds.\<close>

definition respell :: "(code_points \<Rightarrow> int) \<Rightarrow> json \<Rightarrow> json" where
  "respell db v = (case v of JString t \<Rightarrow> JString (u (iso_date (db t))) | _ \<Rightarrow> v)"

definition respell_all :: "(code_points \<Rightarrow> int) \<Rightarrow> string list \<Rightarrow> rec \<Rightarrow> rec" where
  "respell_all db ks m = fold (\<lambda>k m. put k (map_option (respell db) (field m k)) m) ks m"

definition respell_in :: "(code_points \<Rightarrow> int) \<Rightarrow> string list \<Rightarrow> json \<Rightarrow> json" where
  "respell_in db ks v = (case v of JObject m \<Rightarrow> JObject (respell_all db ks m) | _ \<Rightarrow> v)"

definition respelled :: "(code_points \<Rightarrow> int) \<Rightarrow> rec \<Rightarrow> rec" where
  "respelled db r =
     put ''phenomenonTime'' (map_option (respell_in db [''instant'', ''start'', ''end'']) (field r ''phenomenonTime''))
     (put ''freshness'' (map_option (respell_in db [''fetchedAt'']) (field r ''freshness''))
     (respell_all db [''resultTime'', ''validUntil'', ''recordedAt''] r))"

lemma respell_null [simp]: "respell db v = JNull \<longleftrightarrow> v = JNull"
  by (cases v) (simp_all add: respell_def)

lemma iso_dated: "iso (dated db (Written v)) = respell db v"
  by (cases v) (simp_all add: dated_def respell_def iso_def)

lemma respelled_fields:
  "field (respelled db r) ''phenomenonTime'' = map_option (respell_in db [''instant'', ''start'', ''end'']) (field r ''phenomenonTime'')"
  "field (respelled db r) ''freshness'' = map_option (respell_in db [''fetchedAt'']) (field r ''freshness'')"
  "field (respelled db r) ''resultTime'' = map_option (respell db) (field r ''resultTime'')"
  "field (respelled db r) ''validUntil'' = map_option (respell db) (field r ''validUntil'')"
  "field (respelled db r) ''recordedAt'' = map_option (respell db) (field r ''recordedAt'')"
  by (simp_all add: respelled_def respell_all_def)

lemma respelled_other:
  "x \<notin> u ` {''phenomenonTime'', ''freshness'', ''resultTime'', ''validUntil'', ''recordedAt''} \<Longrightarrow> fmlookup (respelled db r) x = fmlookup r x"
  by (simp add: respelled_def respell_all_def)

lemma respelled_other_field:
  "k \<notin> {''phenomenonTime'', ''freshness'', ''resultTime'', ''validUntil'', ''recordedAt''} \<Longrightarrow> field (respelled db r) k = field r k"
  by (simp add: respelled_def respell_all_def)

lemma respelled_same:
  "parsed_id (respelled db r) = parsed_id r" "fusionRecordIds co (respelled db r) = fusionRecordIds co r"
  "templateOf co (respelled db r) = templateOf co r"
proof -
  note other = respelled_other_field [of _ db r]
  show id: "parsed_id (respelled db r) = parsed_id r" by (simp add: parsed_id_def other)
  then have regular: "regular_id co (respelled db r) = regular_id co r"
    by (cases "parsed_id r") (simp_all add: regular_id_def other)
  have prov: "field (respelled db r) ''provenance'' = field r ''provenance''" by (simp add: other)
  show lineage: "fusionRecordIds co (respelled db r) = fusionRecordIds co r"
    unfolding fusionRecordIds_def prov regular by (rule refl)
  have "pick TEMPLATE_FIELDS (respelled db r) = pick TEMPLATE_FIELDS r"
    by (rule rec_eqI) (auto simp: TEMPLATE_FIELDS_def respelled_other)
  moreover have "template_provenance co (respelled db r) = template_provenance co r"
    unfolding template_provenance_def lineage prov by (rule refl)
  ultimately show "templateOf co (respelled db r) = templateOf co r" by (simp add: templateOf_def id)
qed

lemma respelled_time:
  assumes "time_ok (field r ''phenomenonTime'')"
  shows "time_ok (field (respelled db r) ''phenomenonTime'')"
    and "map_option (iso \<circ> dated db) (hr_phenomenon_start (historyRowOf co r spec poll))
      = map_option iso (hr_phenomenon_start (historyRowOf co (respelled db r) spec poll))"
    and "map_option (iso \<circ> dated db) (hr_phenomenon_end (historyRowOf co r spec poll))
      = map_option iso (hr_phenomenon_end (historyRowOf co (respelled db r) spec poll))"
proof -
  let ?R = "\<lambda>m. respell_all db [''instant'', ''start'', ''end''] m"
  have shapes: "?R (put ''instant'' (Some s) fmempty) = put ''instant'' (Some (respell db s)) fmempty"
      "?R (put ''end'' (Some e) (put ''start'' (Some s) fmempty)) = put ''end'' (Some (respell db e)) (put ''start'' (Some (respell db s)) fmempty)" for s e
    by (rule rec_eqI, auto simp: respell_all_def)+
  have columns: "hr_phenomenon_start (historyRowOf co r' spec poll)
      = map_option Written (or_else (field (obj (field r' ''phenomenonTime'')) ''instant'') (field (obj (field r' ''phenomenonTime'')) ''start''))"
    "hr_phenomenon_end (historyRowOf co r' spec poll) = map_option Written (non_null (field (obj (field r' ''phenomenonTime'')) ''end''))" for r'
    by (simp_all add: historyRowOf_def Let_def)
  from assms obtain s where s: "s \<noteq> JNull" "field r ''phenomenonTime'' = Some (JObject (put ''instant'' (Some s) fmempty))
     \<or> (\<exists>e. e \<noteq> JNull \<and> field r ''phenomenonTime'' = Some (JObject (put ''end'' (Some e) (put ''start'' (Some s) fmempty))))"
    by (auto simp: time_ok_def)
  then have "time_ok (field (respelled db r) ''phenomenonTime'')
    \<and> map_option (iso \<circ> dated db) (hr_phenomenon_start (historyRowOf co r spec poll))
      = map_option iso (hr_phenomenon_start (historyRowOf co (respelled db r) spec poll))
    \<and> map_option (iso \<circ> dated db) (hr_phenomenon_end (historyRowOf co r spec poll))
      = map_option iso (hr_phenomenon_end (historyRowOf co (respelled db r) spec poll))"
  proof (elim disjE exE conjE)
    assume t: "field r ''phenomenonTime'' = Some (JObject (put ''instant'' (Some s) fmempty))"
    then have t': "field (respelled db r) ''phenomenonTime'' = Some (JObject (put ''instant'' (Some (respell db s)) fmempty))"
      by (simp add: respelled_fields(1) respell_in_def shapes)
    have ok: "time_ok (field (respelled db r) ''phenomenonTime'')"
      unfolding t' time_ok_def using s(1) by (intro exI [of _ "respell db s"]) simp
    show ?thesis using ok unfolding columns t t' using s(1)
      by (auto simp: or_else_def non_null_def iso_dated)
  next
    fix e assume e: "e \<noteq> JNull" and t: "field r ''phenomenonTime'' = Some (JObject (put ''end'' (Some e) (put ''start'' (Some s) fmempty)))"
    then have t': "field (respelled db r) ''phenomenonTime''
        = Some (JObject (put ''end'' (Some (respell db e)) (put ''start'' (Some (respell db s)) fmempty)))"
      by (simp add: respelled_fields(1) respell_in_def shapes)
    have ok: "time_ok (field (respelled db r) ''phenomenonTime'')"
      unfolding t' time_ok_def using s(1) e
      by (intro exI [of _ "respell db s"] conjI disjI2 exI [of _ "respell db e"]) simp_all
    show ?thesis using ok unfolding columns t t' using s(1) e
      by (auto simp: or_else_def non_null_def iso_dated)
  qed
  then show "time_ok (field (respelled db r) ''phenomenonTime'')"
    and "map_option (iso \<circ> dated db) (hr_phenomenon_start (historyRowOf co r spec poll))
      = map_option iso (hr_phenomenon_start (historyRowOf co (respelled db r) spec poll))"
    and "map_option (iso \<circ> dated db) (hr_phenomenon_end (historyRowOf co r spec poll))
      = map_option iso (hr_phenomenon_end (historyRowOf co (respelled db r) spec poll))" by simp_all
qed

text \<open>Reading the row back as Dates is reading the row of the record respelled.\<close>

lemma respelled_extra: "extra_of poll (respelled db r) = extra_of poll r"
proof -
  note other = respelled_other_field [of _ db r]
  have same: "field (respelled db r) ''provenance'' = field r ''provenance''" "field (respelled db r) ''forecast'' = field r ''forecast''"
    "field (respelled db r) ''externalIds'' = field r ''externalIds''" "field (respelled db r) ''relations'' = field r ''relations''"
    "field (respelled db r) ''extras'' = field r ''extras''" by (simp_all add: other)
  have "without [''fetchedAt''] (obj (field (respelled db r) ''freshness'')) = without [''fetchedAt''] (obj (field r ''freshness''))"
  proof (cases "field r ''freshness''")
    case (Some v)
    then show ?thesis
      by (cases v) (auto simp: respelled_fields(2) respell_in_def respell_all_def obj_def intro!: rec_eqI)
  qed (simp add: respelled_fields(2))
  then show ?thesis unfolding extra_of_def same by (simp add: same)
qed

definition iso_row :: "history_row \<Rightarrow> history_row" where
  "iso_row row = (let text = map_option (\<lambda>c. Written (iso c)) in
     row\<lparr>hr_phenomenon_start := text (hr_phenomenon_start row), hr_phenomenon_end := text (hr_phenomenon_end row),
       hr_result_time := text (hr_result_time row), hr_valid_until := text (hr_valid_until row),
       hr_fetched_at := text (hr_fetched_at row), hr_recorded_at := text (hr_recorded_at row)\<rparr>)"

lemma record_of_iso_row: "recordFromHistory co property series (iso_row row) hs = recordFromHistory co property series row hs"
proof -
  have texts: "map_option iso (map_option (\<lambda>c. Written (iso c)) v) = map_option iso v" for v by (cases v) simp_all
  have "phenomenon_time (iso_row row) = phenomenon_time row"
    by (simp add: phenomenon_time_def iso_row_def Let_def texts split: option.split)
  moreover have "history_provenance t (iso_row row) hs = history_provenance t row hs" for t
    by (simp add: history_provenance_def iso_row_def Let_def)
  ultimately have content: "history_content t (iso_row row) result hs = history_content t row result hs" for t result
    unfolding history_content_def by (simp add: iso_row_def Let_def texts)
  have columns: "hr_columns (iso_row row) = hr_columns row" by (simp add: iso_row_def Let_def)
  show ?thesis by (simp only: recordFromHistory_def content columns)
qed

lemma interned_cells: "iso_row (read_back db (intern_credits i p row)) = intern_credits i p (iso_row (read_back db row))"
  by (simp add: intern_credits_def read_back_def iso_row_def Let_def)

lemma respelled_row:
  assumes "time_ok (field r ''phenomenonTime'')" and "field r ''freshness'' = Some (JObject f)"
  shows "iso_row (read_back db (historyRowOf co r spec poll)) = historyRowOf co (respelled db r) spec poll"
proof -
  note other = respelled_other_field [of _ db r]
  have cells: "map_option (\<lambda>c. Written (iso c)) (map_option (dated db) (map_option Written v)) = map_option Written (map_option (respell db) v)" for v
    by (cases v) (simp_all add: iso_dated)
  have spelled: "map_option (\<lambda>c. Written (iso c)) (map_option (dated db) c) = d"
    if "map_option (iso \<circ> dated db) c = map_option iso d" "d = map_option Written e" for c d e
    using that by (cases c; cases e) simp_all
  have written: "\<exists>e. hr_phenomenon_start (historyRowOf co r' spec poll) = map_option Written e"
    "\<exists>e. hr_phenomenon_end (historyRowOf co r' spec poll) = map_option Written e" for r' by (auto simp: historyRowOf_def Let_def)
  have times: "map_option (\<lambda>c. Written (iso c)) (map_option (dated db) (hr_phenomenon_start (historyRowOf co r spec poll)))
      = hr_phenomenon_start (historyRowOf co (respelled db r) spec poll)"
    "map_option (\<lambda>c. Written (iso c)) (map_option (dated db) (hr_phenomenon_end (historyRowOf co r spec poll)))
      = hr_phenomenon_end (historyRowOf co (respelled db r) spec poll)"
    using spelled [OF respelled_time(2) [OF assms(1)]] spelled [OF respelled_time(3) [OF assms(1)]] written by blast+
  have nn: "non_null (map_option (respell db) v) = map_option (respell db) (non_null v)" for v
    by (cases v) (simp_all add: non_null_def)
  have fetched: "field (obj (field (respelled db r) ''freshness'')) ''fetchedAt'' = map_option (respell db) (field (obj (field r ''freshness'')) ''fetchedAt'')"
    using assms(2) by (cases "field f ''fetchedAt''") (simp_all add: respelled_fields(2) respell_in_def respell_all_def)
  have same: "field (respelled db r) ''provenance'' = field r ''provenance''" "field (respelled db r) ''forecast'' = field r ''forecast''"
    "field (respelled db r) ''temporality'' = field r ''temporality''" "field (respelled db r) ''aggregation'' = field r ''aggregation''"
    "field (respelled db r) ''result'' = field r ''result''" "field (respelled db r) ''quality'' = field r ''quality''"
    "field (respelled db r) ''baseline'' = field r ''baseline''" by (simp_all add: other)
  show ?thesis
    using times by (simp add: iso_row_def read_back_def Let_def historyRowOf_def respelled_extra same respelled_fields(3-5) cells nn fetched)
qed

lemma respelled_historic: "historic r p poll \<Longrightarrow> historic (respelled db r) p poll"
proof -
  assume h: "historic r p poll"
  note other = respelled_other_field [of _ db r]
  obtain f where f: "field r ''freshness'' = Some (JObject f)" "field f ''fetchedAt'' \<noteq> None" using h by (auto simp: historic_def)
  have time: "time_ok (field (respelled db r) ''phenomenonTime'')" using h respelled_time(1) by (simp add: historic_def)
  have "without HISTORY_FIELDS (respelled db r) = fmempty"
  proof (rule rec_eqI)
    fix x
    show "fmlookup (without HISTORY_FIELDS (respelled db r)) x = fmlookup fmempty x"
    proof (cases "x \<in> u ` set HISTORY_FIELDS")
      case False
      then have "x \<notin> u ` {''phenomenonTime'', ''freshness'', ''resultTime'', ''validUntil'', ''recordedAt''}"
        by (auto simp: HISTORY_FIELDS_def)
      moreover have "fmlookup (without HISTORY_FIELDS r) x = None" using h by (simp add: historic_def)
      ultimately show ?thesis using False by (simp add: respelled_other)
    qed simp
  qed
  moreover have "\<exists>f'. field (respelled db r) ''freshness'' = Some (JObject f') \<and> field f' ''fetchedAt'' \<noteq> None"
    using f by (simp add: respelled_fields(2) respell_in_def respell_all_def)
  moreover have "map_option (respell db) v = Some JNull \<longleftrightarrow> v = Some JNull" for v by (cases v) simp_all
  ultimately show ?thesis using h time by (simp add: historic_def other respelled_fields(3-5))
qed


subsection \<open>Examples\<close>

definition object_of :: "(string \<times> json) list \<Rightarrow> rec" where
  "object_of kvs = foldr (\<lambda>(k, v). put k (Some v)) kvs fmempty"

lemma object_of_Nil [simp]: "object_of [] = fmempty"
  and object_of_Cons [simp]: "object_of ((k, v) # kvs) = put k (Some v) (object_of kvs)"
  by (simp_all add: object_of_def)

definition sample_codec :: codec where
  "sample_codec = \<lparr>co_canonicalIdOf = (\<lambda>ns l. u ''obs:'' @ ns @ u ''/'' @ l), co_observationId = (\<lambda>ns r. observation_id_text ns (u ''7'')),
     co_contentHash = (\<lambda>r. u ''sha256:0''), co_show = (\<lambda>v. u ''0'')\<rparr>"

definition sample_local :: code_points where
  "sample_local = replicate 64 (0x61 :: nat)"

definition sample_derivation :: rec where
  "sample_derivation = object_of [(''method'', text_of ''fusion''),
     (''records'', JArray [JObject (object_of [(''class'', text_of ''observation''), (''id'', text_of ''oc:observation:nl.ndw:1'')])])]"

definition sample_fused_provenance :: rec where
  "sample_fused_provenance = object_of [(''origin'', text_of ''derived''), (''sourceId'', text_of ''@fused''), (''recordId'', JString sample_local),
     (''derivedFrom'', JObject sample_derivation),
     (''mergedSources'', JArray [JObject (object_of [(''recordId'', text_of ''oc:observation:nl.ndw:1''), (''sourceId'', text_of ''ndw'')])])]"

definition sample_fused :: rec where
  "sample_fused = object_of [(''id'', JString (observation_id_text (u ''nl.ndw'') sample_local)),
     (''canonicalId'', JString (co_canonicalIdOf sample_codec (u ''nl.ndw'') sample_local)), (''class'', text_of ''observation''),
     (''property'', text_of ''roads/flow''), (''result'', JObject (object_of [(''type'', text_of ''count''), (''value'', JNumber 12)])),
     (''provenance'', JObject sample_fused_provenance)]"

lemma sample_fused_id: "parseRecordId (observation_id_text (u ''nl.ndw'') sample_local)
    = Some \<lparr>id_class = u ''observation'', id_namespace = u ''nl.ndw'', id_local = sample_local\<rparr>"
proof -
  have "u ''observation'' \<in> set RECORD_CLASSES" "isInstanceId (u ''nl.ndw'')" by code_simp+
  moreover have "sample_local \<noteq> []" "\<not> list_ex line_break sample_local" by (simp_all add: sample_local_def line_break_def list_ex_iff)
  ultimately show ?thesis by (simp add: observation_id_text_def parse_text)
qed

lemma sample_fused_lineage: "fusionRecordIds sample_codec sample_fused = Some [u ''oc:observation:nl.ndw:1'']"
proof -
  let ?i = "\<lparr>id_class = u ''observation'', id_namespace = u ''nl.ndw'', id_local = sample_local\<rparr>"
  have hash: "local_hash sample_local" by (simp add: local_hash_def sample_local_def list_all_iff)
  have fields: "field sample_fused ''id'' = Some (JString (observation_id_text (u ''nl.ndw'') sample_local))"
    "field sample_fused ''canonicalId'' = Some (JString (co_canonicalIdOf sample_codec (u ''nl.ndw'') sample_local))"
    "field sample_fused ''provenance'' = Some (JObject sample_fused_provenance)"
    by (simp_all add: sample_fused_def)
  have provenance: "field sample_fused_provenance ''origin'' = Some (text_of ''derived'')"
    "field sample_fused_provenance ''sourceId'' = Some (text_of ''@fused'')"
    "field sample_fused_provenance ''recordId'' = Some (JString sample_local)"
    "field sample_fused_provenance ''derivedFrom'' = Some (JObject sample_derivation)"
    "field sample_fused_provenance ''mergedSources'' =
       Some (JArray [JObject (object_of [(''recordId'', text_of ''oc:observation:nl.ndw:1''), (''sourceId'', text_of ''ndw'')])])"
    by (simp_all add: sample_fused_provenance_def)
  have derivation: "field sample_derivation ''method'' = Some (text_of ''fusion'')"
    "field sample_derivation ''records'' =
      Some (JArray [JObject (object_of [(''class'', text_of ''observation''), (''id'', text_of ''oc:observation:nl.ndw:1'')])])"
    by (simp_all add: sample_derivation_def)
  have regular: "regular_id sample_codec sample_fused = Some ?i"
    using hash by (simp add: regular_id_def parsed_id_def fields sample_fused_id)
  have "fcard (fmdom (object_of [(''class'', text_of ''observation''), (''id'', text_of ''oc:observation:nl.ndw:1'')])) = 2"
    by (simp add: put_def fcard_finsert_if)
  then have "same_lineage (JObject (object_of [(''recordId'', text_of ''oc:observation:nl.ndw:1''), (''sourceId'', text_of ''ndw'')]))
      (JObject (object_of [(''class'', text_of ''observation''), (''id'', text_of ''oc:observation:nl.ndw:1'')])) = Some (u ''oc:observation:nl.ndw:1'')"
    by (simp add: same_lineage_def text_of_def del: object_of_Cons) (simp add: text_of_def)
  then show ?thesis
    by (simp add: fusionRecordIds_def Let_def fields provenance derivation regular isFusedSourceId_def del: object_of_Cons)
qed

theorem reading_roundtrip_witness:
  "fusionRecordIds sample_codec sample_fused \<noteq> None
   \<and> recordOf sample_codec (templateOf sample_codec sample_fused) (readingOf sample_codec sample_fused) = Inr sample_fused"
proof -
  have "stored_record sample_fused sample_fused_provenance"
    by (simp add: stored_record_def parsed_id_def sample_fused_def sample_fused_id)
  then show ?thesis using reading_roundtrip sample_fused_lineage by simp
qed

definition sample_provenance :: rec where
  "sample_provenance = object_of [(''origin'', text_of ''feed''), (''sourceId'', text_of ''ndw''), (''attribution'', JObject (object_of [(''provider'', text_of ''NDW'')])),
     (''rawRef'', JObject (object_of [(''hash'', text_of ''sha256:b'')])), (''sourceUpdatedAt'', text_of ''2026-01-01T00:00:00Z'')]"

definition sample_reading :: rec where
  "sample_reading = object_of [(''id'', JString (u ''oc:observation:nl.ndw:5'')), (''class'', text_of ''observation''), (''property'', text_of ''roads/flow''),
     (''phenomenonTime'', JObject (object_of [(''instant'', text_of ''2026-01-01T00:00:00Z'')])),
     (''result'', JObject (object_of [(''type'', text_of ''count''), (''value'', JNumber 12)])), (''provenance'', JObject sample_provenance),
     (''freshness'', JObject (object_of [(''fetchedAt'', text_of ''2026-01-01T00:01:00Z'')])), (''revision'', JNumber 1),
     (''recordedAt'', text_of ''2026-01-01T00:02:00.000Z'')]"

definition sample_spec :: result_spec where
  "sample_spec = \<lparr>sp_type = ''count'', sp_unit = None, sp_vocabulary = None\<rparr>"

definition sample_poll :: poll where
  "sample_poll = \<lparr>po_fetchId = Some (text_of ''fetch-1''), po_payloadHashes = Some [text_of ''sha256:a'', text_of ''sha256:b'']\<rparr>"

definition sample_row :: history_row where
  "sample_row = intern_credits (text_of ''receipt-1'') sample_provenance (historyRowOf sample_codec sample_reading sample_spec sample_poll)"

text \<open>What the database makes of the texts of the sample.\<close>

definition sample_db :: "code_points \<Rightarrow> int" where
  "sample_db t = (if t = u ''2026-01-01T00:00:00Z'' then 1767225600000
     else if t = u ''2026-01-01T00:01:00Z'' then 1767225660000 else 1767225720000)"

lemma sample_respelled:
  "respell sample_db (text_of ''2026-01-01T00:00:00Z'') = text_of ''2026-01-01T00:00:00.000Z''"
  "respell sample_db (text_of ''2026-01-01T00:02:00.000Z'') = text_of ''2026-01-01T00:02:00.000Z''"
proof -
  have "iso_date 1767225600000 = ''2026-01-01T00:00:00.000Z''" "iso_date 1767225720000 = ''2026-01-01T00:02:00.000Z''"
    by code_simp+
  then show "respell sample_db (text_of ''2026-01-01T00:00:00Z'') = text_of ''2026-01-01T00:00:00.000Z''"
    "respell sample_db (text_of ''2026-01-01T00:02:00.000Z'') = text_of ''2026-01-01T00:02:00.000Z''"
    by (simp_all add: respell_def text_of_def sample_db_def)
qed


end
