(* ===== verification/Http_Signature.thy ===== *)
theory Http_Signature
  imports Base64Url "HOL-Library.Finite_Map"
begin

text \<open>
  The message signatures between instances: packages/federation/src/http-signature.ts.

  \<^item> The library structured-headers is the functions that parse and write a dictionary, http-message-signatures those
    that sign and verify a message: the record \<open>http_library\<close>, a parameter. WebCrypto is \<open>message_crypto\<close>. A CryptoKey is
    a value of its own type.
  \<^item> A set of headers is a list of names and values in the order of the object. A number of a structured header is a
    real; what is neither a number, a text nor bytes is the text \<open>String\<close> makes of it.
  \<^item> \<open>verifyMessage\<close> waits between its steps, so it is two operations on the nonce store: \<open>begin_verify\<close> up to the look
    into the store, \<open>finish_verify\<close> from the signature on. A run interleaves the steps of any number of messages, each
    with the clock (in milliseconds) it reads.
\<close>

subsection \<open>Constants and reasons\<close>

definition FEDERATION_TAG :: string where "FEDERATION_TAG = ''openconditions-federation''"

definition FEDERATION_REASON_HEADER :: string where "FEDERATION_REASON_HEADER = ''Federation-Reason''"

definition EXPIRES_WINDOW_SEC :: int where "EXPIRES_WINDOW_SEC = 60"

definition CLOCK_SKEW_SEC :: int where "CLOCK_SKEW_SEC = 30"

definition NONCE_TTL_SEC :: int where "NONCE_TTL_SEC = EXPIRES_WINDOW_SEC + CLOCK_SKEW_SEC"

datatype reason = Expired | Replayed | BadSignature | BadDigest | UnknownKey | MissingNonce | TagMismatch
  | AmbiguousSignature | InsufficientCoverage

fun reason_text :: "reason \<Rightarrow> string" where
  "reason_text Expired = ''expired''"
| "reason_text Replayed = ''replayed''"
| "reason_text BadSignature = ''bad-signature''"
| "reason_text BadDigest = ''bad-digest''"
| "reason_text UnknownKey = ''unknown-key''"
| "reason_text MissingNonce = ''missing-nonce''"
| "reason_text TagMismatch = ''tag-mismatch''"
| "reason_text AmbiguousSignature = ''ambiguous-signature''"
| "reason_text InsufficientCoverage = ''insufficient-coverage''"

type_synonym headers = "(string \<times> string) list"

definition federationFailureHeaders :: "reason \<Rightarrow> headers" where
  "federationFailureHeaders r = [(FEDERATION_REASON_HEADER, reason_text r)]"

subsection \<open>The nonce store\<close>

record 's nonce_ops =
  no_seen :: "int \<Rightarrow> string \<Rightarrow> string \<Rightarrow> 's \<Rightarrow> bool \<times> 's"
  no_remember :: "int \<Rightarrow> string \<Rightarrow> string \<Rightarrow> int \<Rightarrow> 's \<Rightarrow> 's"
  no_reserve :: "(int \<Rightarrow> string \<Rightarrow> string \<Rightarrow> int \<Rightarrow> 's \<Rightarrow> bool \<times> 's) option"

definition reserveNonce :: "'s nonce_ops \<Rightarrow> int \<Rightarrow> string \<Rightarrow> string \<Rightarrow> int \<Rightarrow> 's \<Rightarrow> bool \<times> 's" where
  "reserveNonce ops now peerId nonce ttlSec s = (case no_reserve ops of
     Some reserve \<Rightarrow> reserve now peerId nonce ttlSec s
   | None \<Rightarrow> (case no_seen ops now peerId nonce s of
         (True, s') \<Rightarrow> (False, s')
       | (False, s') \<Rightarrow> (True, no_remember ops now peerId nonce ttlSec s')))"

type_synonym nonce_map = "(string, int) fmap"

definition nonce_key :: "string \<Rightarrow> string \<Rightarrow> string" where
  "nonce_key peerId nonce = peerId @ [CHR 0x00] @ nonce"

definition memory_seen :: "int \<Rightarrow> string \<Rightarrow> string \<Rightarrow> nonce_map \<Rightarrow> bool \<times> nonce_map" where
  "memory_seen now peerId nonce m = (case fmlookup m (nonce_key peerId nonce) of
     None \<Rightarrow> (False, m)
   | Some expiresAt \<Rightarrow> if expiresAt \<le> now then (False, fmdrop (nonce_key peerId nonce) m) else (True, m))"

definition unexpired :: "int \<Rightarrow> nonce_map \<Rightarrow> string \<Rightarrow> bool" where
  "unexpired now m k = (case fmlookup m k of None \<Rightarrow> False | Some expiresAt \<Rightarrow> now < expiresAt)"

definition sweep :: "nat \<Rightarrow> int \<Rightarrow> nonce_map \<Rightarrow> nonce_map" where
  "sweep sweepAt now m = (if fcard (fmdom m) < sweepAt then m else fmfilter (unexpired now m) m)"

definition memory_remember :: "nat \<Rightarrow> int \<Rightarrow> string \<Rightarrow> string \<Rightarrow> int \<Rightarrow> nonce_map \<Rightarrow> nonce_map" where
  "memory_remember sweepAt now peerId nonce ttlSec m =
     fmupd (nonce_key peerId nonce) (now + ttlSec * 1000) (sweep sweepAt now m)"

definition memory_reserve :: "nat \<Rightarrow> int \<Rightarrow> string \<Rightarrow> string \<Rightarrow> int \<Rightarrow> nonce_map \<Rightarrow> bool \<times> nonce_map" where
  "memory_reserve sweepAt now peerId nonce ttlSec m =
     (if unexpired now m (nonce_key peerId nonce) then (False, m)
      else (True, fmupd (nonce_key peerId nonce) (now + ttlSec * 1000) (sweep sweepAt now m)))"

definition InMemoryNonceStore :: "nat \<Rightarrow> nonce_map nonce_ops" where
  "InMemoryNonceStore sweepAt = \<lparr>no_seen = memory_seen, no_remember = memory_remember sweepAt,
     no_reserve = Some (memory_reserve sweepAt)\<rparr>"

subsection \<open>Structured headers and messages\<close>

datatype bare = BNumber real | BString string | BBytes "byte list" | BOther string

type_synonym params = "(string \<times> bare) list"

datatype member = Item bare params | InnerList "(bare \<times> params) list" params

type_synonym dictionary = "(string \<times> member) list"

datatype message = HRequest string string headers | HResponse "int option" headers

datatype header_value = One string | Many "string list"

record lib_key =
  lk_id :: string
  lk_algs :: "string list"
  lk_verify :: "byte list \<Rightarrow> byte list \<Rightarrow> bool"

record verify_config =
  vc_keyLookup :: "string option \<Rightarrow> string option \<Rightarrow> lib_key option"
  vc_tolerance :: real
  vc_notAfter :: real
  vc_all :: bool

record sign_config =
  sg_id :: string
  sg_alg :: string
  sg_sign :: "byte list \<Rightarrow> byte list"
  sg_name :: string
  sg_fields :: "string list"
  sg_params :: "string list"
  sg_created :: real
  sg_expires :: real
  sg_nonce :: string
  sg_tag :: string

text \<open>\<open>hl_parse\<close> is \<open>None\<close> where the parser throws; \<open>hl_number\<close> is \<open>String\<close> of a number; \<open>hl_verify\<close> is given the
  milliseconds of the clock the library reads for itself.\<close>

record http_library =
  hl_parse :: "string \<Rightarrow> dictionary option"
  hl_serialize :: "dictionary \<Rightarrow> string"
  hl_number :: "real \<Rightarrow> string"
  hl_sign :: "sign_config \<Rightarrow> message \<Rightarrow> js_error + (string \<times> header_value) list"
  hl_verify :: "int \<Rightarrow> verify_config \<Rightarrow> message \<Rightarrow> js_error + bool option"

record ('sk, 'pk) message_crypto =
  mc_digest :: "string \<Rightarrow> byte list \<Rightarrow> byte list"
  mc_sign :: "'sk \<Rightarrow> byte list \<Rightarrow> byte list"
  mc_verify :: "'pk \<Rightarrow> byte list \<Rightarrow> byte list \<Rightarrow> bool"

definition findHeader :: "headers \<Rightarrow> string \<Rightarrow> string option" where
  "findHeader hs name = map_option snd (find (\<lambda>h. ascii_lower (fst h) = name) hs)"

definition header_name :: "headers \<Rightarrow> string \<Rightarrow> string option" where
  "header_name hs name = map_option fst (find (\<lambda>h. ascii_lower (fst h) = name) hs)"

subsection \<open>Content digests\<close>

definition SUPPORTED_DIGESTS :: "(string \<times> string) list" where
  "SUPPORTED_DIGESTS = [(''sha-256'', ''SHA-256''), (''sha-512'', ''SHA-512'')]"

text \<open>\<open>Buffer.toString("base64")\<close>: the url alphabet with its last two digits changed, padded to groups of four.\<close>

definition base64 :: "byte list \<Rightarrow> string" where
  "base64 d = map (\<lambda>c. if c = CHR ''-'' then CHR ''+'' else if c = CHR ''_'' then CHR ''/'' else c) (toBase64Url d)
     @ replicate ((3 - length d mod 3) mod 3) (CHR ''='')"

definition contentDigest :: "('sk, 'pk) message_crypto \<Rightarrow> byte list \<Rightarrow> string \<Rightarrow> string" where
  "contentDigest cr body algorithm =
     algorithm @ ''=:'' @ base64 (mc_digest cr (the (map_of SUPPORTED_DIGESTS algorithm)) body) @ '':''"

text \<open>The table is an object, so a member named \<open>constructor\<close> finds the function every object inherits, which is no name
  of a digest: WebCrypto throws. No other inherited name is a key of a structured header.\<close>

fun digest_members :: "('sk, 'pk) message_crypto \<Rightarrow> byte list \<Rightarrow> nat \<Rightarrow> dictionary \<Rightarrow> js_error + bool" where
  "digest_members cr body checked [] = Inr (checked > 0)"
| "digest_members cr body checked ((algorithm, m) # rest) =
     (if algorithm \<noteq> ''constructor'' \<and> map_of SUPPORTED_DIGESTS algorithm = None then digest_members cr body checked rest
      else (case m of
        Item (BBytes value) _ \<Rightarrow>
          (case map_of SUPPORTED_DIGESTS algorithm of
             None \<Rightarrow> Inl (JsError ''NotSupportedError'')
           | Some name \<Rightarrow> if mc_digest cr name body \<noteq> value then Inr False
                           else digest_members cr body (checked + 1) rest)
      | _ \<Rightarrow> Inr False))"

definition verifyContentDigest :: "http_library \<Rightarrow> ('sk, 'pk) message_crypto \<Rightarrow> string \<Rightarrow> byte list \<Rightarrow> js_error + bool" where
  "verifyContentDigest lib cr headerValue body = (case hl_parse lib headerValue of
     None \<Rightarrow> Inr False
   | Some dictionary \<Rightarrow> digest_members cr body 0 dictionary)"

subsection \<open>Signing\<close>

definition SIGNATURE_NAME :: string where "SIGNATURE_NAME = ''oc''"

record 'sk sign_params =
  sp_method :: string
  sp_url :: string
  sp_headers :: headers
  sp_body :: "byte list option"
  sp_keyId :: string
  sp_privateKey :: 'sk
  sp_created :: "int option"
  sp_expires :: "int option"
  sp_nonce :: "string option"
  sp_tag :: "string option"
  sp_isResponse :: bool
  sp_status :: "int option"
  sp_coverHeaders :: "string list"

definition has_body :: "byte list option \<Rightarrow> bool" where
  "has_body body \<longleftrightarrow> (case body of None \<Rightarrow> False | Some b \<Rightarrow> b \<noteq> [])"

fun cover_headers :: "headers \<Rightarrow> string list \<Rightarrow> string list \<Rightarrow> js_error + string list" where
  "cover_headers hs [] covered = Inr covered"
| "cover_headers hs (name # names) covered =
     (let lower = ascii_lower name in
      if findHeader hs lower = None then Inl (TypeError ''signMessage: a covered header is not present in headers'')
      else cover_headers hs names (if lower \<in> set covered then covered else covered @ [lower]))"

definition signed_headers :: "('sk, 'pk) message_crypto \<Rightarrow> 'sk sign_params \<Rightarrow> headers" where
  "signed_headers cr p = (if has_body (sp_body p)
     then map_set ''Content-Digest'' (contentDigest cr (the (sp_body p)) ''sha-256'') (sp_headers p) else sp_headers p)"

definition content_fields :: "headers \<Rightarrow> bool \<Rightarrow> string list" where
  "content_fields hs hasBody = (if hasBody then (if findHeader hs ''content-type'' \<noteq> None then [''content-type''] else []) @ [''content-digest'']
     else [])"

definition signed_fields :: "('sk, 'pk) message_crypto \<Rightarrow> 'sk sign_params \<Rightarrow> js_error + string list" where
  "signed_fields cr p = cover_headers (signed_headers cr p) (sp_coverHeaders p)
     ((if sp_isResponse p then [''@status''] else [''@method'', ''@target-uri''])
       @ content_fields (signed_headers cr p) (has_body (sp_body p)))"

definition sign_config_of :: "('sk, 'pk) message_crypto \<Rightarrow> 'sk sign_params \<Rightarrow> int \<Rightarrow> string \<Rightarrow> string list \<Rightarrow> sign_config" where
  "sign_config_of cr p now uuid fs =
     (let created = nullish (sp_created p) now; expires = nullish (sp_expires p) (created + EXPIRES_WINDOW_SEC) in
      \<lparr>sg_id = sp_keyId p, sg_alg = ''ed25519'', sg_sign = mc_sign cr (sp_privateKey p), sg_name = SIGNATURE_NAME,
       sg_fields = fs, sg_params = [''created'', ''expires'', ''keyid'', ''nonce'', ''tag''],
       sg_created = of_int (created * 1000), sg_expires = of_int (expires * 1000),
       sg_nonce = nullish (sp_nonce p) uuid, sg_tag = nullish (sp_tag p) FEDERATION_TAG\<rparr>)"

definition message_to_sign :: "('sk, 'pk) message_crypto \<Rightarrow> 'sk sign_params \<Rightarrow> message" where
  "message_to_sign cr p = (if sp_isResponse p then HResponse (sp_status p) (signed_headers cr p)
     else HRequest (sp_method p) (sp_url p) (signed_headers cr p))"

fun join_comma :: "string list \<Rightarrow> string" where
  "join_comma [] = []"
| "join_comma [x] = x"
| "join_comma (x # y # xs) = x @ '', '' @ join_comma (y # xs)"

definition flatten_header :: "string \<times> header_value \<Rightarrow> string \<times> string" where
  "flatten_header h = (case h of (name, One v) \<Rightarrow> (name, v) | (name, Many vs) \<Rightarrow> (name, join_comma vs))"

text \<open>\<open>clock\<close> is \<open>Date.now()\<close> and \<open>uuid\<close> what \<open>randomUUID\<close> returns.\<close>

definition signMessage :: "http_library \<Rightarrow> ('sk, 'pk) message_crypto \<Rightarrow> 'sk sign_params \<Rightarrow> int \<Rightarrow> string \<Rightarrow> js_error + headers" where
  "signMessage lib cr p clock uuid =
     (if sp_isResponse p \<and> sp_status p = None then Inl (TypeError ''signMessage: a response signature requires a status'')
      else bindE (signed_fields cr p) (\<lambda>fs.
        bindE (hl_sign lib (sign_config_of cr p (clock div 1000) uuid fs) (message_to_sign cr p)) (\<lambda>signed.
          Inr (map flatten_header signed))))"

subsection \<open>Verifying\<close>

record 'pk verify_params =
  vp_method :: string
  vp_url :: string
  vp_status :: "int option"
  vp_headers :: headers
  vp_body :: "byte list option"
  vp_isResponse :: bool
  vp_resolve :: "string \<Rightarrow> js_error + 'pk option"
  vp_now :: "real option"

record parsed_input =
  pi_label :: string
  pi_fields :: "string list"
  pi_created :: "real option"
  pi_expires :: "real option"
  pi_keyId :: "string option"
  pi_nonce :: "string option"
  pi_tag :: "string option"

definition param_text :: "params \<Rightarrow> string \<Rightarrow> string option" where
  "param_text ps name = (case map_of ps name of Some (BString v) \<Rightarrow> Some v | _ \<Rightarrow> None)"

definition param_number :: "params \<Rightarrow> string \<Rightarrow> real option" where
  "param_number ps name = (case map_of ps name of Some (BNumber v) \<Rightarrow> Some v | _ \<Rightarrow> None)"

definition bare_text :: "http_library \<Rightarrow> bare \<Rightarrow> string" where
  "bare_text lib b = (case b of BNumber x \<Rightarrow> hl_number lib x | BString t \<Rightarrow> t | BBytes _ \<Rightarrow> ''[object ArrayBuffer]'' | BOther t \<Rightarrow> t)"

definition parsed_input_of :: "http_library \<Rightarrow> string \<Rightarrow> (bare \<times> params) list \<Rightarrow> params \<Rightarrow> parsed_input" where
  "parsed_input_of lib label items ps =
     \<lparr>pi_label = label, pi_fields = map (\<lambda>(b, _). bare_text lib b) items, pi_created = param_number ps ''created'',
      pi_expires = param_number ps ''expires'', pi_keyId = param_text ps ''keyid'', pi_nonce = param_text ps ''nonce'',
      pi_tag = param_text ps ''tag''\<rparr>"

fun inputs_of :: "http_library \<Rightarrow> dictionary \<Rightarrow> parsed_input list" where
  "inputs_of lib [] = []"
| "inputs_of lib ((label, InnerList items ps) # rest) = parsed_input_of lib label items ps # inputs_of lib rest"
| "inputs_of lib ((label, Item b ps) # rest) = inputs_of lib rest"

definition parseSignatureInputs :: "http_library \<Rightarrow> string \<Rightarrow> parsed_input list option" where
  "parseSignatureInputs lib headerValue = map_option (inputs_of lib) (hl_parse lib headerValue)"

definition coversRequiredComponents :: "parsed_input \<Rightarrow> 'pk verify_params \<Rightarrow> bool" where
  "coversRequiredComponents input p =
     (let f = set (pi_fields input) in
      if vp_isResponse p then ''@status'' \<in> f
      else if ''@method'' \<notin> f then False
      else if ''@target-uri'' \<in> f then True
      else ''@authority'' \<in> f \<and> ''@path'' \<in> f \<and> ''@query'' \<in> f)"

definition restrictToLabel :: "http_library \<Rightarrow> headers \<Rightarrow> string \<Rightarrow> headers option" where
  "restrictToLabel lib hs label =
     (case (header_name hs ''signature-input'', header_name hs ''signature'') of
        (Some inputName, Some sigName) \<Rightarrow>
          (case (hl_parse lib (the (map_of hs inputName)), hl_parse lib (the (map_of hs sigName))) of
             (Some inputDict, Some sigDict) \<Rightarrow>
               (case (map_of inputDict label, map_of sigDict label) of
                  (Some inputEntry, Some sigEntry) \<Rightarrow>
                    Some (map_set sigName (hl_serialize lib [(label, sigEntry)])
                      (map_set inputName (hl_serialize lib [(label, inputEntry)]) hs))
                | _ \<Rightarrow> None)
           | _ \<Rightarrow> None)
      | _ \<Rightarrow> None)"

definition check_digest :: "http_library \<Rightarrow> ('sk, 'pk) message_crypto \<Rightarrow> 'pk verify_params \<Rightarrow> js_error + bool" where
  "check_digest lib cr p = (case findHeader (vp_headers p) ''content-digest'' of
     None \<Rightarrow> Inr (\<not> has_body (vp_body p))
   | Some digestHeader \<Rightarrow> verifyContentDigest lib cr digestHeader (nullish (vp_body p) []))"

definition check_input :: "'pk verify_params \<Rightarrow> real \<Rightarrow> parsed_input \<Rightarrow> reason + string \<times> string" where
  "check_input p now input = (case (pi_created input, pi_expires input) of
     (Some created, Some expires) \<Rightarrow>
       if created > now + of_int CLOCK_SKEW_SEC then Inl Expired
       else if expires < now - of_int CLOCK_SKEW_SEC then Inl Expired
       else if pi_nonce input \<in> {None, Some []} then Inl MissingNonce
       else if pi_keyId input \<in> {None, Some []} then Inl UnknownKey
       else if \<not> coversRequiredComponents input p then Inl InsufficientCoverage
       else if has_body (vp_body p) \<and> ''content-digest'' \<notin> set (pi_fields input) then Inl BadDigest
       else Inr (the (pi_keyId input), the (pi_nonce input))
   | _ \<Rightarrow> Inl Expired)"

definition policy :: "http_library \<Rightarrow> 'pk verify_params \<Rightarrow> real \<Rightarrow> reason + parsed_input" where
  "policy lib p now =
     (case (findHeader (vp_headers p) ''signature-input'', findHeader (vp_headers p) ''signature'') of
        (Some signatureInputHeader, Some signatureHeader) \<Rightarrow>
          (case parseSignatureInputs lib signatureInputHeader of
             None \<Rightarrow> Inl BadSignature
           | Some inputs \<Rightarrow>
               if inputs = [] then Inl BadSignature
               else (case filter (\<lambda>candidate. pi_tag candidate = Some FEDERATION_TAG) inputs of
                   [] \<Rightarrow> Inl TagMismatch
                 | [input] \<Rightarrow> bindE (check_input p now input) (\<lambda>_. Inr input)
                 | _ \<Rightarrow> Inl AmbiguousSignature))
      | _ \<Rightarrow> Inl BadSignature)"

text \<open>A message past the look into the store.\<close>

record 'pk pending =
  pd_label :: string
  pd_keyId :: string
  pd_nonce :: string
  pd_key :: 'pk
  pd_now :: real

text \<open>\<open>c0\<close> is \<open>Date.now()\<close> as the call starts, \<open>c1\<close> as the store is asked.\<close>

definition begin_verify ::
  "http_library \<Rightarrow> ('sk, 'pk) message_crypto \<Rightarrow> 's nonce_ops \<Rightarrow> 'pk verify_params \<Rightarrow> int \<Rightarrow> int \<Rightarrow> 's
     \<Rightarrow> js_error + (reason + 'pk pending) \<times> 's" where
  "begin_verify lib cr ops p c0 c1 s =
     (let now = nullish (vp_now p) (of_int (c0 div 1000)) in
      bindE (check_digest lib cr p) (\<lambda>ok.
        if \<not> ok then Inr (Inl BadDigest, s)
        else (case policy lib p now of
            Inl r \<Rightarrow> Inr (Inl r, s)
          | Inr input \<Rightarrow>
              (let keyId = the (pi_keyId input); nonce = the (pi_nonce input) in
               bindE (vp_resolve p keyId) (\<lambda>publicKey. case publicKey of
                   None \<Rightarrow> Inr (Inl UnknownKey, s)
                 | Some pk \<Rightarrow> (case no_seen ops c1 keyId nonce s of
                       (True, s') \<Rightarrow> Inr (Inl Replayed, s')
                     | (False, s') \<Rightarrow> Inr (Inr \<lparr>pd_label = pi_label input, pd_keyId = keyId, pd_nonce = nonce,
                           pd_key = pk, pd_now = now\<rparr>, s')))))))"

text \<open>A hundred years, in seconds.\<close>

definition LIB_TIME_CHECKS_OFF_SEC :: real where
  "LIB_TIME_CHECKS_OFF_SEC = 100 * 365 * 24 * 60 * 60"

definition verify_config_of :: "('sk, 'pk) message_crypto \<Rightarrow> 'pk pending \<Rightarrow> verify_config" where
  "verify_config_of cr d =
     \<lparr>vc_keyLookup = (\<lambda>keyid tag. if keyid = Some (pd_keyId d) \<and> tag = Some FEDERATION_TAG
        then Some \<lparr>lk_id = pd_keyId d, lk_algs = [''ed25519''], lk_verify = (\<lambda>data sig. mc_verify cr (pd_key d) sig data)\<rparr>
        else None),
      vc_tolerance = LIB_TIME_CHECKS_OFF_SEC, vc_notAfter = pd_now d + LIB_TIME_CHECKS_OFF_SEC, vc_all = True\<rparr>"

definition received_message :: "'pk verify_params \<Rightarrow> headers \<Rightarrow> message" where
  "received_message p hs = (if vp_isResponse p then HResponse (vp_status p) hs else HRequest (vp_method p) (vp_url p) hs)"

definition finish_verify ::
  "http_library \<Rightarrow> ('sk, 'pk) message_crypto \<Rightarrow> 's nonce_ops \<Rightarrow> 'pk verify_params \<Rightarrow> 'pk pending \<Rightarrow> int \<Rightarrow> 's
     \<Rightarrow> (reason + string) \<times> 's" where
  "finish_verify lib cr ops p d c2 s = (case restrictToLabel lib (vp_headers p) (pd_label d) of
     None \<Rightarrow> (Inl BadSignature, s)
   | Some restrictedHeaders \<Rightarrow>
       if hl_verify lib c2 (verify_config_of cr d) (received_message p restrictedHeaders) \<noteq> Inr (Some True)
       then (Inl BadSignature, s)
       else (case reserveNonce ops c2 (pd_keyId d) (pd_nonce d) NONCE_TTL_SEC s of
           (False, s') \<Rightarrow> (Inl Replayed, s')
         | (True, s') \<Rightarrow> (Inr (pd_keyId d), s')))"

definition verifyMessage ::
  "http_library \<Rightarrow> ('sk, 'pk) message_crypto \<Rightarrow> 's nonce_ops \<Rightarrow> 'pk verify_params \<Rightarrow> int \<Rightarrow> int \<Rightarrow> int \<Rightarrow> 's
     \<Rightarrow> js_error + (reason + string) \<times> 's" where
  "verifyMessage lib cr ops p c0 c1 c2 s = bindE (begin_verify lib cr ops p c0 c1 s) (\<lambda>(started, s1).
     case started of Inl r \<Rightarrow> Inr (Inl r, s1) | Inr d \<Rightarrow> Inr (finish_verify lib cr ops p d c2 s1))"

subsection \<open>Runs\<close>

text \<open>The verifications in flight over one store; \<open>ga_accepted\<close> is what was accepted, newest first.\<close>

record ('s, 'pk) gate =
  ga_store :: 's
  ga_clock :: int
  ga_pending :: "('pk verify_params \<times> 'pk pending) list"
  ga_accepted :: "(int \<times> 'pk verify_params \<times> 'pk pending) list"

inductive gate_step :: "http_library \<Rightarrow> ('sk, 'pk) message_crypto \<Rightarrow> 's nonce_ops \<Rightarrow> ('s, 'pk) gate \<Rightarrow> ('s, 'pk) gate \<Rightarrow> bool"
  for lib cr ops where
  tick: "ga_clock g \<le> t \<Longrightarrow> gate_step lib cr ops g (g\<lparr>ga_clock := t\<rparr>)"
| started: "begin_verify lib cr ops p c0 (ga_clock g) (ga_store g) = Inr (r, s) \<Longrightarrow> c0 \<le> ga_clock g \<Longrightarrow>
    gate_step lib cr ops g (g\<lparr>ga_store := s,
      ga_pending := (case r of Inl _ \<Rightarrow> ga_pending g | Inr d \<Rightarrow> (p, d) # ga_pending g)\<rparr>)"
| finished: "(p, d) \<in> set (ga_pending g) \<Longrightarrow> finish_verify lib cr ops p d (ga_clock g) (ga_store g) = (r, s) \<Longrightarrow>
    gate_step lib cr ops g (g\<lparr>ga_store := s, ga_pending := remove1 (p, d) (ga_pending g),
      ga_accepted := (case r of Inl _ \<Rightarrow> ga_accepted g | Inr _ \<Rightarrow> (ga_clock g, p, d) # ga_accepted g)\<rparr>)"

inductive gate_reachable :: "http_library \<Rightarrow> ('sk, 'pk) message_crypto \<Rightarrow> 's nonce_ops \<Rightarrow> 's \<Rightarrow> ('s, 'pk) gate \<Rightarrow> bool"
  for lib cr ops s0 where
  start: "gate_reachable lib cr ops s0 \<lparr>ga_store = s0, ga_clock = c, ga_pending = [], ga_accepted = []\<rparr>"
| step: "gate_reachable lib cr ops s0 g \<Longrightarrow> gate_step lib cr ops g g' \<Longrightarrow> gate_reachable lib cr ops s0 g'"

subsection \<open>A store that claims a nonce in one step\<close>

text \<open>\<open>held s p n\<close> is when the store forgets the nonce \<open>n\<close> of \<open>p\<close>. What is held beyond the clock stays held, and a nonce
  is claimed only when it is not.\<close>

locale atomic_nonces =
  fixes ops :: "'s nonce_ops" and held :: "'s \<Rightarrow> string \<Rightarrow> string \<Rightarrow> int option"
  assumes seen_keeps: "no_seen ops now p n s = (b, s') \<Longrightarrow> held s q k = Some e \<Longrightarrow> now < e \<Longrightarrow> held s' q k = Some e"
    and reserve_keeps: "reserveNonce ops now p n ttl s = (b, s') \<Longrightarrow> held s q k = Some e \<Longrightarrow> now < e \<Longrightarrow> held s' q k = Some e"
    and reserve_claims: "reserveNonce ops now p n ttl s = (True, s') \<Longrightarrow> held s' p n = Some (now + ttl * 1000)"
    and reserve_free: "reserveNonce ops now p n ttl s = (True, s') \<Longrightarrow> held s p n = Some e \<Longrightarrow> e \<le> now"
begin

lemma begin_keeps:
  assumes "begin_verify lib cr ops p c0 c1 s = Inr (r, s')" and "held s q k = Some e" and "c1 < e"
  shows "held s' q k = Some e"
  using assms seen_keeps [OF _ assms(2,3)]
  by (auto simp: begin_verify_def Let_def split: if_splits sum.splits option.splits prod.splits bool.splits)

lemma finish_keeps:
  assumes "finish_verify lib cr ops p d c2 s = (r, s')" and "held s q k = Some e" and "c2 < e"
  shows "held s' q k = Some e"
  using assms reserve_keeps [OF _ assms(2,3)]
  by (auto simp: finish_verify_def split: if_splits option.splits prod.splits bool.splits)

lemma finish_accepts:
  assumes "finish_verify lib cr ops p d c2 s = (Inr keyId, s')"
  shows "held s' (pd_keyId d) (pd_nonce d) = Some (c2 + NONCE_TTL_SEC * 1000)"
    and "held s (pd_keyId d) (pd_nonce d) = Some e \<Longrightarrow> e \<le> c2"
  using assms reserve_claims reserve_free
  by (auto simp: finish_verify_def split: if_splits option.splits prod.splits bool.splits)

lemma accepted_held:
  assumes "gate_reachable lib cr ops s0 g" and "(t, p, d) \<in> set (ga_accepted g)"
  shows "t \<le> ga_clock g" and "ga_clock g < t + NONCE_TTL_SEC * 1000 \<longrightarrow> (\<exists>e \<ge> t + NONCE_TTL_SEC * 1000. held (ga_store g) (pd_keyId d) (pd_nonce d) = Some e)"
proof -
  have "t \<le> ga_clock g \<and> (ga_clock g < t + NONCE_TTL_SEC * 1000 \<longrightarrow>
      (\<exists>e \<ge> t + NONCE_TTL_SEC * 1000. held (ga_store g) (pd_keyId d) (pd_nonce d) = Some e))"
    using assms
  proof (induction rule: gate_reachable.induct)
    case (step g g')
    from step(2) show ?case
    proof cases
      case (tick t')
      then show ?thesis using step.IH step.prems by auto
    next
      case (started p' c0 r s)
      then show ?thesis using step.IH step.prems begin_keeps [OF started(2)] by fastforce
    next
      case (finished p' d' r s)
      show ?thesis
      proof (cases "(t, p, d) \<in> set (ga_accepted g)")
        case True
        then show ?thesis using step.IH finished(1) finish_keeps [OF finished(3)] by fastforce
      next
        case False
        then obtain keyId where "r = Inr keyId" "t = ga_clock g" "p = p'" "d = d'"
          using step.prems finished(1) by (auto split: sum.splits)
        then show ?thesis using finish_accepts(1) [of lib cr p' d' "ga_clock g" "ga_store g" keyId s] finished by auto
      qed
    qed
  qed simp
  then show "t \<le> ga_clock g" and "ga_clock g < t + NONCE_TTL_SEC * 1000 \<longrightarrow>
    (\<exists>e \<ge> t + NONCE_TTL_SEC * 1000. held (ga_store g) (pd_keyId d) (pd_nonce d) = Some e)" by simp_all
qed

lemma accepted_apart:
  assumes "gate_reachable lib cr ops s0 g"
  shows "sorted_wrt (\<lambda>(t2, _, d2) (t1, _, d1). pd_keyId d2 = pd_keyId d1 \<and> pd_nonce d2 = pd_nonce d1 \<longrightarrow> t1 + NONCE_TTL_SEC * 1000 \<le> t2) (ga_accepted g)"
  using assms
proof (induction rule: gate_reachable.induct)
  case (step g g')
  from step(2) show ?case
  proof cases
    case (finished p d r s)
    have "t1 + NONCE_TTL_SEC * 1000 \<le> ga_clock g"
      if "r = Inr keyId" "(t1, p1, d1) \<in> set (ga_accepted g)" "pd_keyId d = pd_keyId d1" "pd_nonce d = pd_nonce d1" for keyId t1 p1 d1
      using accepted_held(2) [OF step(1) that(2)] finish_accepts(2) [of lib cr p d "ga_clock g" "ga_store g" keyId s] finished(3) that
      by fastforce
    then show ?thesis using step.IH finished(1) by (cases r) auto
  qed (use step.IH in \<open>auto split: sum.splits\<close>)
qed simp

end

subsection \<open>The store in memory\<close>

lemma lookup_sweep: "fmlookup m k = Some e \<Longrightarrow> now < e \<Longrightarrow> fmlookup (sweep a now m) k = Some e"
  by (simp add: sweep_def unexpired_def)

interpretation memory: atomic_nonces "InMemoryNonceStore a" "\<lambda>m p n. fmlookup m (nonce_key p n)" for a
proof
  show "fmlookup s' (nonce_key q k) = Some e"
    if "no_seen (InMemoryNonceStore a) now p n s = (b, s')" "fmlookup s (nonce_key q k) = Some e" "now < e" for now p n s b s' q k e
    using that by (auto simp: InMemoryNonceStore_def memory_seen_def split: option.splits if_splits)
  show "fmlookup s' (nonce_key q k) = Some e"
    if "reserveNonce (InMemoryNonceStore a) now p n ttl s = (b, s')" "fmlookup s (nonce_key q k) = Some e" "now < e" for now p n ttl s b s' q k e
    using that by (auto simp: InMemoryNonceStore_def reserveNonce_def memory_reserve_def lookup_sweep unexpired_def split: if_splits option.splits)
  show "fmlookup s' (nonce_key p n) = Some (now + ttl * 1000)"
    if "reserveNonce (InMemoryNonceStore a) now p n ttl s = (True, s')" for now p n ttl s s'
    using that by (auto simp: InMemoryNonceStore_def reserveNonce_def memory_reserve_def split: if_splits)
  show "e \<le> now" if "reserveNonce (InMemoryNonceStore a) now p n ttl s = (True, s')" "fmlookup s (nonce_key p n) = Some e" for now p n ttl s s' e
    using that by (auto simp: InMemoryNonceStore_def reserveNonce_def memory_reserve_def unexpired_def split: if_splits)
qed

subsection \<open>What the library is relied on for\<close>

fun headers_of :: "message \<Rightarrow> headers" where
  "headers_of (HRequest method url hs) = hs"
| "headers_of (HResponse status hs) = hs"

text \<open>Some signature of the message, under a key the lookup gives, verifies over the base its input describes; \<open>base\<close> is the
  signature base of RFC 9421.\<close>

definition reference_verify ::
  "(string \<Rightarrow> dictionary option) \<Rightarrow> (message \<Rightarrow> (bare \<times> params) list \<Rightarrow> params \<Rightarrow> byte list) \<Rightarrow> verify_config \<Rightarrow> message \<Rightarrow> bool" where
  "reference_verify parse base cfg msg =
     (case (findHeader (headers_of msg) ''signature-input'', findHeader (headers_of msg) ''signature'') of
        (Some i, Some sg) \<Rightarrow> (case (parse i, parse sg) of
           (Some inputs, Some sigs) \<Rightarrow> list_ex (\<lambda>(l, m). case (m, map_of sigs l) of
               (InnerList items ps, Some (Item (BBytes bytes) _)) \<Rightarrow>
                 (case vc_keyLookup cfg (param_text ps ''keyid'') (param_text ps ''tag'') of
                    None \<Rightarrow> False | Some k \<Rightarrow> lk_verify k (base msg items ps) bytes)
             | _ \<Rightarrow> False) inputs
         | _ \<Rightarrow> False)
      | _ \<Rightarrow> False)"

lemma reference_verify_single:
  assumes "findHeader (headers_of msg) ''signature-input'' = Some i" "parse i = Some [(l, m)]"
    and "findHeader (headers_of msg) ''signature'' = Some sg" "parse sg = Some [(l, n)]"
  shows "reference_verify parse base cfg msg \<longleftrightarrow> (\<exists>items ps bytes qs k. m = InnerList items ps \<and> n = Item (BBytes bytes) qs
    \<and> vc_keyLookup cfg (param_text ps ''keyid'') (param_text ps ''tag'') = Some k \<and> lk_verify k (base msg items ps) bytes)"
proof (cases m)
  case (InnerList items ps)
  show ?thesis
  proof (cases n)
    case (Item b qs)
    then show ?thesis using assms InnerList by (cases b) (auto simp: reference_verify_def split: option.splits)
  qed (use assms InnerList in \<open>simp add: reference_verify_def\<close>)
qed (use assms in \<open>simp add: reference_verify_def\<close>)

definition one_name :: "headers \<Rightarrow> bool" where
  "one_name hs \<longleftrightarrow> distinct (map (\<lambda>h. ascii_lower (fst h)) hs)"

text \<open>A verified message is one RFC 9421 verifies; a dictionary has one member per key, and a member that was parsed is
  written so that it parses again.\<close>

definition library_checks :: "http_library \<Rightarrow> (message \<Rightarrow> (bare \<times> params) list \<Rightarrow> params \<Rightarrow> byte list) \<Rightarrow> bool" where
  "library_checks lib base \<longleftrightarrow>
     (\<forall>clock cfg msg. hl_verify lib clock cfg msg = Inr (Some True) \<and> one_name (headers_of msg) \<longrightarrow> reference_verify (hl_parse lib) base cfg msg)
   \<and> (\<forall>h d. hl_parse lib h = Some d \<longrightarrow> distinct (map fst d) \<and> (\<forall>e \<in> set d. hl_parse lib (hl_serialize lib [e]) = Some [e]))"

subsection \<open>What an accepted message is\<close>

definition binds :: "'pk verify_params \<Rightarrow> string set \<Rightarrow> bool" where
  "binds p covered \<longleftrightarrow>
     (if vp_isResponse p then ''@status'' \<in> covered
      else ''@method'' \<in> covered \<and> (''@target-uri'' \<in> covered \<or> {''@authority'', ''@path'', ''@query''} \<subseteq> covered))
   \<and> (has_body (vp_body p) \<longrightarrow> ''content-digest'' \<in> covered)"

definition digest_bound :: "http_library \<Rightarrow> ('sk, 'pk) message_crypto \<Rightarrow> 'pk verify_params \<Rightarrow> bool" where
  "digest_bound lib cr p = (case findHeader (vp_headers p) ''content-digest'' of
     None \<Rightarrow> \<not> has_body (vp_body p)
   | Some h \<Rightarrow> (\<exists>d. hl_parse lib h = Some d \<and> (\<exists>m \<in> set d. map_of SUPPORTED_DIGESTS (fst m) \<noteq> None)
       \<and> (\<forall>(algorithm, m) \<in> set d. \<forall>name. map_of SUPPORTED_DIGESTS algorithm = Some name \<longrightarrow>
            (\<exists>ps. m = Item (BBytes (mc_digest cr name (nullish (vp_body p) []))) ps))))"

lemma digest_members_True:
  "digest_members cr body n d = Inr True \<Longrightarrow>
     (n = 0 \<longrightarrow> (\<exists>m \<in> set d. map_of SUPPORTED_DIGESTS (fst m) \<noteq> None))
   \<and> (\<forall>(algorithm, m) \<in> set d. \<forall>name. map_of SUPPORTED_DIGESTS algorithm = Some name \<longrightarrow> (\<exists>ps. m = Item (BBytes (mc_digest cr name body)) ps))"
proof (induction cr body n d rule: digest_members.induct)
  case (2 cr body n algorithm m rest)
  show ?case
  proof (cases "map_of SUPPORTED_DIGESTS algorithm")
    case None
    then have "algorithm \<noteq> ''constructor''" using 2(3) by (auto split: member.splits bare.splits)
    then show ?thesis using None 2 by simp
  next
    case (Some name)
    then obtain held ps where m: "m = Item (BBytes held) ps" "mc_digest cr name body = held"
      "digest_members cr body (n + 1) rest = Inr True"
      using 2(3) by (auto split: member.splits bare.splits if_splits)
    then show ?thesis using 2(2) [of "BBytes held" ps held name] Some by auto
  qed
qed simp

lemma digest_checked: "check_digest lib cr p = Inr True \<Longrightarrow> digest_bound lib cr p"
  using digest_members_True [of cr "nullish (vp_body p) []" 0]
  by (fastforce simp: check_digest_def digest_bound_def verifyContentDigest_def split: option.splits)

lemma set_inputs_of: "set (inputs_of lib d) = {parsed_input_of lib l items ps |l items ps. (l, InnerList items ps) \<in> set d}"
  by (induction lib d rule: inputs_of.induct) auto

lemma parsed_input_simps [simp]:
  "pi_label (parsed_input_of lib l items ps) = l" "pi_tag (parsed_input_of lib l items ps) = param_text ps ''tag''"
  "pi_fields (parsed_input_of lib l items ps) = map (\<lambda>(b, _). bare_text lib b) items"
  "pi_created (parsed_input_of lib l items ps) = param_number ps ''created''"
  "pi_expires (parsed_input_of lib l items ps) = param_number ps ''expires''"
  "pi_keyId (parsed_input_of lib l items ps) = param_text ps ''keyid''"
  "pi_nonce (parsed_input_of lib l items ps) = param_text ps ''nonce''"
  by (simp_all add: parsed_input_of_def)

lemma check_input_ok:
  assumes "check_input p now input = Inr x"
  obtains created expires where "pi_created input = Some created" "pi_expires input = Some expires"
    "created \<le> now + of_int CLOCK_SKEW_SEC" "now - of_int CLOCK_SKEW_SEC \<le> expires"
    "pi_nonce input \<notin> {None, Some []}" "pi_keyId input \<notin> {None, Some []}" "binds p (set (pi_fields input))"
  using assms by (auto simp: check_input_def binds_def coversRequiredComponents_def Let_def split: option.splits if_splits)

lemma policy_ok:
  assumes "policy lib p now = Inr input"
  obtains header d items ps x where "findHeader (vp_headers p) ''signature-input'' = Some header" "hl_parse lib header = Some d"
    "(pi_label input, InnerList items ps) \<in> set d" "input = parsed_input_of lib (pi_label input) items ps"
    "param_text ps ''tag'' = Some FEDERATION_TAG" "check_input p now input = Inr x"
    "\<forall>l items' ps'. (l, InnerList items' ps') \<in> set d \<and> param_text ps' ''tag'' = Some FEDERATION_TAG \<longrightarrow> l = pi_label input"
proof -
  obtain header d x where h: "findHeader (vp_headers p) ''signature-input'' = Some header" "hl_parse lib header = Some d"
    "check_input p now input = Inr x" and one: "filter (\<lambda>c. pi_tag c = Some FEDERATION_TAG) (inputs_of lib d) = [input]"
    using assms by (auto simp: policy_def parseSignatureInputs_def bindE_eq_Inr split: option.splits if_splits list.splits)
  have mem: "c \<in> set (inputs_of lib d) \<and> pi_tag c = Some FEDERATION_TAG \<longleftrightarrow> c = input" for c
    using arg_cong [OF one, of set] by auto
  then have "input \<in> set (inputs_of lib d)" "pi_tag input = Some FEDERATION_TAG" by blast+
  then obtain l items ps where "input = parsed_input_of lib l items ps" "(l, InnerList items ps) \<in> set d"
    by (auto simp: set_inputs_of)
  moreover from this have "pi_label input = l" by simp
  ultimately have i: "input = parsed_input_of lib (pi_label input) items ps" "(pi_label input, InnerList items ps) \<in> set d" by metis+
  have "param_text ps ''tag'' = Some FEDERATION_TAG" using i(1) \<open>pi_tag input = Some FEDERATION_TAG\<close>
    by (metis parsed_input_simps(2))
  moreover have "l = pi_label input" if "(l, InnerList items' ps') \<in> set d" "param_text ps' ''tag'' = Some FEDERATION_TAG" for l items' ps'
  proof -
    have "parsed_input_of lib l items' ps' \<in> set (inputs_of lib d)" using that(1) by (auto simp: set_inputs_of)
    then have "parsed_input_of lib l items' ps' = input" using that(2) mem [of "parsed_input_of lib l items' ps'"] by simp
    then show ?thesis by (metis parsed_input_simps(1))
  qed
  ultimately show ?thesis using that [OF h(1,2) i(2,1) _ h(3)] by blast
qed

subsection \<open>Restricting the headers to one signature\<close>

lemma header_simps [simp]:
  "findHeader [] k = None" "findHeader (h # hs) k = (if ascii_lower (fst h) = k then Some (snd h) else findHeader hs k)"
  "header_name [] k = None" "header_name (h # hs) k = (if ascii_lower (fst h) = k then Some (fst h) else header_name hs k)"
  by (simp_all add: findHeader_def header_name_def)

lemma header_name_lower: "header_name hs k = Some n \<Longrightarrow> ascii_lower n = k \<and> n \<in> fst ` set hs"
  by (induction hs) (auto split: if_splits)

lemma findHeader_map_set:
  "header_name hs k = Some n \<Longrightarrow> findHeader (map_set n v hs) k' = (if k' = k then Some v else findHeader hs k')"
  by (induction n v hs rule: map_set.induct) (auto split: if_splits dest: header_name_lower)

lemma header_name_map_set:
  "header_name (map_set n v hs) k = (if header_name hs k = None \<and> ascii_lower n = k then Some n else header_name hs k)"
  by (induction n v hs rule: map_set.induct) auto

lemma header_value: "header_name hs k = Some n \<Longrightarrow> findHeader hs k = map_of hs n"
  by (induction hs) (auto split: if_splits dest: header_name_lower)

lemma map_set_names: "n \<in> fst ` set hs \<Longrightarrow> map fst (map_set n v hs) = map fst hs"
  using map_set_keys [of n hs v] by simp

lemma restricted:
  assumes "restrictToLabel lib hs label = Some hs'"
  obtains i sg inputDict sigDict inputEntry sigEntry where
    "findHeader hs ''signature-input'' = Some i" "hl_parse lib i = Some inputDict" "map_of inputDict label = Some inputEntry"
    "findHeader hs ''signature'' = Some sg" "hl_parse lib sg = Some sigDict" "map_of sigDict label = Some sigEntry"
    "findHeader hs' ''signature-input'' = Some (hl_serialize lib [(label, inputEntry)])"
    "findHeader hs' ''signature'' = Some (hl_serialize lib [(label, sigEntry)])"
    "\<forall>name. name \<notin> {''signature'', ''signature-input''} \<longrightarrow> findHeader hs' name = findHeader hs name"
    "one_name hs \<longrightarrow> one_name hs'"
proof -
  obtain ni ns inputDict sigDict inputEntry sigEntry where n: "header_name hs ''signature-input'' = Some ni" "header_name hs ''signature'' = Some ns"
    and d: "hl_parse lib (the (map_of hs ni)) = Some inputDict" "hl_parse lib (the (map_of hs ns)) = Some sigDict"
    and e: "map_of inputDict label = Some inputEntry" "map_of sigDict label = Some sigEntry"
    and hs': "hs' = map_set ns (hl_serialize lib [(label, sigEntry)]) (map_set ni (hl_serialize lib [(label, inputEntry)]) hs)"
    using assms by (auto simp: restrictToLabel_def split: option.splits)
  obtain i sg where v: "findHeader hs ''signature-input'' = Some i" "findHeader hs ''signature'' = Some sg"
    using n by (auto simp: header_name_def findHeader_def)
  have looked: "the (map_of hs ni) = i" "the (map_of hs ns) = sg" using header_value n v by fastforce+
  have n2: "header_name (map_set ni x hs) ''signature'' = Some ns" for x using n by (simp add: header_name_map_set)
  have "ni \<in> fst ` set hs" "ns \<in> fst ` set hs" using n header_name_lower by blast+
  then have "map fst hs' = map fst hs" by (metis hs' map_set_names set_map)
  then have names: "map (\<lambda>h. ascii_lower (fst h)) hs' = map (\<lambda>h. ascii_lower (fst h)) hs" by (metis (no_types, lifting) map_map comp_def map_eq_conv)
  show ?thesis
    by (rule that [OF v(1) _ e(1) v(2) _ e(2)])
      (use d looked names in \<open>simp_all add: hs' findHeader_map_set [OF n2] findHeader_map_set [OF n(1)] one_name_def\<close>)
qed

lemma accepted_obtains:
  assumes "verifyMessage lib cr ops p c0 c1 c2 s = Inr (Inr keyId, s')" and "library_checks lib base"
    and "one_name (vp_headers p)"
  obtains pk header dict label items ps hs sig created expires where
    "vp_resolve p keyId = Inr (Some pk)" "findHeader (vp_headers p) ''signature-input'' = Some header" "hl_parse lib header = Some dict"
    "(label, InnerList items ps) \<in> set dict"
    "\<forall>l items' ps'. (l, InnerList items' ps') \<in> set dict \<and> param_text ps' ''tag'' = Some FEDERATION_TAG \<longrightarrow> l = label"
    "param_text ps ''tag'' = Some FEDERATION_TAG" "param_text ps ''keyid'' = Some keyId" "param_text ps ''nonce'' \<notin> {None, Some []}"
    "param_number ps ''created'' = Some created" "created \<le> nullish (vp_now p) (of_int (c0 div 1000)) + 30"
    "param_number ps ''expires'' = Some expires" "nullish (vp_now p) (of_int (c0 div 1000)) - 30 \<le> expires"
    "binds p (set (map (\<lambda>(b, _). bare_text lib b) items))" "mc_verify cr pk sig (base (received_message p hs) items ps)"
    "\<forall>name. name \<notin> {''signature'', ''signature-input''} \<longrightarrow> findHeader hs name = findHeader (vp_headers p) name"
    "digest_bound lib cr p"
proof -
  let ?now = "nullish (vp_now p) (of_int (c0 div 1000))"
  obtain d s1 where start: "begin_verify lib cr ops p c0 c1 s = Inr (Inr d, s1)"
    and finish: "finish_verify lib cr ops p d c2 s1 = (Inr keyId, s')"
    using assms(1) by (auto simp: verifyMessage_def split: sum.splits)
  obtain input where i: "check_digest lib cr p = Inr True" "policy lib p ?now = Inr input" "pd_label d = pi_label input"
    "pd_keyId d = the (pi_keyId input)" "vp_resolve p (the (pi_keyId input)) = Inr (Some (pd_key d))"
    using start by (auto simp: begin_verify_def Let_def split: if_splits sum.splits option.splits prod.splits bool.splits)
  obtain header dict items ps x where h: "findHeader (vp_headers p) ''signature-input'' = Some header" "hl_parse lib header = Some dict"
    "(pi_label input, InnerList items ps) \<in> set dict" and inp: "input = parsed_input_of lib (pi_label input) items ps"
    and tag: "param_text ps ''tag'' = Some FEDERATION_TAG" and x: "check_input p ?now input = Inr x"
    and one: "\<forall>l items' ps'. (l, InnerList items' ps') \<in> set dict \<and> param_text ps' ''tag'' = Some FEDERATION_TAG \<longrightarrow> l = pi_label input"
    by (rule policy_ok [OF i(2)])
  have params: "pi_created input = param_number ps ''created''" "pi_expires input = param_number ps ''expires''"
    "pi_keyId input = param_text ps ''keyid''" "pi_nonce input = param_text ps ''nonce''"
    "pi_fields input = map (\<lambda>(b, _). bare_text lib b) items" by (subst inp, simp)+
  obtain created expires where c: "pi_created input = Some created" "pi_expires input = Some expires"
    "created \<le> ?now + of_int CLOCK_SKEW_SEC" "?now - of_int CLOCK_SKEW_SEC \<le> expires"
    "pi_nonce input \<notin> {None, Some []}" "pi_keyId input \<notin> {None, Some []}" "binds p (set (pi_fields input))"
    by (rule check_input_ok [OF x])
  obtain hs where hs: "restrictToLabel lib (vp_headers p) (pd_label d) = Some hs" and keyId: "keyId = pd_keyId d"
    and verified: "hl_verify lib c2 (verify_config_of cr d) (received_message p hs) = Inr (Some True)"
    using finish by (auto simp: finish_verify_def split: option.splits if_splits prod.splits bool.splits)
  have key: "param_text ps ''keyid'' = Some keyId" using c(6) params(3) keyId i(4) by auto
  obtain i' sg inputDict sigDict inputEntry sigEntry where r: "findHeader (vp_headers p) ''signature-input'' = Some i'"
    "hl_parse lib i' = Some inputDict" "map_of inputDict (pd_label d) = Some inputEntry"
    "hl_parse lib sg = Some sigDict" "map_of sigDict (pd_label d) = Some sigEntry"
    and hs_in: "findHeader hs ''signature-input'' = Some (hl_serialize lib [(pd_label d, inputEntry)])"
    and hs_sig: "findHeader hs ''signature'' = Some (hl_serialize lib [(pd_label d, sigEntry)])"
    and rest: "\<forall>name. name \<notin> {''signature'', ''signature-input''} \<longrightarrow> findHeader hs name = findHeader (vp_headers p) name"
    and names: "one_name (vp_headers p) \<longrightarrow> one_name hs"
    by (rule restricted [OF hs]) blast
  have "inputDict = dict" using r(1,2) h(1,2) by simp
  moreover have "distinct (map fst dict)" using assms(2) h(2) by (simp add: library_checks_def)
  ultimately have entry: "inputEntry = InnerList items ps" using r(3) h(3) i(3) by simp
  have parsed: "hl_parse lib (hl_serialize lib [(pd_label d, inputEntry)]) = Some [(pd_label d, inputEntry)]"
    "hl_parse lib (hl_serialize lib [(pd_label d, sigEntry)]) = Some [(pd_label d, sigEntry)]"
    using assms(2) map_of_SomeD [OF r(3)] map_of_SomeD [OF r(5)] r(2,4) by (auto simp: library_checks_def)
  have headers: "headers_of (received_message p hs) = hs" by (simp add: received_message_def)
  have "reference_verify (hl_parse lib) base (verify_config_of cr d) (received_message p hs)"
    using conjunct1 [OF assms(2) [unfolded library_checks_def], rule_format, of c2 "verify_config_of cr d" "received_message p hs"]
      verified names assms(3) by (simp add: headers)
  then obtain sig where "mc_verify cr (pd_key d) sig (base (received_message p hs) items ps)"
    using reference_verify_single [where msg = "received_message p hs", OF _ parsed(1) _ parsed(2)] hs_in hs_sig
    by (auto simp: headers entry verify_config_of_def split: if_splits)
  moreover have "vp_resolve p keyId = Inr (Some (pd_key d))" using i(4,5) keyId by simp
  moreover have "param_text ps ''nonce'' \<notin> {None, Some []}" "binds p (set (map (\<lambda>(b, _). bare_text lib b) items))"
    using c(5,7) unfolding params by blast+
  moreover have "param_number ps ''created'' = Some created" "param_number ps ''expires'' = Some expires"
    using c(1,2) unfolding params by blast+
  moreover have "created \<le> ?now + 30" "?now - 30 \<le> expires" using c(3,4) by (simp_all add: CLOCK_SKEW_SEC_def)
  ultimately show ?thesis
    using that h one tag key rest digest_checked [OF i(1)] by blast
qed

text \<open>C23. An accepted message was signed for exactly what was received: its one federation signature names a key the
  receiver resolved, that key verifies it over a base that covers the method and the whole target (of a response, the
  status), its times are within the skew of the receiver's clock, it has a nonce, and the body is the one its covered
  digest names; a message with two federation signatures, or with a body no digest covers, is never accepted.\<close>

theorem accepted_message:
  assumes "verifyMessage lib cr ops p c0 c1 c2 s = Inr (Inr keyId, s')" and "library_checks lib base"
    and "one_name (vp_headers p)"
  shows "\<exists>pk header dict label items ps hs sig created expires.
      vp_resolve p keyId = Inr (Some pk)
    \<and> findHeader (vp_headers p) ''signature-input'' = Some header \<and> hl_parse lib header = Some dict
    \<and> (label, InnerList items ps) \<in> set dict
    \<and> (\<forall>l items' ps'. (l, InnerList items' ps') \<in> set dict \<and> param_text ps' ''tag'' = Some FEDERATION_TAG \<longrightarrow> l = label)
    \<and> param_text ps ''tag'' = Some FEDERATION_TAG \<and> param_text ps ''keyid'' = Some keyId
    \<and> param_text ps ''nonce'' \<notin> {None, Some []}
    \<and> param_number ps ''created'' = Some created \<and> created \<le> nullish (vp_now p) (of_int (c0 div 1000)) + 30
    \<and> param_number ps ''expires'' = Some expires \<and> nullish (vp_now p) (of_int (c0 div 1000)) - 30 \<le> expires
    \<and> binds p (set (map (\<lambda>(b, _). bare_text lib b) items))
    \<and> mc_verify cr pk sig (base (received_message p hs) items ps)
    \<and> (\<forall>name. name \<notin> {''signature'', ''signature-input''} \<longrightarrow> findHeader hs name = findHeader (vp_headers p) name)
    \<and> digest_bound lib cr p"
  by (rule accepted_obtains [OF assms]) blast

text \<open>C24. No signature is accepted twice while its nonce is held: however the verifications of a run interleave over one
  in-memory store, two acceptances of one nonce under one key are at least ninety seconds apart.\<close>

theorem accepted_once:
  assumes "gate_reachable lib cr (InMemoryNonceStore sweepAt) fmempty g"
  shows "sorted_wrt (\<lambda>(t2, _, d2) (t1, _, d1). pd_keyId d2 = pd_keyId d1 \<and> pd_nonce d2 = pd_nonce d1 \<longrightarrow> t1 + 90000 \<le> t2) (ga_accepted g)"
proof -
  have "NONCE_TTL_SEC = 90" by (simp add: NONCE_TTL_SEC_def EXPIRES_WINDOW_SEC_def CLOCK_SKEW_SEC_def)
  from memory.accepted_apart [OF assms, unfolded this] show ?thesis by simp
qed

subsection \<open>What is signed is accepted\<close>

definition signature_params :: "sign_config \<Rightarrow> params" where
  "signature_params cfg = [(''created'', BNumber (sg_created cfg / 1000)), (''expires'', BNumber (sg_expires cfg / 1000)),
     (''keyid'', BString (sg_id cfg)), (''nonce'', BString (sg_nonce cfg)), (''tag'', BString (sg_tag cfg))]"

definition signature_items :: "sign_config \<Rightarrow> (bare \<times> params) list" where
  "signature_items cfg = map (\<lambda>f. (BString f, [])) (sg_fields cfg)"

text \<open>Signing adds the two headers to those of the message, the signature being over the base of RFC 9421.\<close>

definition library_signs :: "http_library \<Rightarrow> (message \<Rightarrow> (bare \<times> params) list \<Rightarrow> params \<Rightarrow> byte list) \<Rightarrow> sign_config \<Rightarrow> message \<Rightarrow> bool" where
  "library_signs lib base cfg msg \<longleftrightarrow> (\<exists>i sg.
     hl_sign lib cfg msg = Inr (map (\<lambda>(n, v). (n, One v)) (headers_of msg) @ [(''Signature'', One sg), (''Signature-Input'', One i)])
   \<and> hl_parse lib i = Some [(sg_name cfg, InnerList (signature_items cfg) (signature_params cfg))]
   \<and> hl_parse lib sg = Some [(sg_name cfg, Item (BBytes (sg_sign cfg (base msg (signature_items cfg) (signature_params cfg)))) [])])"

text \<open>What the documentation of the verifier promises of a message with one signature: it is accepted when the lookup gives a
  key for its parameters, the key allows its algorithm if it names one, the signature was not created after \<open>notAfter\<close> and has
  not expired on the library's clock, both give or take \<open>tolerance\<close>, and the key verifies it over the signature base.\<close>

definition timely :: "int \<Rightarrow> verify_config \<Rightarrow> params \<Rightarrow> bool" where
  "timely clock cfg ps \<longleftrightarrow>
     (case param_number ps ''created'' of None \<Rightarrow> True | Some t \<Rightarrow> t - vc_tolerance cfg \<le> vc_notAfter cfg)
   \<and> (case param_number ps ''expires'' of None \<Rightarrow> True | Some t \<Rightarrow> of_int (clock div 1000) \<le> t + vc_tolerance cfg)"

definition allowed_alg :: "lib_key \<Rightarrow> params \<Rightarrow> bool" where
  "allowed_alg k ps \<longleftrightarrow> (case map_of ps ''alg'' of None \<Rightarrow> True | Some (BString a) \<Rightarrow> a \<in> set (lk_algs k) | _ \<Rightarrow> False)"

definition library_accepts :: "http_library \<Rightarrow> (message \<Rightarrow> (bare \<times> params) list \<Rightarrow> params \<Rightarrow> byte list) \<Rightarrow> bool" where
  "library_accepts lib base \<longleftrightarrow> (\<forall>clock cfg msg i sg l items ps bytes qs k. one_name (headers_of msg)
     \<and> findHeader (headers_of msg) ''signature-input'' = Some i \<and> hl_parse lib i = Some [(l, InnerList items ps)]
     \<and> findHeader (headers_of msg) ''signature'' = Some sg \<and> hl_parse lib sg = Some [(l, Item (BBytes bytes) qs)]
     \<and> vc_keyLookup cfg (param_text ps ''keyid'') (param_text ps ''tag'') = Some k \<and> allowed_alg k ps \<and> timely clock cfg ps
     \<and> lk_verify k (base msg items ps) bytes
     \<longrightarrow> hl_verify lib clock cfg msg = Inr (Some True))"

text \<open>The base is read off the first line and the headers the items name.\<close>

definition base_covers :: "(message \<Rightarrow> (bare \<times> params) list \<Rightarrow> params \<Rightarrow> byte list) \<Rightarrow> bool" where
  "base_covers base \<longleftrightarrow> (\<forall>hs hs' items ps. (\<forall>f. BString f \<in> fst ` set items \<longrightarrow> findHeader hs f = findHeader hs' f) \<longrightarrow>
     (\<forall>m u. base (HRequest m u hs) items ps = base (HRequest m u hs') items ps)
   \<and> (\<forall>status. base (HResponse status hs) items ps = base (HResponse status hs') items ps))"

definition unsigned :: "headers \<Rightarrow> bool" where
  "unsigned hs \<longleftrightarrow> one_name hs \<and> (\<forall>n \<in> {''content-digest'', ''signature'', ''signature-input''}. findHeader hs n = None)"

lemma findHeader_append: "findHeader (hs @ hs') n = (case findHeader hs n of None \<Rightarrow> findHeader hs' n | Some v \<Rightarrow> Some v)"
  by (induction hs) auto

lemma findHeader_None: "findHeader hs n = None \<longleftrightarrow> n \<notin> (\<lambda>h. ascii_lower (fst h)) ` set hs"
  by (induction hs) auto

lemma lower_names [simp]: "ascii_lower ''Content-Digest'' = ''content-digest''" "ascii_lower ''Signature'' = ''signature''"
  "ascii_lower ''Signature-Input'' = ''signature-input''"
  by (code_simp)+

lemma map_set_new: "n \<notin> fst ` set hs \<Longrightarrow> map_set n v hs = hs @ [(n, v)]"
  by (induction n v hs rule: map_set.induct) auto

lemma signed_headers_eq:
  assumes "unsigned (sp_headers p)"
  shows "signed_headers cr p = sp_headers p @ (if has_body (sp_body p) then [(''Content-Digest'', contentDigest cr (the (sp_body p)) ''sha-256'')] else [])"
proof -
  have "findHeader (sp_headers p) ''content-digest'' = None" using assms by (simp add: unsigned_def)
  then have "''Content-Digest'' \<notin> fst ` set (sp_headers p)" by (force simp: findHeader_None image_iff)
  then show ?thesis by (simp add: signed_headers_def map_set_new)
qed

lemma cover_headers_fields:
  "cover_headers hs names fs = Inr fs' \<Longrightarrow> set fs \<subseteq> set fs' \<and> (\<forall>f \<in> set fs'. f \<in> set fs \<or> findHeader hs f \<noteq> None)"
proof (induction names arbitrary: fs)
  case (Cons name names)
  then show ?case by (fastforce simp: Let_def split: if_splits)
qed simp

lemma covered_fields:
  assumes "signed_fields cr p = Inr fs" and "findHeader (signed_headers cr p) ''signature'' = None"
    and "findHeader (signed_headers cr p) ''signature-input'' = None"
  shows "sp_isResponse p \<Longrightarrow> ''@status'' \<in> set fs" "\<not> sp_isResponse p \<Longrightarrow> {''@method'', ''@target-uri''} \<subseteq> set fs"
    "has_body (sp_body p) \<Longrightarrow> ''content-digest'' \<in> set fs" "f \<in> set fs \<Longrightarrow> f \<notin> {''signature'', ''signature-input''}"
proof -
  define fs0 where "fs0 = (if sp_isResponse p then [''@status''] else [''@method'', ''@target-uri''])
    @ content_fields (signed_headers cr p) (has_body (sp_body p))"
  have "set fs0 \<subseteq> set fs" and "f \<in> set fs \<Longrightarrow> f \<in> set fs0 \<or> findHeader (signed_headers cr p) f \<noteq> None"
    using cover_headers_fields [OF assms(1) [unfolded signed_fields_def, folded fs0_def]] by blast+
  moreover have "set fs0 \<subseteq> {''@status'', ''@method'', ''@target-uri'', ''content-type'', ''content-digest''}"
    by (auto simp: fs0_def content_fields_def)
  ultimately show "f \<in> set fs \<Longrightarrow> f \<notin> {''signature'', ''signature-input''}" using assms(2,3) by auto
  show "sp_isResponse p \<Longrightarrow> ''@status'' \<in> set fs" "\<not> sp_isResponse p \<Longrightarrow> {''@method'', ''@target-uri''} \<subseteq> set fs"
    "has_body (sp_body p) \<Longrightarrow> ''content-digest'' \<in> set fs"
    using \<open>set fs0 \<subseteq> set fs\<close> by (auto simp: fs0_def content_fields_def split: if_splits)
qed

lemma check_input_accepts:
  assumes "binds p (set (pi_fields input))" and "pi_keyId input = Some k" "k \<noteq> []" and "pi_nonce input = Some n" "n \<noteq> []"
    and "pi_created input = Some created" "pi_expires input = Some expires" "created \<le> now + 30" "now \<le> expires + 30"
  shows "check_input p now input = Inr (k, n)"
  using assms by (auto simp: check_input_def binds_def coversRequiredComponents_def CLOCK_SKEW_SEC_def Let_def split: if_splits)

lemma flatten_one: "map flatten_header (map (\<lambda>(n, v). (n, One v)) hs) = hs"
  by (induction hs) (auto simp: flatten_header_def)

lemma signed_shape:
  assumes "signMessage lib cr sp clock uuid = Inr hs"
    and "\<And>fs. signed_fields cr sp = Inr fs \<Longrightarrow> library_signs lib base (sign_config_of cr sp (clock div 1000) uuid fs) (message_to_sign cr sp)"
  obtains fs cfg i sg where "signed_fields cr sp = Inr fs" "cfg = sign_config_of cr sp (clock div 1000) uuid fs"
    "hs = signed_headers cr sp @ [(''Signature'', sg), (''Signature-Input'', i)]"
    "hl_parse lib i = Some [(''oc'', InnerList (signature_items cfg) (signature_params cfg))]"
    "hl_parse lib sg = Some [(''oc'', Item (BBytes (mc_sign cr (sp_privateKey sp)
       (base (message_to_sign cr sp) (signature_items cfg) (signature_params cfg)))) [])]"
proof -
  obtain fs where fs: "signed_fields cr sp = Inr fs"
    and sent: "bindE (hl_sign lib (sign_config_of cr sp (clock div 1000) uuid fs) (message_to_sign cr sp)) (\<lambda>s. Inr (map flatten_header s)) = Inr hs"
    using assms(1) by (auto simp: signMessage_def split: if_splits)
  define cfg where "cfg = sign_config_of cr sp (clock div 1000) uuid fs"
  have config: "sg_name cfg = ''oc''" "sg_sign cfg = mc_sign cr (sp_privateKey sp)"
    by (simp_all add: cfg_def sign_config_of_def Let_def SIGNATURE_NAME_def)
  obtain i sg where ig: "hl_sign lib cfg (message_to_sign cr sp)
      = Inr (map (\<lambda>(n, v). (n, One v)) (headers_of (message_to_sign cr sp)) @ [(''Signature'', One sg), (''Signature-Input'', One i)])"
    "hl_parse lib i = Some [(''oc'', InnerList (signature_items cfg) (signature_params cfg))]"
    "hl_parse lib sg = Some [(''oc'', Item (BBytes (mc_sign cr (sp_privateKey sp)
       (base (message_to_sign cr sp) (signature_items cfg) (signature_params cfg)))) [])]"
    using assms(2) [OF fs, folded cfg_def] by (auto simp: library_signs_def config)
  have "headers_of (message_to_sign cr sp) = signed_headers cr sp" by (simp add: message_to_sign_def)
  then have "hs = signed_headers cr sp @ [(''Signature'', sg), (''Signature-Input'', i)]"
    using sent unfolding cfg_def [symmetric] ig(1) by (simp add: flatten_one del: map_map) (simp add: flatten_header_def)
  then show ?thesis using that fs cfg_def ig(2,3) by blast
qed

lemma restricted_to_one:
  assumes "findHeader hs ''signature-input'' = Some i" "hl_parse lib i = Some [(l, InnerList items ps)]"
    and "findHeader hs ''signature'' = Some sg" "hl_parse lib sg = Some [(l, Item (BBytes b) [])]" and "library_checks lib base"
  obtains hs' i' sg' where "restrictToLabel lib hs l = Some hs'" "one_name hs \<longrightarrow> one_name hs'"
    "\<And>f. f \<notin> {''signature'', ''signature-input''} \<Longrightarrow> findHeader hs' f = findHeader hs f"
    "findHeader hs' ''signature-input'' = Some i'" "hl_parse lib i' = Some [(l, InnerList items ps)]"
    "findHeader hs' ''signature'' = Some sg'" "hl_parse lib sg' = Some [(l, Item (BBytes b) [])]"
proof -
  have "header_name hs ''signature-input'' \<noteq> None" "header_name hs ''signature'' \<noteq> None" using assms(1,3) by (auto simp: header_name_def findHeader_def)
  then obtain ni ns where n: "header_name hs ''signature-input'' = Some ni" "header_name hs ''signature'' = Some ns" by blast
  then have "map_of hs ni = Some i" "map_of hs ns = Some sg" using header_value [OF n(1)] header_value [OF n(2)] assms(1,3) by simp_all
  then obtain hs' where restr: "restrictToLabel lib hs l = Some hs'" using n assms(2,4) by (simp add: restrictToLabel_def)
  have parsed: "hl_parse lib (hl_serialize lib [e]) = Some [e]" if "hl_parse lib h = Some [e]" for h e
    using assms(5) that by (auto simp: library_checks_def)
  show ?thesis
  proof (rule restricted [OF restr])
    fix i1 sg1 inputDict sigDict inputEntry sigEntry
    assume r: "findHeader hs ''signature-input'' = Some i1" "hl_parse lib i1 = Some inputDict" "map_of inputDict l = Some inputEntry"
      "findHeader hs ''signature'' = Some sg1" "hl_parse lib sg1 = Some sigDict" "map_of sigDict l = Some sigEntry"
      "findHeader hs' ''signature-input'' = Some (hl_serialize lib [(l, inputEntry)])"
      "findHeader hs' ''signature'' = Some (hl_serialize lib [(l, sigEntry)])"
      and rest: "\<forall>name. name \<notin> {''signature'', ''signature-input''} \<longrightarrow> findHeader hs' name = findHeader hs name"
      and names: "one_name hs \<longrightarrow> one_name hs'"
    have "inputEntry = InnerList items ps" "sigEntry = Item (BBytes b) []" using r assms(1-4) by auto
    then show ?thesis
      using that [OF restr names _ r(7) _ r(8)] rest parsed [OF assms(2)] parsed [OF assms(4)] by blast
  qed
qed

lemma digest_sent:
  assumes "unsigned (sp_headers sp)" and "vp_headers p = signed_headers cr sp @ [(''Signature'', sg), (''Signature-Input'', i)]"
    and "vp_body p = sp_body sp"
    and "has_body (sp_body sp) \<Longrightarrow> hl_parse lib (contentDigest cr (the (sp_body sp)) ''sha-256'')
      = Some [(''sha-256'', Item (BBytes (mc_digest cr ''SHA-256'' (the (sp_body sp)))) [])]"
  shows "check_digest lib cr p = Inr True"
proof -
  have found: "findHeader (vp_headers p) ''content-digest'' =
      (if has_body (sp_body sp) then Some (contentDigest cr (the (sp_body sp)) ''sha-256'') else None)"
    using assms(1) by (simp add: assms(2) signed_headers_eq findHeader_append unsigned_def)
  show ?thesis
  proof (cases "has_body (sp_body sp)")
    case True
    then have "nullish (sp_body sp) [] = the (sp_body sp)" by (auto simp: has_body_def split: option.splits)
    then show ?thesis using assms(4) [OF True] found True
      by (simp add: check_digest_def assms(3) verifyContentDigest_def SUPPORTED_DIGESTS_def)
  next
    case False
    then show ?thesis using found by (simp add: check_digest_def assms(3))
  qed
qed

text \<open>C25. What an instance signs its peer accepts: a message signed with the default tag, nonce and times over headers that
  hold no signature and no digest yet, and received as sent, is accepted by a receiver whose clock is from thirty seconds
  before the signing to ninety after, that resolves the key id to the signer's key and does not hold the nonce. The library's
  own checks of algorithm and times, on its own clock, never stand in the way while that clock is within a century of the
  signing. Of a message with a body it is assumed that the digest header the signer writes parses back to the digest.\<close>

theorem signed_message_accepted:
  assumes signed: "signMessage lib cr sp clock uuid = Inr hs" and plain: "unsigned (sp_headers sp)"
    and signs: "\<And>fs. signed_fields cr sp = Inr fs \<Longrightarrow> library_signs lib base (sign_config_of cr sp (clock div 1000) uuid fs) (message_to_sign cr sp)"
    and lib: "library_checks lib base" "library_accepts lib base" "base_covers base"
    and digest: "has_body (sp_body sp) \<Longrightarrow> hl_parse lib (contentDigest cr (the (sp_body sp)) ''sha-256'')
      = Some [(''sha-256'', Item (BBytes (mc_digest cr ''SHA-256'' (the (sp_body sp)))) [])]"
    and keys: "\<And>d. mc_verify cr pk (mc_sign cr (sp_privateKey sp) d) d" "vp_resolve p (sp_keyId sp) = Inr (Some pk)"
    and received: "vp_method p = sp_method sp" "vp_url p = sp_url sp" "vp_status p = sp_status sp" "vp_headers p = hs"
      "vp_body p = sp_body sp" "vp_isResponse p = sp_isResponse sp"
    and defaults: "sp_keyId sp \<noteq> []" "uuid \<noteq> []" "sp_tag sp = None" "sp_nonce sp = None" "sp_created sp = None" "sp_expires sp = None"
    and clocks: "of_int (clock div 1000) \<le> nullish (vp_now p) (of_int (c0 div 1000)) + 30"
      "nullish (vp_now p) (of_int (c0 div 1000)) \<le> of_int (clock div 1000) + 90"
    and fresh: "\<not> unexpired c1 m (nonce_key (sp_keyId sp) uuid)" "c1 \<le> c2"
    and century: "c2 div 1000 \<le> clock div 1000 + 100 * 365 * 24 * 60 * 60"
  shows "\<exists>m'. verifyMessage lib cr (InMemoryNonceStore sweepAt) p c0 c1 c2 m = Inr (Inr (sp_keyId sp), m')"
proof -
  let ?now = "nullish (vp_now p) (of_int (c0 div 1000)) :: real"
  obtain fs cfg i sg where fs: "signed_fields cr sp = Inr fs" and cfg: "cfg = sign_config_of cr sp (clock div 1000) uuid fs"
    and hs: "hs = signed_headers cr sp @ [(''Signature'', sg), (''Signature-Input'', i)]"
    and ig: "hl_parse lib i = Some [(''oc'', InnerList (signature_items cfg) (signature_params cfg))]"
      "hl_parse lib sg = Some [(''oc'', Item (BBytes (mc_sign cr (sp_privateKey sp)
         (base (message_to_sign cr sp) (signature_items cfg) (signature_params cfg)))) [])]"
    by (rule signed_shape [OF signed signs])
  have none: "findHeader (signed_headers cr sp) ''signature'' = None" "findHeader (signed_headers cr sp) ''signature-input'' = None"
    using plain by (simp_all add: signed_headers_eq findHeader_append unsigned_def)
  have names: "one_name hs" using plain by (auto simp: hs signed_headers_eq one_name_def unsigned_def findHeader_None)
  have found: "findHeader hs ''signature-input'' = Some i" "findHeader hs ''signature'' = Some sg"
    and other: "\<And>f. f \<notin> {''signature'', ''signature-input''} \<Longrightarrow> findHeader hs f = findHeader (signed_headers cr sp) f"
    using none by (auto simp: hs findHeader_append split: option.splits)
  have ps: "param_number (signature_params cfg) ''created'' = Some (of_int (clock div 1000))"
    "param_number (signature_params cfg) ''expires'' = Some (of_int (clock div 1000 + 60))"
    "param_text (signature_params cfg) ''keyid'' = Some (sp_keyId sp)" "param_text (signature_params cfg) ''nonce'' = Some uuid"
    "param_text (signature_params cfg) ''tag'' = Some FEDERATION_TAG"
    using defaults by (simp_all add: signature_params_def param_number_def param_text_def cfg sign_config_of_def EXPIRES_WINDOW_SEC_def Let_def)
  define input where "input = parsed_input_of lib ''oc'' (signature_items cfg) (signature_params cfg)"
  have fields: "pi_fields input = fs"
    by (simp add: input_def signature_items_def bare_text_def cfg sign_config_of_def Let_def comp_def)
  note covered = covered_fields [OF fs none]
  have "check_input p ?now input = Inr (sp_keyId sp, uuid)"
  proof (rule check_input_accepts)
    show "binds p (set (pi_fields input))" using covered(1-3) by (auto simp: binds_def fields received)
  qed (use ps clocks defaults(1,2) in \<open>auto simp: input_def\<close>)
  then have policy: "policy lib p ?now = Inr input"
    using found ig(1) ps(5) by (simp add: policy_def received(4) parseSignatureInputs_def input_def)
  obtain m1 where seen: "memory_seen c1 (sp_keyId sp) uuid m = (False, m1)" "\<not> unexpired c2 m1 (nonce_key (sp_keyId sp) uuid)"
    using fresh by (auto simp: memory_seen_def unexpired_def split: option.splits if_splits)
  define d where "d = \<lparr>pd_label = ''oc'', pd_keyId = sp_keyId sp, pd_nonce = uuid, pd_key = pk, pd_now = ?now\<rparr>"
  have digest_ok: "check_digest lib cr p = Inr True" by (rule digest_sent [OF plain received(4) [unfolded hs] received(5) digest])
  have "pi_keyId input = Some (sp_keyId sp)" "pi_nonce input = Some uuid" "pi_label input = ''oc''" using ps by (simp_all add: input_def)
  then have start: "begin_verify lib cr (InMemoryNonceStore sweepAt) p c0 c1 m = Inr (Inr d, m1)"
    by (simp add: begin_verify_def digest_ok policy keys(2) seen(1) InMemoryNonceStore_def d_def Let_def)
  obtain hs' i' sg' where restr: "restrictToLabel lib hs ''oc'' = Some hs'" and hs': "one_name hs \<longrightarrow> one_name hs'"
    "\<And>f. f \<notin> {''signature'', ''signature-input''} \<Longrightarrow> findHeader hs' f = findHeader hs f"
    and parts: "findHeader hs' ''signature-input'' = Some i'" "hl_parse lib i' = Some [(''oc'', InnerList (signature_items cfg) (signature_params cfg))]"
      "findHeader hs' ''signature'' = Some sg'" "hl_parse lib sg' = Some [(''oc'', Item (BBytes (mc_sign cr (sp_privateKey sp)
         (base (message_to_sign cr sp) (signature_items cfg) (signature_params cfg)))) [])]"
    by (rule restricted_to_one [OF found(1) ig(1) found(2) ig(2) lib(1)]) blast
  have "findHeader hs' f = findHeader (signed_headers cr sp) f" if "BString f \<in> fst ` set (signature_items cfg)" for f
  proof -
    have "f \<in> set fs" using that by (auto simp: signature_items_def cfg sign_config_of_def Let_def)
    then show ?thesis using covered(4) hs'(2) other by metis
  qed
  then have "base (received_message p hs') (signature_items cfg) (signature_params cfg)
      = base (message_to_sign cr sp) (signature_items cfg) (signature_params cfg)"
    using lib(3) by (simp add: base_covers_def received_message_def message_to_sign_def received)
  moreover have headers: "headers_of (received_message p hs') = hs'" by (simp add: received_message_def)
  moreover obtain k where k: "vc_keyLookup (verify_config_of cr d) (param_text (signature_params cfg) ''keyid'') (param_text (signature_params cfg) ''tag'')
      = Some k" "lk_verify k = (\<lambda>data sig. mc_verify cr pk sig data)" by (simp add: verify_config_of_def ps d_def)
  moreover have "allowed_alg k (signature_params cfg)" by (simp add: allowed_alg_def signature_params_def)
  moreover have "timely c2 (verify_config_of cr d) (signature_params cfg)"
  proof -
    have "real_of_int (c2 div 1000) \<le> real_of_int (clock div 1000 + 100 * 365 * 24 * 60 * 60)" using century by (simp only: of_int_le_iff)
    then show ?thesis using clocks(1) by (simp add: timely_def ps verify_config_of_def d_def LIB_TIME_CHECKS_OFF_SEC_def)
  qed
  ultimately have "hl_verify lib c2 (verify_config_of cr d) (received_message p hs') = Inr (Some True)"
    using lib(2) [unfolded library_accepts_def, rule_format, of "received_message p hs'" i' "''oc''" "signature_items cfg" "signature_params cfg" sg'
        "mc_sign cr (sp_privateKey sp) (base (message_to_sign cr sp) (signature_items cfg) (signature_params cfg))" "[]" "verify_config_of cr d" k c2]
      names hs'(1) parts keys(1) by simp
  then show ?thesis
    using start restr seen(2) by (simp add: verifyMessage_def finish_verify_def received(4) d_def reserveNonce_def InMemoryNonceStore_def memory_reserve_def)
qed

subsection \<open>Examples\<close>

definition sample_crypto :: "(unit, unit) message_crypto" where
  "sample_crypto = \<lparr>mc_digest = (\<lambda>name body. body), mc_sign = (\<lambda>_ d. d), mc_verify = (\<lambda>_ sig d. sig = d)\<rparr>"

definition sample_key :: string where
  "sample_key = ''z6MkeXBLjYiSvqnhFb6D7sHm8yKm4jV45wwBFRaatf1cfZ76''"

lemma sample_key_nonempty [simp]: "sample_key \<noteq> []"
  by (simp add: sample_key_def)

definition sample_signing :: "unit sign_params" where
  "sample_signing = \<lparr>sp_method = ''POST'', sp_url = ''https://a.example/inbox'', sp_headers = [(''Content-Type'', ''application/json'')],
     sp_body = Some [1], sp_keyId = sample_key, sp_privateKey = (), sp_created = None, sp_expires = None, sp_nonce = None, sp_tag = None,
     sp_isResponse = False, sp_status = None, sp_coverHeaders = []\<rparr>"

definition text_bytes :: "string \<Rightarrow> byte list" where
  "text_bytes t = map (\<lambda>c. of_nat (of_char c)) t"

definition covered_values :: "headers \<Rightarrow> (bare \<times> params) list \<Rightarrow> byte list" where
  "covered_values hs items = concat (map (\<lambda>(b, _). case b of BString f \<Rightarrow> text_bytes (nullish (findHeader hs f) []) | _ \<Rightarrow> []) items)"

fun sample_base :: "message \<Rightarrow> (bare \<times> params) list \<Rightarrow> params \<Rightarrow> byte list" where
  "sample_base (HRequest m u hs) items ps = text_bytes m @ text_bytes u @ covered_values hs items"
| "sample_base (HResponse status hs) items ps = covered_values hs items"

definition sample_items :: "(bare \<times> params) list" where
  "sample_items = map (\<lambda>f. (BString f, [])) [''@method'', ''@target-uri'', ''content-type'', ''content-digest'']"

definition sample_ps :: params where
  "sample_ps = [(''created'', BNumber 1000), (''expires'', BNumber 1060), (''keyid'', BString sample_key), (''nonce'', BString ''n1''),
     (''tag'', BString FEDERATION_TAG)]"

definition sample_inputs :: dictionary where "sample_inputs = [(''oc'', InnerList sample_items sample_ps)]"

definition sample_sigs :: dictionary where
  "sample_sigs = [(''oc'', Item (BBytes (sample_base (message_to_sign sample_crypto sample_signing) sample_items sample_ps)) [])]"

definition sample_digests :: dictionary where "sample_digests = [(''sha-256'', Item (BBytes [1]) [])]"

definition sample_parse :: "string \<Rightarrow> dictionary option" where
  "sample_parse h = (if h = ''I'' then Some sample_inputs else if h = ''S'' then Some sample_sigs
     else if h = ''sha-256=:AQ==:'' then Some sample_digests else None)"

definition sample_library :: http_library where
  "sample_library = \<lparr>hl_parse = sample_parse,
     hl_serialize = (\<lambda>d. if d = sample_inputs then ''I'' else if d = sample_sigs then ''S'' else ''sha-256=:AQ==:''),
     hl_number = (\<lambda>_. []),
     hl_sign = (\<lambda>cfg msg. Inr (map (\<lambda>(n, v). (n, One v)) (headers_of msg) @ [(''Signature'', One ''S''), (''Signature-Input'', One ''I'')])),
     hl_verify = (\<lambda>clock cfg msg. Inr (Some (reference_verify sample_parse sample_base cfg msg \<and>
       (case Option.bind (findHeader (headers_of msg) ''signature-input'') sample_parse of None \<Rightarrow> False
        | Some inputs \<Rightarrow> list_all (\<lambda>(_, m). case m of InnerList _ ps \<Rightarrow> timely clock cfg ps | _ \<Rightarrow> False) inputs))))\<rparr>"

definition sample_received :: "unit verify_params" where
  "sample_received = \<lparr>vp_method = ''POST'', vp_url = ''https://a.example/inbox'', vp_status = None,
     vp_headers = [(''Content-Type'', ''application/json''), (''Content-Digest'', ''sha-256=:AQ==:''), (''Signature'', ''S''), (''Signature-Input'', ''I'')],
     vp_body = Some [1], vp_isResponse = False, vp_resolve = (\<lambda>_. Inr (Some ())), vp_now = None\<rparr>"

lemma sample_sent: "signMessage sample_library sample_crypto sample_signing 1000000 ''n1'' = Inr (vp_headers sample_received)"
  by code_simp

lemma sample_apart: "sample_inputs \<noteq> sample_sigs" "sample_digests \<noteq> sample_inputs" "sample_digests \<noteq> sample_sigs"
  by (simp_all add: sample_inputs_def sample_sigs_def sample_digests_def)

lemma sample_covers: "base_covers sample_base"
proof -
  have "covered_values hs items = covered_values hs' items"
    if "\<forall>f. BString f \<in> fst ` set items \<longrightarrow> findHeader hs f = findHeader hs' f" for hs hs' items
    using that by (force simp: covered_values_def intro!: arg_cong [of _ _ concat] split: bare.split)
  then show ?thesis by (simp add: base_covers_def)
qed

lemma sample_checks: "library_checks sample_library sample_base"
  using sample_apart
  by (auto simp: library_checks_def sample_library_def sample_parse_def sample_inputs_def [symmetric]
      sample_sigs_def [symmetric] sample_digests_def [symmetric] split: if_splits)
    (auto simp: sample_inputs_def sample_sigs_def sample_digests_def)

lemma sample_accepts: "library_accepts sample_library sample_base"
  unfolding library_accepts_def
  by (auto simp: sample_library_def reference_verify_single)

definition sample_pending :: "int \<Rightarrow> unit pending" where
  "sample_pending c = \<lparr>pd_label = ''oc'', pd_keyId = sample_key, pd_nonce = ''n1'', pd_key = (), pd_now = of_int (c div 1000)\<rparr>"

lemma sample_policy:
  assumes "970 \<le> now" and "now \<le> 1090"
  shows "policy sample_library sample_received now = Inr (parsed_input_of sample_library ''oc'' sample_items sample_ps)"
proof -
  let ?input = "parsed_input_of sample_library ''oc'' sample_items sample_ps"
  have ps: "param_number sample_ps ''created'' = Some 1000" "param_number sample_ps ''expires'' = Some 1060"
    "param_text sample_ps ''keyid'' = Some sample_key" "param_text sample_ps ''nonce'' = Some ''n1''" "param_text sample_ps ''tag'' = Some FEDERATION_TAG"
    by (simp_all add: sample_ps_def param_number_def param_text_def)
  have bounds: "1000 \<le> now + 30" "now \<le> 1060 + 30" using assms by linarith+
  have "check_input sample_received now ?input = Inr (sample_key, ''n1'')"
    by (rule check_input_accepts [where created = 1000 and expires = 1060]) (use bounds in \<open>simp_all add: ps binds_def sample_received_def sample_items_def bare_text_def\<close>)
  moreover have "findHeader (vp_headers sample_received) ''signature-input'' = Some ''I''" "findHeader (vp_headers sample_received) ''signature'' = Some ''S''"
    by code_simp+
  moreover have "parseSignatureInputs sample_library ''I'' = Some [?input]"
    by (simp add: parseSignatureInputs_def sample_library_def sample_parse_def sample_inputs_def parsed_input_of_def bare_text_def)
  ultimately show ?thesis by (simp add: policy_def ps)
qed

lemma sample_begin:
  assumes "970 \<le> c div 1000" and "c div 1000 \<le> 1090" and "\<not> unexpired c1 m (nonce_key sample_key ''n1'')"
  obtains m' where "begin_verify sample_library sample_crypto (InMemoryNonceStore a) sample_received c c1 m = Inr (Inr (sample_pending c), m')"
    "memory_seen c1 sample_key ''n1'' m = (False, m')"
proof -
  have digest: "check_digest sample_library sample_crypto sample_received = Inr True" by code_simp
  have policy: "policy sample_library sample_received (of_int (c div 1000)) = Inr (parsed_input_of sample_library ''oc'' sample_items sample_ps)"
    using assms(1,2) by (intro sample_policy) linarith+
  have ps: "param_text sample_ps ''keyid'' = Some sample_key" "param_text sample_ps ''nonce'' = Some ''n1''"
    by (simp_all add: sample_ps_def param_text_def)
  have opts: "vp_now sample_received = None" "vp_resolve sample_received k = Inr (Some ())" for k by (simp_all add: sample_received_def)
  obtain m' where "memory_seen c1 sample_key ''n1'' m = (False, m')"
    using assms(3) by (auto simp: memory_seen_def unexpired_def split: option.splits)
  then show ?thesis
    using that by (simp add: begin_verify_def digest policy opts ps InMemoryNonceStore_def sample_pending_def Let_def)
qed

lemma sample_finish:
  assumes "\<not> unexpired c2 m (nonce_key sample_key ''n1'')" and "0 \<le> c" and "c2 \<le> 2000000"
  shows "finish_verify sample_library sample_crypto (InMemoryNonceStore a) sample_received (sample_pending c) c2 m
    = (Inr sample_key, fmupd (nonce_key sample_key ''n1'') (c2 + 90000) (sweep a c2 m))"
proof -
  have "restrictToLabel sample_library (vp_headers sample_received) ''oc'' = Some (vp_headers sample_received)" by code_simp
  moreover have "hl_verify sample_library c2 (verify_config_of sample_crypto (sample_pending c)) (received_message sample_received (vp_headers sample_received))
      = Inr (Some True)"
  proof -
    have "findHeader (vp_headers sample_received) ''signature-input'' = Some ''I''" "findHeader (vp_headers sample_received) ''signature'' = Some ''S''"
      by code_simp+
    moreover have "sample_base (received_message sample_received (vp_headers sample_received)) sample_items sample_ps
        = sample_base (message_to_sign sample_crypto sample_signing) sample_items sample_ps" by code_simp
    moreover have "param_text sample_ps ''keyid'' = Some sample_key" "param_text sample_ps ''tag'' = Some FEDERATION_TAG"
      by (simp_all add: sample_ps_def param_text_def)
    moreover have "headers_of (received_message sample_received (vp_headers sample_received)) = vp_headers sample_received"
      by (simp add: received_message_def)
    moreover have "timely c2 (verify_config_of sample_crypto (sample_pending c)) sample_ps"
    proof -
      have "0 \<le> c div 1000" "c2 div 1000 \<le> 2000" using assms(2,3) by linarith+
      then have "0 \<le> real_of_int (c div 1000)" "real_of_int (c2 div 1000) \<le> 2000" by simp_all
      then show ?thesis by (simp add: timely_def verify_config_of_def sample_pending_def LIB_TIME_CHECKS_OFF_SEC_def sample_ps_def param_number_def)
    qed
    ultimately show ?thesis
      by (simp add: sample_library_def reference_verify_def sample_parse_def sample_inputs_def sample_sigs_def)
        (simp add: verify_config_of_def sample_pending_def sample_crypto_def)
  qed
  ultimately show ?thesis using assms
    by (simp add: finish_verify_def sample_pending_def reserveNonce_def InMemoryNonceStore_def memory_reserve_def
        NONCE_TTL_SEC_def EXPIRES_WINDOW_SEC_def CLOCK_SKEW_SEC_def)
qed

text \<open>A peer whose clock is half a minute ahead: its message is accepted as soon as it is sent, and again when the store has
  just forgotten its nonce, although the time to live was to outlast every acceptance.\<close>

lemma ahead_clock_replayed:
  "\<exists>g d1 d2. gate_reachable sample_library sample_crypto (InMemoryNonceStore 4096) fmempty g
     \<and> ga_accepted g = [(1060000, sample_received, d2), (970000, sample_received, d1)]
     \<and> pd_nonce d1 = pd_nonce d2 \<and> pd_keyId d1 = pd_keyId d2"
proof -
  let ?ops = "InMemoryNonceStore 4096" and ?k = "nonce_key sample_key ''n1''"
  let ?reach = "gate_reachable sample_library sample_crypto ?ops fmempty"
  let ?g0 = "\<lparr>ga_store = fmempty, ga_clock = 970000, ga_pending = [], ga_accepted = []\<rparr> :: (nonce_map, unit) gate"
  let ?d1 = "sample_pending 970000" and ?d2 = "sample_pending 1060000"
  have r0: "?reach ?g0" by (rule gate_reachable.start)
  have "\<not> unexpired 970000 fmempty ?k" by (simp add: unexpired_def)
  then obtain m1 where b1: "begin_verify sample_library sample_crypto ?ops sample_received 970000 970000 fmempty = Inr (Inr ?d1, m1)"
    and "memory_seen 970000 sample_key ''n1'' fmempty = (False, m1)" using sample_begin [of 970000 970000 fmempty 4096] by auto
  then have [simp]: "m1 = fmempty" by (simp add: memory_seen_def)
  let ?g1 = "?g0\<lparr>ga_pending := [(sample_received, ?d1)]\<rparr>"
  have r1: "?reach ?g1" using gate_reachable.step [OF r0 gate_step.started, of sample_received 970000 "Inr ?d1" fmempty] b1 by simp
  let ?m2 = "fmupd ?k 1060000 fmempty"
  have f1: "finish_verify sample_library sample_crypto ?ops sample_received ?d1 970000 fmempty = (Inr sample_key, ?m2)"
    by (subst sample_finish) (simp_all add: unexpired_def sweep_def)
  let ?g2 = "\<lparr>ga_store = ?m2, ga_clock = 970000, ga_pending = [], ga_accepted = [(970000, sample_received, ?d1)]\<rparr>"
  have r2: "?reach ?g2" using gate_reachable.step [OF r1 gate_step.finished, of sample_received ?d1 "Inr sample_key" ?m2] f1 by simp
  let ?g3 = "?g2\<lparr>ga_clock := 1060000\<rparr>"
  have r3: "?reach ?g3" by (rule gate_reachable.step [OF r2 gate_step.tick]) simp
  have free: "\<not> unexpired 1060000 ?m2 ?k" by (simp add: unexpired_def)
  obtain m3 where b2: "begin_verify sample_library sample_crypto ?ops sample_received 1060000 1060000 ?m2 = Inr (Inr ?d2, m3)"
    and m3: "memory_seen 1060000 sample_key ''n1'' ?m2 = (False, m3)" using sample_begin [OF _ _ free, of 1060000 4096] by auto
  have r4: "?reach (?g3\<lparr>ga_store := m3, ga_pending := [(sample_received, ?d2)]\<rparr>)"
    using gate_reachable.step [OF r3 gate_step.started, of sample_received 1060000 "Inr ?d2" m3] b2 by simp
  have "\<not> unexpired 1060000 m3 ?k" using m3 by (auto simp: memory_seen_def unexpired_def)
  then have f2: "finish_verify sample_library sample_crypto ?ops sample_received ?d2 1060000 m3 = (Inr sample_key, fmupd ?k 1150000 (sweep 4096 1060000 m3))"
    by (subst sample_finish) simp_all
  let ?g5 = "?g3\<lparr>ga_store := fmupd ?k 1150000 (sweep 4096 1060000 m3), ga_pending := [],
      ga_accepted := [(1060000, sample_received, ?d2), (970000, sample_received, ?d1)]\<rparr>"
  have "?reach ?g5"
    using gate_reachable.step [OF r4 gate_step.finished, of sample_received ?d2 "Inr sample_key"] f2 by simp
  moreover have "ga_accepted ?g5 = [(1060000, sample_received, ?d2), (970000, sample_received, ?d1)]" by simp
  moreover have "pd_nonce ?d1 = pd_nonce ?d2" "pd_keyId ?d1 = pd_keyId ?d2" by (simp_all add: sample_pending_def)
  ultimately show ?thesis by blast
qed

lemma sample_verified: "\<exists>m'. verifyMessage sample_library sample_crypto (InMemoryNonceStore 4096) sample_received 1000000 1000000 1000000 fmempty
    = Inr (Inr sample_key, m')"
proof -
  obtain m1 where b: "begin_verify sample_library sample_crypto (InMemoryNonceStore 4096) sample_received 1000000 1000000 fmempty
      = Inr (Inr (sample_pending 1000000), m1)" and "memory_seen 1000000 sample_key ''n1'' fmempty = (False, m1)"
    using sample_begin [of 1000000 1000000 fmempty 4096] by (auto simp: unexpired_def)
  then have "m1 = fmempty" by (simp add: memory_seen_def)
  then show ?thesis using b by (simp add: verifyMessage_def sample_finish unexpired_def)
qed

theorem accepted_message_witness:
  "\<exists>items ps sig hs. param_text ps ''keyid'' = Some sample_key \<and> mc_verify sample_crypto () sig (sample_base (received_message sample_received hs) items ps)
    \<and> binds sample_received (set (map (\<lambda>(b, _). bare_text sample_library b) items)) \<and> digest_bound sample_library sample_crypto sample_received"
proof -
  obtain m' where "verifyMessage sample_library sample_crypto (InMemoryNonceStore 4096) sample_received 1000000 1000000 1000000 fmempty = Inr (Inr sample_key, m')"
    using sample_verified by blast
  moreover have "one_name (vp_headers sample_received)" by code_simp
  ultimately show ?thesis using accepted_message [OF _ sample_checks(1)] by fastforce
qed

theorem accepted_once_witness:
  "\<exists>g. gate_reachable sample_library sample_crypto (InMemoryNonceStore 4096) fmempty g \<and> length (ga_accepted g) = 2
    \<and> sorted_wrt (\<lambda>(t2, _, d2) (t1, _, d1). pd_keyId d2 = pd_keyId d1 \<and> pd_nonce d2 = pd_nonce d1 \<longrightarrow> t1 + 90000 \<le> t2) (ga_accepted g)"
proof -
  obtain g d1 d2 where "gate_reachable sample_library sample_crypto (InMemoryNonceStore 4096) fmempty g"
    and "ga_accepted g = [(1060000, sample_received, d2), (970000, sample_received, d1)]"
    using ahead_clock_replayed by blast
  then show ?thesis using accepted_once by (intro exI [of _ g]) auto
qed

theorem signed_message_accepted_witness:
  "\<exists>m'. verifyMessage sample_library sample_crypto (InMemoryNonceStore 4096) sample_received 1000000 1000000 1000000 fmempty
    = Inr (Inr (sp_keyId sample_signing), m')"
proof (rule signed_message_accepted [OF sample_sent, where base = sample_base])
  show "unsigned (sp_headers sample_signing)" by (simp add: unsigned_def sample_signing_def one_name_def ascii_lower_def)
next
  fix fs assume "signed_fields sample_crypto sample_signing = Inr fs"
  moreover have "signed_fields sample_crypto sample_signing = Inr [''@method'', ''@target-uri'', ''content-type'', ''content-digest'']" by code_simp
  ultimately have fs: "fs = [''@method'', ''@target-uri'', ''content-type'', ''content-digest'']" by simp
  let ?cfg = "sign_config_of sample_crypto sample_signing (1000000 div 1000) ''n1'' fs"
  have "signature_items ?cfg = sample_items" "signature_params ?cfg = sample_ps" "sg_name ?cfg = ''oc''" "sg_sign ?cfg = (\<lambda>d. d)"
    by (simp_all add: signature_items_def signature_params_def sign_config_of_def sample_items_def sample_ps_def fs sample_signing_def
        sample_crypto_def EXPIRES_WINDOW_SEC_def SIGNATURE_NAME_def Let_def)
  then show "library_signs sample_library sample_base ?cfg (message_to_sign sample_crypto sample_signing)"
    unfolding library_signs_def
    by (intro exI [of _ "''I''"] exI [of _ "''S''"])
      (simp add: sample_library_def sample_parse_def sample_inputs_def sample_sigs_def)
next
  show "hl_parse sample_library (contentDigest sample_crypto (the (sp_body sample_signing)) ''sha-256'')
      = Some [(''sha-256'', Item (BBytes (mc_digest sample_crypto ''SHA-256'' (the (sp_body sample_signing)))) [])]"
  proof -
    have "contentDigest sample_crypto (the (sp_body sample_signing)) ''sha-256'' = ''sha-256=:AQ==:''" by code_simp
    then show ?thesis by (simp add: sample_library_def sample_parse_def sample_digests_def sample_crypto_def sample_signing_def)
  qed
qed (simp_all add: sample_checks sample_accepts sample_covers sample_crypto_def sample_received_def sample_signing_def unexpired_def)

text \<open>A digest header that names \<open>constructor\<close> makes the verification throw.\<close>

lemma constructor_digest_throws:
  "digest_members cr body n ((''constructor'', Item (BBytes b) ps) # rest) = Inl (JsError ''NotSupportedError'')"
  by (simp add: SUPPORTED_DIGESTS_def)

end
