(* ===== verification/Peer_Trust.thy ===== *)
theory Peer_Trust
  imports Http_Signature Multibase
begin

text \<open>
  Which keys an instance trusts of its peers: packages/federation/src/peers.ts (the pin), peer-keys.ts (keys a peer
  rotated to), the endorsements of keys.ts, mergePeerRecords of registry-sync.ts, services/federation/src/peer-book.ts
  and the authentication of a request by peer-auth.ts.

  \<^item> A peer record holds the fields these read. A Map is the list of its entries in the order of their insertion.
  \<^item> An actor document is as fetched: an entry of its key list that is null is \<open>None\<close>, a key or an endorsement whose texts
    are not texts is none. WebCrypto is \<open>key_crypto\<close>, a parameter.
  \<^item> The table of learned keys is what the book stores; it comes back in any order. A run of the service is its
    configurations, registry syncs, refreshes of a peer from a fetched document and reloads, in any order.
\<close>

subsection \<open>Endorsements\<close>

record key_endorsement =
  ke_by :: string
  ke_signature :: string
  ke_proof :: string

record 'pk key_crypto =
  kc_import :: "byte list \<Rightarrow> js_error + 'pk"
  kc_verify :: "'pk \<Rightarrow> byte list \<Rightarrow> byte list \<Rightarrow> bool"

text \<open>\<open>TextEncoder\<close> on characters below 256.\<close>

definition utf8_char :: "char \<Rightarrow> byte list" where
  "utf8_char c = (let n = of_char c :: nat in
     if n < 128 then [of_nat n] else [of_nat (192 + n div 64), of_nat (128 + n mod 64)])"

definition utf8 :: "string \<Rightarrow> byte list" where
  "utf8 t = concat (map utf8_char t)"

text \<open>\<open>Buffer.from(t, "base64url")\<close>: digits of both alphabets, anything else skipped, up to the first padding.\<close>

definition sextet :: "char \<Rightarrow> nat option" where
  "sextet c = (if c = CHR ''+'' then Some 62 else if c = CHR ''/'' then Some 63 else map_option unat (REVERSE c))"

fun sextet_bytes :: "nat list \<Rightarrow> byte list" where
  "sextet_bytes (a # b # c # d # rest) =
     of_nat (a * 4 + b div 16) # of_nat (b mod 16 * 16 + c div 4) # of_nat (c mod 4 * 64 + d) # sextet_bytes rest"
| "sextet_bytes [a, b, c] = [of_nat (a * 4 + b div 16), of_nat (b mod 16 * 16 + c div 4)]"
| "sextet_bytes [a, b] = [of_nat (a * 4 + b div 16)]"
| "sextet_bytes _ = []"

definition buffer_base64 :: "string \<Rightarrow> byte list" where
  "buffer_base64 t = sextet_bytes (List.map_filter sextet (takeWhile (\<lambda>c. c \<noteq> CHR ''='') t))"

definition endorsementMessage :: "string \<Rightarrow> string \<Rightarrow> byte list" where
  "endorsementMessage instanceId keyId =
     utf8 (''openconditions-federation key endorsement'' @ [CHR 0x0A] @ instanceId @ [CHR 0x0A] @ keyId)"

definition verifiedBy :: "'pk key_crypto \<Rightarrow> string \<Rightarrow> string \<Rightarrow> byte list \<Rightarrow> js_error + bool" where
  "verifiedBy cr keyId signature message =
     bindE (rawEd25519FromMultibase keyId) (\<lambda>raw. bindE (kc_import cr raw) (\<lambda>key.
       Inr (kc_verify cr key (buffer_base64 signature) message)))"

definition verifyEndorsement :: "'pk key_crypto \<Rightarrow> string \<Rightarrow> string \<Rightarrow> key_endorsement \<Rightarrow> bool" where
  "verifyEndorsement cr instanceId keyId e =
     (let message = endorsementMessage instanceId keyId in
      case bindE (verifiedBy cr (ke_by e) (ke_signature e) message) (\<lambda>ok.
             if ok then verifiedBy cr keyId (ke_proof e) message else Inr False) of
        Inl _ \<Rightarrow> False | Inr ok \<Rightarrow> ok)"

subsection \<open>Peers and their documents\<close>

record peer =
  pr_instanceId :: string
  pr_actorUrl :: string
  pr_trustTier :: nat
  pr_pinnedKeys :: "string list"

record served_key =
  ak_key :: "string option"
  ak_endorsement :: "key_endorsement option"

record actor_document =
  ad_id :: string
  ad_publicKey :: "served_key option list option"

definition served_keys :: "actor_document \<Rightarrow> served_key option list" where
  "served_keys actor = nullish (ad_publicKey actor) []"

text \<open>The keys of an actor document the pins name, or why it fails them.\<close>

definition verifyActorAgainstPin :: "actor_document \<Rightarrow> peer \<Rightarrow> js_error + (string + string list)" where
  "verifyActorAgainstPin actor p =
     (if pr_pinnedKeys p = [] then Inr (Inl ''pins no keys'')
      else if ad_id actor \<noteq> pr_actorUrl p then Inr (Inl ''actor id does not match the pinned actorUrl'')
      else if served_keys actor = [] then Inr (Inl ''serves no public keys'')
      else if None \<in> set (served_keys actor) then Inl (TypeError ''Cannot read properties of null'')
      else (let matched = filter (\<lambda>k. k \<in> set (pr_pinnedKeys p)) (List.map_filter (\<lambda>k. Option.bind k ak_key) (served_keys actor)) in
        if matched = [] then Inr (Inl ''serves only unpinned keys'') else Inr (Inr matched)))"

subsection \<open>Chained keys\<close>

type_synonym anchors = "(string \<times> string) list"

definition keys_of :: "anchors \<Rightarrow> string set" where
  "keys_of m = fst ` set m"

definition chain_step :: "'pk key_crypto \<Rightarrow> string \<Rightarrow> served_key \<Rightarrow> anchors \<times> bool \<Rightarrow> anchors \<times> bool" where
  "chain_step cr iid key s = (case (ak_key key, ak_endorsement key) of
     (Some keyId, Some e) \<Rightarrow>
       if keyId \<in> keys_of (fst s) then s
       else (case map_of (fst s) (ke_by e) of
          None \<Rightarrow> s
        | Some anchor \<Rightarrow> if verifyEndorsement cr iid keyId e then (fst s @ [(keyId, anchor)], True) else s)
   | _ \<Rightarrow> s)"

text \<open>One pass over the served keys: the anchors it ends with, and whether it added one.\<close>

definition chain_pass :: "'pk key_crypto \<Rightarrow> string \<Rightarrow> served_key list \<Rightarrow> anchors \<Rightarrow> anchors \<times> bool" where
  "chain_pass cr iid served m = fold (chain_step cr iid) served (m, False)"

text \<open>The keys that are not yet anchored: a pass that grows leaves fewer.\<close>

definition unanchored :: "served_key list \<Rightarrow> anchors \<Rightarrow> string set" where
  "unanchored served m = set (List.map_filter ak_key served) - keys_of m"

lemma chain_step_cases:
  obtains (same) "chain_step cr iid key s = s"
  | (added) k e a where "ak_key key = Some k" "ak_endorsement key = Some e" "k \<notin> keys_of (fst s)" "map_of (fst s) (ke_by e) = Some a"
      "verifyEndorsement cr iid k e" "chain_step cr iid key s = (fst s @ [(k, a)], True)"
proof (cases "chain_step cr iid key s = s")
  case False
  then obtain k e where k: "ak_key key = Some k" "ak_endorsement key = Some e"
    by (cases "ak_key key"; cases "ak_endorsement key") (simp_all add: chain_step_def)
  then have "k \<notin> keys_of (fst s)" using False by (auto simp: chain_step_def)
  then obtain a where "map_of (fst s) (ke_by e) = Some a" "verifyEndorsement cr iid k e"
    using False k by (cases "map_of (fst s) (ke_by e)") (auto simp: chain_step_def split: if_splits)
  then show ?thesis using added k \<open>k \<notin> keys_of (fst s)\<close> by (simp add: chain_step_def)
qed

lemma chain_fold_grows:
  "\<exists>new. fst (fold (chain_step cr iid) served s) = fst s @ new \<and> snd (fold (chain_step cr iid) served s) = (snd s \<or> new \<noteq> [])
     \<and> fst ` set new \<subseteq> unanchored served (fst s)"
proof (induction served arbitrary: s)
  case (Cons key served)
  show ?case
  proof (rule chain_step_cases [of cr iid key s])
    assume "chain_step cr iid key s = s"
    with Cons [of s] show ?thesis by (auto simp: unanchored_def List.map_filter_simps split: option.splits)
  next
    fix k e a
    assume s: "chain_step cr iid key s = (fst s @ [(k, a)], True)" and k: "ak_key key = Some k" "k \<notin> keys_of (fst s)"
    from Cons [of "(fst s @ [(k, a)], True)"] obtain new where new: "fst (fold (chain_step cr iid) served (fst s @ [(k, a)], True)) = fst s @ (k, a) # new"
      "snd (fold (chain_step cr iid) served (fst s @ [(k, a)], True))" "fst ` set new \<subseteq> unanchored served (fst s @ [(k, a)])" by auto
    then show ?thesis using s k
      by (intro exI [of _ "(k, a) # new"]) (auto simp: unanchored_def keys_of_def List.map_filter_simps)
  qed
qed simp

lemma chain_pass_shrinks:
  assumes "chain_pass cr iid served m = (m', True)"
  shows "card (unanchored served m') < card (unanchored served m)"
proof -
  obtain new where new: "m' = m @ new" "new \<noteq> []" "fst ` set new \<subseteq> unanchored served m"
    using chain_fold_grows [of cr iid served "(m, False)"] assms by (auto simp: chain_pass_def)
  then obtain k where "k \<in> fst ` set new" by (cases new) auto
  then have "k \<in> unanchored served m - unanchored served m'" using new by (auto simp: unanchored_def keys_of_def)
  moreover have "unanchored served m' \<subseteq> unanchored served m" using new(1) by (auto simp: unanchored_def keys_of_def)
  ultimately have "unanchored served m' \<subset> unanchored served m" by blast
  then show ?thesis by (intro psubset_card_mono) (simp_all add: unanchored_def)
qed

function chain_loop :: "'pk key_crypto \<Rightarrow> string \<Rightarrow> served_key list \<Rightarrow> anchors \<Rightarrow> anchors" where
  "chain_loop cr iid served m =
     (if snd (chain_pass cr iid served m) then chain_loop cr iid served (fst (chain_pass cr iid served m))
      else fst (chain_pass cr iid served m))"
  by pat_completeness auto

termination
proof (relation "measure (\<lambda>(cr, iid, served, m). card (unanchored served m))")
  fix cr :: "'pk key_crypto" and iid served m
  assume "snd (chain_pass cr iid served m)"
  then have "chain_pass cr iid served m = (fst (chain_pass cr iid served m), True)" by (simp add: prod_eq_iff)
  from chain_pass_shrinks [OF this]
  show "((cr, iid, served, fst (chain_pass cr iid served m)), cr, iid, served, m) \<in> measure (\<lambda>(cr, iid, served, m). card (unanchored served m))"
    by simp
qed simp

declare chain_loop.simps [simp del]

text \<open>The served keys that have an anchor, in served order.\<close>

definition chained_of :: "served_key list \<Rightarrow> anchors \<Rightarrow> anchors" where
  "chained_of served m = fold (\<lambda>key c. case Option.bind (ak_key key) (map_of m) of
     None \<Rightarrow> c | Some anchor \<Rightarrow> map_set (the (ak_key key)) anchor c) served []"

definition chainedActorKeys :: "'pk key_crypto \<Rightarrow> actor_document \<Rightarrow> string \<Rightarrow> anchors \<Rightarrow> js_error + anchors" where
  "chainedActorKeys cr actor instanceId trusted =
     (if None \<in> set (served_keys actor) then Inl (TypeError ''Cannot read properties of null'')
      else let served = map the (served_keys actor) in Inr (chained_of served (chain_loop cr instanceId served trusted)))"

subsection \<open>Trusted keys\<close>

definition learn :: "string \<times> string \<Rightarrow> anchors \<Rightarrow> anchors" where
  "learn entry keys = (case entry of (keyId, anchor) \<Rightarrow>
     if anchor \<in> keys_of keys \<and> keyId \<notin> keys_of keys then keys @ [(keyId, anchor)] else keys)"

definition trustedKeys :: "peer \<Rightarrow> anchors \<Rightarrow> anchors" where
  "trustedKeys p learned = fold learn learned (fold (\<lambda>pin. map_set pin pin) (pr_pinnedKeys p) [])"

definition withLearnedKeys :: "peer \<Rightarrow> anchors \<Rightarrow> peer" where
  "withLearnedKeys p learned = (let keys = map fst (trustedKeys p learned) in
     if length keys = length (pr_pinnedKeys p) then p else p\<lparr>pr_pinnedKeys := keys\<rparr>)"

subsection \<open>The book of peers\<close>

definition mergePeerRecords :: "peer list \<Rightarrow> peer list \<Rightarrow> peer list" where
  "mergePeerRecords bilateral discovered =
     map (\<lambda>p. case map_of (rev (map (\<lambda>d. (pr_instanceId d, d)) discovered)) (pr_instanceId p) of
            None \<Rightarrow> p
          | Some d \<Rightarrow> p\<lparr>pr_pinnedKeys := fold (\<lambda>key union. if key \<in> set union then union else union @ [key]) (pr_pinnedKeys d) (pr_pinnedKeys p)\<rparr>) bilateral
     @ filter (\<lambda>d. pr_instanceId d \<notin> pr_instanceId ` set bilateral) discovered"

record peer_book =
  pb_configured :: "peer list"
  pb_discovered :: "peer list"
  pb_pinned :: "peer list"
  pb_stored :: "string \<Rightarrow> anchors"
  pb_learned :: "string \<Rightarrow> anchors"
  pb_peers :: "peer list"

definition claims :: "(string \<times> anchors) list \<Rightarrow> string \<Rightarrow> nat" where
  "claims trusted keyId = length (filter (\<lambda>(_, keys). keyId \<in> keys_of keys) trusted)"

definition learned_of :: "(string \<times> anchors) list \<Rightarrow> peer list \<Rightarrow> string \<Rightarrow> anchors" where
  "learned_of trusted pinned iid = (case find (\<lambda>p. pr_instanceId p = iid) (rev pinned) of
     None \<Rightarrow> []
   | Some p \<Rightarrow> filter (\<lambda>(keyId, _). keyId \<notin> set (pr_pinnedKeys p) \<and> claims trusted keyId = 1) (nullish (map_of trusted iid) []))"

definition compose :: "peer_book \<Rightarrow> peer_book" where
  "compose b =
     (let pinned = mergePeerRecords (pb_configured b) (pb_discovered b);
          trusted = fold (\<lambda>p. map_set (pr_instanceId p) (trustedKeys p (pb_stored b (pr_instanceId p)))) pinned [];
          learned = learned_of trusted pinned
      in b\<lparr>pb_pinned := pinned, pb_learned := learned,
           pb_peers := map (\<lambda>p. withLearnedKeys p (learned (pr_instanceId p))) pinned\<rparr>)"

definition new_book :: "peer list \<Rightarrow> peer_book" where
  "new_book configured = \<lparr>pb_configured = configured, pb_discovered = [], pb_pinned = configured, pb_stored = (\<lambda>_. []),
     pb_learned = (\<lambda>_. []), pb_peers = configured\<rparr>"

definition reload :: "(string \<Rightarrow> anchors) \<Rightarrow> peer_book \<Rightarrow> peer_book" where
  "reload stored b = compose (b\<lparr>pb_stored := stored\<rparr>)"

definition pinned_by :: "peer list \<Rightarrow> string \<Rightarrow> string option" where
  "pinned_by configured key = map_option pr_instanceId (find (\<lambda>p. key \<in> set (pr_pinnedKeys p)) (rev configured))"

definition discover :: "peer list \<Rightarrow> string \<Rightarrow> peer_book \<Rightarrow> peer_book" where
  "discover found self b = compose (b\<lparr>pb_discovered :=
     filter (\<lambda>p. pr_pinnedKeys p \<noteq> [])
       (map (\<lambda>p. p\<lparr>pr_trustTier := 0,
              pr_pinnedKeys := filter (\<lambda>key. nullish (pinned_by (pb_configured b) key) (pr_instanceId p) = pr_instanceId p) (pr_pinnedKeys p)\<rparr>)
         (filter (\<lambda>p. pr_instanceId p \<noteq> self) found))\<rparr>)"

subsection \<open>What a refresh keeps\<close>

text \<open>The keys a document that passes the pin serves chained to it, less the pins: the peer's new learned keys. \<open>None\<close> is a
  document that fails, which leaves them as they were.\<close>

definition refreshed_keys :: "'pk key_crypto \<Rightarrow> actor_document \<Rightarrow> peer \<Rightarrow> anchors \<Rightarrow> anchors option" where
  "refreshed_keys cr actor p learned =
     (case chainedActorKeys cr actor (pr_instanceId p) (trustedKeys p learned) of
        Inl _ \<Rightarrow> None
      | Inr keys \<Rightarrow>
          (case verifyActorAgainstPin actor (if keys \<noteq> [] then p\<lparr>pr_pinnedKeys := map fst keys\<rparr> else p) of
             Inr (Inr _) \<Rightarrow> Some (filter (\<lambda>(keyId, _). keyId \<notin> set (pr_pinnedKeys p)) keys)
           | _ \<Rightarrow> None))"

subsection \<open>Authenticating a request\<close>

record peer_request =
  rq_method :: string
  rq_url :: string
  rq_headers :: headers
  rq_body :: "byte list option"

datatype auth_result = Authenticated string string | Refused reason "string option"

text \<open>The first peer that pins a key owns it.\<close>

definition owner_of :: "peer list \<Rightarrow> string \<Rightarrow> peer option" where
  "owner_of peers keyId = find (\<lambda>p. keyId \<in> set (pr_pinnedKeys p)) peers"

definition resolve_pinned :: "'pk key_crypto \<Rightarrow> peer list \<Rightarrow> string \<Rightarrow> js_error + 'pk option" where
  "resolve_pinned kc peers keyId = (case owner_of peers keyId of
     None \<Rightarrow> Inr None
   | Some p \<Rightarrow> (case rawEd25519FromMultibase keyId of
       Inl _ \<Rightarrow> Inr None
     | Inr raw \<Rightarrow> bindE (kc_import kc raw) (\<lambda>key. Inr (Some key))))"

definition request_params :: "'pk key_crypto \<Rightarrow> peer list \<Rightarrow> peer_request \<Rightarrow> real option \<Rightarrow> 'pk verify_params" where
  "request_params kc peers rq now = \<lparr>vp_method = rq_method rq, vp_url = rq_url rq, vp_status = None, vp_headers = rq_headers rq,
     vp_body = rq_body rq, vp_isResponse = False, vp_resolve = resolve_pinned kc peers, vp_now = now\<rparr>"

text \<open>The peer whose key the resolver gave, if the verification asked it for one.\<close>

definition matched_peer :: "http_library \<Rightarrow> ('sk, 'pk) message_crypto \<Rightarrow> peer list \<Rightarrow> 'pk verify_params \<Rightarrow> int \<Rightarrow> peer option" where
  "matched_peer lib mc peers p c0 =
     (if check_digest lib mc p \<noteq> Inr True then None
      else (case policy lib p (nullish (vp_now p) (of_int (c0 div 1000))) of
          Inl _ \<Rightarrow> None
        | Inr input \<Rightarrow> (case vp_resolve p (the (pi_keyId input)) of
              Inr (Some _) \<Rightarrow> owner_of peers (the (pi_keyId input)) | _ \<Rightarrow> None)))"

definition authenticatePeerRequest ::
  "http_library \<Rightarrow> ('sk, 'pk) message_crypto \<Rightarrow> 'pk key_crypto \<Rightarrow> 's nonce_ops \<Rightarrow> peer list \<Rightarrow> real option \<Rightarrow> peer_request
     \<Rightarrow> int \<Rightarrow> int \<Rightarrow> int \<Rightarrow> 's \<Rightarrow> js_error + auth_result \<times> 's" where
  "authenticatePeerRequest lib mc kc ops peers now rq c0 c1 c2 s =
     (let p = request_params kc peers rq now; matched = matched_peer lib mc peers p c0 in
      bindE (verifyMessage lib mc ops p c0 c1 c2 s) (\<lambda>(result, s'). Inr (case result of
          Inl r \<Rightarrow> Refused r (map_option pr_instanceId matched)
        | Inr keyId \<Rightarrow> (case matched of None \<Rightarrow> Refused UnknownKey None | Some peer \<Rightarrow> Authenticated (pr_instanceId peer) keyId), s')))"

record peer_response =
  rs_status :: int
  rs_headers :: headers
  rs_body :: "byte list"
  rs_url :: string

definition verifyPeerResponse ::
  "http_library \<Rightarrow> ('sk, 'pk) message_crypto \<Rightarrow> 'pk key_crypto \<Rightarrow> 's nonce_ops \<Rightarrow> peer \<Rightarrow> peer_response
     \<Rightarrow> int \<Rightarrow> int \<Rightarrow> int \<Rightarrow> 's \<Rightarrow> js_error + bool \<times> 's" where
  "verifyPeerResponse lib mc kc ops peer res c0 c1 c2 s =
     bindE (verifyMessage lib mc ops
       \<lparr>vp_method = ''GET'', vp_url = rs_url res, vp_status = Some (rs_status res), vp_headers = rs_headers res, vp_body = Some (rs_body res),
        vp_isResponse = True,
        vp_resolve = (\<lambda>keyId. if keyId \<notin> set (pr_pinnedKeys peer) then Inr None
          else (case bindE (rawEd25519FromMultibase keyId) (kc_import kc) of Inl _ \<Rightarrow> Inr None | Inr key \<Rightarrow> Inr (Some key))),
        vp_now = None\<rparr> c0 c1 c2 s) (\<lambda>(result, s'). Inr (isOk result, s'))"

subsection \<open>What a chain is\<close>

definition endorses :: "'pk key_crypto \<Rightarrow> string \<Rightarrow> string \<Rightarrow> string \<Rightarrow> bool" where
  "endorses cr iid b k \<longleftrightarrow> (\<exists>e. ke_by e = b \<and> verifyEndorsement cr iid k e)"

text \<open>\<open>chained\<close>: a key is trusted itself, or served with an endorsement by a chained key; \<open>a\<close> is the anchor it leads to.\<close>

inductive chained :: "'pk key_crypto \<Rightarrow> string \<Rightarrow> served_key list \<Rightarrow> anchors \<Rightarrow> string \<Rightarrow> string \<Rightarrow> bool"
  for cr iid served trusted where
  trusted: "map_of trusted k = Some a \<Longrightarrow> chained cr iid served trusted k a"
| endorsed: "chained cr iid served trusted (ke_by e) a \<Longrightarrow> key \<in> set served \<Longrightarrow> ak_key key = Some k \<Longrightarrow> ak_endorsement key = Some e \<Longrightarrow>
    verifyEndorsement cr iid k e \<Longrightarrow> chained cr iid served trusted k a"

lemma keys_of_map: "k \<in> keys_of m \<longleftrightarrow> map_of m k \<noteq> None"
  by (simp add: keys_of_def map_of_eq_None_iff)

lemma chain_fold_sound:
  assumes "\<forall>k a. map_of (fst s) k = Some a \<longrightarrow> chained cr iid all trusted k a" and "set served \<subseteq> set all"
  shows "\<forall>k a. map_of (fst (fold (chain_step cr iid) served s)) k = Some a \<longrightarrow> chained cr iid all trusted k a"
  using assms
proof (induction served arbitrary: s)
  case (Cons key served)
  have "\<forall>k a. map_of (fst (chain_step cr iid key s)) k = Some a \<longrightarrow> chained cr iid all trusted k a"
  proof (rule chain_step_cases [of cr iid key s])
    fix k e a
    assume k: "ak_key key = Some k" "ak_endorsement key = Some e" "map_of (fst s) (ke_by e) = Some a" "verifyEndorsement cr iid k e"
      and s: "chain_step cr iid key s = (fst s @ [(k, a)], True)"
    have "chained cr iid all trusted (ke_by e) a" using Cons.prems(1) k(3) by blast
    moreover have "key \<in> set all" using Cons.prems(2) by simp
    ultimately have "chained cr iid all trusted k a" using k(1,2,4) by (rule chained.endorsed)
    moreover have "map_of (fst s) k' = Some a' \<or> (k' = k \<and> a' = a)" if "map_of (fst (chain_step cr iid key s)) k' = Some a'" for k' a'
      using that unfolding s by (auto simp: map_of_append map_add_def split: option.splits if_splits)
    ultimately show ?thesis using Cons.prems(1) by blast
  qed (use Cons.prems in simp)
  then show ?case using Cons.IH [of "chain_step cr iid key s"] Cons.prems(2) by simp
qed simp

lemma chain_loop_sound:
  assumes "\<forall>k a. map_of m k = Some a \<longrightarrow> chained cr iid served trusted k a"
  shows "\<forall>k a. map_of (chain_loop cr iid served m) k = Some a \<longrightarrow> chained cr iid served trusted k a"
  using assms
proof (induction cr iid served m rule: chain_loop.induct)
  case (1 cr iid served m)
  have "\<forall>k a. map_of (fst (chain_pass cr iid served m)) k = Some a \<longrightarrow> chained cr iid served trusted k a"
    using chain_fold_sound [of "(m, False)" cr iid served trusted served] 1(2) by (simp add: chain_pass_def)
  then show ?case using 1(1) by (subst chain_loop.simps) simp
qed

lemma chain_loop_extends: "\<exists>new. chain_loop cr iid served m = m @ new"
proof (induction cr iid served m rule: chain_loop.induct)
  case (1 cr iid served m)
  obtain new where "fst (chain_pass cr iid served m) = m @ new"
    using chain_fold_grows [of cr iid served "(m, False)"] by (auto simp: chain_pass_def)
  then show ?case using 1 by (subst chain_loop.simps) auto
qed

lemma chain_fold_still:
  "snd (fold (chain_step cr iid) served (m, False)) = False \<Longrightarrow> key \<in> set served \<Longrightarrow> chain_step cr iid key (m, False) = (m, False)"
proof (induction served)
  case (Cons k served)
  have "chain_step cr iid k (m, False) = (m, False)"
  proof (rule chain_step_cases [of cr iid k "(m, False)"])
    fix k' a assume "chain_step cr iid k (m, False) = (fst (m, False) @ [(k', a)], True)"
    then show ?thesis using Cons.prems(1) chain_fold_grows [of cr iid served "(m @ [(k', a)], True)"] by simp
  qed simp
  then show ?case using Cons by auto
qed simp

lemma chain_loop_closed:
  assumes "key \<in> set served" "ak_key key = Some k" "ak_endorsement key = Some e" "verifyEndorsement cr iid k e"
    and "ke_by e \<in> keys_of (chain_loop cr iid served m)"
  shows "k \<in> keys_of (chain_loop cr iid served m)"
  using assms
proof (induction cr iid served m rule: chain_loop.induct)
  case (1 cr iid served m)
  show ?case
  proof (cases "snd (chain_pass cr iid served m)")
    case True
    then show ?thesis using 1 by (simp add: chain_loop.simps [of cr iid served m])
  next
    case False
    then have m: "chain_loop cr iid served m = m"
      using chain_fold_grows [of cr iid served "(m, False)"] by (simp add: chain_loop.simps [of cr iid served m] chain_pass_def)
    have "chain_step cr iid key (m, False) = (m, False)"
      using False 1(2) by (intro chain_fold_still) (simp_all add: chain_pass_def)
    then show ?thesis using 1(3-6) unfolding m by (auto simp: chain_step_def keys_of_map split: option.splits if_splits)
  qed
qed

lemma map_of_map_set_if: "map_of (map_set k v m) x = (if x = k then Some v else map_of m x)"
  by (induction k v m rule: map_set.induct) auto

lemma chained_of_lookup: "map_of (chained_of served m) k = (if \<exists>key \<in> set served. ak_key key = Some k then map_of m k else None)"
proof -
  have "map_of (fold (\<lambda>key c. case Option.bind (ak_key key) (map_of m) of None \<Rightarrow> c | Some anchor \<Rightarrow> map_set (the (ak_key key)) anchor c) served c) k
      = (if \<exists>key \<in> set served. ak_key key = Some k \<and> map_of m k \<noteq> None then map_of m k else map_of c k)" for c
    by (induction served arbitrary: c) (auto simp: map_of_map_set_if split: option.splits bind_splits)
  then show ?thesis by (auto simp: chained_of_def)
qed

lemma chain_loop_complete:
  assumes "chained cr iid served trusted k a"
  shows "k \<in> keys_of (chain_loop cr iid served trusted)"
  using assms
proof induction
  case (trusted k a)
  then show ?case using chain_loop_extends [of cr iid served trusted] by (auto simp: keys_of_map map_of_append)
next
  case (endorsed e a key k)
  then show ?case using chain_loop_closed by blast
qed

text \<open>C26. The keys an actor document chains to the trusted ones are exactly those it serves that a chain of valid
  endorsements, each of a served key by the key before, joins to a trusted key, in whatever order they are served; each
  carries the anchor its chain leads back to.\<close>

theorem chained_exact:
  assumes "chainedActorKeys cr actor iid trusted = Inr keys"
  shows "(\<forall>k. k \<in> keys_of keys \<longleftrightarrow> Some k \<in> ak_key ` (the ` set (served_keys actor))
           \<and> (\<exists>a. chained cr iid (map the (served_keys actor)) trusted k a))
    \<and> (\<forall>k a. map_of keys k = Some a \<longrightarrow> chained cr iid (map the (served_keys actor)) trusted k a)"
proof -
  let ?served = "map the (served_keys actor)"
  let ?m = "chain_loop cr iid ?served trusted"
  have keys: "keys = chained_of ?served ?m" using assms by (auto simp: chainedActorKeys_def Let_def split: if_splits)
  have sound: "chained cr iid ?served trusted k a" if "map_of ?m k = Some a" for k a
    using chain_loop_sound [of trusted cr iid ?served trusted] that chained.trusted by blast
  have complete: "k \<in> keys_of ?m" if "chained cr iid ?served trusted k a" for k a
    using that by (rule chain_loop_complete)
  have lookup: "map_of keys k = (if Some k \<in> ak_key ` (the ` set (served_keys actor)) then map_of ?m k else None)" for k
  proof -
    have "(\<exists>key \<in> set ?served. ak_key key = Some k) \<longleftrightarrow> Some k \<in> ak_key ` set ?served" by force
    then have "(\<exists>key \<in> set ?served. ak_key key = Some k) \<longleftrightarrow> Some k \<in> ak_key ` (the ` set (served_keys actor))" by (simp only: set_map)
    then show ?thesis by (simp only: keys chained_of_lookup)
  qed
  have "k \<in> keys_of keys \<longleftrightarrow> Some k \<in> ak_key ` (the ` set (served_keys actor)) \<and> (\<exists>a. chained cr iid ?served trusted k a)" for k
  proof
    assume "k \<in> keys_of keys"
    then obtain a where "map_of keys k = Some a" by (auto simp: keys_of_map)
    then show "Some k \<in> ak_key ` (the ` set (served_keys actor)) \<and> (\<exists>a. chained cr iid ?served trusted k a)"
      using lookup [of k] sound by (metis option.distinct(1))
  next
    assume k: "Some k \<in> ak_key ` (the ` set (served_keys actor)) \<and> (\<exists>a. chained cr iid ?served trusted k a)"
    then have "k \<in> keys_of ?m" using complete by blast
    with k show "k \<in> keys_of keys" by (simp add: keys_of_map lookup)
  qed
  moreover have "chained cr iid ?served trusted k a" if "map_of keys k = Some a" for k a
    using that lookup [of k] sound by (metis option.distinct(1))
  ultimately show ?thesis by blast
qed

subsection \<open>Runs of the service\<close>

text \<open>\<open>ts_table\<close> is the table of learned keys, \<open>ts_book\<close> the book in memory.\<close>

record trust_state =
  ts_table :: "string \<Rightarrow> anchors"
  ts_book :: peer_book

inductive trust_reachable :: "'pk key_crypto \<Rightarrow> string \<Rightarrow> trust_state \<Rightarrow> bool" for kc self where
  installed: "trust_reachable kc self \<lparr>ts_table = (\<lambda>_. []), ts_book = new_book configured\<rparr>"
| restarted: "trust_reachable kc self s \<Longrightarrow> \<forall>iid. mset (stored iid) = mset (ts_table s iid) \<Longrightarrow>
    trust_reachable kc self (s\<lparr>ts_book := reload stored (new_book configured)\<rparr>)"
| reloaded: "trust_reachable kc self s \<Longrightarrow> \<forall>iid. mset (stored iid) = mset (ts_table s iid) \<Longrightarrow>
    trust_reachable kc self (s\<lparr>ts_book := reload stored (ts_book s)\<rparr>)"
| discovered: "trust_reachable kc self s \<Longrightarrow> trust_reachable kc self (s\<lparr>ts_book := discover found self (ts_book s)\<rparr>)"
| refreshed: "trust_reachable kc self s \<Longrightarrow> p \<in> set (pb_pinned (ts_book s)) \<Longrightarrow>
    refreshed_keys kc actor p (pb_learned (ts_book s) (pr_instanceId p)) = Some keys \<Longrightarrow>
    trust_reachable kc self (s\<lparr>ts_table := (ts_table s)(pr_instanceId p := keys)\<rparr>)"

text \<open>Every entry leads to its anchor by endorsements of the peer it is learned of.\<close>

definition anchored :: "'pk key_crypto \<Rightarrow> string \<Rightarrow> anchors \<Rightarrow> bool" where
  "anchored kc iid m \<longleftrightarrow> (\<forall>(k, a) \<in> set m. (endorses kc iid)\<^sup>*\<^sup>* a k)"

definition rooted :: "'pk key_crypto \<Rightarrow> peer \<Rightarrow> string \<Rightarrow> bool" where
  "rooted kc p k \<longleftrightarrow> (\<exists>pin \<in> set (pr_pinnedKeys p). (endorses kc (pr_instanceId p))\<^sup>*\<^sup>* pin k)"

lemma anchored_Nil [simp]: "anchored kc iid []"
  by (simp add: anchored_def)

lemma rooted_pin: "k \<in> set (pr_pinnedKeys p) \<Longrightarrow> rooted kc p k"
  by (auto simp: rooted_def)

lemma map_set_subset: "set (map_set k v m) \<subseteq> insert (k, v) (set m)"
  by (induction k v m rule: map_set.induct) auto

lemma pins_map: "set (fold (\<lambda>pin. map_set pin pin) pins m) \<subseteq> (\<lambda>k. (k, k)) ` set pins \<union> set m"
proof (induction pins arbitrary: m)
  case (Cons pin pins)
  then show ?case using map_set_subset [of pin pin m] by fastforce
qed simp

lemma trustedKeys_rooted:
  assumes "anchored kc (pr_instanceId p) learned"
  shows "anchored kc (pr_instanceId p) (trustedKeys p learned)" and "k \<in> keys_of (trustedKeys p learned) \<Longrightarrow> rooted kc p k"
proof -
  let ?ok = "\<lambda>m. \<forall>(k, a) \<in> set m. (endorses kc (pr_instanceId p))\<^sup>*\<^sup>* a k \<and> rooted kc p k"
  have step: "?ok (fold learn l m)" if "?ok m" "anchored kc (pr_instanceId p) l" for l m
    using that
  proof (induction l arbitrary: m)
    case (Cons entry l)
    obtain k a where e: "entry = (k, a)" by (cases entry)
    have "?ok (learn entry m)"
    proof (cases "a \<in> keys_of m \<and> k \<notin> keys_of m")
      case True
      then obtain b where "(a, b) \<in> set m" by (auto simp: keys_of_def)
      then have "rooted kc p a" using Cons.prems(1) by auto
      moreover have "(endorses kc (pr_instanceId p))\<^sup>*\<^sup>* a k" using Cons.prems(2) by (simp add: anchored_def e)
      ultimately have "rooted kc p k" by (auto simp: rooted_def intro: rtranclp_trans)
      then show ?thesis using True Cons.prems \<open>(endorses kc (pr_instanceId p))\<^sup>*\<^sup>* a k\<close> by (auto simp: learn_def e)
    next
      case False
      then show ?thesis using Cons.prems(1) by (auto simp: learn_def e)
    qed
    moreover have "anchored kc (pr_instanceId p) l" using Cons.prems(2) by (simp add: anchored_def)
    ultimately show ?case using Cons.IH by simp
  qed simp
  have "?ok (fold (\<lambda>pin. map_set pin pin) (pr_pinnedKeys p) [])"
    using pins_map [of "pr_pinnedKeys p" "[]"] by (auto intro: rooted_pin)
  from step [OF this assms] have ok: "?ok (trustedKeys p learned)" by (simp add: trustedKeys_def)
  then show "anchored kc (pr_instanceId p) (trustedKeys p learned)" by (auto simp: anchored_def)
  show "k \<in> keys_of (trustedKeys p learned) \<Longrightarrow> rooted kc p k" using ok by (auto simp: keys_of_def)
qed

lemma chained_endorsed:
  assumes "chained kc iid served trusted k a" and "anchored kc iid trusted"
  shows "(endorses kc iid)\<^sup>*\<^sup>* a k"
  using assms(1)
proof induction
  case (trusted k a)
  then show ?case using assms(2) by (auto simp: anchored_def dest: map_of_SomeD)
next
  case (endorsed e a key k)
  then show ?case by (metis endorses_def rtranclp.rtrancl_into_rtrancl)
qed

lemma map_set_distinct: "distinct (map fst m) \<Longrightarrow> distinct (map fst (map_set k v m))"
proof (induction k v m rule: map_set.induct)
  case (2 k v k' v' m)
  have "fst ` set (map_set k v m) \<subseteq> insert k (fst ` set m)" using map_set_subset [of k v m] by auto
  then show ?case using 2 by auto
qed simp

lemma chained_of_distinct: "distinct (map fst (chained_of served m))"
proof -
  have "distinct (map fst (fold (\<lambda>key c. case Option.bind (ak_key key) (map_of m) of None \<Rightarrow> c
      | Some anchor \<Rightarrow> map_set (the (ak_key key)) anchor c) served c))" if "distinct (map fst c)" for c :: anchors
    using that by (induction served arbitrary: c) (auto intro: map_set_distinct split: option.splits)
  then show ?thesis by (simp add: chained_of_def)
qed

lemma chained_anchored:
  assumes "chainedActorKeys kc actor iid trusted = Inr keys" and "anchored kc iid trusted"
  shows "anchored kc iid keys"
  unfolding anchored_def
proof clarify
  fix k a assume "(k, a) \<in> set keys"
  moreover have keys: "keys = chained_of (map the (served_keys actor)) (chain_loop kc iid (map the (served_keys actor)) trusted)"
    using assms(1) by (auto simp: chainedActorKeys_def Let_def split: if_splits)
  ultimately have "map_of keys k = Some a" using chained_of_distinct map_of_is_SomeI by metis
  then have "map_of (chain_loop kc iid (map the (served_keys actor)) trusted) k = Some a"
    by (simp add: keys chained_of_lookup split: if_splits)
  then have "chained kc iid (map the (served_keys actor)) trusted k a"
    using chain_loop_sound [of trusted kc iid "map the (served_keys actor)" trusted] chained.trusted by blast
  from chained_endorsed [OF this assms(2)] show "(endorses kc iid)\<^sup>*\<^sup>* a k" .
qed

subsection \<open>The book\<close>

definition book_rooted :: "'pk key_crypto \<Rightarrow> peer_book \<Rightarrow> bool" where
  "book_rooted kc b \<longleftrightarrow> (\<forall>iid. anchored kc iid (pb_stored b iid)) \<and> (\<forall>iid. anchored kc iid (pb_learned b iid))
     \<and> (\<forall>p \<in> set (pb_peers b). \<exists>q \<in> set (pb_pinned b). pr_instanceId q = pr_instanceId p \<and> (\<forall>k \<in> set (pr_pinnedKeys p). rooted kc q k))"

lemma trusted_entries:
  assumes "\<forall>iid. anchored kc iid (stored iid)" and "\<forall>(iid, keys) \<in> set m. anchored kc iid keys"
  shows "\<forall>(iid, keys) \<in> set (fold (\<lambda>p. map_set (pr_instanceId p) (trustedKeys p (stored (pr_instanceId p)))) pinned m). anchored kc iid keys"
  using assms(2)
proof (induction pinned arbitrary: m)
  case (Cons p pinned)
  have "\<forall>(iid, keys) \<in> set (map_set (pr_instanceId p) (trustedKeys p (stored (pr_instanceId p))) m). anchored kc iid keys"
    using Cons.prems trustedKeys_rooted(1) assms(1) map_set_subset by fastforce
  then show ?case using Cons.IH by simp
qed simp

lemma compose_rooted:
  assumes "\<forall>iid. anchored kc iid (pb_stored b iid)"
  shows "book_rooted kc (compose b)"
proof -
  define pinned where "pinned = mergePeerRecords (pb_configured b) (pb_discovered b)"
  define trusted where "trusted = fold (\<lambda>p. map_set (pr_instanceId p) (trustedKeys p (pb_stored b (pr_instanceId p)))) pinned []"
  have entries: "\<forall>(iid, keys) \<in> set trusted. anchored kc iid keys"
    unfolding trusted_def using trusted_entries [OF assms, of "[]"] by simp
  have learned: "anchored kc iid (learned_of trusted pinned iid)" for iid
  proof -
    have "anchored kc iid (nullish (map_of trusted iid) [])"
      using entries by (cases "map_of trusted iid") (auto dest: map_of_SomeD)
    then show ?thesis by (auto simp: learned_of_def anchored_def split: option.splits)
  qed
  have "\<forall>k \<in> set (pr_pinnedKeys (withLearnedKeys p (learned_of trusted pinned (pr_instanceId p)))). rooted kc p k" for p
    using trustedKeys_rooted(2) [OF learned [of "pr_instanceId p"]]
    by (auto simp: withLearnedKeys_def Let_def keys_of_def rooted_pin)
  moreover have "pr_instanceId (withLearnedKeys p l) = pr_instanceId p" for p l by (simp add: withLearnedKeys_def Let_def)
  ultimately show ?thesis
    using assms learned by (auto simp: book_rooted_def compose_def Let_def pinned_def [symmetric] trusted_def [symmetric])
qed

lemma new_book_rooted: "book_rooted kc (new_book configured)"
  by (auto simp: book_rooted_def new_book_def rooted_pin)

lemma reload_rooted: "\<forall>iid. anchored kc iid (stored iid) \<Longrightarrow> book_rooted kc (reload stored b)"
  unfolding reload_def by (rule compose_rooted) simp

lemma anchored_mset: "mset m = mset m' \<Longrightarrow> anchored kc iid m = anchored kc iid m'"
  unfolding anchored_def by (metis set_mset_mset)

lemma reachable_rooted:
  assumes "trust_reachable kc self s"
  shows "book_rooted kc (ts_book s) \<and> (\<forall>iid. anchored kc iid (ts_table s iid))"
  using assms
proof induction
  case (restarted s stored configured)
  then have "\<forall>iid. anchored kc iid (stored iid)" using anchored_mset by metis
  then show ?case using restarted reload_rooted by simp
next
  case (reloaded s stored)
  then have "\<forall>iid. anchored kc iid (stored iid)" using anchored_mset by metis
  then show ?case using reloaded reload_rooted by simp
next
  case (discovered s found)
  then have "\<forall>iid. anchored kc iid (pb_stored (ts_book s) iid)" by (simp add: book_rooted_def)
  then show ?case using discovered by (simp add: discover_def compose_rooted)
next
  case (refreshed s p actor keys)
  then have "anchored kc (pr_instanceId p) (pb_learned (ts_book s) (pr_instanceId p))" by (simp add: book_rooted_def)
  from trustedKeys_rooted(1) [OF this] have "anchored kc (pr_instanceId p) keys"
    using refreshed(3) chained_anchored [of kc actor "pr_instanceId p"]
    by (fastforce simp: refreshed_keys_def anchored_def split: sum.splits if_splits)
  then show ?case using refreshed by simp
qed (simp add: new_book_rooted)

subsection \<open>Who an accepted request is from\<close>

text \<open>The key a verification accepts was found through the resolver, which remembers its owner.\<close>

lemma matched_owner:
  assumes "verifyMessage lib mc ops (request_params kc peers rq now) c0 c1 c2 s = Inr (Inr keyId, s')"
  shows "matched_peer lib mc peers (request_params kc peers rq now) c0 = owner_of peers keyId"
proof -
  let ?p = "request_params kc peers rq now"
  let ?now = "nullish (vp_now ?p) (of_int (c0 div 1000))"
  obtain d s1 where start: "begin_verify lib mc ops ?p c0 c1 s = Inr (Inr d, s1)"
    and finish: "finish_verify lib mc ops ?p d c2 s1 = (Inr keyId, s')"
    using assms by (auto simp: verifyMessage_def split: sum.splits)
  obtain input key where i: "check_digest lib mc ?p = Inr True" "policy lib ?p ?now = Inr input"
    "pd_keyId d = the (pi_keyId input)" "vp_resolve ?p (the (pi_keyId input)) = Inr (Some key)"
    using start by (auto simp: begin_verify_def Let_def split: if_splits sum.splits option.splits prod.splits bool.splits)
  have "keyId = pd_keyId d"
    using finish by (auto simp: finish_verify_def split: option.splits if_splits prod.splits bool.splits)
  then show ?thesis using i by (simp add: matched_peer_def)
qed

lemma owner_found: "owner_of peers keyId = Some q \<Longrightarrow> q \<in> set peers \<and> keyId \<in> set (pr_pinnedKeys q)"
  unfolding owner_of_def by (metis (mono_tags, lifting) find_Some_iff nth_mem)

text \<open>C22. Whatever documents its peers served and whatever a registry listed, in any order of syncs, refreshes, reloads and
  restarts: a request authenticated as a peer was signed with a key that a chain of valid endorsements of that peer joins
  to a key pinned to it, over its method, its target and its body.\<close>

theorem authenticated_peer:
  assumes "trust_reachable kc self ts"
    and "authenticatePeerRequest lib mc kc ops (pb_peers (ts_book ts)) now rq c0 c1 c2 s = Inr (Authenticated peerId keyId, s')"
    and "library_checks lib base" and "one_name (rq_headers rq)"
  shows "(\<exists>pinned \<in> set (pb_pinned (ts_book ts)). pr_instanceId pinned = peerId
      \<and> (\<exists>pin \<in> set (pr_pinnedKeys pinned). (endorses kc peerId)\<^sup>*\<^sup>* pin keyId))
    \<and> (\<exists>raw pk sig hs items ps. rawEd25519FromMultibase keyId = Inr raw \<and> kc_import kc raw = Inr pk
      \<and> mc_verify mc pk sig (base (HRequest (rq_method rq) (rq_url rq) hs) items ps)
      \<and> (\<forall>name. name \<notin> {''signature'', ''signature-input''} \<longrightarrow> findHeader hs name = findHeader (rq_headers rq) name)
      \<and> binds (request_params kc (pb_peers (ts_book ts)) rq now) (set (map (\<lambda>(b, _). bare_text lib b) items))
      \<and> digest_bound lib mc (request_params kc (pb_peers (ts_book ts)) rq now))"
proof -
  let ?peers = "pb_peers (ts_book ts)"
  let ?p = "request_params kc ?peers rq now"
  obtain r where v: "verifyMessage lib mc ops ?p c0 c1 c2 s = Inr (r, s')"
    and r: "(case r of Inl why \<Rightarrow> Refused why (map_option pr_instanceId (matched_peer lib mc ?peers ?p c0))
      | Inr k \<Rightarrow> (case matched_peer lib mc ?peers ?p c0 of None \<Rightarrow> Refused UnknownKey None | Some peer \<Rightarrow> Authenticated (pr_instanceId peer) k))
      = Authenticated peerId keyId"
    using assms(2) by (auto simp: authenticatePeerRequest_def Let_def bindE_eq_Inr)
  obtain q where q: "r = Inr keyId" "matched_peer lib mc ?peers ?p c0 = Some q" "pr_instanceId q = peerId"
    using r by (auto split: sum.splits option.splits)
  note v = v [unfolded q(1)]
  have "owner_of ?peers keyId = Some q" using matched_owner [OF v] q(2) by simp
  then have "q \<in> set ?peers" "keyId \<in> set (pr_pinnedKeys q)" using owner_found by blast+
  then obtain pinned where "pinned \<in> set (pb_pinned (ts_book ts))" "pr_instanceId pinned = peerId" "rooted kc pinned keyId"
    using reachable_rooted [OF assms(1)] q(3) by (auto simp: book_rooted_def)
  moreover have "one_name (vp_headers ?p)" using assms(4) by (simp add: request_params_def)
  from accepted_obtains [OF v assms(3) this] obtain pk items ps hs sig where m: "vp_resolve ?p keyId = Inr (Some pk)"
    "binds ?p (set (map (\<lambda>(b, _). bare_text lib b) items))" "mc_verify mc pk sig (base (received_message ?p hs) items ps)"
    "\<forall>name. name \<notin> {''signature'', ''signature-input''} \<longrightarrow> findHeader hs name = findHeader (vp_headers ?p) name"
    "digest_bound lib mc ?p" by metis
  moreover obtain raw where "rawEd25519FromMultibase keyId = Inr raw" "kc_import kc raw = Inr pk"
    using m(1) by (auto simp: request_params_def resolve_pinned_def bindE_eq_Inr split: option.splits sum.splits)
  moreover have "received_message ?p hs = HRequest (rq_method rq) (rq_url rq) hs" by (simp add: received_message_def request_params_def)
  moreover have "vp_headers ?p = rq_headers rq" by (simp add: request_params_def)
  ultimately show ?thesis unfolding rooted_def by metis
qed

subsection \<open>Examples\<close>

definition sample_kc :: "unit key_crypto" where
  "sample_kc = \<lparr>kc_import = (\<lambda>_. Inr ()), kc_verify = (\<lambda>_ _ _. True)\<rparr>"

definition sample_next :: string where
  "sample_next = ''z6Mkeb6dsrBTX95vPgLiZAcgRr6XJthFm1czoqFEx34DQtRo''"

definition sample_last :: string where
  "sample_last = ''z6Mkef1w29eU7SP9XmbDzTwbiisHZ3uTS5JpNEuu1R6pADkW''"

definition served_by :: "string \<Rightarrow> string \<Rightarrow> served_key" where
  "served_by k b = \<lparr>ak_key = Some k, ak_endorsement = Some \<lparr>ke_by = b, ke_signature = [], ke_proof = []\<rparr>\<rparr>"

text \<open>A document whose keys are served the newest first, each endorsed by the one before it.\<close>

definition sample_actor :: actor_document where
  "sample_actor = \<lparr>ad_id = ''https://a.example/actor'', ad_publicKey = Some [Some (served_by sample_last sample_next),
     Some (served_by sample_next sample_key), Some \<lparr>ak_key = Some sample_key, ak_endorsement = None\<rparr>]\<rparr>"

lemma replicate_32: "replicate 32 k = [k, k, k, k, k, k, k, k, k, k, k, k, k, k, k, k, k, k, k, k, k, k, k, k, k, k, k, k, k, k, k, k]"
  by (simp add: numeral_eq_Suc)

lemma multikey_digits:
  assumes "map ((!) BASE58_ALPHABET) ds = t" and "list_all (\<lambda>d. d < 58) ds" and "takeWhile (\<lambda>d. d = 0) ds = []" and "length ds \<le> 63"
    and "value_of 58 ds = value_of 256 (0xed # 1 # replicate 32 k)" and "k < 256"
  shows "rawEd25519FromMultibase (CHR ''z'' # t) = Inr (replicate 32 (of_nat k))"
proof -
  have "mapE base58_digit t = Inr ds" using assms(1,2) by (simp add: mapE_base58 list_all_iff)
  moreover have "length (takeWhile (\<lambda>c. c = CHR ''1'') t) = 0" using takeWhile_one [of ds] assms(1-3) by (simp add: list_all_iff)
  moreover have "bigIntBytes (value_of 58 ds) = ED25519_PUB_PREFIX @ replicate 32 (of_nat k)"
    unfolding assms(5) bigIntBytes_def using assms(6) by (subst digits_of_value) (simp_all add: ED25519_PUB_PREFIX_def)
  ultimately have "base58btcDecode t = Inr (ED25519_PUB_PREFIX @ replicate 32 (of_nat k))" by (simp add: base58btcDecode_def)
  then show ?thesis using assms(1,4)
    by (auto simp: rawEd25519FromMultibase_def MAX_MULTIBASE_LENGTH_def ED25519_PUB_PREFIX_def ED25519_PUBLIC_KEY_BYTES_def)
qed

lemma sample_raw: "rawEd25519FromMultibase sample_key = Inr (replicate 32 1)" "rawEd25519FromMultibase sample_next = Inr (replicate 32 2)"
  "rawEd25519FromMultibase sample_last = Inr (replicate 32 3)"
proof -
  show "rawEd25519FromMultibase sample_key = Inr (replicate 32 1)"
    using multikey_digits [of "[5, 20, 43, 37, 30, 10, 19, 42, 31, 41, 25, 53, 48, 45, 40, 14, 34, 5, 12, 6, 50, 16, 44, 7, 56, 18, 44, 3, 42, 28, 3, 4, 54, 54, 10, 14, 24, 33, 33, 51, 38, 0, 35, 38, 32, 6, 5]" "tl sample_key" 1]
    by (simp add: sample_key_def BASE58_ALPHABET_def value_of_def replicate_32 [of "Suc 0"])
  show "rawEd25519FromMultibase sample_next = Inr (replicate 32 2)"
    using multikey_digits [of "[5, 20, 43, 37, 34, 5, 36, 50, 49, 10, 26, 30, 8, 4, 53, 22, 39, 19, 41, 32, 9, 35, 39, 24, 49, 5, 30, 17, 51, 40, 14, 44, 0, 35, 57, 46, 48, 14, 13, 55, 2, 3, 12, 23, 51, 24, 46]" "tl sample_next" 2]
    by (simp add: sample_next_def BASE58_ALPHABET_def value_of_def replicate_32 [of "2 :: nat"])
  show "rawEd25519FromMultibase sample_last = Inr (replicate 32 3)"
    using multikey_digits [of "[5, 20, 43, 37, 38, 0, 54, 1, 8, 37, 27, 6, 25, 22, 8, 30, 44, 34, 12, 57, 26, 54, 34, 41, 41, 50, 16, 32, 2, 52, 26, 25, 4, 17, 47, 21, 13, 52, 52, 0, 24, 5, 47, 9, 12, 43, 29]" "tl sample_last" 3]
    by (simp add: sample_last_def BASE58_ALPHABET_def value_of_def replicate_32 [of "3 :: nat"])
qed

lemma sample_distinct: "sample_key \<noteq> sample_next" "sample_key \<noteq> sample_last" "sample_next \<noteq> sample_last"
  by (simp_all add: sample_key_def sample_next_def sample_last_def)

theorem chained_exact_witness:
  "chainedActorKeys sample_kc sample_actor ''a'' [(sample_key, sample_key)]
     = Inr [(sample_last, sample_key), (sample_next, sample_key), (sample_key, sample_key)]
   \<and> chained sample_kc ''a'' (map the (served_keys sample_actor)) [(sample_key, sample_key)] sample_last sample_key"
proof -
  note d = sample_distinct sample_distinct [symmetric]
  have v: "verifyEndorsement sample_kc ''a'' sample_last \<lparr>ke_by = sample_next, ke_signature = [], ke_proof = []\<rparr>"
    "verifyEndorsement sample_kc ''a'' sample_next \<lparr>ke_by = sample_key, ke_signature = [], ke_proof = []\<rparr>"
    by (simp_all add: verifyEndorsement_def verifiedBy_def sample_raw sample_kc_def)
  have served: "map the (served_keys sample_actor) = [served_by sample_last sample_next, served_by sample_next sample_key,
      \<lparr>ak_key = Some sample_key, ak_endorsement = None\<rparr>]" by (simp add: sample_actor_def served_keys_def)
  have "chain_pass sample_kc ''a'' (map the (served_keys sample_actor)) [(sample_key, sample_key)]
      = ([(sample_key, sample_key), (sample_next, sample_key)], True)"
    by (simp add: served chain_pass_def chain_step_def served_by_def keys_of_def d v)
  moreover have "chain_pass sample_kc ''a'' (map the (served_keys sample_actor)) [(sample_key, sample_key), (sample_next, sample_key)]
      = ([(sample_key, sample_key), (sample_next, sample_key), (sample_last, sample_key)], True)"
    by (simp add: served chain_pass_def chain_step_def served_by_def keys_of_def d v)
  moreover have "chain_pass sample_kc ''a'' (map the (served_keys sample_actor)) [(sample_key, sample_key), (sample_next, sample_key), (sample_last, sample_key)]
      = ([(sample_key, sample_key), (sample_next, sample_key), (sample_last, sample_key)], False)"
    by (simp add: served chain_pass_def chain_step_def served_by_def keys_of_def d v)
  ultimately have loop: "chain_loop sample_kc ''a'' (map the (served_keys sample_actor)) [(sample_key, sample_key)]
      = [(sample_key, sample_key), (sample_next, sample_key), (sample_last, sample_key)]"
    by (simp add: chain_loop.simps)
  have "None \<notin> set (served_keys sample_actor)" by (simp add: sample_actor_def served_keys_def)
  then have chain: "chainedActorKeys sample_kc sample_actor ''a'' [(sample_key, sample_key)]
      = Inr [(sample_last, sample_key), (sample_next, sample_key), (sample_key, sample_key)]"
    unfolding chainedActorKeys_def Let_def loop by (simp add: served chained_of_def served_by_def d)
  from chained_exact [OF this] chain show ?thesis by simp
qed

definition sample_book :: peer_book where
  "sample_book = new_book [\<lparr>pr_instanceId = ''a'', pr_actorUrl = ''https://a.example/actor'', pr_trustTier = 1, pr_pinnedKeys = [sample_key]\<rparr>]"

definition sample_request :: peer_request where
  "sample_request = \<lparr>rq_method = ''POST'', rq_url = ''https://a.example/inbox'', rq_headers = vp_headers sample_received, rq_body = Some [1]\<rparr>"

text \<open>Of a resolver a verification uses only the key it asks it for.\<close>

lemma begin_verify_resolver:
  assumes "begin_verify lib mc ops q c0 c1 s = Inr (Inr d, s')" and "p = q\<lparr>vp_resolve := f\<rparr>" and "f (pd_keyId d) = Inr (Some (pd_key d))"
  shows "begin_verify lib mc ops p c0 c1 s = Inr (Inr d, s')"
proof -
  have same: "coversRequiredComponents i p = coversRequiredComponents i q" "vp_body p = vp_body q" "vp_headers p = vp_headers q" for i
    by (simp_all add: assms(2) coversRequiredComponents_def)
  then have "check_input p now i = check_input q now i" for now i by (simp only: check_input_def)
  then have "check_input p = check_input q" by (intro ext)
  with same have "policy lib p = policy lib q" by (intro ext) (simp only: policy_def)
  moreover have "check_digest lib mc p = check_digest lib mc q" by (simp only: check_digest_def same)
  moreover have "vp_now p = vp_now q" "vp_resolve p = f" by (simp_all add: assms(2))
  moreover obtain input key where "check_digest lib mc q = Inr True" "policy lib q (nullish (vp_now q) (of_int (c0 div 1000))) = Inr input"
    "no_seen ops c1 (the (pi_keyId input)) (the (pi_nonce input)) s = (False, s')"
    "d = \<lparr>pd_label = pi_label input, pd_keyId = the (pi_keyId input), pd_nonce = the (pi_nonce input), pd_key = key,
      pd_now = nullish (vp_now q) (of_int (c0 div 1000))\<rparr>"
    using assms(1) by (auto simp: begin_verify_def Let_def split: if_splits sum.splits option.splits prod.splits bool.splits)
  ultimately show ?thesis using assms(3) by (simp add: begin_verify_def Let_def)
qed

theorem authenticated_peer_witness:
  "\<exists>s' hs items ps sig. authenticatePeerRequest sample_library sample_crypto sample_kc (InMemoryNonceStore 4096) (pb_peers sample_book) None
      sample_request 1000000 1000000 1000000 fmempty = Inr (Authenticated ''a'' sample_key, s')
    \<and> mc_verify sample_crypto () sig (sample_base (HRequest ''POST'' ''https://a.example/inbox'' hs) items ps)"
proof -
  let ?peers = "pb_peers sample_book"
  let ?p = "request_params sample_kc ?peers sample_request None"
  have owner: "owner_of ?peers sample_key = Some \<lparr>pr_instanceId = ''a'', pr_actorUrl = ''https://a.example/actor'', pr_trustTier = 1, pr_pinnedKeys = [sample_key]\<rparr>"
    by (simp add: owner_of_def sample_book_def new_book_def)
  have resolve: "resolve_pinned sample_kc ?peers sample_key = Inr (Some ())"
    by (simp add: resolve_pinned_def owner sample_raw sample_kc_def)
  have p: "?p = sample_received\<lparr>vp_resolve := resolve_pinned sample_kc ?peers\<rparr>"
    by (simp add: request_params_def sample_request_def sample_received_def)
  obtain m1 where b: "begin_verify sample_library sample_crypto (InMemoryNonceStore 4096) sample_received 1000000 1000000 fmempty
      = Inr (Inr (sample_pending 1000000), m1)" and "memory_seen 1000000 sample_key ''n1'' fmempty = (False, m1)"
    using sample_begin [of 1000000 1000000 fmempty 4096] by (auto simp: unexpired_def)
  then have "m1 = fmempty" by (simp add: memory_seen_def)
  have "begin_verify sample_library sample_crypto (InMemoryNonceStore 4096) ?p 1000000 1000000 fmempty = Inr (Inr (sample_pending 1000000), fmempty)"
  proof (rule begin_verify_resolver [OF _ p])
    show "begin_verify sample_library sample_crypto (InMemoryNonceStore 4096) sample_received 1000000 1000000 fmempty
      = Inr (Inr (sample_pending 1000000), fmempty)" using b \<open>m1 = fmempty\<close> by simp
  qed (simp add: sample_pending_def resolve)
  moreover have "finish_verify sample_library sample_crypto (InMemoryNonceStore 4096) ?p (sample_pending 1000000) 1000000 fmempty
      = finish_verify sample_library sample_crypto (InMemoryNonceStore 4096) sample_received (sample_pending 1000000) 1000000 fmempty"
  proof -
    have "received_message ?p hs = received_message sample_received hs" "vp_headers ?p = vp_headers sample_received" for hs
      by (simp_all add: p received_message_def)
    then show ?thesis by (simp only: finish_verify_def)
  qed
  ultimately obtain m' where "verifyMessage sample_library sample_crypto (InMemoryNonceStore 4096) ?p 1000000 1000000 1000000 fmempty = Inr (Inr sample_key, m')"
    by (simp add: verifyMessage_def sample_finish unexpired_def)
  note verified = this
  have a: "authenticatePeerRequest sample_library sample_crypto sample_kc (InMemoryNonceStore 4096) ?peers None
      sample_request 1000000 1000000 1000000 fmempty = Inr (Authenticated ''a'' sample_key, m')"
    by (simp add: authenticatePeerRequest_def Let_def verified matched_owner [OF verified] owner)
  have "trust_reachable sample_kc ''self'' \<lparr>ts_table = (\<lambda>_. []), ts_book = sample_book\<rparr>"
    unfolding sample_book_def by (rule trust_reachable.installed)
  moreover have "one_name (rq_headers sample_request)" by code_simp
  ultimately show ?thesis
    using authenticated_peer [of sample_kc "''self''" "\<lparr>ts_table = (\<lambda>_. []), ts_book = sample_book\<rparr>", OF _ _ sample_checks(1)] a
    by (fastforce simp: sample_request_def)
qed

subsection \<open>Two divergences\<close>

text \<open>A key two peers of a registry list stays pinned to both: only the configured pins are looked up.\<close>

lemma shared_discovered_pin:
  assumes "a \<noteq> self" "b \<noteq> self" "a \<noteq> b"
  shows "map pr_pinnedKeys (pb_pinned (discover [\<lparr>pr_instanceId = a, pr_actorUrl = u, pr_trustTier = 1, pr_pinnedKeys = [k]\<rparr>,
      \<lparr>pr_instanceId = b, pr_actorUrl = w, pr_trustTier = 1, pr_pinnedKeys = [k]\<rparr>] self (new_book []))) = [[k], [k]]"
  using assms by (simp add: discover_def compose_def mergePeerRecords_def pinned_by_def new_book_def Let_def)

text \<open>A pin listed twice hides the one learned key: the lengths agree, so the record is returned as it was.\<close>

lemma repeated_pin_hides_learned:
  assumes "k \<noteq> pin" and "pr_pinnedKeys p = [pin, pin]"
  shows "trustedKeys p [(k, pin)] = [(pin, pin), (k, pin)]" and "withLearnedKeys p [(k, pin)] = p"
proof -
  show t: "trustedKeys p [(k, pin)] = [(pin, pin), (k, pin)]"
    using assms by (simp add: trustedKeys_def learn_def keys_of_def)
  show "withLearnedKeys p [(k, pin)] = p" using assms(2) by (simp add: withLearnedKeys_def t)
qed

end
