(* ===== verification/Spec2Isabelle.thy ===== *)
theory Spec2Isabelle
  imports Evidence_Ledger Base64Url LowS Multibase Identity Effect_State Fusion Clusters Rate_Limit
    Peer_Health Egress Osm_Match Components Agreement Landing Claim_Verification
    Token_Bucket Openlr Valhalla Federation_Inbox
    Situation_Overlap Latest_Cache Road_Dedupe Fetch_Guard Observation_Codec
    Http_Signature Peer_Trust
begin

text \<open>
  OpenConditions is a federated commons of live road, fuel, parking, charging and hazard conditions. An instance
  reads public feeds and signed crowd reports, keeps them as records of one model (features, situations,
  observations), links and fuses what several sources say of one thing, decides what a crowd report is worth and
  whether routing may act on it, publishes the result, and exchanges records with its peers. This development
  verifies the decisions along that way; every definition is translated from the TypeScript of the packages.

  \<^bold>\<open>From a report to a record.\<close> A report is canonical bytes signed with a P-256 key.
  \<^item> \<open>Base64Url\<close> (contrib-core/src/base64url.ts), \<open>LowS\<close> (lowS.ts) and \<open>Multibase\<close> (federation/src/multibase.ts) are the
    codecs and the one accepted form of a signature, over the numerals of \<open>Codec\<close>. \<open>Wire_Values\<close> and \<open>Geometry_Screen\<close>
    (validate.ts, plausibility.ts) are JSON as it arrives and the screen of its geometry. \<open>Claim_Verification\<close>
    (thumbprint.ts, verifyCommon.ts, report.ts, subclaim.ts) signs and verifies; what is signed verifies, and what
    verifies was signed by the key its id names.
  \<^item> \<open>Landing\<close> (model/src/crowd/land.ts) turns an accepted claim into a draft record, with its windows and its reach;
    \<open>Agreement\<close> (crowd/agree.ts) tells when a second report confirms the first; \<open>Observation_Id\<close>
    (classes/observation.ts) and \<open>Identity\<close> (kernel/identity.ts) name records.
  \<^item> \<open>Evidence_Ledger\<close> (contrib-core/src/evidence-ledger.ts, evidence-policy.ts, model/src/crowd/rules.ts) makes a ledger
    of the stored evidence, and \<open>Evidence\<close> (core/src/evidence.ts) evaluates it: state, confidence, expiry and
    whether routing may act. Only an external resolution routes, whatever the order of the entries.

  \<^bold>\<open>One thing, several sources.\<close>
  \<^item> \<open>Geometry\<close> and \<open>Text16\<close> are what the comparisons measure and read. \<open>Linking\<close> (linking/similarity.ts, link.ts) proposes
    links of features, \<open>Osm_Match\<close> (osm.ts) finds their OpenStreetMap elements, \<open>Clusters\<close> (cluster.ts) closes the links
    to canonical features and \<open>Components\<close> (components.ts) merges their parts. \<open>Fusion\<close> (fusion/fuse.ts) picks the best
    of competing observations and the narrowest of their grants.
  \<^item> \<open>Spatial_Cluster\<close> and \<open>Road_Dedupe\<close> (roads/src/spatial-cluster.ts, dedupe.ts) fold what one feed says twice, and
    \<open>Situation_Overlap\<close> (core/src/situation-overlap.ts) tells one measure published by two sources.
  \<^item> \<open>Latest_Cache\<close> (storage/src/latest-cache.ts) holds the last poll of each source within a budget, whole or not at all.
    \<open>Observation_Codec\<close> (core/src/observation-codec.ts, the interning of write-observations.ts) splits an observation
    into the template of its series and its reading, and into a history row; both read back as what was written.

  \<^bold>\<open>What is fetched.\<close> \<open>Fetch_Guard\<close> (ingest-framework/src/egress.ts) decides which addresses a feed may be fetched from,
  follows its redirects under the same guard and caps its body.

  \<^bold>\<open>Time and routing.\<close>
  \<^item> \<open>Calendar\<close> and \<open>Schedule\<close> (model/src/schedule) are wall clocks and recurring schedules; \<open>Effect_State\<close>
    (kernel/effect-state.ts) is the state of an effect at an instant.
  \<^item> \<open>Routing_Evidence\<close> (core/src/routing-evidence.ts), \<open>Segment_Conditions\<close> (publishers/src/segment-conditions.ts) and
    \<open>Valhalla\<close> (valhalla.ts) are what routing is told: a row that fails any guard is left out, never rounded to one
    that closes more. \<open>Openlr\<close> (openlr/src) encodes lines for other consumers.

  \<^bold>\<open>Between instances.\<close>
  \<^item> \<open>Egress\<close> (federation/src/record-filter.ts, ingest-framework/src/public-license.ts) is what leaves an instance,
    \<open>Federation_Admit\<close> (model/src/registry/versions.ts) and \<open>Federation_Inbox\<close> (federation/src/admit.ts and the page
    loop of contributions-api) what is let in. \<open>Rate_Limit\<close>, \<open>Peer_Health\<close> (rate.ts, peer-health.ts, anomaly.ts) and
    \<open>Token_Bucket\<close> (services/ingest/src/rate-limit.ts) bound what a peer and a client may do.
  \<^item> \<open>Http_Signature\<close> (federation/src/http-signature.ts) signs and verifies the messages, with the nonces that keep one from
    being replayed; \<open>Peer_Trust\<close> (peers.ts, peer-keys.ts, peer-auth.ts, the endorsements of keys.ts, mergePeerRecords of
    registry-sync.ts, services/federation/src/peer-book.ts) says which keys they may be signed with, as the peers rotate
    them. The two compose: a request authenticated as a peer was signed with a key endorsed from one of its pins.

  \<^bold>\<open>How state and operations correspond.\<close> A record keeps the names of the code's interface under a prefix of its
  own (\<open>en_at\<close> is \<open>at\<close> of \<open>EvidenceEntry\<close>) and holds the fields the operations read; an enumeration is a datatype, or
  its strings where the code keeps it open. A class is the record of its members, a method a function from state to
  state. A thrown error is \<open>Inl\<close> (\<open>js_error\<close>, theory OC_Prelude), a list of issues a value. Objects that alias
  (the cache's maps) live in a store. A Map or Set whose order shows is a list of pairs or a list without
  duplicates; otherwise a map or a set. A clock, a cryptographic primitive, canonical JSON, the Unicode and zone
  tables, the schemas and the registry are parameters, with hypotheses only where a theorem names them.

  \<^bold>\<open>What the lemmas show.\<close> Each theory proves its operations' results on every branch first, then its claims, each
  under the text that numbers it: invariants by rule induction over reachable states (\<open>Rate_Limit\<close>, \<open>Latest_Cache\<close>,
  \<open>Token_Bucket\<close>, \<open>Http_Signature\<close>, \<open>Peer_Trust\<close>), equality with a specification that has no loop (\<open>Schedule\<close>, \<open>Agreement\<close>, \<open>Linking\<close>), partitions for
  the clusterings, round trips for the codecs, soundness for the gates (nothing passes that a guard forbids) and
  accounting for the loops that skip bad input. The locales \<open>comparator\<close> (sorting), \<open>strict_codec\<close> (one text per
  value), \<open>union_find\<close> and \<open>atomic_nonces\<close> (a nonce is taken once while it is held) state what the components rely on; each is interpreted on the code's own operations.

  \<^bold>\<open>Bounds.\<close> No definition runs on fuel. The two loops whose end is not structural, the parent chains of the
  union-finds (\<open>find_root\<close>, \<open>find_from\<close>), are partial functions, and the claims about the clusterings include that
  they return; \<open>split_edge\<close> of \<open>Openlr\<close> and \<open>chain_loop\<close> of
  \<open>Peer_Trust\<close> end by a measure. Numbers the code guards are \<open>jsnum\<close>, with NaN and the
  infinities; behind the guards, and for coordinates and scores, a double is a real: rounding is not modelled.
  Counters are naturals, instants integers or reals of milliseconds, and the range of a Date is kept where code
  can leave it (\<open>to_iso\<close>).

  \<^bold>\<open>Not modelled.\<close> SQL and PostGIS statements, HTTP servers, workers and their wiring, TLS and TUF
  (I/O and third-party code throughout); the parsers of the published feed formats and the writers of DATEX II,
  TraFF and GeoJSON-LD; the vocabularies, which are tables of names and schemas; the inverse incomplete beta function behind
  \<open>reliabilityLowerBound\<close>, which is numerical; build scripts and documentation tools.
\<close>

end
